(* ===== verification/C_Prelude.thy ===== *)
theory C_Prelude
  imports Main "HOL-Library.Word" "HOL-Library.Sublist"
begin

unbundle bit_operations_syntax

text \<open>
  Shared base of the development: the C integer types, the part of the C library the sources
  call (string search, the \<open>strto*\<close> family, decimal formatting, truncating copies), generic
  lemmas on lists, and the three interfaces several components implement: a table of slots with
  a first-free search, a bounded text writer, and a byte-at-a-time stream consumer.

  Conventions of the model. A C string in a \<^verbatim>\<open>char[N]\<close> buffer is the \<^typ>\<open>string\<close> of the
  bytes before its terminating NUL. A pointer into a string is the suffix it points at, so
  \<open>strchr\<close> and \<open>strstr\<close> return suffixes. Unsigned integers are words of their width; signed
  integers are \<^typ>\<open>int\<close> with their range as an explicit predicate. A \<^verbatim>\<open>double\<close> is its 64-bit
  IEEE 754 pattern; decimal conversion of doubles is a parameter of the definitions that use it.
\<close>

section \<open>Theorem collections\<close>

named_theorems c_simps
named_theorems frame_simps

section \<open>Machine integers\<close>

type_synonym u16 = "16 word"
type_synonym u32 = "32 word"
type_synonym u64 = "64 word"
type_synonym c_double = "64 word"

abbreviation INT_MAX :: int where "INT_MAX \<equiv> 2147483647"
abbreviation INT_MIN :: int where "INT_MIN \<equiv> - 2147483648"
abbreviation LONG_MAX :: int where "LONG_MAX \<equiv> 9223372036854775807"
abbreviation LONG_MIN :: int where "LONG_MIN \<equiv> - 9223372036854775808"
abbreviation UINT_MAX :: u32 where "UINT_MAX \<equiv> 4294967295"

definition is_int32 :: "int \<Rightarrow> bool" where
  "is_int32 i \<longleftrightarrow> INT_MIN \<le> i \<and> i \<le> INT_MAX"

definition is_int64 :: "int \<Rightarrow> bool" where
  "is_int64 i \<longleftrightarrow> LONG_MIN \<le> i \<and> i \<le> LONG_MAX"

text \<open>C division and remainder truncate towards zero.\<close>

definition c_div :: "int \<Rightarrow> int \<Rightarrow> int" where
  "c_div a b = sgn a * sgn b * (\<bar>a\<bar> div \<bar>b\<bar>)"

definition c_mod :: "int \<Rightarrow> int \<Rightarrow> int" where
  "c_mod a b = a - b * c_div a b"

lemma c_div_nonneg [c_simps]: "0 \<le> a \<Longrightarrow> 0 < b \<Longrightarrow> c_div a b = a div b"
  by (cases "a = 0") (auto simp: c_div_def)

lemma c_mod_nonneg [c_simps]: "0 \<le> a \<Longrightarrow> 0 < b \<Longrightarrow> c_mod a b = a mod b"
  by (simp add: c_mod_def c_div_nonneg minus_mult_div_eq_mod)

lemma uint_less_step: "x < y \<Longrightarrow> unat (x + 1) = Suc (unat x)" for x y :: "'a::len word"
proof -
  assume "x < y"
  then have "unat x < unat y" by (simp add: word_less_nat_alt)
  also have "unat y < 2 ^ LENGTH('a)" by simp
  finally have "Suc (unat x) < 2 ^ LENGTH('a) \<or> unat y = 2 ^ LENGTH('a)"
    using \<open>unat x < unat y\<close> \<open>unat y < 2 ^ LENGTH('a)\<close> by linarith
  then have "Suc (unat x) < 2 ^ LENGTH('a)" using \<open>unat y < 2 ^ LENGTH('a)\<close> by simp
  then show ?thesis by (simp add: unat_word_ariths)
qed

text \<open>IEEE 754 binary64: a value is finite unless its eleven exponent bits are all set.\<close>

definition isfinite :: "c_double \<Rightarrow> bool" where
  "isfinite d \<longleftrightarrow> (drop_bit 52 d) AND 2047 \<noteq> 2047"

lemma isfinite_0 [simp]: "isfinite 0"
  by (simp add: isfinite_def)

section \<open>C strings\<close>

abbreviation NUL :: char where "NUL \<equiv> CHR 0x00"
abbreviation LF :: char where "LF \<equiv> CHR 0x0A"
abbreviation CR :: char where "CR \<equiv> CHR 0x0D"
abbreviation TAB :: char where "TAB \<equiv> CHR 0x09"

text \<open>The C string that starts a byte sequence: everything before the first NUL.\<close>

definition cstr :: "string \<Rightarrow> string" where
  "cstr bs = takeWhile (\<lambda>c. c \<noteq> NUL) bs"

lemma cstr_id [simp]: "NUL \<notin> set s \<Longrightarrow> cstr s = s"
  by (auto simp: cstr_def takeWhile_eq_all_conv)

lemma length_cstr: "length (cstr s) \<le> length s"
  by (simp add: cstr_def length_takeWhile_le)

definition isdigit :: "char \<Rightarrow> bool" where
  "isdigit c \<longleftrightarrow> 48 \<le> (of_char c :: nat) \<and> (of_char c :: nat) \<le> 57"

definition isalpha :: "char \<Rightarrow> bool" where
  "isalpha c \<longleftrightarrow> 65 \<le> (of_char c :: nat) \<and> (of_char c :: nat) \<le> 90
               \<or> 97 \<le> (of_char c :: nat) \<and> (of_char c :: nat) \<le> 122"

definition isalnum :: "char \<Rightarrow> bool" where
  "isalnum c \<longleftrightarrow> isalpha c \<or> isdigit c"

definition isspace :: "char \<Rightarrow> bool" where
  "isspace c \<longleftrightarrow> (of_char c :: nat) = 32 \<or> 9 \<le> (of_char c :: nat) \<and> (of_char c :: nat) \<le> 13"

definition strchr :: "string \<Rightarrow> char \<Rightarrow> string option" where
  "strchr s c = (if c \<in> set s then Some (dropWhile (\<lambda>x. x \<noteq> c) s) else None)"

definition strrchr :: "string \<Rightarrow> char \<Rightarrow> string option" where
  "strrchr s c =
     (if c \<in> set s then Some (c # rev (takeWhile (\<lambda>x. x \<noteq> c) (rev s))) else None)"

fun strstr :: "string \<Rightarrow> string \<Rightarrow> string option" where
  "strstr [] pat = (if pat = [] then Some [] else None)"
| "strstr (c # s) pat = (if prefix pat (c # s) then Some (c # s) else strstr s pat)"

text \<open>\<open>strpbrk\<close>: the suffix from the first byte that is in the given set.\<close>

definition strpbrk :: "string \<Rightarrow> string \<Rightarrow> string option" where
  "strpbrk s accept =
     (if \<exists>c \<in> set s. c \<in> set accept then Some (dropWhile (\<lambda>x. x \<notin> set accept) s) else None)"

definition strncmp_eq :: "string \<Rightarrow> string \<Rightarrow> nat \<Rightarrow> bool" where
  "strncmp_eq s t n \<longleftrightarrow> take n s = take n t"

text \<open>\<open>snprintf(dst, cap, \<dots>)\<close>: what ends up in the buffer, and whether nothing was cut off.\<close>

definition snprintf_text :: "nat \<Rightarrow> string \<Rightarrow> string" where
  "snprintf_text cap s = take (cap - 1) s"

definition snprintf_fits :: "nat \<Rightarrow> string \<Rightarrow> bool" where
  "snprintf_fits cap s \<longleftrightarrow> length s < cap"

lemma snprintf_text_fits [simp]: "snprintf_fits cap s \<Longrightarrow> snprintf_text cap s = s"
  by (simp add: snprintf_text_def snprintf_fits_def)

lemma length_snprintf_text: "0 < cap \<Longrightarrow> length (snprintf_text cap s) < cap"
  by (auto simp: snprintf_text_def)

lemma strchr_None_iff: "strchr s c = None \<longleftrightarrow> c \<notin> set s"
  by (simp add: strchr_def)

lemma strchr_append [simp]: "c \<notin> set a \<Longrightarrow> strchr (a @ c # b) c = Some (c # b)"
  by (induction a) (auto simp: strchr_def)

lemma takeWhile_neq_append [simp]: "c \<notin> set a \<Longrightarrow> takeWhile (\<lambda>x. x \<noteq> c) (a @ c # b) = a"
  by (induction a) auto

lemma strrchr_last: "c \<notin> set p \<Longrightarrow> strrchr (u @ c # p) c = Some (c # p)"
proof -
  assume "c \<notin> set p"
  then have "takeWhile (\<lambda>x. x \<noteq> c) (rev p @ c # rev u) = rev p" by simp
  then show ?thesis by (simp add: strrchr_def)
qed

lemma strchr_SomeD: "strchr s c = Some t \<Longrightarrow> \<exists>u. t = c # u \<and> s = takeWhile (\<lambda>x. x \<noteq> c) s @ t"
proof -
  assume a: "strchr s c = Some t"
  then have t: "t = dropWhile (\<lambda>x. x \<noteq> c) s" and c: "c \<in> set s"
    by (auto simp: strchr_def split: if_splits)
  from c have "t \<noteq> []" by (auto simp: t)
  then obtain d u where du: "t = d # u" by (cases t) auto
  then have "\<not> d \<noteq> c" using hd_dropWhile [of "\<lambda>x. x \<noteq> c" s] t by auto
  then show ?thesis using du t takeWhile_dropWhile_id [of "\<lambda>x. x \<noteq> c" s] by simp
qed

lemma strstr_SomeD: "strstr s pat = Some t \<Longrightarrow> \<exists>u. s = u @ t \<and> prefix pat t"
proof (induction s pat rule: strstr.induct)
  case (1 pat)
  then show ?case by (auto split: if_splits)
next
  case (2 c s pat)
  show ?case
  proof (cases "prefix pat (c # s)")
    case True
    with 2 show ?thesis by auto
  next
    case False
    with 2 obtain u where "s = u @ t" "prefix pat t" by auto
    then have "c # s = (c # u) @ t" by simp
    with \<open>prefix pat t\<close> show ?thesis by blast
  qed
qed

lemma strstr_NoneD: "strstr s pat = None \<Longrightarrow> \<not> sublist pat s"
  by (induction s pat rule: strstr.induct) (auto simp: sublist_Cons_right split: if_splits)

lemma strstr_first:
  "strstr s pat = Some t \<Longrightarrow> s = u @ t \<Longrightarrow> s = v @ w \<Longrightarrow> prefix pat w \<Longrightarrow> length u \<le> length v"
proof (induction s pat arbitrary: u v rule: strstr.induct)
  case (1 pat)
  then show ?case by simp
next
  case (2 c s pat)
  show ?case
  proof (cases "prefix pat (c # s)")
    case True
    with 2(2) have "t = c # s" by simp
    with 2(3) show ?thesis by simp
  next
    case False
    with 2(2) have st: "strstr s pat = Some t" by simp
    from False 2(4,5) obtain v' where v: "v = c # v'" "s = v' @ w"
      by (cases v) (auto simp: Cons_eq_append_conv)
    from st obtain u0 where "s = u0 @ t" using strstr_SomeD by blast
    with 2(3) have u: "u = c # u0" by (metis append_Cons append_same_eq)
    from 2(1) [OF False st \<open>s = u0 @ t\<close> v(2) 2(5)] u v(1) show ?thesis by simp
  qed
qed

text \<open>A text that lacks a byte occurs on one side of that byte.\<close>

lemma sublist_break:
  assumes "c \<notin> set ys"
  shows "sublist ys (l @ c # cs) \<longleftrightarrow> sublist ys l \<or> sublist ys cs"
proof
  assume "sublist ys (l @ c # cs)"
  then consider "sublist ys l" | "sublist ys (c # cs)"
    | a b where "ys = a @ b" "suffix a l" "prefix b (c # cs)"
    unfolding sublist_append by blast
  then show "sublist ys l \<or> sublist ys cs"
  proof cases
    case 2
    with assms show ?thesis by (cases ys) (auto simp: sublist_Cons_right)
  next
    case 3
    with assms have "b = []" by (cases b) auto
    with 3 show ?thesis by (simp add: suffix_imp_sublist)
  qed simp
next
  have "sublist cs (l @ c # cs)" using sublist_appendI [of cs "l @ [c]" "[]"] by simp
  moreover have "sublist l (l @ c # cs)" by (rule sublist_append_rightI)
  moreover assume "sublist ys l \<or> sublist ys cs"
  ultimately show "sublist ys (l @ c # cs)" by (elim disjE) (erule sublist_order.order_trans, assumption)+
qed

section \<open>Number parsing: strtol, strtoll, strtoull in base 10\<close>

definition digit_value :: "char \<Rightarrow> nat" where
  "digit_value c = of_char c - 48"

definition digits_value :: "string \<Rightarrow> nat" where
  "digits_value ds = foldl (\<lambda>n c. 10 * n + digit_value c) 0 ds"

text \<open>White space, an optional sign, then digits. \<open>None\<close>: no conversion, the end pointer equals
  the start pointer. Otherwise: the sign, the magnitude and the rest of the string.\<close>

definition strto_scan :: "string \<Rightarrow> (bool \<times> nat \<times> string) option" where
  "strto_scan s =
     (let t = dropWhile isspace s;
          (neg, u) = (case t of
                        c # r \<Rightarrow> if c = CHR ''-'' then (True, r)
                                 else if c = CHR ''+'' then (False, r) else (False, t)
                      | [] \<Rightarrow> (False, []));
          ds = takeWhile isdigit u
      in if ds = [] then None else Some (neg, digits_value ds, dropWhile isdigit u))"

text \<open>The result of a conversion: \<open>conv_value\<close> is clamped and \<open>conv_erange\<close> set where the
  number is out of range; \<open>conv_none\<close> says that no conversion was made.\<close>

record 'v conv =
  conv_value :: 'v
  conv_end :: string
  conv_none :: bool
  conv_erange :: bool

definition strtoll :: "string \<Rightarrow> int conv" where
  "strtoll s =
     (case strto_scan s of
        None \<Rightarrow> \<lparr>conv_value = 0, conv_end = s, conv_none = True, conv_erange = False\<rparr>
      | Some (neg, m, rest) \<Rightarrow>
          (let v = (if neg then - int m else int m) in
           if v < LONG_MIN then
             \<lparr>conv_value = LONG_MIN, conv_end = rest, conv_none = False, conv_erange = True\<rparr>
           else if v > LONG_MAX then
             \<lparr>conv_value = LONG_MAX, conv_end = rest, conv_none = False, conv_erange = True\<rparr>
           else \<lparr>conv_value = v, conv_end = rest, conv_none = False, conv_erange = False\<rparr>))"

text \<open>\<open>long\<close> and \<open>long long\<close> are both 64 bits wide on the target (LP64).\<close>

abbreviation strtol :: "string \<Rightarrow> int conv" where "strtol \<equiv> strtoll"

text \<open>\<open>strtoull\<close> negates in the unsigned type when the text has a minus sign.\<close>

definition strtoull :: "string \<Rightarrow> u64 conv" where
  "strtoull s =
     (case strto_scan s of
        None \<Rightarrow> \<lparr>conv_value = 0, conv_end = s, conv_none = True, conv_erange = False\<rparr>
      | Some (neg, m, rest) \<Rightarrow>
          if m > 18446744073709551615 then
            \<lparr>conv_value = 18446744073709551615, conv_end = rest, conv_none = False, conv_erange = True\<rparr>
          else \<lparr>conv_value = (if neg then - of_nat m else of_nat m), conv_end = rest,
                conv_none = False, conv_erange = False\<rparr>)"

section \<open>Decimal formatting\<close>

definition digit_char :: "nat \<Rightarrow> char" where
  "digit_char d = char_of (48 + d)"

fun dec_nat :: "nat \<Rightarrow> string" where
  "dec_nat n = (if n < 10 then [digit_char n] else dec_nat (n div 10) @ [digit_char (n mod 10)])"

declare dec_nat.simps [simp del]

text \<open>The conversions \<open>%d\<close>, \<open>%ld\<close>, \<open>%lld\<close>; the unsigned ones are \<open>dec_nat\<close> of the value.\<close>

definition dec_int :: "int \<Rightarrow> string" where
  "dec_int i = (if i < 0 then CHR ''-'' # dec_nat (nat (- i)) else dec_nat (nat i))"

lemma of_char_digit_char: "d < 10 \<Longrightarrow> (of_char (digit_char d) :: nat) = 48 + d"
  by (simp add: digit_char_def of_char_of)

lemma isdigit_digit_char [simp]: "d < 10 \<Longrightarrow> isdigit (digit_char d)"
  by (simp add: isdigit_def of_char_digit_char)

lemma digit_value_digit_char [simp]: "d < 10 \<Longrightarrow> digit_value (digit_char d) = d"
  by (simp add: digit_value_def of_char_digit_char)

lemma dec_nat_not_Nil [simp]: "dec_nat n \<noteq> []"
  by (subst dec_nat.simps) simp

lemma dec_nat_digits: "\<forall>c \<in> set (dec_nat n). isdigit c"
proof (induction n rule: dec_nat.induct)
  case (1 n)
  then show ?case by (subst dec_nat.simps) auto
qed

lemma digits_value_snoc: "digits_value (ds @ [c]) = 10 * digits_value ds + digit_value c"
  by (simp add: digits_value_def)

lemma digits_value_dec_nat [simp]: "digits_value (dec_nat n) = n"
proof (induction n rule: dec_nat.induct)
  case (1 n)
  show ?case
  proof (cases "n < 10")
    case True
    then show ?thesis by (subst dec_nat.simps) (simp add: digits_value_def)
  next
    case False
    with 1 have "digits_value (dec_nat (n div 10)) = n div 10" by simp
    with False show ?thesis
      by (subst dec_nat.simps) (simp add: digits_value_snoc)
  qed
qed

lemma length_dec_nat: "n < 10 ^ k \<Longrightarrow> 0 < k \<Longrightarrow> length (dec_nat n) \<le> k"
proof (induction k arbitrary: n)
  case 0
  then show ?case by simp
next
  case (Suc k)
  show ?case
  proof (cases "n < 10")
    case True
    then show ?thesis by (subst dec_nat.simps) simp
  next
    case False
    with Suc.prems have "0 < k" by (cases k) auto
    moreover from Suc.prems have "n div 10 < 10 ^ k"
      by (simp add: less_mult_imp_div_less mult.commute)
    ultimately have "length (dec_nat (n div 10)) \<le> k" using Suc.IH by simp
    with False show ?thesis by (subst dec_nat.simps) simp
  qed
qed

lemma length_dec_int: "is_int32 i \<Longrightarrow> length (dec_int i) \<le> 11"
proof -
  assume "is_int32 i"
  then have "nat (- i) < 10 ^ 10" "nat i < 10 ^ 10" by (auto simp: is_int32_def)
  then have "length (dec_nat (nat (- i))) \<le> 10" "length (dec_nat (nat i)) \<le> 10"
    using length_dec_nat [of "nat (- i)" 10] length_dec_nat [of "nat i" 10] by simp_all
  then show ?thesis by (auto simp: dec_int_def)
qed

lemma isdigit_not_sign: "isdigit c \<Longrightarrow> c \<noteq> CHR ''-'' \<and> c \<noteq> CHR ''+'' \<and> c \<noteq> NUL \<and> c \<noteq> LF \<and> c \<noteq> CHR ''=''"
  by (auto simp: isdigit_def)

lemma isdigit_not_space: "isdigit c \<Longrightarrow> \<not> isspace c"
  by (auto simp: isdigit_def isspace_def)

lemma takeWhile_isdigit_dec_nat:
  "rest = [] \<or> \<not> isdigit (hd rest) \<Longrightarrow>
   takeWhile isdigit (dec_nat n @ rest) = dec_nat n \<and> dropWhile isdigit (dec_nat n @ rest) = rest"
  using dec_nat_digits [of n]
  by (cases rest) (auto simp: takeWhile_append dropWhile_append)

lemma strto_scan_dec_nat:
  assumes "rest = [] \<or> \<not> isdigit (hd rest)"
  shows "strto_scan (dec_nat n @ rest) = Some (False, n, rest)"
proof -
  obtain c cs where c: "dec_nat n = c # cs" by (cases "dec_nat n") auto
  then have d: "isdigit c" using dec_nat_digits [of n] by simp
  show ?thesis
    using takeWhile_isdigit_dec_nat [OF assms, of n] isdigit_not_sign [OF d] isdigit_not_space [OF d]
      digits_value_dec_nat [of n]
    by (auto simp: strto_scan_def Let_def c)
qed

lemma strtoull_dec_nat [simp]:
  "strtoull (dec_nat (unat w)) =
     \<lparr>conv_value = w, conv_end = [], conv_none = False, conv_erange = False\<rparr>"
proof -
  have "unat w < 2 ^ LENGTH(64)" by (rule unsigned_less)
  then have "unat w \<le> 18446744073709551615" by simp
  then show ?thesis using strto_scan_dec_nat [of "[]" "unat w"] by (simp add: strtoull_def)
qed

lemma strto_scan_dec_int:
  assumes "rest = [] \<or> \<not> isdigit (hd rest)"
  shows "strto_scan (dec_int i @ rest) = Some (i < 0, nat \<bar>i\<bar>, rest)"
proof (cases "i < 0")
  case True
  have "isspace CHR ''-'' = False" by (simp add: isspace_def)
  with True show ?thesis
    using takeWhile_isdigit_dec_nat [OF assms, of "nat (- i)"]
    by (simp add: dec_int_def strto_scan_def Let_def)
next
  case False
  then show ?thesis using strto_scan_dec_nat [OF assms, of "nat i"] by (simp add: dec_int_def)
qed

lemma strtoll_dec_int_rest:
  assumes "is_int64 i" and "rest = [] \<or> \<not> isdigit (hd rest)"
  shows "strtoll (dec_int i @ rest) =
     \<lparr>conv_value = i, conv_end = rest, conv_none = False, conv_erange = False\<rparr>"
  using assms(1) by (auto simp: strtoll_def strto_scan_dec_int [OF assms(2)] is_int64_def Let_def)

lemma strtoll_dec_int [simp]:
  "is_int64 i \<Longrightarrow> strtoll (dec_int i) =
     \<lparr>conv_value = i, conv_end = [], conv_none = False, conv_erange = False\<rparr>"
  using strtoll_dec_int_rest [of i "[]"] by simp

lemma strtoull_dec_nat_rest:
  assumes "rest = [] \<or> \<not> isdigit (hd rest)"
  shows "strtoull (dec_nat (unat w) @ rest) =
     \<lparr>conv_value = w, conv_end = rest, conv_none = False, conv_erange = False\<rparr>"
proof -
  have "unat w < 2 ^ LENGTH(64)" by (rule unsigned_less)
  then have "unat w \<le> 18446744073709551615" by simp
  then show ?thesis using strto_scan_dec_nat [OF assms, of "unat w"] by (simp add: strtoull_def)
qed

lemma hd_dec_nat_digit: "isdigit (hd (dec_nat n @ rest))"
  using dec_nat_digits [of n] by (cases "dec_nat n") auto

section \<open>Counting the entries of a table\<close>

lemma filter_update_count:
  assumes "i < length xs"
  shows "length (filter P (xs[i := x])) + of_bool (P (xs ! i)) = length (filter P xs) + of_bool (P x)"
  using assms
proof (induction xs arbitrary: i)
  case (Cons y ys)
  show ?case
  proof (cases i)
    case (Suc k)
    with Cons.IH [of k] Cons.prems show ?thesis by simp
  qed simp
qed simp

lemma filter_nth_count: "length (filter (\<lambda>i. P (xs ! i)) [0..<length xs]) = length (filter P xs)"
proof -
  have "filter P xs = filter P (map (\<lambda>i. xs ! i) [0..<length xs])" by (simp add: map_nth)
  then show ?thesis by (simp add: filter_map comp_def)
qed

section \<open>Interface: a table of slots with a first-free search\<close>

text \<open>
  The timer table, the token bucket table and the channel registry are fixed-size arrays in
  which a linear scan finds the first free slot. \<open>free_pos\<close> is that scan, \<open>is_free\<close> the test
  it makes on a slot.
\<close>

locale slot_table =
  fixes free_pos :: "'s list \<Rightarrow> nat option"
    and is_free :: "'s \<Rightarrow> bool"
  assumes free_pos_SomeD: "free_pos tbl = Some i \<Longrightarrow>
            i < length tbl \<and> is_free (tbl ! i) \<and> (\<forall>k < i. \<not> is_free (tbl ! k))"
    and free_pos_NoneD: "free_pos tbl = None \<Longrightarrow> \<forall>s \<in> set tbl. \<not> is_free s"
begin

lemma free_pos_None_iff: "free_pos tbl = None \<longleftrightarrow> (\<forall>s \<in> set tbl. \<not> is_free s)"
proof
  show "free_pos tbl = None \<Longrightarrow> \<forall>s \<in> set tbl. \<not> is_free s" by (rule free_pos_NoneD)
next
  assume all: "\<forall>s \<in> set tbl. \<not> is_free s"
  show "free_pos tbl = None"
  proof (rule ccontr)
    assume "free_pos tbl \<noteq> None"
    then obtain i where "free_pos tbl = Some i" by auto
    from free_pos_SomeD [OF this] all show False by auto
  qed
qed

text \<open>The scan finds a slot exactly while the table is not full.\<close>

lemma free_pos_ex_iff: "(\<exists>i. free_pos tbl = Some i) \<longleftrightarrow> length (filter (\<lambda>s. \<not> is_free s) tbl) < length tbl"
proof -
  have "length (filter (\<lambda>s. \<not> is_free s) tbl) < length tbl \<longleftrightarrow> (\<exists>s \<in> set tbl. is_free s)"
    by (auto simp: length_filter_less) (metis (mono_tags, lifting) filter_True not_less_iff_gr_or_eq)
  then show ?thesis using free_pos_None_iff [of tbl] by (cases "free_pos tbl") auto
qed

text \<open>Filling the slot that was found raises the number of used slots by one and leaves the
  others as they were.\<close>

lemma count_store:
  assumes "free_pos tbl = Some i" and "\<not> is_free x"
  shows "length (filter (\<lambda>s. \<not> is_free s) (tbl[i := x])) = Suc (length (filter (\<lambda>s. \<not> is_free s) tbl))"
proof -
  from free_pos_SomeD [OF assms(1)] have i: "i < length tbl" "is_free (tbl ! i)" by auto
  then have "tbl = take i tbl @ tbl ! i # drop (Suc i) tbl" by (rule_tac id_take_nth_drop)
  then have a: "filter (\<lambda>s. \<not> is_free s) tbl =
      filter (\<lambda>s. \<not> is_free s) (take i tbl) @ filter (\<lambda>s. \<not> is_free s) (drop (Suc i) tbl)"
    using i(2) by (metis (no_types, lifting) filter.simps(2) filter_append)
  from i have "tbl[i := x] = take i tbl @ x # drop (Suc i) tbl" by (rule_tac upd_conv_take_nth_drop)
  then show ?thesis using a assms(2) by simp
qed

lemma store_other: "free_pos tbl = Some i \<Longrightarrow> k \<noteq> i \<Longrightarrow> tbl[i := x] ! k = tbl ! k"
  by simp

lemma store_same: "free_pos tbl = Some i \<Longrightarrow> tbl[i := x] ! i = x"
  using free_pos_SomeD by simp

end

text \<open>The scan the sources write: \<open>for (i = 0; i < MAX; i++) if (free(tbl[i])) return i;\<close>\<close>

fun scan_free :: "('s \<Rightarrow> bool) \<Rightarrow> 's list \<Rightarrow> nat option" where
  "scan_free p [] = None"
| "scan_free p (s # tbl) = (if p s then Some 0 else map_option Suc (scan_free p tbl))"

lemma scan_free_SomeD:
  "scan_free p tbl = Some i \<Longrightarrow> i < length tbl \<and> p (tbl ! i) \<and> (\<forall>k < i. \<not> p (tbl ! k))"
proof (induction tbl arbitrary: i)
  case Nil
  then show ?case by simp
next
  case (Cons s tbl)
  show ?case
  proof (cases "p s")
    case True
    with Cons.prems show ?thesis by simp
  next
    case False
    with Cons.prems obtain j where j: "scan_free p tbl = Some j" "i = Suc j" by auto
    from Cons.IH [OF j(1)] False j(2) show ?thesis by (auto simp: less_Suc_eq_0_disj)
  qed
qed

lemma scan_free_NoneD: "scan_free p tbl = None \<Longrightarrow> \<forall>s \<in> set tbl. \<not> p s"
  by (induction tbl) (auto split: if_splits)

lemma scan_free_slot_table: "slot_table (scan_free p) p"
  by unfold_locales (simp_all add: scan_free_SomeD scan_free_NoneD)

section \<open>Interface: a bounded text writer\<close>

text \<open>
  The JSON writer and the MediaMTX writer append formatted text to a fixed buffer through
  \<open>vsnprintf\<close>; the first append that does not fit sets a sticky failure flag.
\<close>

locale bounded_writer =
  fixes append :: "'w \<Rightarrow> string \<Rightarrow> 'w"
    and written :: "'w \<Rightarrow> string"
    and cap :: "'w \<Rightarrow> nat"
    and failed :: "'w \<Rightarrow> bool"
  assumes append_sticky: "failed w \<Longrightarrow> append w s = w"
    and append_fits: "\<not> failed w \<Longrightarrow> length s < cap w - length (written w) \<Longrightarrow>
           written (append w s) = written w @ s \<and> \<not> failed (append w s)"
    and append_over: "\<not> failed w \<Longrightarrow> \<not> length s < cap w - length (written w) \<Longrightarrow>
           written (append w s) = written w \<and> failed (append w s)"
    and append_cap: "cap (append w s) = cap w"
begin

lemma append_failed: "failed (append w s) \<longleftrightarrow> failed w \<or> \<not> length s < cap w - length (written w)"
  using append_sticky append_fits append_over by metis

lemma append_written:
  "written (append w s) = (if failed (append w s) then written w else written w @ s)"
  using append_sticky append_fits append_over by metis

lemma append_bound: "length (written w) < cap w \<Longrightarrow> length (written (append w s)) < cap w"
  using append_written [of w s] append_failed [of w s] by (auto split: if_splits)

lemma fold_append_failed_sticky: "failed w \<Longrightarrow> fold (\<lambda>s w. append w s) ss w = w"
  by (induction ss) (auto simp: append_sticky)

lemma fold_append_cap: "cap (fold (\<lambda>s w. append w s) ss w) = cap w"
  by (induction ss arbitrary: w) (auto simp: append_cap)

text \<open>A sequence of appends succeeds exactly when the whole text fits, and then the buffer holds
  the concatenation; nothing is ever silently cut.\<close>

lemma fold_append_ok_iff:
  "\<not> failed w \<Longrightarrow> length (written w) < cap w \<Longrightarrow>
   \<not> failed (fold (\<lambda>s w. append w s) ss w) \<longleftrightarrow> length (written w) + length (concat ss) < cap w"
proof (induction ss arbitrary: w)
  case Nil
  then show ?case by simp
next
  case (Cons s ss)
  show ?case
  proof (cases "length s < cap w - length (written w)")
    case True
    with Cons.prems have "written (append w s) = written w @ s" "\<not> failed (append w s)"
      using append_fits by auto
    moreover from True this have "length (written (append w s)) < cap (append w s)"
      by (simp add: append_cap)
    ultimately show ?thesis using Cons.IH [of "append w s"] by (simp add: append_cap add.assoc)
  next
    case False
    with Cons.prems have "failed (append w s)" using append_over by blast
    with False show ?thesis by (simp add: fold_append_failed_sticky)
  qed
qed

lemma fold_append_written:
  "\<not> failed (fold (\<lambda>s w. append w s) ss w) \<Longrightarrow>
   written (fold (\<lambda>s w. append w s) ss w) = written w @ concat ss"
proof (induction ss arbitrary: w)
  case Nil
  then show ?case by simp
next
  case (Cons s ss)
  then have "\<not> failed (append w s)" using fold_append_failed_sticky by fastforce
  with Cons show ?case by (simp add: append_written)
qed

end

section \<open>Interface: a byte-at-a-time stream consumer\<close>

text \<open>
  The progress parser and the stderr line buffer take pipe fragments of any size and process
  them one byte at a time; \<open>stop\<close> marks the states in which the loop has been left early.
\<close>

locale byte_stream =
  fixes step :: "'s \<Rightarrow> char \<Rightarrow> 's"
    and stop :: "'s \<Rightarrow> bool"
    and run :: "'s \<Rightarrow> string \<Rightarrow> 's"
  assumes run_Nil: "run s [] = s"
    and run_Cons: "run s (c # cs) = (if stop s then s else run (step s c) cs)"
begin

lemma run_stopped: "stop s \<Longrightarrow> run s bs = s"
  by (cases bs) (simp_all add: run_Nil run_Cons)

text \<open>How the bytes are split into reads does not matter.\<close>

lemma run_append: "run s (xs @ ys) = run (run s xs) ys"
proof (induction xs arbitrary: s)
  case Nil
  then show ?case by (simp add: run_Nil)
next
  case (Cons x xs)
  then show ?case by (simp add: run_Cons run_stopped)
qed

lemma run_concat: "run s (concat bss) = fold (\<lambda>bs s. run s bs) bss s"
  by (induction bss arbitrary: s) (simp_all add: run_Nil run_append)

lemma run_invariant:
  assumes "I s" and "\<And>s c. I s \<Longrightarrow> \<not> stop s \<Longrightarrow> I (step s c)"
  shows "I (run s bs)"
  using assms(1) by (induction bs arbitrary: s) (auto simp: run_Nil run_Cons assms(2))

end

end
