(* ===== verification/Gw_Error.thy ===== *)
theory Gw_Error
  imports C_Prelude
begin

text \<open>
  Status codes and the caller-owned diagnostic (\<^verbatim>\<open>include/gateway/error.h\<close>,
  \<^verbatim>\<open>src/common/error.c\<close>) and the names of the codes (\<^verbatim>\<open>gw_status_string\<close> in
  \<^verbatim>\<open>src/config/config.c\<close>). The optional \<^verbatim>\<open>gw_error *\<close> argument is an \<open>option\<close>:
  \<open>None\<close> is the NULL pointer. The formatted message is an argument, the text \<^verbatim>\<open>vsnprintf\<close>
  would produce; the buffer keeps its first 255 bytes.
\<close>

abbreviation GW_ERROR_CAP :: nat where "GW_ERROR_CAP \<equiv> 256"

datatype gw_status =
    GW_OK
  | GW_ERR_ARGUMENT
  | GW_ERR_IO
  | GW_ERR_PARSE
  | GW_ERR_VALIDATION
  | GW_ERR_ENV
  | GW_ERR_NO_MEMORY
  | GW_ERR_OVERFLOW
  | GW_ERR_NOT_FOUND
  | GW_ERR_CONFLICT

record gw_error =
  err_code :: gw_status
  err_message :: string

definition gw_error_set :: "gw_error option \<Rightarrow> gw_status \<Rightarrow> string \<Rightarrow> gw_error option" where
  "gw_error_set error code formatted =
     (case error of
        None \<Rightarrow> None
      | Some e \<Rightarrow> Some (e\<lparr>err_code := code, err_message := snprintf_text GW_ERROR_CAP formatted\<rparr>))"

definition gw_error_clear :: "gw_error option \<Rightarrow> gw_error option" where
  "gw_error_clear error =
     (case error of None \<Rightarrow> None | Some e \<Rightarrow> Some (e\<lparr>err_code := GW_OK, err_message := []\<rparr>))"

fun gw_status_string :: "gw_status \<Rightarrow> string" where
  "gw_status_string GW_OK = ''ok''"
| "gw_status_string GW_ERR_ARGUMENT = ''invalid argument''"
| "gw_status_string GW_ERR_IO = ''I/O error''"
| "gw_status_string GW_ERR_PARSE = ''parse error''"
| "gw_status_string GW_ERR_VALIDATION = ''validation error''"
| "gw_status_string GW_ERR_ENV = ''environment error''"
| "gw_status_string GW_ERR_NO_MEMORY = ''out of memory''"
| "gw_status_string GW_ERR_OVERFLOW = ''size limit exceeded''"
| "gw_status_string GW_ERR_NOT_FOUND = ''not found''"
| "gw_status_string GW_ERR_CONFLICT = ''state conflict''"

lemma gw_error_set_simps [simp]:
  "gw_error_set None code m = None"
  "gw_error_set (Some e) code m = Some (e\<lparr>err_code := code, err_message := snprintf_text GW_ERROR_CAP m\<rparr>)"
  by (simp_all add: gw_error_set_def)

lemma gw_error_clear_simps [simp]:
  "gw_error_clear None = None"
  "gw_error_clear (Some e) = Some (e\<lparr>err_code := GW_OK, err_message := []\<rparr>)"
  by (simp_all add: gw_error_clear_def)

text \<open>What a caller that passed an error object reads back: the code, or the fallback the
  sources use when they were given none
  (\<^verbatim>\<open>error != NULL ? error->code : GW_ERR_VALIDATION\<close>).\<close>

definition error_code_or :: "gw_error option \<Rightarrow> gw_status \<Rightarrow> gw_status" where
  "error_code_or error fallback = (case error of Some e \<Rightarrow> err_code e | None \<Rightarrow> fallback)"

lemma error_code_or_simps [simp]:
  "error_code_or None f = f"
  "error_code_or (Some e) f = err_code e"
  by (simp_all add: error_code_or_def)

lemma gw_error_message_bound: "gw_error_set error code m = Some e \<Longrightarrow> length (err_message e) < GW_ERROR_CAP"
  using length_snprintf_text [of GW_ERROR_CAP m]
  by (auto simp: gw_error_set_def split: option.splits)

section \<open>Sequences of fallible steps\<close>

text \<open>The sources chain calls as \<^verbatim>\<open>status = f(...); if (status != GW_OK) goto fail;\<close> and
  as \<^verbatim>\<open>if (status == GW_OK) status = g(...)\<close>: the steps run in order until one does not
  return \<open>GW_OK\<close>, and the last status and state remain.\<close>

fun run_steps :: "('s \<Rightarrow> gw_status \<times> 's) list \<Rightarrow> 's \<Rightarrow> gw_status \<times> 's" where
  "run_steps [] s = (GW_OK, s)"
| "run_steps (f # fs) s =
     (case f s of (st, s') \<Rightarrow> if st = GW_OK then run_steps fs s' else (st, s'))"

lemma run_steps_append:
  "run_steps (fs @ gs) s =
     (case run_steps fs s of (st, s') \<Rightarrow> if st = GW_OK then run_steps gs s' else (st, s'))"
  by (induction fs arbitrary: s) (auto split: prod.splits)

lemma run_steps_single: "run_steps [f] = f"
  by (auto simp: fun_eq_iff split: prod.splits)

lemma run_steps_concat: "run_steps (map run_steps fss) s = run_steps (concat fss) s"
  by (induction fss arbitrary: s) (auto simp: run_steps_append split: prod.splits)

lemma run_steps_invariant:
  assumes "I s" and "\<And>f s. f \<in> set fs \<Longrightarrow> I s \<Longrightarrow> I (snd (f s))"
  shows "I (snd (run_steps fs s))"
  using assms
proof (induction fs arbitrary: s)
  case Nil
  then show ?case by simp
next
  case (Cons f fs)
  obtain st s' where f: "f s = (st, s')" by fastforce
  with Cons.prems(1) Cons.prems(2) [of f s] have "I s'" by simp
  with Cons f show ?case by simp
qed

end
