(* ===== verification/Gw_Config_Types.thy ===== *)
theory Gw_Config_Types
  imports Gw_Error
begin

text \<open>
  The configuration model of \<^verbatim>\<open>include/gateway/config.h\<close>: one record per struct, in the
  order of the header. Fields that several structs share carry a prefix. The fixed array
  \<^verbatim>\<open>channels[GW_MAX_CHANNELS]\<close> with \<^verbatim>\<open>channel_count\<close> is the list of its first
  \<^verbatim>\<open>channel_count\<close> elements. \<open>config_bounded\<close> is the representation invariant of the C
  layout: every string fits its buffer with its NUL, every number fits its type.
\<close>

abbreviation GW_MAX_CHANNELS :: nat where "GW_MAX_CHANNELS \<equiv> 64"
abbreviation GW_ID_CAP :: nat where "GW_ID_CAP \<equiv> 65"
abbreviation GW_URL_CAP :: nat where "GW_URL_CAP \<equiv> 2048"
abbreviation GW_PATH_CAP :: nat where "GW_PATH_CAP \<equiv> 129"
abbreviation GW_FILE_PATH_CAP :: nat where "GW_FILE_PATH_CAP \<equiv> 512"
abbreviation GW_NAME_CAP :: nat where "GW_NAME_CAP \<equiv> 33"
abbreviation GW_LISTEN_CAP :: nat where "GW_LISTEN_CAP \<equiv> 64"

record gw_server_config =
  srv_enabled :: bool
  srv_listen :: string
  srv_port :: u16

record gw_recording_config =
  rec_enabled :: bool
  rec_directory :: string
  rec_format :: string
  part_duration_sec :: int
  max_part_size_mb :: int
  segment_duration_sec :: int
  delete_after_sec :: int
  min_free_mb :: int
  playback_listen :: string
  playback_port :: u16

record gw_mediamtx_config =
  publish_base_url :: string
  recording :: gw_recording_config

record gw_retry_policy =
  startup_timeout_sec :: int
  progress_timeout_sec :: int
  stable_run_sec :: int
  stop_timeout_sec :: int
  max_retries :: int
  max_backoff_sec :: int

record gw_input_config =
  in_type :: string
  in_url :: string
  in_transport :: string

record gw_video_config =
  decoder :: string
  width :: int
  height :: int
  encoder :: string
  bitrate_kbps :: int
  fps :: int

record gw_output_config =
  out_path :: string

record gw_channel_config =
  ch_id :: string
  ch_enabled :: bool
  ch_input :: gw_input_config
  ch_video :: gw_video_config
  ch_output :: gw_output_config

record gw_config =
  server :: gw_server_config
  mediamtx :: gw_mediamtx_config
  defaults :: gw_retry_policy
  channels :: "gw_channel_config list"

definition server_bounded :: "gw_server_config \<Rightarrow> bool" where
  "server_bounded s \<longleftrightarrow> length (srv_listen s) < GW_LISTEN_CAP"

definition recording_bounded :: "gw_recording_config \<Rightarrow> bool" where
  "recording_bounded r \<longleftrightarrow>
     length (rec_directory r) < GW_FILE_PATH_CAP \<and> length (rec_format r) < GW_NAME_CAP \<and>
     is_int32 (part_duration_sec r) \<and> is_int32 (max_part_size_mb r) \<and>
     is_int32 (segment_duration_sec r) \<and> is_int32 (delete_after_sec r) \<and>
     is_int32 (min_free_mb r) \<and> length (playback_listen r) < GW_LISTEN_CAP"

definition policy_bounded :: "gw_retry_policy \<Rightarrow> bool" where
  "policy_bounded p \<longleftrightarrow>
     is_int32 (startup_timeout_sec p) \<and> is_int32 (progress_timeout_sec p) \<and>
     is_int32 (stable_run_sec p) \<and> is_int32 (stop_timeout_sec p) \<and>
     is_int32 (max_retries p) \<and> is_int32 (max_backoff_sec p)"

definition channel_bounded :: "gw_channel_config \<Rightarrow> bool" where
  "channel_bounded c \<longleftrightarrow>
     length (ch_id c) < GW_ID_CAP \<and>
     length (in_type (ch_input c)) < GW_NAME_CAP \<and> length (in_url (ch_input c)) < GW_URL_CAP \<and>
     length (in_transport (ch_input c)) < GW_NAME_CAP \<and>
     length (decoder (ch_video c)) < GW_NAME_CAP \<and> length (encoder (ch_video c)) < GW_NAME_CAP \<and>
     is_int32 (width (ch_video c)) \<and> is_int32 (height (ch_video c)) \<and>
     is_int32 (bitrate_kbps (ch_video c)) \<and> is_int32 (fps (ch_video c)) \<and>
     length (out_path (ch_output c)) < GW_PATH_CAP"

definition config_bounded :: "gw_config \<Rightarrow> bool" where
  "config_bounded c \<longleftrightarrow>
     server_bounded (server c) \<and>
     length (publish_base_url (mediamtx c)) < GW_URL_CAP \<and>
     recording_bounded (recording (mediamtx c)) \<and>
     policy_bounded (defaults c) \<and>
     length (channels c) \<le> GW_MAX_CHANNELS \<and> list_all channel_bounded (channels c)"

lemmas bounded_defs = server_bounded_def recording_bounded_def policy_bounded_def
  channel_bounded_def config_bounded_def

section \<open>A sample configuration\<close>

text \<open>A channel and a publish target in the style of the example configuration, for concrete instances.\<close>

definition sample_channel :: gw_channel_config where
  "sample_channel = \<lparr>ch_id = ''cam01'', ch_enabled = True,
     ch_input = \<lparr>in_type = ''rtsp'', in_url = ''rtsp://192.168.1.10/stream'', in_transport = ''tcp''\<rparr>,
     ch_video = \<lparr>decoder = ''h264_rkmpp'', width = 1280, height = 720, encoder = ''h264_rkmpp'',
                bitrate_kbps = 2000, fps = 25\<rparr>,
     ch_output = \<lparr>out_path = ''cam01''\<rparr>\<rparr>"

definition sample_recording :: gw_recording_config where
  "sample_recording = \<lparr>rec_enabled = False, rec_directory = ''/var/lib/recordings'', rec_format = ''fmp4'',
     part_duration_sec = 1, max_part_size_mb = 50, segment_duration_sec = 3600, delete_after_sec = 86400,
     min_free_mb = 1024, playback_listen = ''127.0.0.1'', playback_port = 9996\<rparr>"

definition sample_mediamtx :: gw_mediamtx_config where
  "sample_mediamtx = \<lparr>publish_base_url = ''rtsp://127.0.0.1:8554'', recording = sample_recording\<rparr>"

lemma sample_channel_bounded: "channel_bounded sample_channel"
  by (simp add: channel_bounded_def sample_channel_def is_int32_def)

end
