(* ===== verification/Channel_State.thy ===== *)
theory Channel_State
  imports Gw_Config_Types
begin

text \<open>
  The lifecycle state machine of one channel (\<^verbatim>\<open>include/gateway/channel_state.h\<close>,
  \<^verbatim>\<open>src/channel/channel_state.c\<close>): bounded exponential backoff, the transition function and
  the names used in diagnostics. \<open>gw_channel_transition\<close> returns the status, the runtime
  afterwards and the caller's error object. Then: the closed form of the backoff loop, the
  diagram of accepted transitions, the invariant of every reachable runtime, and the number of
  failures after which a channel that never becomes stable is \<open>FAILED\<close>.
\<close>

section \<open>Data\<close>

datatype gw_channel_state =
    GW_CHANNEL_DISABLED
  | GW_CHANNEL_STOPPED
  | GW_CHANNEL_STARTING
  | GW_CHANNEL_RUNNING
  | GW_CHANNEL_BACKOFF
  | GW_CHANNEL_FAILED

datatype gw_channel_event =
    GW_CHANNEL_EVENT_ENABLE
  | GW_CHANNEL_EVENT_DISABLE
  | GW_CHANNEL_EVENT_START
  | GW_CHANNEL_EVENT_PROGRESS
  | GW_CHANNEL_EVENT_FAILURE
  | GW_CHANNEL_EVENT_BACKOFF_ELAPSED
  | GW_CHANNEL_EVENT_STABLE
  | GW_CHANNEL_EVENT_STOP

record gw_channel_runtime =
  rt_state :: gw_channel_state
  rt_consecutive_failures :: u32
  rt_total_restarts :: u64
  rt_backoff_sec :: int

section \<open>Operations\<close>

definition gw_channel_runtime_init :: "bool \<Rightarrow> gw_channel_runtime" where
  "gw_channel_runtime_init enabled =
     \<lparr>rt_state = (if enabled then GW_CHANNEL_STOPPED else GW_CHANNEL_DISABLED),
      rt_consecutive_failures = 0, rt_total_restarts = 0, rt_backoff_sec = 0\<rparr>"

text \<open>The loop of \<open>calculate_backoff\<close>: \<open>for (step = 1; step < failures && delay < maximum; ++step)\<close>.\<close>

function backoff_loop :: "u32 \<Rightarrow> u32 \<Rightarrow> int \<Rightarrow> int \<Rightarrow> int" where
  "backoff_loop step failures maximum delay =
     (if step < failures \<and> delay < maximum then
        backoff_loop (step + 1) failures maximum
          (if delay > c_div maximum 2 then maximum else delay * 2)
      else delay)"
  by pat_completeness auto
termination
proof (relation "measure (\<lambda>(step, failures, maximum, delay). unat failures - unat step)")
  fix step failures :: u32 and maximum delay :: int
  assume a: "step < failures \<and> delay < maximum"
  then have "unat (step + 1) = Suc (unat step)" using uint_less_step by blast
  moreover from a have "unat step < unat failures" by (simp add: word_less_nat_alt)
  ultimately show "((step + 1, failures, maximum,
      if c_div maximum 2 < delay then maximum else delay * 2), step, failures, maximum, delay)
    \<in> measure (\<lambda>(step, failures, maximum, delay). unat failures - unat step)" by simp
qed simp

declare backoff_loop.simps [simp del]

definition calculate_backoff :: "u32 \<Rightarrow> int \<Rightarrow> int" where
  "calculate_backoff failures maximum =
     (let delay = backoff_loop 1 failures maximum 1 in
      if delay > maximum then maximum else delay)"

fun gw_channel_state_string :: "gw_channel_state \<Rightarrow> string" where
  "gw_channel_state_string GW_CHANNEL_DISABLED = ''DISABLED''"
| "gw_channel_state_string GW_CHANNEL_STOPPED = ''STOPPED''"
| "gw_channel_state_string GW_CHANNEL_STARTING = ''STARTING''"
| "gw_channel_state_string GW_CHANNEL_RUNNING = ''RUNNING''"
| "gw_channel_state_string GW_CHANNEL_BACKOFF = ''BACKOFF''"
| "gw_channel_state_string GW_CHANNEL_FAILED = ''FAILED''"

fun gw_channel_event_string :: "gw_channel_event \<Rightarrow> string" where
  "gw_channel_event_string GW_CHANNEL_EVENT_ENABLE = ''ENABLE''"
| "gw_channel_event_string GW_CHANNEL_EVENT_DISABLE = ''DISABLE''"
| "gw_channel_event_string GW_CHANNEL_EVENT_START = ''START''"
| "gw_channel_event_string GW_CHANNEL_EVENT_PROGRESS = ''PROGRESS''"
| "gw_channel_event_string GW_CHANNEL_EVENT_FAILURE = ''FAILURE''"
| "gw_channel_event_string GW_CHANNEL_EVENT_BACKOFF_ELAPSED = ''BACKOFF_ELAPSED''"
| "gw_channel_event_string GW_CHANNEL_EVENT_STABLE = ''STABLE''"
| "gw_channel_event_string GW_CHANNEL_EVENT_STOP = ''STOP''"

type_synonym transition_result = "gw_status \<times> gw_channel_runtime \<times> gw_error option"

definition reject_transition ::
  "gw_channel_runtime \<Rightarrow> gw_channel_event \<Rightarrow> gw_error option \<Rightarrow> transition_result" where
  "reject_transition runtime event error =
     (GW_ERR_VALIDATION, runtime,
      gw_error_set error GW_ERR_VALIDATION
        (''event '' @ gw_channel_event_string event @ '' is invalid while channel is '' @
         gw_channel_state_string (rt_state runtime)))"

definition handle_failure ::
  "gw_channel_runtime \<Rightarrow> gw_retry_policy \<Rightarrow> gw_error option \<Rightarrow> transition_result" where
  "handle_failure runtime policy error =
     (if rt_state runtime \<noteq> GW_CHANNEL_STARTING \<and> rt_state runtime \<noteq> GW_CHANNEL_RUNNING then
        reject_transition runtime GW_CHANNEL_EVENT_FAILURE error
      else
        let failures = (if rt_consecutive_failures runtime < UINT_MAX
                        then rt_consecutive_failures runtime + 1
                        else rt_consecutive_failures runtime);
            counted = runtime\<lparr>rt_consecutive_failures := failures\<rparr>
        in (GW_OK,
            (if failures > of_int (max_retries policy) then
               counted\<lparr>rt_state := GW_CHANNEL_FAILED, rt_backoff_sec := max_backoff_sec policy\<rparr>
             else
               counted\<lparr>rt_state := GW_CHANNEL_BACKOFF,
                       rt_backoff_sec := calculate_backoff failures (max_backoff_sec policy)\<rparr>),
            gw_error_clear error))"

definition gw_channel_transition ::
  "gw_channel_runtime \<Rightarrow> gw_channel_event \<Rightarrow> gw_retry_policy \<Rightarrow> gw_error option \<Rightarrow> transition_result" where
  "gw_channel_transition runtime event policy error =
     (if max_retries policy < 0 \<or> max_backoff_sec policy \<le> 0 then
        (GW_ERR_ARGUMENT, runtime, gw_error_set error GW_ERR_ARGUMENT ''retry policy is invalid'')
      else case event of
        GW_CHANNEL_EVENT_ENABLE \<Rightarrow>
          (if rt_state runtime \<noteq> GW_CHANNEL_DISABLED then reject_transition runtime event error
           else (GW_OK, runtime\<lparr>rt_state := GW_CHANNEL_STOPPED\<rparr>, gw_error_clear error))
      | GW_CHANNEL_EVENT_DISABLE \<Rightarrow>
          (GW_OK, runtime\<lparr>rt_state := GW_CHANNEL_DISABLED, rt_consecutive_failures := 0,
                          rt_backoff_sec := 0\<rparr>, gw_error_clear error)
      | GW_CHANNEL_EVENT_START \<Rightarrow>
          (if rt_state runtime \<noteq> GW_CHANNEL_STOPPED \<and> rt_state runtime \<noteq> GW_CHANNEL_FAILED then
             reject_transition runtime event error
           else (GW_OK, runtime\<lparr>rt_state := GW_CHANNEL_STARTING, rt_consecutive_failures := 0,
                                rt_backoff_sec := 0\<rparr>, gw_error_clear error))
      | GW_CHANNEL_EVENT_PROGRESS \<Rightarrow>
          (if rt_state runtime \<noteq> GW_CHANNEL_STARTING \<and> rt_state runtime \<noteq> GW_CHANNEL_RUNNING then
             reject_transition runtime event error
           else (GW_OK, runtime\<lparr>rt_state := GW_CHANNEL_RUNNING\<rparr>, gw_error_clear error))
      | GW_CHANNEL_EVENT_FAILURE \<Rightarrow> handle_failure runtime policy error
      | GW_CHANNEL_EVENT_BACKOFF_ELAPSED \<Rightarrow>
          (if rt_state runtime \<noteq> GW_CHANNEL_BACKOFF \<and> rt_state runtime \<noteq> GW_CHANNEL_FAILED then
             reject_transition runtime event error
           else (GW_OK, runtime\<lparr>rt_state := GW_CHANNEL_STARTING, rt_backoff_sec := 0,
                                rt_total_restarts := rt_total_restarts runtime + 1\<rparr>,
                 gw_error_clear error))
      | GW_CHANNEL_EVENT_STABLE \<Rightarrow>
          (if rt_state runtime \<noteq> GW_CHANNEL_RUNNING then reject_transition runtime event error
           else (GW_OK, runtime\<lparr>rt_consecutive_failures := 0, rt_backoff_sec := 0\<rparr>,
                 gw_error_clear error))
      | GW_CHANNEL_EVENT_STOP \<Rightarrow>
          (if rt_state runtime = GW_CHANNEL_DISABLED then reject_transition runtime event error
           else (GW_OK, runtime\<lparr>rt_state := GW_CHANNEL_STOPPED, rt_consecutive_failures := 0,
                                rt_backoff_sec := 0\<rparr>, gw_error_clear error)))"

abbreviation transition_status :: "transition_result \<Rightarrow> gw_status" where
  "transition_status r \<equiv> fst r"
abbreviation transition_runtime :: "transition_result \<Rightarrow> gw_channel_runtime" where
  "transition_runtime r \<equiv> fst (snd r)"

definition valid_policy :: "gw_retry_policy \<Rightarrow> bool" where
  "valid_policy p \<longleftrightarrow> 0 \<le> max_retries p \<and> max_retries p \<le> INT_MAX \<and>
                     0 < max_backoff_sec p \<and> max_backoff_sec p \<le> INT_MAX"

section \<open>The backoff loop\<close>

lemma double_capped:
  fixes m d :: int
  assumes "1 \<le> d" "d < m" "0 < n"
  shows "min m ((if d > c_div m 2 then m else d * 2) * 2 ^ (n - 1)) = min m (d * 2 ^ n)"
proof -
  from assms(3) have pow: "(2::int) ^ n = 2 * 2 ^ (n - 1)" by (cases n) auto
  have one: "(1::int) \<le> 2 ^ (n - 1)" by simp
  have half: "c_div m 2 = m div 2" using assms by (simp add: c_div_nonneg)
  show ?thesis
  proof (cases "d > m div 2")
    case True
    then have "m \<le> d * 2" by linarith
    then have "m * 1 \<le> (d * 2) * 2 ^ (n - 1)"
      using one assms by (intro mult_mono) auto
    moreover have "m * 1 \<le> m * 2 ^ (n - 1)" using one assms by (intro mult_left_mono) auto
    ultimately show ?thesis using True pow half by (simp add: min_absorb1 mult.assoc)
  next
    case False
    then show ?thesis using pow half by (simp add: mult.assoc)
  qed
qed

lemma backoff_loop_closed:
  "1 \<le> delay \<Longrightarrow> delay \<le> maximum \<Longrightarrow>
   backoff_loop step failures maximum delay = min maximum (delay * 2 ^ (unat failures - unat step))"
proof (induction step failures maximum delay rule: backoff_loop.induct)
  case (1 step failures maximum delay)
  show ?case
  proof (cases "step < failures \<and> delay < maximum")
    case True
    let ?d = "if delay > c_div maximum 2 then maximum else delay * 2"
    have half: "c_div maximum 2 = maximum div 2" using 1 by (simp add: c_div_nonneg)
    have d: "1 \<le> ?d" "?d \<le> maximum" using 1 half by auto
    have n: "0 < unat failures - unat step" using True by (simp add: word_less_nat_alt)
    have "unat (step + 1) = Suc (unat step)" using True uint_less_step by blast
    then have m: "unat failures - unat (step + 1) = unat failures - unat step - 1" by simp
    from True have "backoff_loop step failures maximum delay = backoff_loop (step + 1) failures maximum ?d"
      by (subst backoff_loop.simps) simp
    also have "\<dots> = min maximum (?d * 2 ^ (unat failures - unat step - 1))"
      using "1.IH" [OF True d] m by simp
    also have "\<dots> = min maximum (delay * 2 ^ (unat failures - unat step))"
      using True 1 n by (intro double_capped) auto
    finally show ?thesis .
  next
    case False
    then have r: "backoff_loop step failures maximum delay = delay"
      by (subst backoff_loop.simps) auto
    show ?thesis
    proof (cases "delay < maximum")
      case True
      with False have "unat failures - unat step = 0" by (simp add: word_less_nat_alt)
      with r 1 show ?thesis by simp
    next
      case False
      have "maximum * 1 \<le> maximum * 2 ^ (unat failures - unat step)"
        using 1 by (intro mult_left_mono) auto
      with r 1 False show ?thesis by (simp add: min_absorb1)
    qed
  qed
qed

lemma calculate_backoff_closed [simp]:
  "0 < maximum \<Longrightarrow> calculate_backoff failures maximum = min maximum (2 ^ (unat failures - 1))"
  using backoff_loop_closed [of 1 maximum 1 failures] by (simp add: calculate_backoff_def)

text \<open>For every failure count and every positive cap, the doubling loop of
  \<open>calculate_backoff\<close> returns \<open>min cap (2 ^ (failures - 1))\<close>: the documented schedule
  1, 2, 4, \<dots>, cap, with no step past the cap (so no signed overflow when the cap is an int).\<close>

theorem calculate_backoff_schedule:
  assumes "0 < maximum" and "is_int32 maximum"
  shows "calculate_backoff failures maximum = min maximum (2 ^ (unat failures - 1))
       \<and> 1 \<le> calculate_backoff failures maximum \<and> is_int32 (calculate_backoff failures maximum)"
proof -
  have "(1::int) \<le> 2 ^ (unat failures - 1)" by simp
  then have low: "1 \<le> min maximum (2 ^ (unat failures - 1))" using assms(1) by simp
  moreover have "min maximum (2 ^ (unat failures - 1)) \<le> maximum" by simp
  ultimately have "is_int32 (min maximum (2 ^ (unat failures - 1)))"
    using assms(2) unfolding is_int32_def by linarith
  with low show ?thesis using assms(1) by simp
qed

theorem calculate_backoff_schedule_witness:
  "calculate_backoff 6 30 = 30 \<and> calculate_backoff 5 30 = 16 \<and> calculate_backoff 1 30 = 1"
  using calculate_backoff_schedule [of 30 6] calculate_backoff_schedule [of 30 5]
    calculate_backoff_schedule [of 30 1]
  by (simp add: is_int32_def)

section \<open>The diagram of accepted events\<close>

text \<open>The abstract specification: which event leads from which state to which.\<close>

inductive channel_edge :: "gw_channel_state \<Rightarrow> gw_channel_event \<Rightarrow> gw_channel_state \<Rightarrow> bool" where
  enable: "channel_edge GW_CHANNEL_DISABLED GW_CHANNEL_EVENT_ENABLE GW_CHANNEL_STOPPED"
| disable: "channel_edge s GW_CHANNEL_EVENT_DISABLE GW_CHANNEL_DISABLED"
| start: "s \<in> {GW_CHANNEL_STOPPED, GW_CHANNEL_FAILED} \<Longrightarrow>
    channel_edge s GW_CHANNEL_EVENT_START GW_CHANNEL_STARTING"
| progress: "s \<in> {GW_CHANNEL_STARTING, GW_CHANNEL_RUNNING} \<Longrightarrow>
    channel_edge s GW_CHANNEL_EVENT_PROGRESS GW_CHANNEL_RUNNING"
| retry: "s \<in> {GW_CHANNEL_STARTING, GW_CHANNEL_RUNNING} \<Longrightarrow>
    channel_edge s GW_CHANNEL_EVENT_FAILURE GW_CHANNEL_BACKOFF"
| exhausted: "s \<in> {GW_CHANNEL_STARTING, GW_CHANNEL_RUNNING} \<Longrightarrow>
    channel_edge s GW_CHANNEL_EVENT_FAILURE GW_CHANNEL_FAILED"
| elapsed: "s \<in> {GW_CHANNEL_BACKOFF, GW_CHANNEL_FAILED} \<Longrightarrow>
    channel_edge s GW_CHANNEL_EVENT_BACKOFF_ELAPSED GW_CHANNEL_STARTING"
| stable: "channel_edge GW_CHANNEL_RUNNING GW_CHANNEL_EVENT_STABLE GW_CHANNEL_RUNNING"
| stop: "s \<noteq> GW_CHANNEL_DISABLED \<Longrightarrow> channel_edge s GW_CHANNEL_EVENT_STOP GW_CHANNEL_STOPPED"

inductive_simps channel_edge_simps [simp]:
  "channel_edge s GW_CHANNEL_EVENT_ENABLE s'"
  "channel_edge s GW_CHANNEL_EVENT_DISABLE s'"
  "channel_edge s GW_CHANNEL_EVENT_START s'"
  "channel_edge s GW_CHANNEL_EVENT_PROGRESS s'"
  "channel_edge s GW_CHANNEL_EVENT_FAILURE s'"
  "channel_edge s GW_CHANNEL_EVENT_BACKOFF_ELAPSED s'"
  "channel_edge s GW_CHANNEL_EVENT_STABLE s'"
  "channel_edge s GW_CHANNEL_EVENT_STOP s'"

lemmas transition_defs = gw_channel_transition_def reject_transition_def handle_failure_def

lemma transition_cases:
  assumes "valid_policy p"
  shows "case gw_channel_transition r e p err of (st, r', err') \<Rightarrow>
           if \<exists>s'. channel_edge (rt_state r) e s'
           then st = GW_OK \<and> channel_edge (rt_state r) e (rt_state r')
           else st = GW_ERR_VALIDATION \<and> r' = r"
proof (cases e)
  case GW_CHANNEL_EVENT_FAILURE
  with assms show ?thesis
    by (cases "rt_state r") (auto simp add: transition_defs valid_policy_def Let_def)
qed (use assms in \<open>cases "rt_state r"; simp add: transition_defs valid_policy_def\<close>)+

text \<open>C33: under a valid retry policy \<open>gw_channel_transition\<close> implements the diagram: an event
  with an edge from the current state is accepted and the new state is the target of such an
  edge; an event without one is rejected with \<open>GW_ERR_VALIDATION\<close> and the runtime is untouched.\<close>

theorem transition_refines_diagram:
  assumes "valid_policy p"
  shows "case gw_channel_transition r e p err of (st, r', err') \<Rightarrow>
           if \<exists>s'. channel_edge (rt_state r) e s'
           then st = GW_OK \<and> channel_edge (rt_state r) e (rt_state r')
           else st = GW_ERR_VALIDATION \<and> r' = r"
  using assms by (rule transition_cases)

definition default_policy :: gw_retry_policy where
  "default_policy = \<lparr>startup_timeout_sec = 15, progress_timeout_sec = 10, stable_run_sec = 60,
     stop_timeout_sec = 5, max_retries = 10, max_backoff_sec = 30\<rparr>"

lemma valid_default_policy [simp]: "valid_policy default_policy"
  by (simp add: valid_policy_def default_policy_def)

theorem transition_refines_diagram_witness:
  "case gw_channel_transition (gw_channel_runtime_init True) GW_CHANNEL_EVENT_PROGRESS default_policy None
     of (st, r', err') \<Rightarrow> st = GW_ERR_VALIDATION \<and> r' = gw_channel_runtime_init True"
  using transition_refines_diagram
    [OF valid_default_policy, of "gw_channel_runtime_init True" GW_CHANNEL_EVENT_PROGRESS None]
  by (simp add: gw_channel_runtime_init_def)

section \<open>The invariant of reachable runtimes\<close>

definition runtime_inv :: "gw_retry_policy \<Rightarrow> gw_channel_runtime \<Rightarrow> bool" where
  "runtime_inv p r \<longleftrightarrow>
     (case rt_state r of
        GW_CHANNEL_DISABLED \<Rightarrow> rt_consecutive_failures r = 0 \<and> rt_backoff_sec r = 0
      | GW_CHANNEL_STOPPED \<Rightarrow> rt_consecutive_failures r = 0 \<and> rt_backoff_sec r = 0
      | GW_CHANNEL_STARTING \<Rightarrow> rt_backoff_sec r = 0
      | GW_CHANNEL_RUNNING \<Rightarrow> rt_backoff_sec r = 0
      | GW_CHANNEL_BACKOFF \<Rightarrow>
          1 \<le> uint (rt_consecutive_failures r) \<and> uint (rt_consecutive_failures r) \<le> max_retries p \<and>
          rt_backoff_sec r = min (max_backoff_sec p) (2 ^ (unat (rt_consecutive_failures r) - 1))
      | GW_CHANNEL_FAILED \<Rightarrow>
          max_retries p < uint (rt_consecutive_failures r) \<and> rt_backoff_sec r = max_backoff_sec p)"

inductive runtime_reachable :: "gw_retry_policy \<Rightarrow> gw_channel_runtime \<Rightarrow> bool"
  for p :: gw_retry_policy where
  init: "runtime_reachable p (gw_channel_runtime_init enabled)"
| event: "runtime_reachable p r \<Longrightarrow> gw_channel_transition r e p err = (st, r', err') \<Longrightarrow>
    runtime_reachable p r'"

lemma uint_retries: "valid_policy p \<Longrightarrow> uint (of_int (max_retries p) :: u32) = max_retries p"
  by (simp add: valid_policy_def uint_word_of_int)

lemma count_failure:
  fixes f :: u32
  shows "unat (if f < UINT_MAX then f + 1 else f) = min (Suc (unat f)) 4294967295"
proof (cases "f < UINT_MAX")
  case True
  then have "unat (f + 1) = Suc (unat f)" by (rule uint_less_step)
  moreover have "unat f < 4294967295" using True by (simp add: word_less_nat_alt)
  ultimately show ?thesis using True by simp
next
  case False
  then have "4294967295 \<le> unat f" by (simp add: word_less_nat_alt)
  moreover have "unat f < 2 ^ LENGTH(32)" by (rule unsigned_less)
  ultimately have "unat f = 4294967295" by simp
  with False show ?thesis by simp
qed

definition next_failures :: "u32 \<Rightarrow> u32" where
  "next_failures f = (if f < UINT_MAX then f + 1 else f)"

lemma unat_next_failures: "unat (next_failures f) = min (Suc (unat f)) 4294967295"
  unfolding next_failures_def by (rule count_failure)

lemma handle_failure_counted:
  assumes "valid_policy p" and "rt_state r = GW_CHANNEL_STARTING \<or> rt_state r = GW_CHANNEL_RUNNING"
  shows "handle_failure r p err =
     (GW_OK, r\<lparr>rt_consecutive_failures := next_failures (rt_consecutive_failures r),
        rt_state := (if max_retries p < uint (next_failures (rt_consecutive_failures r))
                     then GW_CHANNEL_FAILED else GW_CHANNEL_BACKOFF),
        rt_backoff_sec := (if max_retries p < uint (next_failures (rt_consecutive_failures r))
                     then max_backoff_sec p
                     else min (max_backoff_sec p)
                            (2 ^ (unat (next_failures (rt_consecutive_failures r)) - 1)))\<rparr>,
      gw_error_clear err)"
proof -
  have "\<And>f :: u32. f > of_int (max_retries p) \<longleftrightarrow> max_retries p < uint f"
    using uint_retries [OF assms(1)] by (simp add: word_less_def)
  moreover from assms(1) have "0 < max_backoff_sec p" by (simp add: valid_policy_def)
  ultimately show ?thesis using assms(2)
    unfolding handle_failure_def next_failures_def [symmetric] Let_def
    by (cases "max_retries p < uint (next_failures (rt_consecutive_failures r))") auto
qed

lemma failure_runtime_inv:
  assumes "valid_policy p" and "rt_state r = GW_CHANNEL_STARTING \<or> rt_state r = GW_CHANNEL_RUNNING"
  shows "runtime_inv p (transition_runtime (handle_failure r p err))"
proof -
  have "1 \<le> unat (next_failures (rt_consecutive_failures r))" by (simp add: unat_next_failures)
  then have "1 \<le> uint (next_failures (rt_consecutive_failures r))"
    unfolding uint_nat by linarith
  then show ?thesis
    by (simp add: handle_failure_counted [OF assms] runtime_inv_def)
qed

lemma transition_runtime_inv:
  assumes "valid_policy p" and "runtime_inv p r"
  shows "runtime_inv p (transition_runtime (gw_channel_transition r e p err))"
proof (cases e)
  case GW_CHANNEL_EVENT_FAILURE
  then have g: "gw_channel_transition r e p err = handle_failure r p err"
    using assms(1) by (simp add: gw_channel_transition_def valid_policy_def)
  show ?thesis
  proof (cases "rt_state r = GW_CHANNEL_STARTING \<or> rt_state r = GW_CHANNEL_RUNNING")
    case True
    with g show ?thesis using failure_runtime_inv [OF assms(1) True] by simp
  next
    case False
    with g assms(2) show ?thesis by (simp add: handle_failure_def reject_transition_def)
  qed
qed (use assms in \<open>cases "rt_state r"; simp add: gw_channel_transition_def reject_transition_def
      valid_policy_def runtime_inv_def\<close>)+

text \<open>C7: whatever events arrive in whatever order, a runtime that evolves from
  \<open>gw_channel_runtime_init\<close> under one valid policy keeps its fields consistent: BACKOFF holds a
  failure count within the retry budget and exactly the scheduled delay, FAILED a count beyond the
  budget and the cap, STOPPED and DISABLED no failures, and every other state no pending delay.\<close>

theorem reachable_runtime_inv:
  assumes "valid_policy p" and "runtime_reachable p r"
  shows "runtime_inv p r"
  using assms(2)
proof (induction rule: runtime_reachable.induct)
  case (init enabled)
  show ?case by (simp add: runtime_inv_def gw_channel_runtime_init_def)
next
  case (event r e err st r' err')
  then show ?case using transition_runtime_inv [OF assms(1) event.IH, of e err] by simp
qed

definition one_failure :: gw_channel_runtime where
  "one_failure = \<lparr>rt_state = GW_CHANNEL_BACKOFF, rt_consecutive_failures = 1, rt_total_restarts = 0,
     rt_backoff_sec = 1\<rparr>"

lemma one_failure_reachable: "runtime_reachable default_policy one_failure"
proof -
  let ?r1 = "gw_channel_runtime_init True\<lparr>rt_state := GW_CHANNEL_STARTING\<rparr>"
  have "gw_channel_transition (gw_channel_runtime_init True) GW_CHANNEL_EVENT_START default_policy None
        = (GW_OK, ?r1, None)"
    by (simp add: gw_channel_transition_def gw_channel_runtime_init_def default_policy_def)
  then have r1: "runtime_reachable default_policy ?r1"
    by (rule runtime_reachable.event [OF runtime_reachable.init])
  have "gw_channel_transition ?r1 GW_CHANNEL_EVENT_FAILURE default_policy None
        = (GW_OK, one_failure, None)"
    by (simp add: gw_channel_transition_def handle_failure_def default_policy_def
        gw_channel_runtime_init_def one_failure_def)
  then show ?thesis by (rule runtime_reachable.event [OF r1])
qed

theorem reachable_runtime_inv_witness:
  "runtime_inv default_policy one_failure \<and> rt_state one_failure = GW_CHANNEL_BACKOFF"
  using reachable_runtime_inv [OF valid_default_policy one_failure_reachable]
  by (simp add: one_failure_def)

section \<open>Exhausting the retry budget\<close>

text \<open>The runtime after \<open>k\<close> rounds of failure and elapsed backoff that start from STARTING.\<close>

definition failure_of :: "gw_retry_policy \<Rightarrow> gw_channel_runtime \<Rightarrow> gw_channel_runtime" where
  "failure_of p r = transition_runtime (gw_channel_transition r GW_CHANNEL_EVENT_FAILURE p None)"

definition retry_of :: "gw_retry_policy \<Rightarrow> gw_channel_runtime \<Rightarrow> gw_channel_runtime" where
  "retry_of p r =
     transition_runtime (gw_channel_transition (failure_of p r) GW_CHANNEL_EVENT_BACKOFF_ELAPSED p None)"

lemma failure_of_counted:
  assumes "valid_policy p" and "rt_state r = GW_CHANNEL_STARTING"
  shows "failure_of p r = transition_runtime (handle_failure r p None)"
  using assms by (simp add: failure_of_def gw_channel_transition_def valid_policy_def)

lemma retry_of_starting:
  assumes "valid_policy p" and "rt_state r = GW_CHANNEL_STARTING"
  shows "rt_state (retry_of p r) = GW_CHANNEL_STARTING
       \<and> rt_consecutive_failures (retry_of p r) = next_failures (rt_consecutive_failures r)
       \<and> rt_total_restarts (retry_of p r) = rt_total_restarts r + 1"
  using assms(1)
  by (simp add: retry_of_def failure_of_counted [OF assms] handle_failure_counted [OF assms(1)] assms(2)
      gw_channel_transition_def valid_policy_def)

lemma retry_rounds:
  assumes "valid_policy p" and "rt_state r = GW_CHANNEL_STARTING" and "rt_consecutive_failures r = 0"
    and "k < 4294967295"
  shows "rt_state ((retry_of p ^^ k) r) = GW_CHANNEL_STARTING
       \<and> unat (rt_consecutive_failures ((retry_of p ^^ k) r)) = k"
  using assms(4)
proof (induction k)
  case 0
  with assms show ?case by simp
next
  case (Suc k)
  then show ?case
    using retry_of_starting [OF assms(1), of "(retry_of p ^^ k) r"] by (simp add: unat_next_failures)
qed

text \<open>A channel that starts with no failures and fails again and again without becoming
  stable is put into BACKOFF with the scheduled delay for its first \<open>max_retries\<close> failures and
  into FAILED, with the longest delay, from failure number \<open>max_retries + 1\<close> on.\<close>

theorem retry_budget_exhaustion:
  assumes "valid_policy p" and "rt_state r = GW_CHANNEL_STARTING" and "rt_consecutive_failures r = 0"
    and "k < 4294967295"
  shows "let r' = failure_of p ((retry_of p ^^ k) r) in
         unat (rt_consecutive_failures r') = Suc k \<and>
         (if int k < max_retries p
          then rt_state r' = GW_CHANNEL_BACKOFF \<and> rt_backoff_sec r' = min (max_backoff_sec p) (2 ^ k)
          else rt_state r' = GW_CHANNEL_FAILED \<and> rt_backoff_sec r' = max_backoff_sec p)"
proof -
  let ?s = "(retry_of p ^^ k) r"
  have s: "rt_state ?s = GW_CHANNEL_STARTING" "unat (rt_consecutive_failures ?s) = k"
    using retry_rounds [OF assms] by simp_all
  have n: "unat (next_failures (rt_consecutive_failures ?s)) = Suc k"
    using s(2) assms(4) by (simp add: unat_next_failures)
  then have "uint (next_failures (rt_consecutive_failures ?s)) = int (Suc k)" unfolding uint_nat by simp
  then have "max_retries p < uint (next_failures (rt_consecutive_failures ?s)) \<longleftrightarrow> \<not> int k < max_retries p"
    by linarith
  with n s(1) show ?thesis
    by (simp add: Let_def failure_of_counted [OF assms(1)] handle_failure_counted [OF assms(1)])
qed

definition fresh_start :: gw_channel_runtime where
  "fresh_start = \<lparr>rt_state = GW_CHANNEL_STARTING, rt_consecutive_failures = 0, rt_total_restarts = 0,
     rt_backoff_sec = 0\<rparr>"

theorem retry_budget_exhaustion_witness:
  "rt_backoff_sec (failure_of default_policy ((retry_of default_policy ^^ 4) fresh_start)) = 16
   \<and> rt_state (failure_of default_policy ((retry_of default_policy ^^ 10) fresh_start)) = GW_CHANNEL_FAILED"
  using retry_budget_exhaustion [OF valid_default_policy, of fresh_start 4]
    retry_budget_exhaustion [OF valid_default_policy, of fresh_start 10]
  by (simp add: fresh_start_def default_policy_def Let_def)

end
