(* ===== verification/Progress_Parser.thy ===== *)
theory Progress_Parser
  imports Gw_Config_Types
begin

text \<open>
  The incremental parser of FFmpeg progress records (\<^verbatim>\<open>include/gateway/progress_parser.h\<close>,
  \<^verbatim>\<open>src/monitor/progress_parser.c\<close>). The buffer and its length are the list of retained
  bytes; a completed line is read as the C string it starts with. \<open>strtod\<close> is a parameter: the
  lemmas hold for every decimal conversion, and only the round trip uses what it returns on the
  two texts it is applied to. Shown: the buffers stay within their capacities for any bytes, the
  way the bytes are split into reads does not matter, an overflow is reported exactly for a line
  of more than 1023 bytes, and a printed record is parsed back.
\<close>

abbreviation GW_PROGRESS_LINE_CAP :: nat where "GW_PROGRESS_LINE_CAP \<equiv> 1024"

section \<open>Data\<close>

record gw_worker_progress =
  wp_frame :: u64
  wp_fps :: c_double
  wp_bitrate :: string
  wp_out_time_us :: int
  wp_drop_frames :: u64
  wp_speed :: c_double
  wp_status :: string

record gw_progress_parser =
  pp_line :: string
  pp_current :: gw_worker_progress

type_synonym strtod_fn = "string \<Rightarrow> c_double conv"

definition empty_progress :: gw_worker_progress where
  "empty_progress = \<lparr>wp_frame = 0, wp_fps = 0, wp_bitrate = [], wp_out_time_us = 0,
     wp_drop_frames = 0, wp_speed = 0, wp_status = []\<rparr>"

section \<open>Operations\<close>

definition gw_progress_parser_init :: gw_progress_parser where
  "gw_progress_parser_init = \<lparr>pp_line = [], pp_current = empty_progress\<rparr>"

text \<open>The three converters return the new value of the output, which they leave alone when the
  text is rejected.\<close>

definition parse_u64 :: "string \<Rightarrow> u64 \<Rightarrow> u64" where
  "parse_u64 value output =
     (let r = strtoull value in
      if conv_erange r \<or> conv_none r \<or> conv_end r \<noteq> [] then output else conv_value r)"

definition parse_i64 :: "string \<Rightarrow> int \<Rightarrow> int" where
  "parse_i64 value output =
     (let r = strtoll value in
      if conv_erange r \<or> conv_none r \<or> conv_end r \<noteq> [] then output else conv_value r)"

definition parse_double_value :: "strtod_fn \<Rightarrow> string \<Rightarrow> c_double \<Rightarrow> c_double" where
  "parse_double_value strtod value output =
     (let r = strtod value in
      if conv_erange r \<or> conv_none r \<or> \<not> isfinite (conv_value r) \<or>
         conv_end r \<noteq> [] \<and> conv_end r \<noteq> ''x'' then output else conv_value r)"

definition copy_truncated :: "nat \<Rightarrow> string \<Rightarrow> string" where
  "copy_truncated capacity source =
     (let n = length source; n' = (if n \<ge> capacity then capacity - 1 else n) in take n' source)"

text \<open>The key dispatch of \<open>parse_line\<close>: the parser's record, the caller's snapshot, and whether
  the line closed a record.\<close>

definition parse_field ::
  "strtod_fn \<Rightarrow> gw_worker_progress \<Rightarrow> string \<Rightarrow> string \<Rightarrow> gw_worker_progress \<Rightarrow>
   gw_worker_progress \<times> gw_worker_progress \<times> bool" where
  "parse_field strtod cur key val snapshot =
     (if key = ''frame'' then
        (cur\<lparr>wp_frame := parse_u64 val (wp_frame cur)\<rparr>, snapshot, False)
      else if key = ''fps'' then
        (cur\<lparr>wp_fps := parse_double_value strtod val (wp_fps cur)\<rparr>, snapshot, False)
      else if key = ''bitrate'' then
        (cur\<lparr>wp_bitrate := copy_truncated 32 val\<rparr>, snapshot, False)
      else if key = ''out_time_us'' then
        (cur\<lparr>wp_out_time_us := parse_i64 val (wp_out_time_us cur)\<rparr>, snapshot, False)
      else if key = ''drop_frames'' then
        (cur\<lparr>wp_drop_frames := parse_u64 val (wp_drop_frames cur)\<rparr>, snapshot, False)
      else if key = ''speed'' then
        (cur\<lparr>wp_speed := parse_double_value strtod val (wp_speed cur)\<rparr>, snapshot, False)
      else if key = ''progress'' then
        (empty_progress, cur\<lparr>wp_status := copy_truncated 16 val\<rparr>, True)
      else (cur, snapshot, False))"

definition parse_line ::
  "strtod_fn \<Rightarrow> gw_worker_progress \<Rightarrow> string \<Rightarrow> gw_worker_progress \<Rightarrow>
   gw_worker_progress \<times> gw_worker_progress \<times> bool" where
  "parse_line strtod cur line snapshot =
     (case strchr line CHR ''='' of
        None \<Rightarrow> (cur, snapshot, False)
      | Some separator \<Rightarrow>
          parse_field strtod cur (takeWhile (\<lambda>c. c \<noteq> CHR ''='') line) (tl separator) snapshot)"

text \<open>The locals of \<open>gw_progress_parser_consume\<close> during its loop: the parser, the caller's
  snapshot and completion flag, and whether the loop was left by the overflow return.\<close>

record consume_state =
  cs_parser :: gw_progress_parser
  cs_progress :: gw_worker_progress
  cs_completed :: bool
  cs_overflow :: bool

definition strip_cr :: "string \<Rightarrow> string" where
  "strip_cr line = (if line \<noteq> [] \<and> last line = CR then butlast line else line)"

definition consume_byte :: "strtod_fn \<Rightarrow> consume_state \<Rightarrow> char \<Rightarrow> consume_state" where
  "consume_byte strtod s byte =
     (let p = cs_parser s in
      if byte = LF then
        let (cur, snap, fin) =
              parse_line strtod (pp_current p) (cstr (strip_cr (pp_line p))) (cs_progress s)
        in s\<lparr>cs_parser := p\<lparr>pp_line := [], pp_current := cur\<rparr>, cs_progress := snap,
             cs_completed := (cs_completed s \<or> fin)\<rparr>
      else if length (pp_line p) + 1 \<ge> GW_PROGRESS_LINE_CAP then
        s\<lparr>cs_parser := p\<lparr>pp_line := []\<rparr>, cs_overflow := True\<rparr>
      else s\<lparr>cs_parser := p\<lparr>pp_line := pp_line p @ [byte]\<rparr>\<rparr>)"

fun consume_loop :: "strtod_fn \<Rightarrow> consume_state \<Rightarrow> string \<Rightarrow> consume_state" where
  "consume_loop strtod s [] = s"
| "consume_loop strtod s (byte # data) =
     (if cs_overflow s then s else consume_loop strtod (consume_byte strtod s byte) data)"

type_synonym consume_result =
  "gw_status \<times> gw_progress_parser \<times> gw_worker_progress \<times> bool \<times> gw_error option"

definition gw_progress_parser_consume ::
  "strtod_fn \<Rightarrow> gw_progress_parser \<Rightarrow> string \<Rightarrow> gw_worker_progress \<Rightarrow> gw_error option \<Rightarrow>
   consume_result" where
  "gw_progress_parser_consume strtod parser data progress error =
     (let s = consume_loop strtod \<lparr>cs_parser = parser, cs_progress = progress,
                                    cs_completed = False, cs_overflow = False\<rparr> data in
      if cs_overflow s then
        (GW_ERR_OVERFLOW, cs_parser s, cs_progress s, cs_completed s,
         gw_error_set error GW_ERR_OVERFLOW
           (''FFmpeg progress line exceeds '' @ dec_nat (GW_PROGRESS_LINE_CAP - 1) @ '' bytes''))
      else (GW_OK, cs_parser s, cs_progress s, cs_completed s, gw_error_clear error))"

text \<open>The parser as a byte stream: what the interface proves once holds for the loop.\<close>

interpretation pp: byte_stream "consume_byte strtod" cs_overflow "consume_loop strtod"
  by unfold_locales simp_all

section \<open>Bounds for arbitrary input\<close>

definition progress_bounded :: "gw_worker_progress \<Rightarrow> bool" where
  "progress_bounded w \<longleftrightarrow>
     isfinite (wp_fps w) \<and> isfinite (wp_speed w) \<and> is_int64 (wp_out_time_us w) \<and>
     length (wp_bitrate w) < 32 \<and> length (wp_status w) < 16"

definition parser_bounded :: "gw_progress_parser \<Rightarrow> bool" where
  "parser_bounded p \<longleftrightarrow> length (pp_line p) < GW_PROGRESS_LINE_CAP \<and> progress_bounded (pp_current p)"

lemma progress_bounded_empty [simp]: "progress_bounded empty_progress"
  by (simp add: progress_bounded_def empty_progress_def is_int64_def)

lemma length_copy_truncated: "0 < n \<Longrightarrow> length (copy_truncated n s) < n"
  by (auto simp: copy_truncated_def Let_def)

lemma copy_truncated_fits [simp]: "length s < n \<Longrightarrow> copy_truncated n s = s"
  by (simp add: copy_truncated_def)

lemma parse_i64_range: "is_int64 old \<Longrightarrow> is_int64 (parse_i64 v old)"
  by (auto simp: parse_i64_def strtoll_def is_int64_def Let_def split: option.splits)

lemma parse_double_finite: "isfinite old \<Longrightarrow> isfinite (parse_double_value strtod v old)"
  by (auto simp: parse_double_value_def Let_def)

lemma parse_line_bounded:
  assumes "progress_bounded cur" and "progress_bounded snap"
  shows "progress_bounded (fst (parse_line strtod cur line snap))
       \<and> progress_bounded (fst (snd (parse_line strtod cur line snap)))"
proof -
  have "\<And>v. length (copy_truncated 32 v) < 32" "\<And>v. length (copy_truncated 16 v) < 16"
    by (rule length_copy_truncated, simp)+
  with assms have upd:
    "\<And>v. progress_bounded (cur\<lparr>wp_frame := v\<rparr>)" "\<And>v. progress_bounded (cur\<lparr>wp_drop_frames := v\<rparr>)"
    "\<And>v. progress_bounded (cur\<lparr>wp_fps := parse_double_value strtod v (wp_fps cur)\<rparr>)"
    "\<And>v. progress_bounded (cur\<lparr>wp_speed := parse_double_value strtod v (wp_speed cur)\<rparr>)"
    "\<And>v. progress_bounded (cur\<lparr>wp_out_time_us := parse_i64 v (wp_out_time_us cur)\<rparr>)"
    "\<And>v. progress_bounded (cur\<lparr>wp_bitrate := copy_truncated 32 v\<rparr>)"
    "\<And>v. progress_bounded (cur\<lparr>wp_status := copy_truncated 16 v\<rparr>)"
    by (simp_all add: progress_bounded_def parse_i64_range parse_double_finite)
  show ?thesis
  proof (cases "strchr line CHR ''=''")
    case None
    with assms show ?thesis by (simp add: parse_line_def)
  next
    case (Some sep)
    with assms upd show ?thesis by (simp add: parse_line_def parse_field_def)
  qed
qed

definition consume_inv :: "consume_state \<Rightarrow> bool" where
  "consume_inv s \<longleftrightarrow> parser_bounded (cs_parser s) \<and> progress_bounded (cs_progress s)"

lemma consume_byte_inv:
  assumes "consume_inv s"
  shows "consume_inv (consume_byte strtod s c)"
proof -
  let ?p = "cs_parser s"
  obtain cur snap fin where
    pl: "parse_line strtod (pp_current ?p) (cstr (strip_cr (pp_line ?p))) (cs_progress s) = (cur, snap, fin)"
    by (cases "parse_line strtod (pp_current ?p) (cstr (strip_cr (pp_line ?p))) (cs_progress s)") auto
  from assms have b: "progress_bounded (pp_current ?p)" "progress_bounded (cs_progress s)"
      "length (pp_line ?p) < GW_PROGRESS_LINE_CAP"
    by (simp_all add: consume_inv_def parser_bounded_def)
  from parse_line_bounded [OF b(1,2), of strtod "cstr (strip_cr (pp_line ?p))"] pl
  have "progress_bounded cur" "progress_bounded snap" by simp_all
  with b pl show ?thesis
    by (simp add: consume_inv_def consume_byte_def parser_bounded_def Let_def)
qed

lemma consume_loop_inv: "consume_inv s \<Longrightarrow> consume_inv (consume_loop strtod s data)"
  by (rule pp.run_invariant) (auto intro: consume_byte_inv)

lemma consume_bounds:
  assumes "parser_bounded p" and "progress_bounded w"
  shows "case gw_progress_parser_consume strtod p data w err of
           (st, p', w', fin, err') \<Rightarrow> parser_bounded p' \<and> progress_bounded w'"
proof -
  have "consume_inv \<lparr>cs_parser = p, cs_progress = w, cs_completed = False, cs_overflow = False\<rparr>"
    using assms by (simp add: consume_inv_def)
  from consume_loop_inv [OF this, of strtod data] show ?thesis
    by (simp add: gw_progress_parser_consume_def consume_inv_def Let_def)
qed

text \<open>C35: whatever bytes arrive, and whatever \<open>strtod\<close> returns, \<open>gw_progress_parser_consume\<close>
  keeps the line within its 1024 byte buffer with room for the NUL, the copied texts within
  theirs, \<open>out_time_us\<close> in the 64-bit range and the two floating point fields finite, in the
  parser and in the snapshot handed to the caller.\<close>

theorem consume_keeps_bounds:
  assumes "parser_bounded p" and "progress_bounded w"
  shows "case gw_progress_parser_consume strtod p data w err of
           (st, p', w', fin, err') \<Rightarrow> parser_bounded p' \<and> progress_bounded w'"
  using assms by (rule consume_bounds)

definition no_strtod :: strtod_fn where
  "no_strtod s = \<lparr>conv_value = 0, conv_end = s, conv_none = True, conv_erange = False\<rparr>"

theorem consume_keeps_bounds_witness:
  "case gw_progress_parser_consume no_strtod gw_progress_parser_init
          (''frame=7'' @ [LF] @ ''progress=end'' @ [LF]) empty_progress None of
     (st, p', w', fin, err') \<Rightarrow> parser_bounded p' \<and> progress_bounded w'"
proof -
  have "parser_bounded gw_progress_parser_init"
    by (simp add: parser_bounded_def gw_progress_parser_init_def)
  from consume_keeps_bounds [OF this progress_bounded_empty] show ?thesis .
qed

section \<open>Fragmentation\<close>

lemma consume_byte_completed:
  "consume_byte strtod (s\<lparr>cs_completed := d \<or> cs_completed s\<rparr>) c =
   (consume_byte strtod s c)\<lparr>cs_completed := d \<or> cs_completed (consume_byte strtod s c)\<rparr>"
  by (simp add: consume_byte_def Let_def split: prod.splits)

lemma consume_loop_completed:
  "consume_loop strtod (s\<lparr>cs_completed := d \<or> cs_completed s\<rparr>) data =
   (consume_loop strtod s data)\<lparr>cs_completed := d \<or> cs_completed (consume_loop strtod s data)\<rparr>"
proof (induction data arbitrary: s)
  case Nil
  then show ?case by simp
next
  case (Cons c data)
  have ov: "cs_overflow (s\<lparr>cs_completed := d \<or> cs_completed s\<rparr>) = cs_overflow s" by simp
  show ?case
    using Cons.IH [of "consume_byte strtod s c"] by (simp add: consume_byte_completed ov)
qed

text \<open>Feeding a sequence of reads until one of them fails; the flag collects whether any read
  completed a record.\<close>

fun feed ::
  "strtod_fn \<Rightarrow> gw_progress_parser \<Rightarrow> gw_worker_progress \<Rightarrow> string list \<Rightarrow>
   gw_status \<times> gw_progress_parser \<times> gw_worker_progress \<times> bool" where
  "feed strtod p w [] = (GW_OK, p, w, False)"
| "feed strtod p w (d # ds) =
     (case gw_progress_parser_consume strtod p d w None of (st, p', w', fin, _) \<Rightarrow>
        if st \<noteq> GW_OK then (st, p', w', fin)
        else case feed strtod p' w' ds of (st'', p'', w'', fin'') \<Rightarrow> (st'', p'', w'', fin \<or> fin''))"

lemma consume_append:
  assumes "gw_progress_parser_consume strtod p xs w err = (GW_OK, p', w', fin, err')"
  shows "gw_progress_parser_consume strtod p (xs @ ys) w err =
     (case gw_progress_parser_consume strtod p' ys w' err of
        (st, p'', w'', fin', e) \<Rightarrow> (st, p'', w'', fin \<or> fin', e))"
proof -
  let ?s0 = "\<lparr>cs_parser = p, cs_progress = w, cs_completed = False, cs_overflow = False\<rparr>"
  let ?s1 = "consume_loop strtod ?s0 xs"
  from assms have s1: "cs_parser ?s1 = p'" "cs_progress ?s1 = w'" "cs_completed ?s1 = fin"
      "\<not> cs_overflow ?s1"
    by (auto simp: gw_progress_parser_consume_def Let_def split: if_splits)
  then have "?s1 = \<lparr>cs_parser = p', cs_progress = w', cs_completed = False, cs_overflow = False\<rparr>
                     \<lparr>cs_completed := fin \<or> False\<rparr>"
    by simp
  then have "consume_loop strtod ?s0 (xs @ ys) =
      (consume_loop strtod \<lparr>cs_parser = p', cs_progress = w', cs_completed = False, cs_overflow = False\<rparr> ys)
        \<lparr>cs_completed := fin \<or> cs_completed (consume_loop strtod
            \<lparr>cs_parser = p', cs_progress = w', cs_completed = False, cs_overflow = False\<rparr> ys)\<rparr>"
    using pp.run_append [of strtod ?s0 xs ys] consume_loop_completed
      [of strtod fin "\<lparr>cs_parser = p', cs_progress = w', cs_completed = False, cs_overflow = False\<rparr>" ys]
    by simp
  then show ?thesis by (simp add: gw_progress_parser_consume_def Let_def)
qed

lemma feed_concat:
  "fst (feed strtod p w ds) = GW_OK \<Longrightarrow>
   gw_progress_parser_consume strtod p (concat ds) w None =
     (case feed strtod p w ds of (st, p', w', fin) \<Rightarrow> (st, p', w', fin, None))"
proof (induction ds arbitrary: p w)
  case Nil
  then show ?case by (simp add: gw_progress_parser_consume_def)
next
  case (Cons d ds)
  obtain st p' w' fin e where c: "gw_progress_parser_consume strtod p d w None = (st, p', w', fin, e)"
    by (metis prod_cases5)
  from Cons.prems c have st: "st = GW_OK" by (auto split: if_splits)
  with Cons.prems c have "fst (feed strtod p' w' ds) = GW_OK" by (simp split: prod.splits)
  with Cons.IH st c consume_append [of strtod p d w None p' w' fin e "concat ds"]
  show ?case by (auto split: prod.splits)
qed

text \<open>C15: fragmentation does not matter. If the same byte stream is delivered in two different
  sequences of pipe reads and neither delivery meets an overlong line, the parser, the last
  snapshot and the fact that a record was completed are the same.\<close>

theorem fragmentation_independent:
  assumes "concat ds = concat es"
    and "fst (feed strtod p w ds) = GW_OK" and "fst (feed strtod p w es) = GW_OK"
  shows "feed strtod p w ds = feed strtod p w es"
  using feed_concat [OF assms(2)] feed_concat [OF assms(3)] assms(1)
  by (auto split: prod.splits)

theorem fragmentation_independent_witness:
  "feed no_strtod gw_progress_parser_init empty_progress [''fra'', ''me=7'' @ [LF] @ ''pro'', ''gress=end'' @ [LF]]
   = feed no_strtod gw_progress_parser_init empty_progress [''frame=7'' @ [LF], ''progress=end'' @ [LF]]"
  by (rule fragmentation_independent)
    (simp_all add: gw_progress_parser_consume_def consume_byte_def gw_progress_parser_init_def
      empty_progress_def parse_line_def parse_field_def strchr_def strip_cr_def cstr_def copy_truncated_def
      parse_u64_def strtoull_def strto_scan_def isspace_def isdigit_def digits_value_def
      digit_value_def Let_def)

section \<open>Overlong lines\<close>

fun lines_fit :: "nat \<Rightarrow> string \<Rightarrow> bool" where
  "lines_fit n [] = True"
| "lines_fit n (c # cs) =
     (if c = LF then lines_fit 0 cs else n + 1 < GW_PROGRESS_LINE_CAP \<and> lines_fit (n + 1) cs)"

lemma consume_loop_overflow:
  "\<not> cs_overflow s \<Longrightarrow>
   cs_overflow (consume_loop strtod s data) \<longleftrightarrow> \<not> lines_fit (length (pp_line (cs_parser s))) data"
proof (induction data arbitrary: s)
  case Nil
  then show ?case by simp
next
  case (Cons c data)
  consider "c = LF" | "c \<noteq> LF" "length (pp_line (cs_parser s)) + 1 < GW_PROGRESS_LINE_CAP"
    | "c \<noteq> LF" "\<not> length (pp_line (cs_parser s)) + 1 < GW_PROGRESS_LINE_CAP" by blast
  then show ?case
  proof cases
    case 1
    then have "\<not> cs_overflow (consume_byte strtod s c)" "pp_line (cs_parser (consume_byte strtod s c)) = []"
      using Cons.prems by (simp_all add: consume_byte_def Let_def split: prod.splits)
    with 1 Cons show ?thesis by simp
  next
    case 2
    then have "\<not> cs_overflow (consume_byte strtod s c)"
        "pp_line (cs_parser (consume_byte strtod s c)) = pp_line (cs_parser s) @ [c]"
      using Cons.prems by (simp_all add: consume_byte_def Let_def)
    with 2 Cons show ?thesis by simp
  next
    case 3
    then have "cs_overflow (consume_byte strtod s c)"
      using Cons.prems by (simp add: consume_byte_def Let_def)
    with 3 Cons.prems pp.run_stopped show ?thesis by simp
  qed
qed

lemma lines_fit_iff:
  "LF \<notin> set l \<Longrightarrow> length l < GW_PROGRESS_LINE_CAP \<Longrightarrow>
   lines_fit (length l) data \<longleftrightarrow>
     \<not> (\<exists>ys. sublist ys (l @ data) \<and> LF \<notin> set ys \<and> GW_PROGRESS_LINE_CAP \<le> length ys)"
proof (induction data arbitrary: l)
  case Nil
  then show ?case by (auto dest: sublist_length_le)
next
  case (Cons c data)
  show ?case
  proof (cases "c = LF")
    case True
    with Cons.IH [of "[]"] have "lines_fit 0 data \<longleftrightarrow>
        \<not> (\<exists>ys. sublist ys data \<and> LF \<notin> set ys \<and> GW_PROGRESS_LINE_CAP \<le> length ys)" by simp
    moreover have "\<not> (sublist ys l \<and> GW_PROGRESS_LINE_CAP \<le> length ys)" for ys
      using Cons.prems(2) by (auto dest: sublist_length_le)
    ultimately show ?thesis using True sublist_break [of LF _ l data] by auto
  next
    case False
    show ?thesis
    proof (cases "length l + 1 < GW_PROGRESS_LINE_CAP")
      case True
      with Cons False show ?thesis using Cons.IH [of "l @ [c]"] by simp
    next
      case len: False
      have "sublist (l @ [c]) (l @ c # data)"
        by (metis append.assoc append_Cons append_Nil sublist_append_rightI)
      with False len Cons.prems show ?thesis by (auto intro!: exI [of _ "l @ [c]"])
    qed
  qed
qed

text \<open>\<open>gw_progress_parser_consume\<close> returns \<open>GW_ERR_OVERFLOW\<close> exactly when the retained
  bytes followed by the new ones hold 1024 consecutive bytes without a newline, and then drops
  the partial line; in every other case it returns \<open>GW_OK\<close>.\<close>

theorem consume_overflow_iff:
  assumes "LF \<notin> set (pp_line p)" and "length (pp_line p) < GW_PROGRESS_LINE_CAP"
  shows "fst (gw_progress_parser_consume strtod p data w err) =
     (if \<exists>ys. sublist ys (pp_line p @ data) \<and> LF \<notin> set ys \<and> length ys = GW_PROGRESS_LINE_CAP
      then GW_ERR_OVERFLOW else GW_OK)"
proof -
  have "(\<exists>ys. sublist ys (pp_line p @ data) \<and> LF \<notin> set ys \<and> length ys = GW_PROGRESS_LINE_CAP) \<longleftrightarrow>
        (\<exists>ys. sublist ys (pp_line p @ data) \<and> LF \<notin> set ys \<and> GW_PROGRESS_LINE_CAP \<le> length ys)"
    (is "?A \<longleftrightarrow> ?B")
  proof
    assume ?B
    then obtain ys where ys: "sublist ys (pp_line p @ data)" "LF \<notin> set ys" "GW_PROGRESS_LINE_CAP \<le> length ys"
      by blast
    let ?t = "take GW_PROGRESS_LINE_CAP ys"
    have "sublist ?t ys" by (simp add: take_is_prefix prefix_imp_sublist)
    with ys(1) have "sublist ?t (pp_line p @ data)" by (rule sublist_order.order_trans [rotated])
    moreover have "LF \<notin> set ?t" using ys(2) by (meson in_set_takeD)
    ultimately show ?A using ys(3) by (intro exI [of _ ?t]) simp
  qed auto
  then show ?thesis
    using lines_fit_iff [OF assms, of data] consume_loop_overflow
      [of "\<lparr>cs_parser = p, cs_progress = w, cs_completed = False, cs_overflow = False\<rparr>" strtod data]
    by (simp add: gw_progress_parser_consume_def Let_def)
qed

theorem consume_overflow_iff_witness:
  "fst (gw_progress_parser_consume no_strtod gw_progress_parser_init (replicate 1024 CHR ''a'') empty_progress None)
     = GW_ERR_OVERFLOW"
proof -
  define as where "as = replicate 1024 CHR ''a''"
  have as: "length as = GW_PROGRESS_LINE_CAP" "LF \<notin> set as" unfolding as_def by simp_all
  have "fst (gw_progress_parser_consume no_strtod gw_progress_parser_init as empty_progress None) =
     (if \<exists>ys. sublist ys (pp_line gw_progress_parser_init @ as) \<and> LF \<notin> set ys
         \<and> length ys = GW_PROGRESS_LINE_CAP then GW_ERR_OVERFLOW else GW_OK)"
    by (rule consume_overflow_iff) (simp_all add: gw_progress_parser_init_def)
  also have "\<dots> = GW_ERR_OVERFLOW" using as by (auto simp: gw_progress_parser_init_def)
  finally show ?thesis unfolding as_def .
qed

section \<open>Printing and parsing back\<close>

definition clean_text :: "string \<Rightarrow> bool" where
  "clean_text v \<longleftrightarrow> LF \<notin> set v \<and> NUL \<notin> set v \<and> CR \<notin> set v"

definition progress_line :: "string \<Rightarrow> string \<Rightarrow> string" where
  "progress_line key v = key @ CHR ''='' # v @ [LF]"

text \<open>A record the way FFmpeg prints it; \<open>fps_text\<close> and \<open>speed_text\<close> are the decimal texts of
  the two floating point fields.\<close>

definition print_progress :: "string \<Rightarrow> string \<Rightarrow> gw_worker_progress \<Rightarrow> string" where
  "print_progress fps_text speed_text w =
     progress_line ''frame'' (dec_nat (unat (wp_frame w))) @
     progress_line ''fps'' fps_text @
     progress_line ''bitrate'' (wp_bitrate w) @
     progress_line ''out_time_us'' (dec_int (wp_out_time_us w)) @
     progress_line ''drop_frames'' (dec_nat (unat (wp_drop_frames w))) @
     progress_line ''speed'' speed_text @
     progress_line ''progress'' (wp_status w)"

lemma clean_dec_nat: "clean_text (dec_nat n)"
  using dec_nat_digits [of n] by (auto simp: clean_text_def isdigit_def)

lemma clean_dec_int: "clean_text (dec_int i)"
  using clean_dec_nat by (auto simp: clean_text_def dec_int_def)

lemma consume_loop_text:
  "\<not> cs_overflow s \<Longrightarrow> LF \<notin> set body \<Longrightarrow>
   length (pp_line (cs_parser s)) + length body < GW_PROGRESS_LINE_CAP \<Longrightarrow>
   consume_loop strtod s (body @ data) =
     consume_loop strtod (s\<lparr>cs_parser := (cs_parser s)\<lparr>pp_line := pp_line (cs_parser s) @ body\<rparr>\<rparr>) data"
proof (induction body arbitrary: s)
  case Nil
  then show ?case by simp
next
  case (Cons c body)
  from Cons.prems(2) have "c \<noteq> LF" by auto
  with Cons show ?case by (simp add: consume_byte_def Let_def)
qed

abbreviation loop_at :: "gw_worker_progress \<Rightarrow> gw_worker_progress \<Rightarrow> bool \<Rightarrow> consume_state" where
  "loop_at cur snap fin \<equiv> \<lparr>cs_parser = \<lparr>pp_line = [], pp_current = cur\<rparr>, cs_progress = snap,
     cs_completed = fin, cs_overflow = False\<rparr>"

lemma consume_loop_line:
  assumes "clean_text key" "clean_text v" "CHR ''='' \<notin> set key"
    and "length key + length v + 1 < GW_PROGRESS_LINE_CAP"
  shows "consume_loop strtod (loop_at cur snap fin) (progress_line key v @ data) =
     (case parse_field strtod cur key v snap of (cur', snap', fin') \<Rightarrow>
        consume_loop strtod (loop_at cur' snap' (fin \<or> fin')) data)"
proof -
  let ?b = "key @ CHR ''='' # v"
  have b: "LF \<notin> set ?b" "NUL \<notin> set ?b" "CR \<notin> set ?b" using assms by (auto simp: clean_text_def)
  have "last ?b \<noteq> CR" using b(3) last_in_set [of ?b] by (metis Nil_is_append_conv list.distinct(1))
  then have "strip_cr ?b = ?b" by (simp add: strip_cr_def)
  with b(2) have line: "cstr (strip_cr ?b) = ?b" by (simp del: append.simps)
  have "parse_line strtod cur ?b snap = parse_field strtod cur key v snap"
    using assms(3) by (simp add: parse_line_def)
  moreover have "consume_loop strtod (loop_at cur snap fin) (?b @ LF # data) =
        consume_loop strtod ((loop_at cur snap fin)\<lparr>cs_parser := \<lparr>pp_line = ?b, pp_current = cur\<rparr>\<rparr>) (LF # data)"
    using consume_loop_text [of "loop_at cur snap fin" ?b strtod "LF # data"] b(1) assms(4) by simp
  ultimately show ?thesis using line
    by (simp add: progress_line_def consume_byte_def split: prod.splits)
qed

lemma length_dec_u64: "length (dec_nat (unat (x :: u64))) < 1000"
proof -
  have "unat x < 2 ^ LENGTH(64)" by (rule unsigned_less)
  then have "unat x < 10 ^ 20" by simp
  then show ?thesis using length_dec_nat [of "unat x" 20] by simp
qed

lemma length_dec_i64: "is_int64 i \<Longrightarrow> length (dec_int i) < 1000"
proof -
  assume "is_int64 i"
  then have "nat \<bar>i\<bar> < 10 ^ 20" by (auto simp: is_int64_def)
  then have "length (dec_nat (nat \<bar>i\<bar>)) \<le> 20" by (rule length_dec_nat) simp
  then show ?thesis by (auto simp: dec_int_def)
qed

lemma clean_keys:
  "clean_text ''frame''" "clean_text ''fps''" "clean_text ''bitrate''" "clean_text ''out_time_us''"
  "clean_text ''drop_frames''" "clean_text ''speed''" "clean_text ''progress''"
  by (simp_all add: clean_text_def)

text \<open>C32: printing a record in FFmpeg's format and consuming the text gives the record back,
  reports it as completed and leaves the parser empty, provided the two decimal conversions of
  the printed floating point texts return the printed values (documented behaviour of
  \<open>strtod\<close>) and the texts fit their buffers.\<close>

theorem progress_roundtrip:
  assumes "progress_bounded w" and "clean_text (wp_bitrate w)" and "clean_text (wp_status w)"
    and "clean_text fps_text" and "length fps_text < 1000"
    and "clean_text speed_text" and "length speed_text < 1000"
    and "strtod fps_text = \<lparr>conv_value = wp_fps w, conv_end = [], conv_none = False, conv_erange = False\<rparr>"
    and "strtod speed_text = \<lparr>conv_value = wp_speed w, conv_end = ''x'', conv_none = False, conv_erange = False\<rparr>"
  shows "gw_progress_parser_consume strtod gw_progress_parser_init (print_progress fps_text speed_text w) w0 err
         = (GW_OK, gw_progress_parser_init, w, True, gw_error_clear err)"
proof -
  have bnd: "length (wp_bitrate w) < 32" "length (wp_status w) < 16" "isfinite (wp_fps w)"
      "isfinite (wp_speed w)" "is_int64 (wp_out_time_us w)"
    using assms(1) by (simp_all add: progress_bounded_def)
  have fit: "length (dec_nat (unat x)) < 1018" "length (dec_nat (unat x)) < 1012"
      "length (dec_int (wp_out_time_us w)) < 1012" for x :: u64
    using length_dec_u64 [of x] length_dec_i64 [OF bnd(5)] by simp_all
  note fields = parse_field_def parse_u64_def parse_i64_def parse_double_value_def
  have "consume_loop strtod (loop_at empty_progress w0 False) (print_progress fps_text speed_text w @ [])
        = loop_at empty_progress w True"
    using assms bnd fit
    by (simp add: print_progress_def append_assoc consume_loop_line clean_keys clean_dec_nat clean_dec_int
        fields empty_progress_def del: append_Nil2)
  then show ?thesis
    by (simp add: gw_progress_parser_consume_def gw_progress_parser_init_def)
qed

definition sample_progress :: gw_worker_progress where
  "sample_progress = \<lparr>wp_frame = 250, wp_fps = 0x4039000000000000, wp_bitrate = ''1998.2kbits/s'',
     wp_out_time_us = 10000000, wp_drop_frames = 3, wp_speed = 0x3FF0000000000000,
     wp_status = ''continue''\<rparr>"

definition sample_strtod :: strtod_fn where
  "sample_strtod s =
     (if s = ''25.00'' then
        \<lparr>conv_value = 0x4039000000000000, conv_end = [], conv_none = False, conv_erange = False\<rparr>
      else if s = ''1.0x'' then
        \<lparr>conv_value = 0x3FF0000000000000, conv_end = ''x'', conv_none = False, conv_erange = False\<rparr>
      else \<lparr>conv_value = 0, conv_end = s, conv_none = True, conv_erange = False\<rparr>)"

theorem progress_roundtrip_witness:
  "gw_progress_parser_consume sample_strtod gw_progress_parser_init
     (print_progress ''25.00'' ''1.0x'' sample_progress) empty_progress None
   = (GW_OK, gw_progress_parser_init, sample_progress, True, None)"
  using progress_roundtrip [of sample_progress "''25.00''" "''1.0x''" sample_strtod empty_progress None]
  by (simp add: sample_progress_def sample_strtod_def progress_bounded_def clean_text_def is_int64_def
      isfinite_def)

end
