(* ===== verification/Process_Metrics.thy ===== *)
theory Process_Metrics
  imports Gw_Error
begin

text \<open>
  Worker resource sampling (\<^verbatim>\<open>include/gateway/process_metrics.h\<close>,
  \<^verbatim>\<open>src/monitor/process_metrics.c\<close>): reading \<^verbatim>\<open>/proc\<close> files, parsing \<^verbatim>\<open>stat\<close> and
  \<^verbatim>\<open>status\<close>, counting descriptors, and CPU usage between samples. What the kernel answers to
  \<^verbatim>\<open>read\<close>, \<^verbatim>\<open>readdir\<close> and \<^verbatim>\<open>close\<close> is an argument; a call that returns -1 is
  \<open>None\<close>. The four floating point operations of the usage formula are a parameter.
\<close>

abbreviation GW_PROC_TEXT_CAPACITY :: nat where "GW_PROC_TEXT_CAPACITY \<equiv> 65536"

section \<open>Data\<close>

record gw_process_metrics =
  pm_cpu_ticks :: u64
  pm_rss_kib :: int
  pm_fd_count :: nat

record gw_process_metrics_tracker =
  tr_pid :: int
  tr_baseline_valid :: bool
  tr_previous_cpu_ticks :: u64
  tr_previous_time_ns :: int

record gw_process_metrics_snapshot =
  ms_pid :: int
  ms_available :: bool
  ms_cpu_available :: bool
  ms_cpu_percent :: c_double
  ms_rss_kib :: int
  ms_fd_count :: nat

text \<open>One answer of \<^verbatim>\<open>read\<close>: bytes, end of file, an interrupted call, or another error.\<close>

datatype read_result = Read_Data string | Read_Eof | Read_Intr | Read_Error

section \<open>Reading a file\<close>

text \<open>The first loop: the bytes read when it is left, and the answers not consumed; \<open>None\<close> for
  the error return. The list of answers is what the kernel gives from here on; a loop that finds
  the list exhausted is still waiting, which counts as no result.\<close>

fun read_loop :: "nat \<Rightarrow> string \<Rightarrow> read_result list \<Rightarrow> (string \<times> read_result list) option" where
  "read_loop capacity buffer reads =
     (if \<not> length buffer + 1 < capacity then Some (buffer, reads)
      else case reads of
        [] \<Rightarrow> None
      | r # rs \<Rightarrow>
          (case r of
             Read_Data d \<Rightarrow> read_loop capacity (buffer @ d) rs
           | Read_Eof \<Rightarrow> Some (buffer, rs)
           | Read_Intr \<Rightarrow> read_loop capacity buffer rs
           | Read_Error \<Rightarrow> None))"

declare read_loop.simps [simp del]

text \<open>The probe for more data: \<open>do { count = read(fd, &extra, 1) } while (interrupted)\<close>.\<close>

fun probe_extra :: "read_result list \<Rightarrow> bool" where
  "probe_extra [] = True"
| "probe_extra (Read_Intr # rs) = probe_extra rs"
| "probe_extra (Read_Data d # rs) = True"
| "probe_extra (Read_Eof # rs) = False"
| "probe_extra (Read_Error # rs) = False"

record file_answers =
  fa_open :: bool
  fa_reads :: "read_result list"
  fa_close :: bool

definition read_text_file :: "file_answers \<Rightarrow> nat \<Rightarrow> string option" where
  "read_text_file f capacity =
     (if capacity < 2 \<or> \<not> fa_open f then None
      else case read_loop capacity [] (fa_reads f) of
        None \<Rightarrow> None
      | Some (buffer, rest) \<Rightarrow>
          if length buffer + 1 = capacity \<and> probe_extra rest then None
          else if \<not> fa_close f then None
          else Some (cstr buffer))"

section \<open>Parsing\<close>

definition skip_spaces :: "string \<Rightarrow> string" where
  "skip_spaces s = dropWhile (\<lambda>c. c = CHR '' '') s"

text \<open>One field of \<^verbatim>\<open>stat\<close>: the number after the spaces and the rest of the line, which must
  go on with a space, a newline or the end.\<close>

definition field_ends :: "string \<Rightarrow> bool" where
  "field_ends s \<longleftrightarrow> s = [] \<or> hd s = CHR '' '' \<or> hd s = LF"

fun stat_loop :: "nat list \<Rightarrow> string \<Rightarrow> u64 \<Rightarrow> u64 \<Rightarrow> (u64 \<times> u64) option" where
  "stat_loop [] cursor user_ticks system_ticks = Some (user_ticks, system_ticks)"
| "stat_loop (field # later) cursor0 user_ticks system_ticks =
     (let cursor = skip_spaces cursor0 in
      if cursor = [] \<or> hd cursor = LF then None
      else if field < 14 then
        let r = strtoll cursor in
        if conv_erange r \<or> conv_none r \<or> \<not> field_ends (conv_end r) then None
        else stat_loop later (conv_end r) user_ticks system_ticks
      else if hd cursor = CHR ''-'' then None
      else
        let r = strtoull cursor in
        if conv_erange r \<or> conv_none r \<or> \<not> field_ends (conv_end r) then None
        else stat_loop later (conv_end r)
               (if field = 14 then conv_value r else user_ticks)
               (if field = 14 then system_ticks else conv_value r))"

definition gw_process_metrics_parse_stat :: "string \<Rightarrow> u64 option" where
  "gw_process_metrics_parse_stat text =
     (case strrchr text CHR '')'' of
        None \<Rightarrow> None
      | Some close_paren \<Rightarrow>
          if length close_paren < 4 \<or> close_paren ! 1 \<noteq> CHR '' '' \<or> close_paren ! 3 \<noteq> CHR '' '' then None
          else case stat_loop [4..<16] (drop 4 close_paren) 0 0 of
            None \<Rightarrow> None
          | Some (user_ticks, system_ticks) \<Rightarrow>
              if 18446744073709551615 - user_ticks < system_ticks then None
              else Some (user_ticks + system_ticks))"

definition skip_blanks :: "string \<Rightarrow> string" where
  "skip_blanks s = dropWhile (\<lambda>c. c = CHR '' '' \<or> c = TAB) s"

definition parse_rss :: "string \<Rightarrow> int option" where
  "parse_rss after =
     (let r = strtol (skip_blanks after) in
      if conv_erange r \<or> conv_none r \<or> conv_value r < 0 then None
      else
        let e = skip_blanks (conv_end r) in
        if \<not> strncmp_eq e ''kB'' 2 \<or>
           \<not> (drop 2 e = [] \<or> hd (drop 2 e) = LF \<or> hd (drop 2 e) = CR) then None
        else Some (conv_value r))"

function parse_status_lines :: "string \<Rightarrow> int option" where
  "parse_status_lines line =
     (if line = [] then None
      else if strncmp_eq line ''VmRSS:'' 6 then parse_rss (drop 6 line)
      else case strchr line LF of
        None \<Rightarrow> None
      | Some nl \<Rightarrow> parse_status_lines (tl nl))"
  by pat_completeness auto
termination
proof (relation "measure length")
  fix line nl :: string
  assume "line \<noteq> []" and "strchr line LF = Some nl"
  then obtain u where u: "nl = LF # u" "line = takeWhile (\<lambda>x. x \<noteq> LF) line @ nl"
    using strchr_SomeD by blast
  then have "length nl \<le> length line" by (metis length_append le_add2)
  with u show "(tl nl, line) \<in> measure length" by simp
qed simp

declare parse_status_lines.simps [simp del]

definition gw_process_metrics_parse_status :: "string \<Rightarrow> int option" where
  "gw_process_metrics_parse_status text = parse_status_lines text"

text \<open>\<open>None\<close> in the list of entries is a failing \<^verbatim>\<open>readdir\<close>.\<close>

fun count_entries :: "string option list \<Rightarrow> nat \<Rightarrow> nat option" where
  "count_entries [] count = Some count"
| "count_entries (None # es) count = None"
| "count_entries (Some n # es) count =
     count_entries es (if n \<noteq> ''.'' \<and> n \<noteq> ''..'' then count + 1 else count)"

record dir_answers =
  da_open :: bool
  da_entries :: "string option list"
  da_close :: bool

definition count_descriptors :: "dir_answers \<Rightarrow> nat option" where
  "count_descriptors d =
     (if \<not> da_open d then None
      else case count_entries (da_entries d) 0 of
        None \<Rightarrow> None
      | Some n \<Rightarrow> if \<not> da_close d then None else Some n)"

section \<open>Sampling\<close>

definition gw_process_metrics_read :: "(string \<Rightarrow> file_answers) \<Rightarrow> (string \<Rightarrow> dir_answers) \<Rightarrow> int \<Rightarrow> gw_process_metrics option" where
  "gw_process_metrics_read files dirs pid =
     (if pid \<le> 0 then None
      else
        let path = (\<lambda>name. ''/proc/'' @ dec_int pid @ name) in
        if \<not> snprintf_fits 64 (path ''/stat'') then None
        else case read_text_file (files (path ''/stat'')) GW_PROC_TEXT_CAPACITY of
          None \<Rightarrow> None
        | Some stat \<Rightarrow>
            (case gw_process_metrics_parse_stat stat of
               None \<Rightarrow> None
             | Some ticks \<Rightarrow>
                 if \<not> snprintf_fits 64 (path ''/status'') then None
                 else (case read_text_file (files (path ''/status'')) GW_PROC_TEXT_CAPACITY of
                    None \<Rightarrow> None
                  | Some status \<Rightarrow>
                      (case gw_process_metrics_parse_status status of
                         None \<Rightarrow> None
                       | Some rss \<Rightarrow>
                           if \<not> snprintf_fits 64 (path ''/fd'') then None
                           else (case count_descriptors (dirs (path ''/fd'')) of
                              None \<Rightarrow> None
                            | Some n \<Rightarrow> Some \<lparr>pm_cpu_ticks = ticks, pm_rss_kib = rss, pm_fd_count = n\<rparr>)))))"

definition gw_process_metrics_tracker_init :: gw_process_metrics_tracker where
  "gw_process_metrics_tracker_init =
     \<lparr>tr_pid = -1, tr_baseline_valid = False, tr_previous_cpu_ticks = 0, tr_previous_time_ns = 0\<rparr>"

text \<open>The IEEE operations the usage formula needs.\<close>

record fp_ops =
  fp_of_u64 :: "u64 \<Rightarrow> c_double"
  fp_of_i64 :: "int \<Rightarrow> c_double"
  fp_mul :: "c_double \<Rightarrow> c_double \<Rightarrow> c_double"
  fp_div :: "c_double \<Rightarrow> c_double \<Rightarrow> c_double"

definition cpu_formula :: "fp_ops \<Rightarrow> u64 \<Rightarrow> int \<Rightarrow> int \<Rightarrow> c_double" where
  "cpu_formula fp delta_ticks hz delta_time_ns =
     fp_div fp
       (fp_mul fp (fp_mul fp (fp_of_u64 fp delta_ticks) 0x4059000000000000) 0x41CDCD6500000000)
       (fp_mul fp (fp_of_i64 fp hz) (fp_of_i64 fp delta_time_ns))"

definition gw_process_metrics_tracker_update ::
  "fp_ops \<Rightarrow> gw_process_metrics_tracker \<Rightarrow> int \<Rightarrow> gw_process_metrics option \<Rightarrow> int \<Rightarrow> int \<Rightarrow>
   gw_process_metrics_tracker \<times> gw_process_metrics_snapshot" where
  "gw_process_metrics_tracker_update fp tracker pid metrics sample_time_ns hz =
     (let s0 = \<lparr>ms_pid = pid, ms_available = False, ms_cpu_available = False, ms_cpu_percent = 0,
                ms_rss_kib = 0, ms_fd_count = 0\<rparr>
      in case metrics of
        None \<Rightarrow> (gw_process_metrics_tracker_init, s0)
      | Some m \<Rightarrow>
          if pid \<le> 0 \<or> sample_time_ns \<le> 0 \<or> hz \<le> 0 then (gw_process_metrics_tracker_init, s0)
          else
            let same_baseline = tr_baseline_valid tracker \<and> tr_pid tracker = pid \<and>
                  sample_time_ns > tr_previous_time_ns tracker \<and>
                  pm_cpu_ticks m \<ge> tr_previous_cpu_ticks tracker;
                s1 = s0\<lparr>ms_available := True, ms_rss_kib := pm_rss_kib m, ms_fd_count := pm_fd_count m\<rparr>;
                s2 = (if same_baseline then
                        s1\<lparr>ms_cpu_percent :=
                             cpu_formula fp (pm_cpu_ticks m - tr_previous_cpu_ticks tracker) hz
                               (sample_time_ns - tr_previous_time_ns tracker),
                           ms_cpu_available := True\<rparr>
                      else s1)
            in (\<lparr>tr_pid = pid, tr_baseline_valid = True, tr_previous_cpu_ticks = pm_cpu_ticks m,
                 tr_previous_time_ns = sample_time_ns\<rparr>, s2))"

section \<open>A file is read whole or not at all\<close>

text \<open>What \<^verbatim>\<open>read\<close> may answer before the end of the file: interruptions, and between one and
  the requested number of bytes (one byte in the final probe).\<close>

fun kernel_reads :: "nat \<Rightarrow> nat \<Rightarrow> read_result list \<Rightarrow> bool" where
  "kernel_reads capacity used [] = True"
| "kernel_reads capacity used (Read_Intr # rs) = kernel_reads capacity used rs"
| "kernel_reads capacity used (Read_Data d # rs) \<longleftrightarrow>
     d \<noteq> [] \<and> (used + 1 < capacity \<longrightarrow> used + length d < capacity) \<and>
     kernel_reads capacity (used + length d) rs"
| "kernel_reads capacity used (r # rs) = False"

fun read_bytes :: "read_result list \<Rightarrow> string" where
  "read_bytes [] = []"
| "read_bytes (Read_Data d # rs) = d @ read_bytes rs"
| "read_bytes (r # rs) = read_bytes rs"

lemma probe_extra_kernel:
  "kernel_reads capacity used rs \<Longrightarrow> probe_extra (rs @ [Read_Eof]) \<longleftrightarrow> read_bytes rs \<noteq> []"
proof (induction rs)
  case Nil
  then show ?case by simp
next
  case (Cons r rs)
  then show ?case by (cases r) auto
qed

lemma read_loop_kernel:
  assumes "kernel_reads capacity (length buffer) rs" and "length buffer < capacity"
  shows "if length buffer + length (read_bytes rs) + 1 < capacity
         then read_loop capacity buffer (rs @ [Read_Eof]) = Some (buffer @ read_bytes rs, [])
         else \<exists>b rs'. read_loop capacity buffer (rs @ [Read_Eof]) = Some (b, rs' @ [Read_Eof]) \<and>
                length b + 1 = capacity \<and> buffer @ read_bytes rs = b @ read_bytes rs' \<and>
                kernel_reads capacity (length b) rs'"
  using assms
proof (induction rs arbitrary: buffer)
  case Nil
  then show ?case by (auto simp: read_loop.simps [of capacity buffer] intro!: exI [of _ "[]"])
next
  case (Cons r rs)
  show ?case
  proof (cases "length buffer + 1 < capacity")
    case False
    with Cons.prems show ?thesis
      by (auto simp: read_loop.simps [of capacity buffer] intro!: exI [of _ "r # rs"])
  next
    case True
    show ?thesis
    proof (cases r)
      case (Read_Data d)
      with Cons.prems True Cons.IH [of "buffer @ d"] show ?thesis
        by (auto simp: read_loop.simps [of capacity buffer] split: if_splits)
    next
      case Read_Intr
      have "read_loop capacity buffer ((Read_Intr # rs) @ [Read_Eof]) = read_loop capacity buffer (rs @ [Read_Eof])"
        using True by (subst read_loop.simps) simp
      with Read_Intr Cons.prems Cons.IH [of buffer] show ?thesis by (auto split: if_splits)
    qed (use Cons.prems in simp_all)
  qed
qed

text \<open>However the kernel splits the answers of \<^verbatim>\<open>read\<close> and however often it interrupts them,
  \<open>read_text_file\<close> returns exactly the contents of a file that fits the buffer with its NUL, and
  fails for a longer file: it never hands on a truncated text.\<close>

theorem read_text_file_whole:
  assumes "2 \<le> capacity" and "kernel_reads capacity 0 rs" and "NUL \<notin> set (read_bytes rs)"
  shows "read_text_file \<lparr>fa_open = True, fa_reads = rs @ [Read_Eof], fa_close = True\<rparr> capacity =
     (if length (read_bytes rs) < capacity then Some (read_bytes rs) else None)"
proof (cases "length (read_bytes rs) + 1 < capacity")
  case True
  with assms read_loop_kernel [of capacity "[]" rs] show ?thesis by (simp add: read_text_file_def)
next
  case False
  then obtain b rs' where b: "read_loop capacity [] (rs @ [Read_Eof]) = Some (b, rs' @ [Read_Eof])"
      "length b + 1 = capacity" "read_bytes rs = b @ read_bytes rs'" "kernel_reads capacity (length b) rs'"
    using read_loop_kernel [of capacity "[]" rs] assms by auto
  with assms probe_extra_kernel [OF b(4)] show ?thesis
    by (cases "read_bytes rs' = []") (auto simp: read_text_file_def)
qed

theorem read_text_file_whole_witness:
  "read_text_file \<lparr>fa_open = True,
     fa_reads = [Read_Data ''12 (a'', Read_Intr, Read_Data '') S''] @ [Read_Eof], fa_close = True\<rparr> 65536
   = Some ''12 (a) S''"
  using read_text_file_whole [of 65536 "[Read_Data ''12 (a'', Read_Intr, Read_Data '') S'']"] by simp

section \<open>Parsing what the kernel prints\<close>

text \<open>A line of \<^verbatim>\<open>/proc/<pid>/stat\<close>: pid, command in parentheses, state, the fields 4 to 13,
  user and system ticks (fields 14 and 15), and the rest.\<close>

definition stat_line :: "int \<Rightarrow> string \<Rightarrow> char \<Rightarrow> int list \<Rightarrow> u64 \<Rightarrow> u64 \<Rightarrow> string \<Rightarrow> string" where
  "stat_line pid comm state ints utime stime rest =
     dec_int pid @ '' ('' @ comm @ '') '' @ [state] @ concat (map (\<lambda>i. CHR '' '' # dec_int i) ints) @
     CHR '' '' # dec_nat (unat utime) @ CHR '' '' # dec_nat (unat stime) @ rest"

lemma field_ends_not_digit: "field_ends s \<Longrightarrow> s = [] \<or> \<not> isdigit (hd s)"
  by (auto simp: field_ends_def isdigit_def)

lemma hd_dec_int: "hd (dec_int i @ rest) = CHR ''-'' \<or> isdigit (hd (dec_int i @ rest))"
  using hd_dec_nat_digit by (auto simp: dec_int_def)

lemma skip_spaces_number:
  "skip_spaces (CHR '' '' # dec_int i @ rest) = dec_int i @ rest"
  "skip_spaces (CHR '' '' # dec_nat n @ rest) = dec_nat n @ rest"
proof -
  have "s \<noteq> [] \<Longrightarrow> hd s \<noteq> CHR '' '' \<Longrightarrow> skip_spaces (CHR '' '' # s) = s" for s
    by (cases s) (auto simp: skip_spaces_def)
  moreover have "dec_int i @ rest \<noteq> []" "dec_nat n @ rest \<noteq> []" by (auto simp: dec_int_def)
  moreover have "hd (dec_int i @ rest) \<noteq> CHR '' ''" "hd (dec_nat n @ rest) \<noteq> CHR '' ''"
    using hd_dec_int [of i rest] hd_dec_nat_digit [of n rest] by (auto simp: isdigit_def)
  ultimately show "skip_spaces (CHR '' '' # dec_int i @ rest) = dec_int i @ rest"
    "skip_spaces (CHR '' '' # dec_nat n @ rest) = dec_nat n @ rest" by blast+
qed

lemma stat_loop_int:
  assumes "f < 14" and "is_int64 i" and "field_ends rest"
  shows "stat_loop (f # fs) (CHR '' '' # dec_int i @ rest) u s = stat_loop fs rest u s"
proof -
  have "hd (dec_int i @ rest) \<noteq> LF" using hd_dec_int [of i rest] by (auto simp: isdigit_def)
  moreover have "dec_int i \<noteq> []" by (auto simp: dec_int_def)
  ultimately show ?thesis
    using assms strtoll_dec_int_rest [OF assms(2) field_ends_not_digit [OF assms(3)]]
    by (simp add: skip_spaces_number Let_def)
qed

lemma stat_loop_ints:
  "list_all is_int64 is \<Longrightarrow> length fs = length is \<Longrightarrow> list_all (\<lambda>f. f < 14) fs \<Longrightarrow> field_ends rest \<Longrightarrow>
   stat_loop (fs @ gs) (concat (map (\<lambda>i. CHR '' '' # dec_int i) is) @ rest) u s = stat_loop gs rest u s"
proof (induction "is" arbitrary: fs)
  case Nil
  then show ?case by simp
next
  case (Cons i "is")
  then obtain f fs' where fs: "fs = f # fs'" by (cases fs) auto
  have "field_ends (concat (map (\<lambda>i. CHR '' '' # dec_int i) is) @ rest)"
    using Cons.prems(4) by (cases "is") (auto simp: field_ends_def)
  with Cons fs show ?case by (simp add: stat_loop_int del: stat_loop.simps)
qed

lemma stat_loop_space: "stat_loop (f # fs) (CHR '' '' # c) u s = stat_loop (f # fs) c u s"
  by (simp add: skip_spaces_def)

lemma stat_loop_ticks:
  assumes "field_ends rest"
  shows "stat_loop [14, 15] (CHR '' '' # dec_nat (unat a) @ CHR '' '' # dec_nat (unat b) @ rest) u s = Some (a, b)"
proof -
  have m: "hd (dec_nat n @ r) \<noteq> CHR ''-''" "hd (dec_nat n @ r) \<noteq> LF" for n r
    using hd_dec_nat_digit [of n r] by (auto simp: isdigit_def)
  have "field_ends (CHR '' '' # r)" for r by (simp add: field_ends_def)
  then show ?thesis
    using assms m strtoull_dec_nat_rest [of "CHR '' '' # dec_nat (unat b) @ rest" a]
      strtoull_dec_nat_rest [OF field_ends_not_digit [OF assms], of b]
    by (simp add: skip_spaces_number Let_def isdigit_def)
qed

lemma add_fits_u64: "18446744073709551615 - a < b \<longleftrightarrow> \<not> unat a + unat b < 2 ^ 64" for a b :: u64
proof -
  have "(18446744073709551615 :: u64) = - 1" by simp
  then have "a \<le> 18446744073709551615" by (simp only: word_order.extremum)
  then have "unat (18446744073709551615 - a) = unat (18446744073709551615 :: u64) - unat a"
    by (rule unat_sub)
  moreover have "unat a < 2 ^ LENGTH(64)" by (rule unsigned_less)
  ultimately show ?thesis by (simp add: word_less_nat_alt) linarith
qed

lemma dec_int_no_paren: "CHR '')'' \<notin> set (dec_int i)" "CHR '')'' \<notin> set (dec_nat n)"
  using dec_nat_digits [of "nat i"] dec_nat_digits [of "nat (- i)"] dec_nat_digits [of n]
  by (auto simp: dec_int_def isdigit_def)

text \<open>The parser reads the CPU time out of every line the kernel prints, whatever the command
  name is (spaces and parentheses included): the sum of user and system ticks, or failure when the
  sum does not fit 64 bits.\<close>

theorem parse_stat_any_command:
  assumes "list_all is_int64 ints" and "length ints = 10" and "state \<noteq> CHR '')''"
    and "field_ends rest" and "CHR '')'' \<notin> set rest"
  shows "gw_process_metrics_parse_stat (stat_line pid comm state ints utime stime rest) =
     (if unat utime + unat stime < 2 ^ 64 then Some (utime + stime) else None)"
proof -
  let ?tail = "concat (map (\<lambda>i. CHR '' '' # dec_int i) ints) @
     CHR '' '' # dec_nat (unat utime) @ CHR '' '' # dec_nat (unat stime) @ rest"
  let ?close = "CHR '')'' # CHR '' '' # state # ?tail"
  obtain i0 ints' where i: "ints = i0 # ints'" using assms(2) by (cases ints) auto
  have "CHR '')'' \<notin> set (CHR '' '' # state # ?tail)"
    using assms(3,5) dec_int_no_paren by auto
  then have sr: "strrchr ((dec_int pid @ '' ('' @ comm) @ ?close) CHR '')'' = Some ?close"
    by (rule strrchr_last)
  define d where "d = dec_int i0 @ concat (map (\<lambda>i. CHR '' '' # dec_int i) ints') @
     CHR '' '' # dec_nat (unat utime) @ CHR '' '' # dec_nat (unat stime) @ rest"
  have shape: "\<not> length ?close < 4" "?close ! 1 = CHR '' ''" "?close ! 3 = CHR '' ''"
      "drop 4 ?close = d" and tail: "?tail = CHR '' '' # d" by (simp_all add: i d_def)
  have fields: "[4..<16] = [4..<14] @ [14, 15]" "[4..<16] = 4 # [5..<16]" by simp_all
  have "stat_loop [4..<16] d 0 0 = stat_loop [4..<16] ?tail 0 0"
    unfolding tail fields(2) stat_loop_space ..
  also have "\<dots> = stat_loop [14, 15] (CHR '' '' # dec_nat (unat utime) @ CHR '' '' # dec_nat (unat stime) @ rest) 0 0"
    unfolding fields(1) using assms(1,2)
    by (intro stat_loop_ints) (simp_all add: field_ends_def)
  also have "\<dots> = Some (utime, stime)" by (rule stat_loop_ticks [OF assms(4)])
  finally have loop: "stat_loop [4..<16] d 0 0 = Some (utime, stime)" .
  have "stat_line pid comm state ints utime stime rest = (dec_int pid @ '' ('' @ comm) @ ?close"
    by (simp add: stat_line_def)
  then have "gw_process_metrics_parse_stat (stat_line pid comm state ints utime stime rest) =
      (if 18446744073709551615 - utime < stime then None else Some (utime + stime))"
    unfolding gw_process_metrics_parse_stat_def using sr shape loop
    by (simp only: option.case prod.case if_False simp_thms)
  then show ?thesis unfolding add_fits_u64 by simp
qed

theorem parse_stat_any_command_witness:
  "gw_process_metrics_parse_stat
     (stat_line 42 ''a) S 9 (b'' CHR ''R'' [1, 42, 42, 0, -1, 4194304, 100, 0, 5, 0] 700 80 '' 0 0'') = Some 780"
  using parse_stat_any_command [of "[1, 42, 42, 0, -1, 4194304, 100, 0, 5, 0]" "CHR ''R''" "'' 0 0''" 42 "''a) S 9 (b''" 700 80]
  by (simp add: is_int64_def field_ends_def)

text \<open>A \<^verbatim>\<open>status\<close> file: lines of other keys, then the resident set size in kB.\<close>

definition status_text :: "string list \<Rightarrow> string \<Rightarrow> nat \<Rightarrow> string \<Rightarrow> string" where
  "status_text before blanks kib after =
     concat (map (\<lambda>l. l @ [LF]) before) @ ''VmRSS:'' @ blanks @ dec_nat kib @ '' kB'' @ LF # after"

lemma vmrss_prefix_iff: "strncmp_eq s ''VmRSS:'' 6 \<longleftrightarrow> prefix ''VmRSS:'' s"
proof -
  have "prefix ''VmRSS:'' s \<longleftrightarrow> take (length ''VmRSS:'') s = ''VmRSS:''"
    by (metis append_eq_conv_conj prefix_def take_is_prefix)
  then show ?thesis by (simp add: strncmp_eq_def eval_nat_numeral)
qed

lemma parse_status_skip_line:
  assumes "LF \<notin> set l" and "\<not> prefix ''VmRSS:'' (l @ LF # rest)"
  shows "parse_status_lines (l @ LF # rest) = parse_status_lines rest"
  using assms strchr_append [OF assms(1), of rest]
  by (subst parse_status_lines.simps) (simp add: vmrss_prefix_iff)

lemma parse_status_skip_lines:
  "list_all (\<lambda>l. LF \<notin> set l \<and> \<not> prefix ''VmRSS:'' l) ls \<Longrightarrow>
   parse_status_lines (concat (map (\<lambda>l. l @ [LF]) ls) @ rest) = parse_status_lines rest"
proof (induction ls)
  case Nil
  then show ?case by simp
next
  case (Cons l ls)
  have "\<not> prefix ''VmRSS:'' (l @ LF # r)" for r
  proof
    assume p: "prefix ''VmRSS:'' (l @ LF # r)"
    show False
    proof (cases "length ''VmRSS:'' \<le> length l")
      case True
      have "prefix l (l @ LF # r)" by simp
      from prefix_length_prefix [OF p this True] Cons.prems show False by simp
    next
      case False
      have "prefix (l @ [LF]) (l @ LF # r)" by simp
      from prefix_length_prefix [OF this p] False have "prefix (l @ [LF]) ''VmRSS:''" by simp
      then have "LF \<in> set ''VmRSS:''" using set_mono_prefix by fastforce
      then show False by simp
    qed
  qed
  with Cons show ?case by (simp add: parse_status_skip_line)
qed

lemma parse_rss_value:
  assumes "\<forall>c \<in> set blanks. c = CHR '' '' \<or> c = TAB" and "int kib \<le> LONG_MAX"
  shows "parse_rss (blanks @ dec_nat kib @ '' kB'' @ LF # after) = Some (int kib)"
proof -
  let ?unit = "'' kB'' @ LF # after"
  have "hd (dec_nat kib @ ?unit) \<noteq> CHR '' '' \<and> hd (dec_nat kib @ ?unit) \<noteq> TAB"
    using hd_dec_nat_digit [of kib ?unit] by (auto simp: isdigit_def)
  then have "skip_blanks (dec_nat kib @ ?unit) = dec_nat kib @ ?unit"
    by (cases "dec_nat kib") (simp_all add: skip_blanks_def)
  then have sk: "skip_blanks (blanks @ dec_nat kib @ ?unit) = dec_nat kib @ ?unit"
    using assms(1) by (induction blanks) (simp_all add: skip_blanks_def)
  have "strtol (dec_int (int kib) @ ?unit) =
      \<lparr>conv_value = int kib, conv_end = ?unit, conv_none = False, conv_erange = False\<rparr>"
    using assms(2) by (intro strtoll_dec_int_rest) (simp_all add: is_int64_def isdigit_def)
  then have "strtol (dec_nat kib @ ?unit) =
      \<lparr>conv_value = int kib, conv_end = ?unit, conv_none = False, conv_erange = False\<rparr>"
    by (simp add: dec_int_def)
  then show ?thesis
    unfolding parse_rss_def sk by (simp add: skip_blanks_def strncmp_eq_def Let_def)
qed

text \<open>The resident set size is found whatever other lines precede it and whatever blanks the
  kernel puts before the number.\<close>

theorem parse_status_finds_rss:
  assumes "list_all (\<lambda>l. LF \<notin> set l \<and> \<not> prefix ''VmRSS:'' l) before"
    and "\<forall>c \<in> set blanks. c = CHR '' '' \<or> c = TAB" and "int kib \<le> LONG_MAX"
  shows "gw_process_metrics_parse_status (status_text before blanks kib after) = Some (int kib)"
proof -
  let ?l = "''VmRSS:'' @ blanks @ dec_nat kib @ '' kB'' @ LF # after"
  have "parse_status_lines ?l = parse_rss (drop 6 ?l)"
    by (subst parse_status_lines.simps) (simp add: vmrss_prefix_iff)
  also have "drop 6 ?l = blanks @ dec_nat kib @ '' kB'' @ LF # after" by simp
  finally show ?thesis
    unfolding gw_process_metrics_parse_status_def status_text_def parse_status_skip_lines [OF assms(1)]
    using parse_rss_value [OF assms(2,3)] by simp
qed

theorem parse_status_finds_rss_witness:
  "gw_process_metrics_parse_status
     (status_text [''Name: ffmpeg'', ''VmPeak: 9000 kB''] [TAB, CHR '' ''] 5120 ''Threads: 4'') = Some 5120"
  using parse_status_finds_rss [of "[''Name: ffmpeg'', ''VmPeak: 9000 kB'']" "[TAB, CHR '' '']" 5120] by simp

section \<open>CPU usage between samples\<close>

text \<open>CPU usage is reported for the second of two samples exactly when both are of the same
  process, time has advanced and the tick counter did not go back, and then from the exact
  differences (no wrap-around); a sample of another process, or after a failed sample, only sets a
  new baseline.\<close>

theorem cpu_usage_between_samples:
  assumes "0 < pid1" "0 < pid2" "0 < t1" "0 < t2" "0 < hz"
    and "gw_process_metrics_tracker_update fp tr pid1 (Some m1) t1 hz = (tr1, s1)"
    and "gw_process_metrics_tracker_update fp tr1 pid2 (Some m2) t2 hz = (tr2, s2)"
  shows "ms_available s2 \<and> ms_rss_kib s2 = pm_rss_kib m2 \<and>
     ms_cpu_available s2 = (pid1 = pid2 \<and> t1 < t2 \<and> pm_cpu_ticks m1 \<le> pm_cpu_ticks m2) \<and>
     (if ms_cpu_available s2
      then ms_cpu_percent s2 =
             cpu_formula fp (of_nat (unat (pm_cpu_ticks m2) - unat (pm_cpu_ticks m1))) hz (t2 - t1)
      else ms_cpu_percent s2 = 0)"
proof -
  have "pm_cpu_ticks m1 \<le> pm_cpu_ticks m2 \<Longrightarrow>
      pm_cpu_ticks m2 - pm_cpu_ticks m1 = of_nat (unat (pm_cpu_ticks m2) - unat (pm_cpu_ticks m1))"
    by (simp add: of_nat_diff word_le_nat_alt)
  with assms show ?thesis
    by (auto simp: gw_process_metrics_tracker_update_def Let_def split: if_splits)
qed

definition unit_fp :: fp_ops where
  "unit_fp = \<lparr>fp_of_u64 = (\<lambda>x. x), fp_of_i64 = of_int, fp_mul = (*), fp_div = (div)\<rparr>"

theorem cpu_usage_between_samples_witness:
  "ms_cpu_available (snd (gw_process_metrics_tracker_update unit_fp
     (fst (gw_process_metrics_tracker_update unit_fp gw_process_metrics_tracker_init 7
        (Some \<lparr>pm_cpu_ticks = 100, pm_rss_kib = 1, pm_fd_count = 3\<rparr>) 1000 100))
     7 (Some \<lparr>pm_cpu_ticks = 150, pm_rss_kib = 1, pm_fd_count = 3\<rparr>) 2000 100))"
proof -
  let ?m = "\<lambda>c. \<lparr>pm_cpu_ticks = c, pm_rss_kib = 1, pm_fd_count = 3\<rparr>"
  let ?u = "\<lambda>tr c t. gw_process_metrics_tracker_update unit_fp tr 7 (Some (?m c)) t 100"
  let ?one = "?u gw_process_metrics_tracker_init 100 1000"
  let ?two = "?u (fst ?one) 150 2000"
  have "ms_cpu_available (snd ?two) =
      ((7 :: int) = 7 \<and> (1000 :: int) < 2000 \<and> pm_cpu_ticks (?m 100) \<le> pm_cpu_ticks (?m 150))"
    using cpu_usage_between_samples [of 7 7 1000 2000 100 unit_fp gw_process_metrics_tracker_init "?m 100"
      "fst ?one" "snd ?one" "?m 150" "fst ?two" "snd ?two"] by simp
  then show ?thesis by simp
qed

end
