(* ===== verification/Channel_Snapshot.thy ===== *)
theory Channel_Snapshot
  imports Channel_State Progress_Parser Process_Metrics
begin

text \<open>
  The status record observers see (\<^verbatim>\<open>include/gateway/channel_snapshot.h\<close>,
  \<^verbatim>\<open>src/channel/channel_snapshot.c\<close>). The \<open>event\<close> argument is never null at a call site, so
  it is a plain string here; it is cut to the 63 bytes of its buffer.
\<close>

abbreviation GW_EVENT_CAP :: nat where "GW_EVENT_CAP \<equiv> 64"

section \<open>Data and operations\<close>

datatype gw_channel_process_kind = GW_CHANNEL_PROCESS_NONE | GW_CHANNEL_PROCESS_WORKER

record gw_channel_snapshot =
  sn_channel_id :: string
  sn_state :: gw_channel_state
  sn_last_event :: string
  sn_process_kind :: gw_channel_process_kind
  sn_process_pid :: int
  sn_has_exit_code :: bool
  sn_last_exit_code :: int
  sn_consecutive_failures :: u32
  sn_total_restarts :: u64
  sn_configuration_generation :: u64
  sn_backoff_sec :: int
  sn_has_progress :: bool
  sn_progress :: gw_worker_progress
  sn_worker_metrics :: gw_process_metrics_snapshot

definition no_metrics :: gw_process_metrics_snapshot where
  "no_metrics = \<lparr>ms_pid = -1, ms_available = False, ms_cpu_available = False, ms_cpu_percent = 0,
     ms_rss_kib = 0, ms_fd_count = 0\<rparr>"

definition set_event :: "gw_channel_snapshot \<Rightarrow> string \<Rightarrow> gw_channel_snapshot" where
  "set_event snapshot event = snapshot\<lparr>sn_last_event := snprintf_text GW_EVENT_CAP event\<rparr>"

definition gw_channel_snapshot_init :: "gw_channel_config \<Rightarrow> gw_channel_snapshot" where
  "gw_channel_snapshot_init channel =
     set_event
       \<lparr>sn_channel_id = snprintf_text GW_ID_CAP (ch_id channel),
        sn_state = (if ch_enabled channel then GW_CHANNEL_STOPPED else GW_CHANNEL_DISABLED),
        sn_last_event = [], sn_process_kind = GW_CHANNEL_PROCESS_NONE, sn_process_pid = -1,
        sn_has_exit_code = False, sn_last_exit_code = -1, sn_consecutive_failures = 0,
        sn_total_restarts = 0, sn_configuration_generation = 0, sn_backoff_sec = 0,
        sn_has_progress = False, sn_progress = empty_progress, sn_worker_metrics = no_metrics\<rparr>
       ''initialized''"

definition gw_channel_snapshot_update_runtime ::
  "gw_channel_snapshot \<Rightarrow> gw_channel_runtime \<Rightarrow> string \<Rightarrow> gw_channel_snapshot" where
  "gw_channel_snapshot_update_runtime snapshot runtime event =
     set_event
       (snapshot\<lparr>sn_state := rt_state runtime, sn_consecutive_failures := rt_consecutive_failures runtime,
          sn_total_restarts := rt_total_restarts runtime, sn_backoff_sec := rt_backoff_sec runtime\<rparr>)
       event"

definition gw_channel_snapshot_set_process ::
  "gw_channel_snapshot \<Rightarrow> gw_channel_process_kind \<Rightarrow> int \<Rightarrow> string \<Rightarrow> gw_channel_snapshot" where
  "gw_channel_snapshot_set_process snapshot kind pid event =
     (let s = (if kind = GW_CHANNEL_PROCESS_WORKER \<and>
                  (sn_process_kind snapshot \<noteq> kind \<or> sn_process_pid snapshot \<noteq> pid)
               then snapshot\<lparr>sn_progress := empty_progress, sn_has_progress := False\<rparr>
               else snapshot)
      in set_event
           (s\<lparr>sn_process_kind := kind, sn_process_pid := pid, sn_has_exit_code := False,
              sn_last_exit_code := -1\<rparr>)
           event)"

definition gw_channel_snapshot_clear_process ::
  "gw_channel_snapshot \<Rightarrow> int \<Rightarrow> string \<Rightarrow> gw_channel_snapshot" where
  "gw_channel_snapshot_clear_process snapshot exit_code event =
     set_event
       (snapshot\<lparr>sn_process_kind := GW_CHANNEL_PROCESS_NONE, sn_process_pid := -1,
          sn_has_exit_code := True, sn_last_exit_code := exit_code\<rparr>)
       event"

definition gw_channel_snapshot_clear_live_data :: "gw_channel_snapshot \<Rightarrow> gw_channel_snapshot" where
  "gw_channel_snapshot_clear_live_data snapshot =
     snapshot\<lparr>sn_has_progress := False, sn_progress := empty_progress, sn_worker_metrics := no_metrics\<rparr>"

definition gw_channel_snapshot_set_progress ::
  "gw_channel_snapshot \<Rightarrow> gw_worker_progress \<Rightarrow> string \<Rightarrow> gw_channel_snapshot" where
  "gw_channel_snapshot_set_progress snapshot progress event =
     set_event (snapshot\<lparr>sn_progress := progress, sn_has_progress := True\<rparr>) event"

fun gw_channel_process_kind_string :: "gw_channel_process_kind \<Rightarrow> string" where
  "gw_channel_process_kind_string GW_CHANNEL_PROCESS_NONE = ''NONE''"
| "gw_channel_process_kind_string GW_CHANNEL_PROCESS_WORKER = ''WORKER''"

lemmas snapshot_op_defs = set_event_def gw_channel_snapshot_init_def
  gw_channel_snapshot_update_runtime_def gw_channel_snapshot_set_process_def
  gw_channel_snapshot_clear_process_def gw_channel_snapshot_clear_live_data_def
  gw_channel_snapshot_set_progress_def

section \<open>Consistency\<close>

text \<open>What every observer may rely on: a worker is named exactly by a positive pid, a live worker
  has no exit code, the texts fit their buffers, the numbers are printable, and there is no
  progress data without the flag.\<close>

definition snapshot_inv :: "gw_channel_snapshot \<Rightarrow> bool" where
  "snapshot_inv s \<longleftrightarrow>
     (sn_process_kind s = GW_CHANNEL_PROCESS_WORKER \<longrightarrow> 0 < sn_process_pid s \<and> \<not> sn_has_exit_code s) \<and>
     (sn_process_kind s = GW_CHANNEL_PROCESS_NONE \<longrightarrow> sn_process_pid s = -1) \<and>
     (\<not> sn_has_exit_code s \<longrightarrow> sn_last_exit_code s = -1) \<and>
     (\<not> sn_has_progress s \<longrightarrow> sn_progress s = empty_progress) \<and>
     length (sn_channel_id s) < GW_ID_CAP \<and> length (sn_last_event s) < GW_EVENT_CAP \<and>
     progress_bounded (sn_progress s)"

lemma length_event: "length (snprintf_text GW_EVENT_CAP e) < GW_EVENT_CAP"
  by (rule length_snprintf_text) simp

lemma snapshot_init_inv: "snapshot_inv (gw_channel_snapshot_init c)"
  using length_event length_snprintf_text [of GW_ID_CAP "ch_id c"]
  by (simp add: snapshot_inv_def snapshot_op_defs)

lemma update_runtime_inv: "snapshot_inv s \<Longrightarrow> snapshot_inv (gw_channel_snapshot_update_runtime s r e)"
  using length_event [of e] by (simp add: snapshot_inv_def snapshot_op_defs)

lemma set_process_inv:
  "snapshot_inv s \<Longrightarrow> 0 < pid \<Longrightarrow>
   snapshot_inv (gw_channel_snapshot_set_process s GW_CHANNEL_PROCESS_WORKER pid e)"
  using length_event [of e] by (simp add: snapshot_inv_def snapshot_op_defs Let_def)

lemma clear_process_inv: "snapshot_inv s \<Longrightarrow> snapshot_inv (gw_channel_snapshot_clear_process s code e)"
  using length_event [of e] by (simp add: snapshot_inv_def snapshot_op_defs)

lemma clear_live_data_inv: "snapshot_inv s \<Longrightarrow> snapshot_inv (gw_channel_snapshot_clear_live_data s)"
  by (simp add: snapshot_inv_def snapshot_op_defs)

lemma set_progress_inv:
  "snapshot_inv s \<Longrightarrow> progress_bounded w \<Longrightarrow> snapshot_inv (gw_channel_snapshot_set_progress s w e)"
  using length_event [of e] by (simp add: snapshot_inv_def snapshot_op_defs)

lemma metrics_update_inv: "snapshot_inv s \<Longrightarrow> snapshot_inv (s\<lparr>sn_worker_metrics := m\<rparr>)"
  by (simp add: snapshot_inv_def)

lemma generation_update_inv: "snapshot_inv s \<Longrightarrow> snapshot_inv (s\<lparr>sn_configuration_generation := g\<rparr>)"
  by (simp add: snapshot_inv_def)

lemmas snapshot_inv_intros = update_runtime_inv set_process_inv clear_process_inv clear_live_data_inv
  set_progress_inv metrics_update_inv generation_update_inv

end
