(* ===== verification/Recording_Status.thy ===== *)
theory Recording_Status
  imports Gw_Config_Types
begin

text \<open>
  Free space of the recording directory (\<^verbatim>\<open>include/gateway/recording_status.h\<close>,
  \<^verbatim>\<open>src/monitor/recording_status.c\<close>). The result of \<^verbatim>\<open>statvfs\<close> is an argument: \<open>None\<close>
  when the call fails. The 64-bit products are words with the overflow test of the code.
\<close>

section \<open>Data and operations\<close>

datatype gw_recording_state =
    GW_RECORDING_DISABLED
  | GW_RECORDING_OK
  | GW_RECORDING_LOW_SPACE
  | GW_RECORDING_UNAVAILABLE

record gw_recording_snapshot =
  rs_state :: gw_recording_state
  rs_enabled :: bool
  rs_filesystem_available :: bool
  rs_total_bytes :: u64
  rs_available_bytes :: u64
  rs_min_free_bytes :: u64

record statvfs =
  f_frsize :: u64
  f_bsize :: u64
  f_blocks :: u64
  f_bavail :: u64

definition multiply_u64 :: "u64 \<Rightarrow> u64 \<Rightarrow> u64 option" where
  "multiply_u64 first second =
     (if first \<noteq> 0 \<and> second > 18446744073709551615 div first then None else Some (first * second))"

fun gw_recording_state_string :: "gw_recording_state \<Rightarrow> string" where
  "gw_recording_state_string GW_RECORDING_DISABLED = ''disabled''"
| "gw_recording_state_string GW_RECORDING_OK = ''ok''"
| "gw_recording_state_string GW_RECORDING_LOW_SPACE = ''low_space''"
| "gw_recording_state_string GW_RECORDING_UNAVAILABLE = ''unavailable''"

definition gw_recording_snapshot_read ::
  "statvfs option \<Rightarrow> gw_recording_config \<Rightarrow> gw_error option \<Rightarrow>
   gw_status \<times> gw_recording_snapshot \<times> gw_error option" where
  "gw_recording_snapshot_read fs config error =
     (let s0 = \<lparr>rs_state = (if rec_enabled config then GW_RECORDING_UNAVAILABLE else GW_RECORDING_DISABLED),
                rs_enabled = rec_enabled config, rs_filesystem_available = False,
                rs_total_bytes = 0, rs_available_bytes = 0, rs_min_free_bytes = 0\<rparr>
      in case multiply_u64 (of_int (min_free_mb config)) (1024 * 1024) of
        None \<Rightarrow> (GW_ERR_OVERFLOW, s0,
                 gw_error_set error GW_ERR_OVERFLOW ''recording free-space threshold overflows'')
      | Some threshold \<Rightarrow>
          let s1 = s0\<lparr>rs_min_free_bytes := threshold\<rparr> in
          if \<not> rec_enabled config then (GW_OK, s1, gw_error_clear error)
          else case fs of
            None \<Rightarrow> (GW_OK, s1, gw_error_clear error)
          | Some v \<Rightarrow>
              let fragment_size = (if f_frsize v \<noteq> 0 then f_frsize v else f_bsize v) in
              (case multiply_u64 fragment_size (f_blocks v) of
                 None \<Rightarrow> (GW_ERR_OVERFLOW, s1,
                   gw_error_set error GW_ERR_OVERFLOW ''recording filesystem capacity overflows'')
               | Some whole \<Rightarrow>
                   let s2 = s1\<lparr>rs_total_bytes := whole\<rparr> in
                   (case multiply_u64 fragment_size (f_bavail v) of
                      None \<Rightarrow> (GW_ERR_OVERFLOW, s2,
                        gw_error_set error GW_ERR_OVERFLOW ''recording filesystem capacity overflows'')
                    | Some avail \<Rightarrow>
                        (GW_OK,
                         s2\<lparr>rs_available_bytes := avail, rs_filesystem_available := True,
                            rs_state := (if avail < threshold then GW_RECORDING_LOW_SPACE
                                         else GW_RECORDING_OK)\<rparr>,
                         gw_error_clear error))))"

section \<open>Exact arithmetic\<close>

lemma word64_le_max: "unat (x :: u64) \<le> 18446744073709551615"
proof -
  have "unat x < 2 ^ LENGTH(64)" by (rule unsigned_less)
  then show ?thesis by simp
qed

text \<open>The overflow test is exact: the product is delivered iff it is below \<open>2 ^ 64\<close>, and then it is
  the product of the integers.\<close>

lemma multiply_u64_exact:
  "multiply_u64 a b = (if unat a * unat b < 2 ^ 64 then Some (a * b) else None)"
proof -
  have d: "unat (18446744073709551615 div a) = 18446744073709551615 div unat a"
    by (simp add: unat_div_distrib)
  have cmp: "a \<noteq> 0 \<Longrightarrow> b > 18446744073709551615 div a \<longleftrightarrow> \<not> unat a * unat b < 2 ^ 64"
  proof -
    assume "a \<noteq> 0"
    then have "0 < unat a" by (simp add: unat_gt_0)
    then have "18446744073709551615 div unat a < unat b \<longleftrightarrow> 18446744073709551615 < unat a * unat b"
      by (metis div_less_iff_less_mult mult.commute)
    then show ?thesis using d by (auto simp: word_less_nat_alt)
  qed
  show ?thesis using cmp by (cases "a = 0") (auto simp: multiply_u64_def)
qed

lemma multiply_u64_ok:
  "unat a * unat b < 2 ^ 64 \<Longrightarrow> multiply_u64 a b = Some (a * b) \<and> unat (a * b) = unat a * unat b"
  by (simp add: multiply_u64_exact unat_word_ariths)

lemma threshold_bytes:
  assumes "0 \<le> m" and "is_int32 m"
  shows "multiply_u64 (of_int m) 1048576 = Some (of_int m * 1048576)
       \<and> unat (of_int m * 1048576 :: u64) = nat m * 1048576"
proof -
  have n: "(of_int m :: u64) = of_nat (nat m)" using assms(1) by simp
  have lt: "nat m < 2147483648" using assms by (simp add: is_int32_def)
  have "unat (of_int m :: u64) = nat m mod 2 ^ LENGTH(64)" unfolding n by (rule unat_of_nat)
  also have "\<dots> = nat m" using lt by simp
  finally have m: "unat (of_int m :: u64) = nat m" .
  have c: "unat (1048576 :: u64) = 1048576" by simp
  have "nat m * 1048576 < 2 ^ 64" using lt by simp
  then have "unat (of_int m :: u64) * unat (1048576 :: u64) < 2 ^ 64" unfolding m c .
  from multiply_u64_ok [OF this] show ?thesis unfolding m c .
qed

lemma nat_less_threshold: "0 \<le> m \<Longrightarrow> N < nat m * k \<longleftrightarrow> int N < m * int k"
  by (metis nat_0_le of_nat_less_iff of_nat_mult)

text \<open>The recording state compares exact byte counts. With recording enabled, a readable file
  system and no 64-bit overflow, the state is LOW_SPACE exactly when the free bytes
  (fragment size times available blocks, as integers) are below \<open>min_free_mb\<close> mebibytes, and OK
  otherwise; the reported numbers are those exact products.\<close>

theorem recording_state_exact:
  assumes "rec_enabled config" and "0 \<le> min_free_mb config" and "is_int32 (min_free_mb config)"
    and "frag = (if f_frsize v \<noteq> 0 then f_frsize v else f_bsize v)"
    and "unat frag * unat (f_blocks v) < 2 ^ 64" and "unat frag * unat (f_bavail v) < 2 ^ 64"
  shows "case gw_recording_snapshot_read (Some v) config err of (st, s, err') \<Rightarrow>
           st = GW_OK \<and> rs_filesystem_available s \<and>
           unat (rs_total_bytes s) = unat frag * unat (f_blocks v) \<and>
           unat (rs_available_bytes s) = unat frag * unat (f_bavail v) \<and>
           rs_state s = (if int (unat frag * unat (f_bavail v)) < min_free_mb config * 1048576
                         then GW_RECORDING_LOW_SPACE else GW_RECORDING_OK)"
proof -
  let ?m = "of_int (min_free_mb config) :: u64"
  note t = threshold_bytes [OF assms(2,3)]
  note whole = multiply_u64_ok [OF assms(5)]
  note free = multiply_u64_ok [OF assms(6)]
  have cmp: "frag * f_bavail v < ?m * 1048576 \<longleftrightarrow>
        int (unat frag * unat (f_bavail v)) < min_free_mb config * 1048576"
    unfolding word_less_nat_alt conjunct2 [OF free] conjunct2 [OF t]
    using nat_less_threshold [OF assms(2), of "unat frag * unat (f_bavail v)" 1048576] by simp
  have read: "gw_recording_snapshot_read (Some v) config err =
     (GW_OK, \<lparr>rs_state = (if frag * f_bavail v < ?m * 1048576 then GW_RECORDING_LOW_SPACE else GW_RECORDING_OK),
              rs_enabled = True, rs_filesystem_available = True, rs_total_bytes = frag * f_blocks v,
              rs_available_bytes = frag * f_bavail v, rs_min_free_bytes = ?m * 1048576\<rparr>, gw_error_clear err)"
    using assms(1) conjunct1 [OF t] conjunct1 [OF whole] conjunct1 [OF free]
    unfolding assms(4) by (simp add: gw_recording_snapshot_read_def Let_def)
  show ?thesis unfolding read cmp using whole free by simp
qed

theorem recording_state_exact_witness:
  "case gw_recording_snapshot_read (Some \<lparr>f_frsize = 4096, f_bsize = 0, f_blocks = 1000000, f_bavail = 1000\<rparr>)
      (sample_recording\<lparr>rec_enabled := True\<rparr>) None of
     (st, s, err') \<Rightarrow> st = GW_OK \<and> rs_state s = GW_RECORDING_LOW_SPACE"
  using recording_state_exact [of "sample_recording\<lparr>rec_enabled := True\<rparr>" 4096
      "\<lparr>f_frsize = 4096, f_bsize = 0, f_blocks = 1000000, f_bavail = 1000\<rparr>" None]
  by (simp add: sample_recording_def is_int32_def split: prod.splits)

end
