(* ===== verification/Json_Writer.thy ===== *)
theory Json_Writer
  imports Channel_Snapshot Recording_Status
begin

text \<open>
  The bounded JSON writer of the HTTP server (first part of \<^verbatim>\<open>src/api/http_server.c\<close>) and the
  documents it produces. The struct is modelled with the bytes written so far instead of pointer
  and length. A sequence of calls of \<^verbatim>\<open>json_append\<close> and \<^verbatim>\<open>json_string\<close> is a list of
  pieces, one per call, given to \<open>json_emit\<close>. The text \<^verbatim>\<open>%.3f\<close> gives for a number is a
  parameter. The theory \<open>Json_Reader\<close> relates the written text to a reference reader for JSON.
\<close>

abbreviation GW_HTTP_BODY_CAP :: nat where "GW_HTTP_BODY_CAP \<equiv> 131072"

abbreviation QUOTE :: char where "QUOTE \<equiv> CHR 0x22"
abbreviation BACKSLASH :: char where "BACKSLASH \<equiv> CHR 0x5C"

section \<open>The writer\<close>

record json_writer =
  jw_data :: string
  jw_capacity :: nat
  jw_failed :: bool

definition json_append :: "json_writer \<Rightarrow> string \<Rightarrow> json_writer" where
  "json_append writer formatted =
     (if jw_failed writer then writer
      else let available = jw_capacity writer - length (jw_data writer) in
        if \<not> length formatted < available then writer\<lparr>jw_failed := True\<rparr>
        else writer\<lparr>jw_data := jw_data writer @ formatted\<rparr>)"

interpretation jw: bounded_writer json_append jw_data jw_capacity jw_failed
  by unfold_locales (simp_all add: json_append_def Let_def)

definition hex_char :: "nat \<Rightarrow> char" where
  "hex_char d = (if d < 10 then digit_char d else char_of (87 + d))"

definition json_escape :: "char \<Rightarrow> string" where
  "json_escape c =
     (let byte = (of_char c :: nat) in
      if c = QUOTE then [BACKSLASH, QUOTE]
      else if c = BACKSLASH then [BACKSLASH, BACKSLASH]
      else if byte = 8 then [BACKSLASH, CHR ''b'']
      else if byte = 12 then [BACKSLASH, CHR ''f'']
      else if byte = 10 then [BACKSLASH, CHR ''n'']
      else if byte = 13 then [BACKSLASH, CHR ''r'']
      else if byte = 9 then [BACKSLASH, CHR ''t'']
      else if byte < 32 \<or> byte \<ge> 128 then
        [BACKSLASH, CHR ''u'', CHR ''0'', CHR ''0'', hex_char (byte div 16), hex_char (byte mod 16)]
      else [c])"

fun json_chars :: "json_writer \<Rightarrow> string \<Rightarrow> json_writer" where
  "json_chars writer [] = writer"
| "json_chars writer (c # cursor) =
     (if jw_failed writer then writer else json_chars (json_append writer (json_escape c)) cursor)"

definition json_string :: "json_writer \<Rightarrow> string \<Rightarrow> json_writer" where
  "json_string writer val = json_append (json_chars (json_append writer [QUOTE]) val) [QUOTE]"

datatype json_piece = Raw string | Esc string

fun emit_piece :: "json_writer \<Rightarrow> json_piece \<Rightarrow> json_writer" where
  "emit_piece writer (Raw t) = json_append writer t"
| "emit_piece writer (Esc v) = json_string writer v"

definition json_emit :: "json_writer \<Rightarrow> json_piece list \<Rightarrow> json_writer" where
  "json_emit writer pieces = fold (\<lambda>p w. emit_piece w p) pieces writer"

section \<open>Documents\<close>

type_synonym format_double = "c_double \<Rightarrow> string"

text \<open>Literal JSON text, with a backquote for each double quote.\<close>

definition q :: "string \<Rightarrow> string" where
  "q s = map (\<lambda>c. if c = CHR 0x60 then QUOTE else c) s"

definition finite_or_null :: "format_double \<Rightarrow> c_double \<Rightarrow> string" where
  "finite_or_null fmt d = (if isfinite d then fmt d else ''null'')"

definition progress_pieces :: "format_double \<Rightarrow> gw_worker_progress \<Rightarrow> json_piece list" where
  "progress_pieces fmt p =
     [Raw (q ''{`frame`:'' @ dec_nat (unat (wp_frame p)) @ q '',`fps`:''),
      Raw (finite_or_null fmt (wp_fps p)),
      Raw (q '',`bitrate`:''), Esc (wp_bitrate p),
      Raw (q '',`out_time_us`:'' @ dec_int (wp_out_time_us p) @ q '',`drop_frames`:'' @
           dec_nat (unat (wp_drop_frames p)) @ q '',`speed`:''),
      Raw (finite_or_null fmt (wp_speed p)),
      Raw (q '',`status`:''), Esc (wp_status p), Raw ''}'']"

definition snapshot_pieces :: "format_double \<Rightarrow> gw_channel_snapshot \<Rightarrow> json_piece list" where
  "snapshot_pieces fmt s =
     [Raw (q ''{`id`:''), Esc (sn_channel_id s),
      Raw (q '',`state`:''), Esc (gw_channel_state_string (sn_state s)),
      Raw (q '',`last_event`:''), Esc (sn_last_event s),
      Raw (q '',`process`:{`kind`:''), Esc (gw_channel_process_kind_string (sn_process_kind s)),
      Raw (q '',`pid`:'' @ dec_int (sn_process_pid s) @ q ''},`consecutive_failures`:'' @
           dec_nat (unat (sn_consecutive_failures s)) @ q '',`total_restarts`:'' @
           dec_nat (unat (sn_total_restarts s)) @ q '',`configuration_generation`:'' @
           dec_nat (unat (sn_configuration_generation s)) @ q '',`backoff_sec`:'' @
           dec_int (sn_backoff_sec s) @ q '',`last_exit_code`:''),
      Raw (if sn_has_exit_code s then dec_int (sn_last_exit_code s) else ''null''),
      Raw (q '',`progress`:'')] @
     (if sn_has_progress s then progress_pieces fmt (sn_progress s) else [Raw ''null'']) @
     [Raw ''}'']"

definition json_snapshot :: "format_double \<Rightarrow> json_writer \<Rightarrow> gw_channel_snapshot \<Rightarrow> json_writer" where
  "json_snapshot fmt writer snapshot = json_emit writer (snapshot_pieces fmt snapshot)"

section \<open>Responses\<close>

datatype gw_http_content_type = GW_HTTP_CONTENT_JSON | GW_HTTP_CONTENT_HTML

text \<open>\<open>hr_body\<close> is the first \<^verbatim>\<open>body_length\<close> bytes of the body array.\<close>

record gw_http_response =
  hr_status_code :: int
  hr_allow_get :: bool
  hr_allow_post :: bool
  hr_content_type :: gw_http_content_type
  hr_body :: string

definition zero_response :: gw_http_response where
  "zero_response = \<lparr>hr_status_code = 0, hr_allow_get = False, hr_allow_post = False,
     hr_content_type = GW_HTTP_CONTENT_JSON, hr_body = []\<rparr>"

definition body_writer :: json_writer where
  "body_writer = \<lparr>jw_data = [], jw_capacity = GW_HTTP_BODY_CAP, jw_failed = False\<rparr>"

type_synonym http_result = "gw_status \<times> gw_http_response \<times> gw_error option"

definition finish_response :: "gw_http_response \<Rightarrow> json_writer \<Rightarrow> gw_error option \<Rightarrow> http_result" where
  "finish_response response writer error =
     (if jw_failed writer then
        (GW_ERR_OVERFLOW, response, gw_error_set error GW_ERR_OVERFLOW ''HTTP JSON response exceeds capacity'')
      else (GW_OK, response\<lparr>hr_body := jw_data writer\<rparr>, gw_error_clear error))"

definition error_pieces :: "string \<Rightarrow> string \<Rightarrow> json_piece list" where
  "error_pieces code message =
     [Raw (q ''{`error`:''), Esc code, Raw (q '',`message`:''), Esc message, Raw (''}'' @ [LF])]"

definition error_response ::
  "gw_http_response \<Rightarrow> int \<Rightarrow> string \<Rightarrow> string \<Rightarrow> gw_error option \<Rightarrow> http_result" where
  "error_response response status_code code message error =
     finish_response (response\<lparr>hr_status_code := status_code\<rparr>)
       (json_emit body_writer (error_pieces code message)) error"

definition worker_active :: "gw_channel_snapshot \<Rightarrow> bool" where
  "worker_active s \<longleftrightarrow> sn_process_kind s = GW_CHANNEL_PROCESS_WORKER \<and> sn_process_pid s > 0"

definition metrics_progress_pieces :: "format_double \<Rightarrow> gw_channel_snapshot \<Rightarrow> json_piece list" where
  "metrics_progress_pieces fmt s =
     (if worker_active s \<and> sn_has_progress s then
        [Raw (q '',`fps`:''), Raw (finite_or_null fmt (wp_fps (sn_progress s))),
         Raw (q '',`bitrate`:''), Esc (wp_bitrate (sn_progress s)),
         Raw (q '',`frames`:'' @ dec_nat (unat (wp_frame (sn_progress s))) @ q '',`drop_frames`:'' @
              dec_nat (unat (wp_drop_frames (sn_progress s))))]
      else [Raw (q '',`fps`:null,`bitrate`:null,`frames`:null,`drop_frames`:null'')])"

definition metrics_pieces :: "format_double \<Rightarrow> gw_channel_snapshot \<Rightarrow> json_piece list" where
  "metrics_pieces fmt s =
     [Raw (q ''{`id`:''), Esc (sn_channel_id s),
      Raw (q '',`state`:''), Esc (gw_channel_state_string (sn_state s)),
      Raw (q '',`ffmpeg_pid`:''),
      Raw (if worker_active s then dec_int (sn_process_pid s) else ''null''),
      Raw (q '',`consecutive_failures`:'' @ dec_nat (unat (sn_consecutive_failures s)) @
           q '',`total_restarts`:'' @ dec_nat (unat (sn_total_restarts s)) @ q '',`progress`:{`status`:''),
      Esc (if worker_active s \<and> sn_has_progress s then ''available'' else ''unavailable'')] @
     metrics_progress_pieces fmt s @
     [Raw (q ''},`process_metrics`:{`status`:''),
      Esc (if worker_active s \<and> ms_available (sn_worker_metrics s) then ''available'' else ''unavailable''),
      Raw (q '',`cpu_percent`:''),
      Raw (if worker_active s \<and> ms_available (sn_worker_metrics s) \<and> ms_cpu_available (sn_worker_metrics s) \<and>
              isfinite (ms_cpu_percent (sn_worker_metrics s))
           then fmt (ms_cpu_percent (sn_worker_metrics s)) else ''null''),
      Raw (if worker_active s \<and> ms_available (sn_worker_metrics s)
           then q '',`rss_kib`:'' @ dec_int (ms_rss_kib (sn_worker_metrics s))
           else q '',`rss_kib`:null''),
      Raw (''}}'' @ [LF])]"

definition gw_http_render_channel_metrics ::
  "format_double \<Rightarrow> gw_channel_snapshot \<Rightarrow> gw_error option \<Rightarrow> http_result" where
  "gw_http_render_channel_metrics fmt snapshot error =
     finish_response (zero_response\<lparr>hr_status_code := 200, hr_content_type := GW_HTTP_CONTENT_JSON\<rparr>)
       (json_emit body_writer (metrics_pieces fmt snapshot)) error"

section \<open>Whole documents\<close>

definition json_literal :: "string \<Rightarrow> string" where
  "json_literal v = QUOTE # concat (map json_escape v) @ [QUOTE]"

fun piece_texts :: "json_piece \<Rightarrow> string list" where
  "piece_texts (Raw t) = [t]"
| "piece_texts (Esc v) = [QUOTE] # map json_escape v @ [[QUOTE]]"

definition pieces_text :: "json_piece list \<Rightarrow> string" where
  "pieces_text ps = concat (concat (map piece_texts ps))"

lemma pieces_text_simps [simp]:
  "pieces_text [] = []" "pieces_text (Raw t # ps) = t @ pieces_text ps"
  "pieces_text (Esc v # ps) = json_literal v @ pieces_text ps" "pieces_text (ps @ ps') = pieces_text ps @ pieces_text ps'"
  by (simp_all add: pieces_text_def json_literal_def)

lemma json_chars_fold: "json_chars w v = fold (\<lambda>t w. json_append w t) (map json_escape v) w"
  by (induction v arbitrary: w) (simp_all add: jw.fold_append_failed_sticky jw.append_sticky)

lemma emit_piece_fold: "emit_piece w p = fold (\<lambda>t w. json_append w t) (piece_texts p) w"
  by (cases p) (simp_all add: json_string_def json_chars_fold)

lemma json_emit_fold: "json_emit w ps = fold (\<lambda>t w. json_append w t) (concat (map piece_texts ps)) w"
  by (induction ps arbitrary: w) (simp_all add: json_emit_def emit_piece_fold)

lemma json_emit_result:
  assumes "\<not> jw_failed w" and "length (jw_data w) < jw_capacity w"
  shows "jw_failed (json_emit w ps) \<longleftrightarrow> jw_capacity w \<le> length (jw_data w) + length (pieces_text ps)"
    and "\<not> jw_failed (json_emit w ps) \<Longrightarrow> jw_data (json_emit w ps) = jw_data w @ pieces_text ps"
  using jw.fold_append_ok_iff [OF assms, of "concat (map piece_texts ps)"]
    jw.fold_append_written [of "concat (map piece_texts ps)" w]
  by (auto simp: json_emit_fold pieces_text_def)

lemma json_emit_append: "json_emit w (ps @ ps') = json_emit (json_emit w ps) ps'"
  by (simp add: json_emit_def)

text \<open>A response built from pieces is the whole document or an error, never a cut document.\<close>

lemma finish_pieces:
  "finish_response r (json_emit body_writer ps) e =
     (if length (pieces_text ps) < GW_HTTP_BODY_CAP
      then (GW_OK, r\<lparr>hr_body := pieces_text ps\<rparr>, gw_error_clear e)
      else (GW_ERR_OVERFLOW, r, gw_error_set e GW_ERR_OVERFLOW ''HTTP JSON response exceeds capacity''))"
  using json_emit_result [of body_writer ps] by (simp add: finish_response_def body_writer_def not_le)

end
