(* ===== verification/Json_Reader.thy ===== *)
theory Json_Reader
  imports Json_Writer
begin

text \<open>
  A reference reader for JSON texts (RFC 8259, without optional white space; code points up to 255,
  which is all the writer can produce), the printed form of a JSON value, and the proof that the
  reader gives back every printed value. The documents of the HTTP server are then shown to be
  printed values, so that a client reads exactly the data of the snapshots.
\<close>

section \<open>Values and their text\<close>

datatype json =
    JNull
  | JBool bool
  | JNum string
  | JStr string
  | JArr "json list"
  | JObj "(string \<times> json) list"

fun jprint :: "json \<Rightarrow> string" and jprint_elems :: "json list \<Rightarrow> string" and jprint_members :: "(string \<times> json) list \<Rightarrow> string" where
  "jprint JNull = ''null''"
| "jprint (JBool b) = (if b then ''true'' else ''false'')"
| "jprint (JNum t) = t"
| "jprint (JStr v) = json_literal v"
| "jprint (JArr js) = CHR ''['' # jprint_elems js @ '']''"
| "jprint (JObj ms) = CHR ''{'' # jprint_members ms @ ''}''"
| "jprint_elems [] = []"
| "jprint_elems (j # js) = jprint j @ (if js = [] then [] else CHR '','' # jprint_elems js)"
| "jprint_members [] = []"
| "jprint_members ((k, j) # ms) = json_literal k @ CHR '':'' # jprint j @ (if ms = [] then [] else CHR '','' # jprint_members ms)"

definition number_char :: "char \<Rightarrow> bool" where
  "number_char c \<longleftrightarrow> isdigit c \<or> c = CHR ''-'' \<or> c = CHR ''.''"

definition number_token :: "string \<Rightarrow> bool" where
  "number_token t \<longleftrightarrow> t \<noteq> [] \<and> list_all number_char t"

fun jwf :: "json \<Rightarrow> bool" where
  "jwf JNull = True"
| "jwf (JBool b) = True"
| "jwf (JNum t) = number_token t"
| "jwf (JStr v) = True"
| "jwf (JArr js) = list_all jwf js"
| "jwf (JObj ms) = list_all (\<lambda>(k, j). jwf j) ms"

section \<open>The reader\<close>

definition hex_value :: "char \<Rightarrow> nat option" where
  "hex_value c =
     (let n = (of_char c :: nat) in
      if isdigit c then Some (digit_value c)
      else if 97 \<le> n \<and> n \<le> 102 then Some (n - 87)
      else if 65 \<le> n \<and> n \<le> 70 then Some (n - 55)
      else None)"

definition simple_escape :: "char \<Rightarrow> char option" where
  "simple_escape c =
     (if c = QUOTE \<or> c = BACKSLASH \<or> c = CHR ''/'' then Some c
      else if c = CHR ''b'' then Some CHR 0x08
      else if c = CHR ''f'' then Some CHR 0x0C
      else if c = CHR ''n'' then Some LF
      else if c = CHR ''r'' then Some CR
      else if c = CHR ''t'' then Some TAB
      else None)"

definition read_unicode :: "string \<Rightarrow> (char \<times> string) option" where
  "read_unicode s =
     (case map hex_value (take 4 s) of
        [Some a, Some b, Some c, Some d] \<Rightarrow>
          if a = 0 \<and> b = 0 then Some (char_of (16 * c + d), drop 4 s) else None
      | _ \<Rightarrow> None)"

text \<open>One character of a string body, escaped or not.\<close>

definition read_char :: "string \<Rightarrow> (char \<times> string) option" where
  "read_char s =
     (case s of
        [] \<Rightarrow> None
      | c # r \<Rightarrow>
          if c = BACKSLASH then
            (case r of
               [] \<Rightarrow> None
             | e # r' \<Rightarrow> if e = CHR ''u'' then read_unicode r' else map_option (\<lambda>x. (x, r')) (simple_escape e))
          else if (of_char c :: nat) < 32 \<or> c = QUOTE then None
          else Some (c, r))"

lemma read_char_shorter: "read_char s = Some (c, r) \<Longrightarrow> length r < length s"
  by (auto simp: read_char_def read_unicode_def split: list.splits if_splits option.splits)

function read_body :: "string \<Rightarrow> (string \<times> string) option" where
  "read_body s =
     (case s of
        [] \<Rightarrow> None
      | c # r \<Rightarrow>
          if c = QUOTE then Some ([], r)
          else case read_char s of
            None \<Rightarrow> None
          | Some (x, t) \<Rightarrow> map_option (\<lambda>(xs, u). (x # xs, u)) (read_body t))"
  by pat_completeness auto
termination
  by (relation "measure length") (auto dest: read_char_shorter)

declare read_body.simps [simp del]

definition read_number :: "string \<Rightarrow> (json \<times> string) option" where
  "read_number s = (let t = takeWhile number_char s in if t = [] then None else Some (JNum t, dropWhile number_char s))"

fun jread :: "nat \<Rightarrow> string \<Rightarrow> (json \<times> string) option"
  and jread_elems :: "nat \<Rightarrow> string \<Rightarrow> (json list \<times> string) option"
  and jread_members :: "nat \<Rightarrow> string \<Rightarrow> ((string \<times> json) list \<times> string) option" where
  "jread 0 s = None"
| "jread (Suc n) s =
     (if s = [] then None
      else if prefix ''null'' s then Some (JNull, drop 4 s)
      else if prefix ''true'' s then Some (JBool True, drop 4 s)
      else if prefix ''false'' s then Some (JBool False, drop 5 s)
      else if hd s = QUOTE then map_option (\<lambda>(v, r). (JStr v, r)) (read_body (tl s))
      else if prefix ''[]'' s then Some (JArr [], drop 2 s)
      else if hd s = CHR ''['' then map_option (\<lambda>(js, r). (JArr js, r)) (jread_elems n (tl s))
      else if prefix ''{}'' s then Some (JObj [], drop 2 s)
      else if hd s = CHR ''{'' then map_option (\<lambda>(ms, r). (JObj ms, r)) (jread_members n (tl s))
      else read_number s)"
| "jread_elems 0 s = None"
| "jread_elems (Suc n) s =
     (case jread n s of
        Some (j, c # r) \<Rightarrow>
          if c = CHR '']'' then Some ([j], r)
          else if c = CHR '','' then map_option (\<lambda>(js, t). (j # js, t)) (jread_elems n r)
          else None
      | _ \<Rightarrow> None)"
| "jread_members 0 s = None"
| "jread_members (Suc n) s =
     (if s = [] \<or> hd s \<noteq> QUOTE then None
      else case read_body (tl s) of
        Some (k, c # r) \<Rightarrow>
          if c \<noteq> CHR '':'' then None
          else (case jread n r of
             Some (j, d # t) \<Rightarrow>
               if d = CHR ''}'' then Some ([(k, j)], t)
               else if d = CHR '','' then map_option (\<lambda>(ms, u). ((k, j) # ms, u)) (jread_members n t)
               else None
           | _ \<Rightarrow> None)
      | _ \<Rightarrow> None)"

text \<open>A whole document: one value and the final newline.\<close>

definition json_read :: "string \<Rightarrow> json option" where
  "json_read s = (case jread (Suc (length s)) s of Some (j, r) \<Rightarrow> (if r = [LF] then Some j else None) | None \<Rightarrow> None)"

section \<open>Strings are read back\<close>

lemma hex_value_hex_char: "d < 16 \<Longrightarrow> hex_value (hex_char d) = Some d"
proof -
  assume d: "d < 16"
  show ?thesis
  proof (cases "d < 10")
    case True
    then show ?thesis by (simp add: hex_value_def hex_char_def)
  next
    case False
    with d have "(of_char (char_of (87 + d) :: char) :: nat) = 87 + d" by simp
    with False d show ?thesis by (simp add: hex_value_def hex_char_def isdigit_def)
  qed
qed

lemma read_escape: "read_char (json_escape c @ rest) = Some (c, rest)"
proof -
  let ?b = "of_char c :: nat"
  have b: "?b < 256" by simp
  have z: "hex_value CHR ''0'' = Some 0" by (simp add: hex_value_def isdigit_def digit_value_def)
  have hex: "map hex_value [CHR ''0'', CHR ''0'', hex_char (?b div 16), hex_char (?b mod 16)]
      = [Some 0, Some 0, Some (?b div 16), Some (?b mod 16)]"
    using hex_value_hex_char [of "?b div 16"] b less_mult_imp_div_less [of ?b 16 16] by (simp add: hex_value_hex_char z)
  have again: "char_of (16 * (?b div 16) + ?b mod 16) = c" by simp
  have ctl: "?b = 8 \<Longrightarrow> c = CHR 0x08" "?b = 12 \<Longrightarrow> c = CHR 0x0C" "?b = 10 \<Longrightarrow> c = LF" "?b = 13 \<Longrightarrow> c = CR" "?b = 9 \<Longrightarrow> c = TAB"
    using of_char_eq_iff [of c "CHR 0x08", where 'a = nat] of_char_eq_iff [of c "CHR 0x0C", where 'a = nat] of_char_eq_iff [of c LF, where 'a = nat]
      of_char_eq_iff [of c CR, where 'a = nat] of_char_eq_iff [of c TAB, where 'a = nat] by simp_all
  show ?thesis using hex again ctl
    by (auto simp: json_escape_def Let_def read_char_def simple_escape_def read_unicode_def)
qed

lemma json_escape_head: "\<exists>x r. json_escape c = x # r \<and> x \<noteq> QUOTE"
  by (auto simp: json_escape_def Let_def)

lemma read_body_chars: "read_body (concat (map json_escape v) @ QUOTE # rest) = Some (v, rest)"
proof (induction v)
  case Nil
  then show ?case by (simp add: read_body.simps)
next
  case (Cons c v)
  obtain x r where x: "json_escape c = x # r" "x \<noteq> QUOTE" using json_escape_head by blast
  let ?t = "concat (map json_escape v) @ QUOTE # rest"
  have "read_char (json_escape c @ ?t) = Some (c, ?t)" by (rule read_escape)
  with x Cons.IH show ?case by (simp add: read_body.simps [of "x # r @ concat (map json_escape v) @ QUOTE # rest"])
qed

lemma read_literal: "read_body (tl (json_literal v @ rest)) = Some (v, rest)"
  using read_body_chars [of v rest] by (simp add: json_literal_def)

section \<open>Values are read back\<close>

lemma number_token_head: "number_token t \<Longrightarrow> \<exists>c r. t = c # r \<and> number_char c"
  by (cases t) (auto simp: number_token_def)

lemma number_char_other:
  "number_char c \<Longrightarrow> c \<notin> {CHR ''n'', CHR ''t'', CHR ''f'', QUOTE, CHR ''['', CHR ''{'', CHR '']'', CHR ''}'', CHR '','', CHR '':''}"
  by (auto simp: number_char_def isdigit_def)

lemma read_number_token:
  assumes "number_token t" and "rest = [] \<or> \<not> number_char (hd rest)"
  shows "read_number (t @ rest) = Some (JNum t, rest)"
proof -
  have "list_all number_char t" "t \<noteq> []" using assms(1) by (simp_all add: number_token_def)
  then have "takeWhile number_char (t @ rest) = t" "dropWhile number_char (t @ rest) = rest"
    using assms(2) by (cases rest; auto simp: list_all_iff)+
  with \<open>t \<noteq> []\<close> show ?thesis by (simp add: read_number_def)
qed

lemma jprint_head:
  assumes "jwf j"
  shows "\<exists>c r. jprint j = c # r \<and> c \<noteq> CHR '']''"
  using assms number_token_head number_char_other by (cases j) (fastforce simp: json_literal_def)+

lemma jread_jprint:
  "jwf j \<Longrightarrow> length (jprint j) < n \<Longrightarrow> rest = [] \<or> \<not> number_char (hd rest) \<Longrightarrow> jread n (jprint j @ rest) = Some (j, rest)"
  "list_all jwf js \<Longrightarrow> js \<noteq> [] \<Longrightarrow> Suc (length (jprint_elems js)) < n \<Longrightarrow>
     jread_elems n (jprint_elems js @ CHR '']'' # rest) = Some (js, rest)"
  "list_all (\<lambda>(k, j). jwf j) ms \<Longrightarrow> ms \<noteq> [] \<Longrightarrow> length (jprint_members ms) < n \<Longrightarrow>
     jread_members n (jprint_members ms @ CHR ''}'' # rest) = Some (ms, rest)"
proof (induction j and js and ms arbitrary: n rest and n rest and n rest rule: jprint_jprint_elems_jprint_members.induct)
  case 1
  then show ?case by (cases n) simp_all
next
  case (2 b)
  then show ?case by (cases n) simp_all
next
  case (3 t)
  then obtain m where n: "n = Suc m" by (cases n) simp_all
  from 3 have "number_token t" by simp
  from number_token_head [OF this] obtain c r where t: "t = c # r" "number_char c" by blast
  with read_number_token [of t rest] 3 number_char_other [OF t(2)] show ?case by (auto simp: n)
next
  case (4 v)
  then obtain m where n: "n = Suc m" by (cases n) simp_all
  then show ?case using read_literal [of v rest] by (simp add: json_literal_def)
next
  case (5 js)
  then obtain m where n: "n = Suc m" by (cases n) simp_all
  show ?case
  proof (cases js)
    case Nil
    then show ?thesis by (simp add: n)
  next
    case (Cons k ks)
    with 5 jprint_head [of k] obtain c r where h: "jprint k = c # r" "c \<noteq> CHR '']''" by auto
    with Cons obtain r' where c: "jprint_elems js = c # r'" by simp
    have "jread_elems m (jprint_elems js @ CHR '']'' # rest) = Some (js, rest)" by (rule 5(1)) (use 5 n Cons in simp_all)
    with h n c show ?thesis by simp
  qed
next
  case (6 ms)
  then obtain m where n: "n = Suc m" by (cases n) simp_all
  show ?case
  proof (cases ms)
    case Nil
    then show ?thesis by (simp add: n)
  next
    case (Cons k ks)
    then obtain r' where c: "jprint_members ms = QUOTE # r'" by (cases k) (simp add: json_literal_def)
    have "jread_members m (jprint_members ms @ CHR ''}'' # rest) = Some (ms, rest)" by (rule 6(1)) (use 6 n Cons in simp_all)
    with n c show ?thesis by simp
  qed
next
  case (8 j js)
  then obtain m where n: "n = Suc m" by (cases n) simp_all
  show ?case using 8 n by (cases "js = []") (simp_all add: number_char_def isdigit_def)
next
  case (10 k j ms)
  then obtain m where n: "n = Suc m" by (cases n) simp_all
  show ?case using 10 n
    by (cases "ms = []") (simp_all add: json_literal_def read_body_chars number_char_def isdigit_def)
qed simp_all

lemma json_read_jprint: "jwf j \<Longrightarrow> json_read (jprint j @ [LF]) = Some j"
  using jread_jprint(1) [of j "Suc (length (jprint j @ [LF]))" "[LF]"]
  by (simp add: json_read_def number_char_def isdigit_def)

section \<open>The documents of the server\<close>

definition jnat :: "nat \<Rightarrow> json" where
  "jnat n = JNum (dec_nat n)"

definition jint :: "int \<Rightarrow> json" where
  "jint i = JNum (dec_int i)"

definition jdouble :: "format_double \<Rightarrow> c_double \<Rightarrow> json" where
  "jdouble fmt d = (if isfinite d then JNum (fmt d) else JNull)"

definition progress_json :: "format_double \<Rightarrow> gw_worker_progress \<Rightarrow> json" where
  "progress_json fmt p = JObj
     [(''frame'', jnat (unat (wp_frame p))), (''fps'', jdouble fmt (wp_fps p)), (''bitrate'', JStr (wp_bitrate p)),
      (''out_time_us'', jint (wp_out_time_us p)), (''drop_frames'', jnat (unat (wp_drop_frames p))),
      (''speed'', jdouble fmt (wp_speed p)), (''status'', JStr (wp_status p))]"

definition snapshot_json :: "format_double \<Rightarrow> gw_channel_snapshot \<Rightarrow> json" where
  "snapshot_json fmt s = JObj
     [(''id'', JStr (sn_channel_id s)), (''state'', JStr (gw_channel_state_string (sn_state s))),
      (''last_event'', JStr (sn_last_event s)),
      (''process'', JObj [(''kind'', JStr (gw_channel_process_kind_string (sn_process_kind s))),
                          (''pid'', jint (sn_process_pid s))]),
      (''consecutive_failures'', jnat (unat (sn_consecutive_failures s))),
      (''total_restarts'', jnat (unat (sn_total_restarts s))),
      (''configuration_generation'', jnat (unat (sn_configuration_generation s))),
      (''backoff_sec'', jint (sn_backoff_sec s)),
      (''last_exit_code'', if sn_has_exit_code s then jint (sn_last_exit_code s) else JNull),
      (''progress'', if sn_has_progress s then progress_json fmt (sn_progress s) else JNull)]"

definition metrics_json :: "format_double \<Rightarrow> gw_channel_snapshot \<Rightarrow> json" where
  "metrics_json fmt s =
     (let active = worker_active s; w = sn_worker_metrics s; p = sn_progress s;
          has_progress = (active \<and> sn_has_progress s); has_metrics = (active \<and> ms_available w) in
      JObj
       [(''id'', JStr (sn_channel_id s)), (''state'', JStr (gw_channel_state_string (sn_state s))),
        (''ffmpeg_pid'', if active then jint (sn_process_pid s) else JNull),
        (''consecutive_failures'', jnat (unat (sn_consecutive_failures s))),
        (''total_restarts'', jnat (unat (sn_total_restarts s))),
        (''progress'', JObj
           [(''status'', JStr (if has_progress then ''available'' else ''unavailable'')),
            (''fps'', if has_progress then jdouble fmt (wp_fps p) else JNull),
            (''bitrate'', if has_progress then JStr (wp_bitrate p) else JNull),
            (''frames'', if has_progress then jnat (unat (wp_frame p)) else JNull),
            (''drop_frames'', if has_progress then jnat (unat (wp_drop_frames p)) else JNull)]),
        (''process_metrics'', JObj
           [(''status'', JStr (if has_metrics then ''available'' else ''unavailable'')),
            (''cpu_percent'', if has_metrics \<and> ms_cpu_available w then jdouble fmt (ms_cpu_percent w) else JNull),
            (''rss_kib'', if has_metrics then jint (ms_rss_kib w) else JNull)])])"

definition error_json :: "string \<Rightarrow> string \<Rightarrow> json" where
  "error_json code message = JObj [(''error'', JStr code), (''message'', JStr message)]"

definition plain :: "char \<Rightarrow> bool" where
  "plain c \<longleftrightarrow> 32 \<le> (of_char c :: nat) \<and> (of_char c :: nat) < 128 \<and> c \<noteq> QUOTE \<and> c \<noteq> BACKSLASH"

lemma plain_escape: "plain c \<Longrightarrow> json_escape c = [c]"
  by (simp add: plain_def json_escape_def Let_def)

lemma plain_literal: "list_all plain v \<Longrightarrow> json_literal v = QUOTE # v @ [QUOTE]"
  by (induction v) (simp_all add: json_literal_def plain_escape)

lemma jprint_numbers [simp]:
  "jprint (jnat n) = dec_nat n" "jprint (jint i) = dec_int i" "jprint (jdouble fmt d) = finite_or_null fmt d"
  by (simp_all add: jnat_def jint_def jdouble_def finite_or_null_def)

lemma progress_text: "pieces_text (progress_pieces fmt p) = jprint (progress_json fmt p)"
  by (simp add: progress_pieces_def progress_json_def q_def plain_literal plain_def)

lemma snapshot_text: "pieces_text (snapshot_pieces fmt s) = jprint (snapshot_json fmt s)"
  by (simp add: snapshot_pieces_def snapshot_json_def progress_text q_def plain_literal plain_def)

lemma error_text: "pieces_text (error_pieces code message) = jprint (error_json code message) @ [LF]"
  by (simp add: error_pieces_def error_json_def q_def plain_literal plain_def)

lemma metrics_text: "pieces_text (metrics_pieces fmt s) = jprint (metrics_json fmt s) @ [LF]"
  by (simp add: metrics_pieces_def metrics_json_def metrics_progress_pieces_def Let_def finite_or_null_def q_def plain_literal plain_def)

text \<open>What \<^verbatim>\<open>%.3f\<close> gives for a finite number: digits, a sign and a point.\<close>

definition prints_numbers :: "format_double \<Rightarrow> bool" where
  "prints_numbers fmt \<longleftrightarrow> (\<forall>d. isfinite d \<longrightarrow> number_token (fmt d))"

lemma dec_nat_token: "number_token (dec_nat n)"
  using dec_nat_digits [of n] by (auto simp: number_token_def number_char_def list_all_iff)

lemma jwf_numbers [simp]:
  "jwf (jnat n)" "jwf (jint i)" "prints_numbers fmt \<Longrightarrow> jwf (jdouble fmt d)"
  using dec_nat_token by (auto simp: jnat_def jint_def jdouble_def prints_numbers_def dec_int_def number_token_def number_char_def)

lemma jwf_documents:
  "prints_numbers fmt \<Longrightarrow> jwf (snapshot_json fmt s)" "prints_numbers fmt \<Longrightarrow> jwf (metrics_json fmt s)" "jwf (error_json code message)"
  by (simp_all add: snapshot_json_def progress_json_def metrics_json_def error_json_def Let_def)

end
