(* ===== verification/Pipeline_Builder.thy ===== *)
theory Pipeline_Builder
  imports Gw_Config_Types
begin

text \<open>
  The FFmpeg argument vector (\<^verbatim>\<open>include/gateway/pipeline_builder.h\<close>,
  \<^verbatim>\<open>src/pipeline/pipeline_builder.c\<close>). \<open>items\<close> is the array of 41 pointers, \<open>None\<close> the
  null pointer; \<open>strdup\<close> may fail: \<open>alloc n\<close> tells whether the duplication made when the vector
  holds \<open>n\<close> strings succeeds. \<open>pl_live\<close> counts the heap strings alive, to state that a failed
  build leaks nothing. \<^verbatim>\<open>goto fail\<close> chains are \<open>run_steps\<close>.
\<close>

abbreviation GW_PIPELINE_MAX_ARGS :: nat where "GW_PIPELINE_MAX_ARGS \<equiv> 40"

section \<open>Data and operations\<close>

record gw_pipeline_argv =
  items :: "string option list"
  count :: nat

record pipeline_run = gw_pipeline_argv +
  pl_live :: nat
  pl_error :: "gw_error option"

definition gw_pipeline_argv_init :: "pipeline_run \<Rightarrow> pipeline_run" where
  "gw_pipeline_argv_init s =
     s\<lparr>items := replicate (GW_PIPELINE_MAX_ARGS + 1) None, count := 0\<rparr>"

text \<open>\<open>for (index = 0; index < count; index++) { free(items[index]); items[index] = NULL; }\<close>\<close>

fun free_items :: "nat \<Rightarrow> nat \<Rightarrow> pipeline_run \<Rightarrow> pipeline_run" where
  "free_items index 0 s = s"
| "free_items index (Suc n) s =
     free_items (index + 1) n
       (s\<lparr>items := (items s)[index := None],
          pl_live := (case items s ! index of None \<Rightarrow> pl_live s | Some _ \<Rightarrow> pl_live s - 1)\<rparr>)"

definition gw_pipeline_argv_free :: "pipeline_run \<Rightarrow> pipeline_run" where
  "gw_pipeline_argv_free s = (free_items 0 (count s) s)\<lparr>count := 0\<rparr>"

definition append_argument :: "(nat \<Rightarrow> bool) \<Rightarrow> string \<Rightarrow> pipeline_run \<Rightarrow> gw_status \<times> pipeline_run" where
  "append_argument alloc value s =
     (if count s \<ge> GW_PIPELINE_MAX_ARGS then
        (GW_ERR_OVERFLOW,
         s\<lparr>pl_error := gw_error_set (pl_error s) GW_ERR_OVERFLOW ''FFmpeg argument limit exceeded''\<rparr>)
      else if \<not> alloc (count s) then
        (GW_ERR_NO_MEMORY,
         s\<lparr>pl_error := gw_error_set (pl_error s) GW_ERR_NO_MEMORY ''cannot allocate FFmpeg argument''\<rparr>)
      else (GW_OK,
        s\<lparr>items := ((items s)[count s := Some value])[count s + 1 := None],
          count := count s + 1, pl_live := pl_live s + 1\<rparr>))"

definition append_pair ::
  "(nat \<Rightarrow> bool) \<Rightarrow> string \<Rightarrow> string \<Rightarrow> pipeline_run \<Rightarrow> gw_status \<times> pipeline_run" where
  "append_pair alloc option value s =
     run_steps [append_argument alloc option, append_argument alloc value] s"

definition append_integer_pair ::
  "(nat \<Rightarrow> bool) \<Rightarrow> string \<Rightarrow> int \<Rightarrow> string \<Rightarrow> pipeline_run \<Rightarrow> gw_status \<times> pipeline_run" where
  "append_integer_pair alloc option value sfx s =
     (let text = dec_int value @ sfx in
      if \<not> snprintf_fits 64 text then
        (GW_ERR_OVERFLOW,
         s\<lparr>pl_error := gw_error_set (pl_error s) GW_ERR_OVERFLOW ''cannot format FFmpeg numeric argument''\<rparr>)
      else append_pair alloc option (snprintf_text 64 text) s)"

text \<open>A formatted argument: \<open>snprintf\<close> into a buffer of the given capacity, then append.\<close>

definition append_formatted ::
  "(nat \<Rightarrow> bool) \<Rightarrow> nat \<Rightarrow> string \<Rightarrow> string \<Rightarrow> (string \<Rightarrow> pipeline_run \<Rightarrow> gw_status \<times> pipeline_run) \<Rightarrow>
   pipeline_run \<Rightarrow> gw_status \<times> pipeline_run" where
  "append_formatted alloc capacity text message app s =
     (if \<not> snprintf_fits capacity text then
        (GW_ERR_OVERFLOW, s\<lparr>pl_error := gw_error_set (pl_error s) GW_ERR_OVERFLOW message\<rparr>)
      else app (snprintf_text capacity text) s)"

definition rga_filter_text :: "gw_video_config \<Rightarrow> string" where
  "rga_filter_text v =
     ''scale_rkrga=w='' @ dec_int (width v) @ '':h='' @ dec_int (height v) @ '':format=nv12''"

definition output_url_text :: "gw_mediamtx_config \<Rightarrow> gw_channel_config \<Rightarrow> string" where
  "output_url_text m c =
     publish_base_url m @ (if last (publish_base_url m) = CHR ''/'' then [] else ''/'') @
     out_path (ch_output c)"

definition pipeline_steps ::
  "(nat \<Rightarrow> bool) \<Rightarrow> gw_channel_config \<Rightarrow> gw_mediamtx_config \<Rightarrow> string \<Rightarrow>
   (pipeline_run \<Rightarrow> gw_status \<times> pipeline_run) list" where
  "pipeline_steps alloc channel mtx binary =
    [append_argument alloc binary,
     append_argument alloc ''-nostdin'',
     append_argument alloc ''-hide_banner'',
     append_pair alloc ''-loglevel'' ''warning'',
     append_pair alloc ''-progress'' ''pipe:1'',
     append_pair alloc ''-stats_period'' ''1'',
     append_pair alloc ''-rtsp_transport'' (in_transport (ch_input channel)),
     append_pair alloc ''-hwaccel'' ''rkmpp'',
     append_pair alloc ''-hwaccel_output_format'' ''drm_prime'',
     append_pair alloc ''-c:v'' (decoder (ch_video channel)),
     append_pair alloc ''-i'' (in_url (ch_input channel)),
     append_formatted alloc 160 (rga_filter_text (ch_video channel))
       ''RGA filter expression is too long'' (append_pair alloc ''-vf''),
     append_pair alloc ''-c:v'' (encoder (ch_video channel)),
     append_integer_pair alloc ''-b:v'' (bitrate_kbps (ch_video channel)) ''k'',
     append_integer_pair alloc ''-r'' (fps (ch_video channel)) [],
     append_integer_pair alloc ''-g'' (fps (ch_video channel) * 2) [],
     append_argument alloc ''-an'',
     append_pair alloc ''-f'' ''rtsp'',
     append_pair alloc ''-rtsp_transport'' ''tcp'',
     append_formatted alloc GW_URL_CAP (output_url_text mtx channel)
       ''publish URL is too long'' (append_argument alloc)]"

definition gw_pipeline_build ::
  "(nat \<Rightarrow> bool) \<Rightarrow> gw_channel_config \<Rightarrow> gw_mediamtx_config \<Rightarrow> string option \<Rightarrow>
   pipeline_run \<Rightarrow> gw_status \<times> pipeline_run" where
  "gw_pipeline_build alloc channel mtx ffmpeg_binary s =
     (let binary = (case ffmpeg_binary of Some b \<Rightarrow> b | None \<Rightarrow> ''ffmpeg'') in
      if publish_base_url mtx = [] then
        (GW_ERR_VALIDATION,
         s\<lparr>pl_error := gw_error_set (pl_error s) GW_ERR_VALIDATION ''MediaMTX publish base URL is empty''\<rparr>)
      else
        case run_steps (pipeline_steps alloc channel mtx binary) (gw_pipeline_argv_init s) of
          (status, s') \<Rightarrow>
            if status = GW_OK then (GW_OK, s'\<lparr>pl_error := gw_error_clear (pl_error s')\<rparr>)
            else (status, gw_pipeline_argv_free s'))"

section \<open>The vector as a list of strings\<close>

text \<open>The states the builder moves through: the first \<open>length xs\<close> entries hold the strings, the
  rest are null, and each string is one live heap block on top of \<open>base\<close>.\<close>

definition holding :: "nat \<Rightarrow> gw_error option \<Rightarrow> string list \<Rightarrow> pipeline_run" where
  "holding base err xs =
     \<lparr>items = map Some xs @ replicate (GW_PIPELINE_MAX_ARGS + 1 - length xs) None,
      count = length xs, pl_live = base + length xs, pl_error = err\<rparr>"

lemma append_argument_holding:
  assumes "length xs < GW_PIPELINE_MAX_ARGS"
  shows "append_argument alloc v (holding base err xs) =
     (if alloc (length xs) then (GW_OK, holding base err (xs @ [v]))
      else (GW_ERR_NO_MEMORY,
            holding base (gw_error_set err GW_ERR_NO_MEMORY ''cannot allocate FFmpeg argument'') xs))"
proof -
  obtain k where k: "GW_PIPELINE_MAX_ARGS + 1 - length xs = Suc (Suc k)" "GW_PIPELINE_MAX_ARGS - length xs = Suc k"
    using assms by (metis Suc_diff_Suc Suc_eq_plus1 Suc_diff_le less_imp_le_nat)
  have "(map Some xs @ replicate (Suc (Suc k)) None)[length xs := Some v, length xs + 1 := None]
        = map Some (xs @ [v]) @ replicate (Suc k) None"
    by (simp add: list_update_append)
  with assms k show ?thesis by (simp add: append_argument_def holding_def)
qed

lemma free_items_holding:
  fixes ys :: "string list"
  shows "free_items (length ys) (length xs)
     \<lparr>items = replicate (length ys) None @ map Some xs @ zs, count = c, pl_live = base + length xs, pl_error = err\<rparr>
   = \<lparr>items = replicate (length ys) None @ replicate (length xs) None @ zs, count = c, pl_live = base, pl_error = err\<rparr>"
proof (induction xs arbitrary: ys)
  case Nil
  then show ?case by simp
next
  case (Cons x xs)
  have mv: "replicate (length ys) None @ None # r = replicate (Suc (length ys)) None @ r" for r :: "string option list"
    by (simp add: replicate_app_Cons_same)
  have "free_items (length ys) (length (x # xs))
      \<lparr>items = replicate (length ys) None @ map Some (x # xs) @ zs, count = c, pl_live = base + length (x # xs), pl_error = err\<rparr>
    = free_items (Suc (length ys)) (length xs)
      \<lparr>items = replicate (length ys) None @ None # map Some xs @ zs, count = c, pl_live = base + length xs, pl_error = err\<rparr>"
    by (simp add: nth_append list_update_append)
  also have "\<dots> = \<lparr>items = replicate (Suc (length ys)) None @ replicate (length xs) None @ zs, count = c, pl_live = base, pl_error = err\<rparr>"
    unfolding mv using Cons.IH [of "x # ys"] by (simp only: length_Cons)
  finally show ?case by (simp add: mv del: replicate.simps) (simp add: mv)
qed

lemma argv_free_holding:
  assumes "length xs \<le> GW_PIPELINE_MAX_ARGS + 1"
  shows "gw_pipeline_argv_free (holding base err xs) = holding base err []"
proof -
  have "replicate (length xs) None @ replicate (GW_PIPELINE_MAX_ARGS + 1 - length xs) None
        = replicate (GW_PIPELINE_MAX_ARGS + 1) None"
    using assms by (simp add: replicate_add [symmetric] del: replicate.simps)
  then show ?thesis
    using free_items_holding [of "[]" xs "replicate (GW_PIPELINE_MAX_ARGS + 1 - length xs) None" "length xs" base err]
    by (simp add: gw_pipeline_argv_free_def holding_def)
qed

section \<open>Appending a list\<close>

abbreviation out_of_memory :: "gw_error option \<Rightarrow> gw_error option" where
  "out_of_memory err \<equiv> gw_error_set err GW_ERR_NO_MEMORY ''cannot allocate FFmpeg argument''"

lemma run_appends_ok:
  "length xs + length vs \<le> GW_PIPELINE_MAX_ARGS \<Longrightarrow> (\<And>i. i < length vs \<Longrightarrow> alloc (length xs + i)) \<Longrightarrow>
   run_steps (map (append_argument alloc) vs) (holding base err xs) = (GW_OK, holding base err (xs @ vs))"
proof (induction vs arbitrary: xs)
  case Nil
  then show ?case by simp
next
  case (Cons v vs)
  from Cons.prems(2) [of 0] have "alloc (length xs)" by simp
  moreover have "alloc (length (xs @ [v]) + i)" if "i < length vs" for i
    using Cons.prems(2) [of "Suc i"] that by simp
  ultimately show ?case using Cons.prems(1) Cons.IH [of "xs @ [v]"] by (simp add: append_argument_holding)
qed

lemma run_appends_fail:
  "length xs + length vs \<le> GW_PIPELINE_MAX_ARGS \<Longrightarrow> \<exists>i < length vs. \<not> alloc (length xs + i) \<Longrightarrow>
   \<exists>ys. length ys \<le> GW_PIPELINE_MAX_ARGS \<and>
     run_steps (map (append_argument alloc) vs) (holding base err xs)
       = (GW_ERR_NO_MEMORY, holding base (out_of_memory err) ys)"
proof (induction vs arbitrary: xs)
  case Nil
  then show ?case by simp
next
  case (Cons v vs)
  show ?case
  proof (cases "alloc (length xs)")
    case True
    with Cons.prems(2) obtain j where "j < length vs" "\<not> alloc (length (xs @ [v]) + j)"
      by (auto simp: less_Suc_eq_0_disj)
    then have "\<exists>i < length vs. \<not> alloc (length (xs @ [v]) + i)" by blast
    with Cons.IH [of "xs @ [v]"] Cons.prems(1) True show ?thesis
      by (simp add: append_argument_holding)
  next
    case False
    with Cons.prems(1) show ?thesis by (auto simp: append_argument_holding intro!: exI [of _ xs])
  qed
qed

lemma append_pair_steps:
  "append_pair alloc opt v = run_steps [append_argument alloc opt, append_argument alloc v]"
  by (simp only: append_pair_def fun_eq_iff) simp

lemma append_integer_pair_steps:
  "is_int32 i \<Longrightarrow> length sfx < 20 \<Longrightarrow>
   append_integer_pair alloc opt i sfx =
     run_steps [append_argument alloc opt, append_argument alloc (dec_int i @ sfx)]"
  using length_dec_int [of i]
  by (simp add: append_integer_pair_def snprintf_fits_def Let_def fun_eq_iff append_pair_def del: run_steps.simps)

lemma rga_filter_fits: "is_int32 (width v) \<Longrightarrow> is_int32 (height v) \<Longrightarrow> snprintf_fits 160 (rga_filter_text v)"
  using length_dec_int [of "width v"] length_dec_int [of "height v"]
  by (simp add: snprintf_fits_def rga_filter_text_def)

section \<open>What is built\<close>

text \<open>The argument vector the header documents, as plain lists: everything up to the publish
  URL, and the URL.\<close>

definition ffmpeg_options :: "gw_channel_config \<Rightarrow> string \<Rightarrow> string list" where
  "ffmpeg_options c binary =
     [binary, ''-nostdin'', ''-hide_banner'', ''-loglevel'', ''warning'', ''-progress'', ''pipe:1'',
      ''-stats_period'', ''1'', ''-rtsp_transport'', in_transport (ch_input c), ''-hwaccel'', ''rkmpp'',
      ''-hwaccel_output_format'', ''drm_prime'', ''-c:v'', decoder (ch_video c), ''-i'', in_url (ch_input c),
      ''-vf'', rga_filter_text (ch_video c), ''-c:v'', encoder (ch_video c),
      ''-b:v'', dec_int (bitrate_kbps (ch_video c)) @ ''k'', ''-r'', dec_int (fps (ch_video c)),
      ''-g'', dec_int (fps (ch_video c) * 2), ''-an'', ''-f'', ''rtsp'', ''-rtsp_transport'', ''tcp'']"

lemma pipeline_steps_flat:
  assumes "channel_bounded c" and "is_int32 (fps (ch_video c) * 2)"
  shows "run_steps (pipeline_steps alloc c m binary) s =
         run_steps (map (append_argument alloc) (ffmpeg_options c binary) @
           [append_formatted alloc GW_URL_CAP (output_url_text m c) ''publish URL is too long''
              (append_argument alloc)]) s"
proof -
  have i: "is_int32 (bitrate_kbps (ch_video c))" "is_int32 (fps (ch_video c))"
      "snprintf_fits 160 (rga_filter_text (ch_video c))"
    using assms(1) rga_filter_fits by (simp_all add: channel_bounded_def)
  have f: "append_formatted alloc 160 (rga_filter_text (ch_video c)) msg app = app (rga_filter_text (ch_video c))"
    for msg app using i(3) by (simp add: append_formatted_def fun_eq_iff)
  let ?A = "append_argument alloc"
  let ?url = "append_formatted alloc GW_URL_CAP (output_url_text m c) ''publish URL is too long'' ?A"
  let ?v = "ch_video c"
  have steps: "pipeline_steps alloc c m binary = map run_steps
      [[?A binary], [?A ''-nostdin''], [?A ''-hide_banner''], [?A ''-loglevel'', ?A ''warning''],
       [?A ''-progress'', ?A ''pipe:1''], [?A ''-stats_period'', ?A ''1''],
       [?A ''-rtsp_transport'', ?A (in_transport (ch_input c))], [?A ''-hwaccel'', ?A ''rkmpp''],
       [?A ''-hwaccel_output_format'', ?A ''drm_prime''], [?A ''-c:v'', ?A (decoder ?v)],
       [?A ''-i'', ?A (in_url (ch_input c))], [?A ''-vf'', ?A (rga_filter_text ?v)],
       [?A ''-c:v'', ?A (encoder ?v)], [?A ''-b:v'', ?A (dec_int (bitrate_kbps ?v) @ ''k'')],
       [?A ''-r'', ?A (dec_int (fps ?v))], [?A ''-g'', ?A (dec_int (fps ?v * 2))], [?A ''-an''],
       [?A ''-f'', ?A ''rtsp''], [?A ''-rtsp_transport'', ?A ''tcp''], [?url]]"
    unfolding pipeline_steps_def f append_pair_steps list.map run_steps_single
    using i assms(2) by (simp add: append_integer_pair_steps del: run_steps.simps)
  show ?thesis
    by (simp only: steps run_steps_concat) (simp add: ffmpeg_options_def del: run_steps.simps)
qed

lemma pipeline_build_cases:
  assumes "channel_bounded c" and "is_int32 (fps (ch_video c) * 2)" and "publish_base_url m \<noteq> []"
  shows "gw_pipeline_build alloc c m ffmpeg
           \<lparr>items = old, count = n, pl_live = base, pl_error = err\<rparr> =
    (let argv = ffmpeg_options c (case ffmpeg of Some b \<Rightarrow> b | None \<Rightarrow> ''ffmpeg'') in
     if \<exists>i < 34. \<not> alloc i then (GW_ERR_NO_MEMORY, holding base (out_of_memory err) [])
     else if GW_URL_CAP \<le> length (output_url_text m c) then
       (GW_ERR_OVERFLOW, holding base (gw_error_set err GW_ERR_OVERFLOW ''publish URL is too long'') [])
     else if \<not> alloc 34 then (GW_ERR_NO_MEMORY, holding base (out_of_memory err) [])
     else (GW_OK, holding base (gw_error_clear err) (argv @ [output_url_text m c])))"
proof -
  let ?b = "case ffmpeg of Some b \<Rightarrow> b | None \<Rightarrow> ''ffmpeg''"
  let ?argv = "ffmpeg_options c ?b"
  let ?A = "map (append_argument alloc) ?argv"
  have len: "length ?argv = 34" by (simp add: ffmpeg_options_def)
  have init: "gw_pipeline_argv_init \<lparr>items = old, count = n, pl_live = base, pl_error = err\<rparr> = holding base err []"
    by (simp add: gw_pipeline_argv_init_def holding_def)
  have flat: "run_steps (pipeline_steps alloc c m ?b) s =
      (case run_steps ?A s of (st, s') \<Rightarrow>
         if st = GW_OK then append_formatted alloc GW_URL_CAP (output_url_text m c)
              ''publish URL is too long'' (append_argument alloc) s'
         else (st, s'))" for s
    using pipeline_steps_flat [OF assms(1,2), of alloc m ?b s]
    by (simp only: run_steps_append run_steps_single)
  show ?thesis
  proof (cases "\<exists>i < 34. \<not> alloc i")
    case True
    then obtain ys where "length ys \<le> GW_PIPELINE_MAX_ARGS"
        "run_steps ?A (holding base err []) = (GW_ERR_NO_MEMORY, holding base (out_of_memory err) ys)"
      using run_appends_fail [of "[]" ?argv alloc base err] len by auto
    with True assms(3) flat init show ?thesis
      by (simp add: gw_pipeline_build_def Let_def argv_free_holding)
  next
    case False
    then have "run_steps ?A (holding base err []) = (GW_OK, holding base err ?argv)"
      using run_appends_ok [of "[]" ?argv alloc base err] len by simp
    with flat init have run: "run_steps (pipeline_steps alloc c m ?b)
          (gw_pipeline_argv_init \<lparr>items = old, count = n, pl_live = base, pl_error = err\<rparr>) =
        append_formatted alloc GW_URL_CAP (output_url_text m c) ''publish URL is too long''
          (append_argument alloc) (holding base err ?argv)"
      by simp
    have upd: "(holding base err xs)\<lparr>pl_error := e\<rparr> = holding base e xs" for xs e
      by (simp add: holding_def)
    have err: "pl_error (holding base err xs) = err" for xs by (simp add: holding_def)
    show ?thesis
      using False assms(3) len
      by (simp add: gw_pipeline_build_def Let_def run append_formatted_def snprintf_fits_def
          append_argument_holding upd err argv_free_holding)
  qed
qed

text \<open>C31: the complete behaviour of \<open>gw_pipeline_build\<close> on a configuration within its buffers. If
  memory lasts and the publish URL fits, the vector holds the 34 documented arguments and the URL,
  null-terminated; otherwise the status names the first failure, in program order, and the vector
  is empty again with every duplicated string freed.\<close>

theorem pipeline_build_result:
  assumes "channel_bounded c" and "is_int32 (fps (ch_video c) * 2)" and "publish_base_url m \<noteq> []"
  shows "gw_pipeline_build alloc c m ffmpeg
           \<lparr>items = old, count = n, pl_live = base, pl_error = err\<rparr> =
    (let argv = ffmpeg_options c (case ffmpeg of Some b \<Rightarrow> b | None \<Rightarrow> ''ffmpeg'') in
     if \<exists>i < 34. \<not> alloc i then (GW_ERR_NO_MEMORY, holding base (out_of_memory err) [])
     else if GW_URL_CAP \<le> length (output_url_text m c) then
       (GW_ERR_OVERFLOW, holding base (gw_error_set err GW_ERR_OVERFLOW ''publish URL is too long'') [])
     else if \<not> alloc 34 then (GW_ERR_NO_MEMORY, holding base (out_of_memory err) [])
     else (GW_OK, holding base (gw_error_clear err) (argv @ [output_url_text m c])))"
  by (rule pipeline_build_cases [OF assms])

theorem pipeline_build_result_witness:
  "gw_pipeline_build (\<lambda>n. True) sample_channel sample_mediamtx None
     \<lparr>items = [], count = 0, pl_live = 5, pl_error = None\<rparr>
   = (GW_OK, holding 5 None (ffmpeg_options sample_channel ''ffmpeg'' @ [''rtsp://127.0.0.1:8554/cam01'']))
   \<and> gw_pipeline_build (\<lambda>n. n < 20) sample_channel sample_mediamtx None
     \<lparr>items = [], count = 0, pl_live = 5, pl_error = None\<rparr>
   = (GW_ERR_NO_MEMORY, holding 5 None [])"
proof -
  have u: "output_url_text sample_mediamtx sample_channel = ''rtsp://127.0.0.1:8554/cam01''"
    by (simp add: output_url_text_def sample_mediamtx_def sample_channel_def)
  have f: "is_int32 (fps (ch_video sample_channel) * 2)" by (simp add: sample_channel_def is_int32_def)
  have p: "publish_base_url sample_mediamtx \<noteq> []" by (simp add: sample_mediamtx_def)
  have "\<exists>i < 34. \<not> i < (20::nat)" by (rule exI [of _ 20]) simp
  then show ?thesis
    using pipeline_build_result [OF sample_channel_bounded f p, of "\<lambda>n. True" None "[]" 0 5 None]
      pipeline_build_result [OF sample_channel_bounded f p, of "\<lambda>n. n < 20" None "[]" 0 5 None]
    by (simp add: u)
qed

end
