(* ===== verification/Process_Manager.thy ===== *)
theory Process_Manager
  imports Gw_Config_Types
begin

text \<open>
  Worker processes (\<^verbatim>\<open>include/gateway/process_manager.h\<close>,
  \<^verbatim>\<open>src/process/process_manager.c\<close>). The part of the operating system the code acts on is
  explicit state: the table of open descriptors with their flags, the children not yet reaped, the
  live spawn objects and the signals sent. What the kernel answers to each call is an argument
  (a record per operation, a list per loop); \<open>reason\<close> is the text of \<^verbatim>\<open>strerror\<close>. Shown: a
  failed start leaks nothing, a successful one leaves exactly the two nonblocking read ends, and a
  stop that returns \<open>GW_OK\<close> has reaped the child, with SIGKILL only after the deadline.
\<close>

section \<open>Data\<close>

record fd_flags =
  fd_cloexec :: bool
  fd_nonblock :: bool

datatype signal = SIGTERM | SIGKILL

record os_state =
  os_fds :: "int \<rightharpoonup> fd_flags"
  os_children :: "int set"
  os_spawn_objects :: nat
  os_signals :: "(int \<times> signal) list"

datatype gw_process_stream = GW_PROCESS_STDOUT | GW_PROCESS_STDERR

record gw_process =
  pr_pid :: int
  pr_stdout_fd :: int
  pr_stderr_fd :: int
  pr_running :: bool
  pr_reaped :: bool
  pr_wait_status :: u32

type_synonym proc_result = "gw_status \<times> gw_process \<times> os_state \<times> gw_error option"

section \<open>Descriptors\<close>

definition os_close :: "int \<Rightarrow> os_state \<Rightarrow> os_state" where
  "os_close d os = os\<lparr>os_fds := (os_fds os)(d := None)\<rparr>"

text \<open>Returns the new value of the descriptor variable and the state.\<close>

definition close_fd :: "int \<Rightarrow> os_state \<Rightarrow> int \<times> os_state" where
  "close_fd descriptor os = (if descriptor \<ge> 0 then (-1, os_close descriptor os) else (descriptor, os))"

definition fd_set :: "int \<Rightarrow> (fd_flags \<Rightarrow> fd_flags) \<Rightarrow> os_state \<Rightarrow> os_state" where
  "fd_set d f os = os\<lparr>os_fds := (os_fds os)(d := map_option f (os_fds os d))\<rparr>"

text \<open>The six \<^verbatim>\<open>fcntl\<close> calls in order; \<open>answers\<close> tells which of them succeed. A pair get/set
  fails as soon as one of the two does.\<close>

definition configure_pipe ::
  "(nat \<Rightarrow> bool) \<Rightarrow> string \<Rightarrow> int \<times> int \<Rightarrow> os_state \<Rightarrow> gw_error option \<Rightarrow>
   gw_status \<times> os_state \<times> gw_error option" where
  "configure_pipe answers reason descriptors os error =
     (case descriptors of (r, w) \<Rightarrow>
      let cloexec_failed = gw_error_set error GW_ERR_IO (''cannot configure close-on-exec: '' @ reason) in
      if \<not> (answers 0 \<and> answers 1) then (GW_ERR_IO, os, cloexec_failed)
      else
        let os1 = fd_set r (fd_cloexec_update (\<lambda>_. True)) os in
        if \<not> (answers 2 \<and> answers 3) then (GW_ERR_IO, os1, cloexec_failed)
        else
          let os2 = fd_set w (fd_cloexec_update (\<lambda>_. True)) os1 in
          if \<not> (answers 4 \<and> answers 5) then
            (GW_ERR_IO, os2,
             gw_error_set error GW_ERR_IO (''cannot make worker pipe nonblocking: '' @ reason))
          else (GW_OK, fd_set r (fd_nonblock_update (\<lambda>_. True)) os2, error))"

definition gw_process_init :: gw_process where
  "gw_process_init = \<lparr>pr_pid = -1, pr_stdout_fd = -1, pr_stderr_fd = -1, pr_running = False,
     pr_reaped = False, pr_wait_status = 0\<rparr>"

section \<open>Starting a worker\<close>

text \<open>\<open>sp_add\<close> answers the six \<^verbatim>\<open>posix_spawn_file_actions_*\<close> calls of \<open>add_file_actions\<close>,
  \<open>sp_attr\<close> the four \<^verbatim>\<open>posix_spawnattr_set*\<close> calls.\<close>

record spawn_answers =
  sp_pipe_out :: "(int \<times> int) option"
  sp_fcntl_out :: "nat \<Rightarrow> bool"
  sp_pipe_err :: "(int \<times> int) option"
  sp_fcntl_err :: "nat \<Rightarrow> bool"
  sp_actions_init :: bool
  sp_add :: "nat \<Rightarrow> bool"
  sp_attributes_init :: bool
  sp_attr :: "nat \<Rightarrow> bool"
  sp_spawn :: "int option"
  sp_reason :: string

definition add_file_actions :: "(nat \<Rightarrow> bool) \<Rightarrow> bool" where
  "add_file_actions answers =
     (if \<not> answers 0 then False else if \<not> answers 1 then False else if \<not> answers 2 then False
      else if \<not> answers 3 then False else if \<not> answers 4 then False else answers 5)"

definition new_pipe :: "int \<times> int \<Rightarrow> os_state \<Rightarrow> os_state" where
  "new_pipe rw os =
     os\<lparr>os_fds := (os_fds os)(fst rw \<mapsto> \<lparr>fd_cloexec = False, fd_nonblock = False\<rparr>,
                               snd rw \<mapsto> \<lparr>fd_cloexec = False, fd_nonblock = False\<rparr>)\<rparr>"

text \<open>The label \<^verbatim>\<open>fail\<close>: destroy the spawn objects that were initialized and close the four
  pipe ends that were opened (-1 for the others).\<close>

definition spawn_fail :: "nat \<Rightarrow> int \<times> int \<Rightarrow> int \<times> int \<Rightarrow> os_state \<Rightarrow> os_state" where
  "spawn_fail objects out err os =
     (let os0 = os\<lparr>os_spawn_objects := os_spawn_objects os - objects\<rparr>;
          os1 = snd (close_fd (fst out) os0);
          os2 = snd (close_fd (snd out) os1);
          os3 = snd (close_fd (fst err) os2)
      in snd (close_fd (snd err) os3))"

text \<open>The second half of \<open>gw_process_start\<close>: both pipes exist; file actions, attributes, spawn.\<close>

definition spawn_child ::
  "spawn_answers \<Rightarrow> gw_process \<Rightarrow> string list \<Rightarrow> int \<times> int \<Rightarrow> int \<times> int \<Rightarrow> os_state \<Rightarrow> gw_error option \<Rightarrow>
   proc_result" where
  "spawn_child a process arguments out err os2 e2 =
     (if \<not> sp_actions_init a then
        (GW_ERR_IO, process, spawn_fail 0 out err os2,
         gw_error_set e2 GW_ERR_IO (''cannot initialize spawn file actions: '' @ sp_reason a))
      else
        let os3 = os2\<lparr>os_spawn_objects := os_spawn_objects os2 + 1\<rparr> in
        if \<not> add_file_actions (sp_add a) then
          (GW_ERR_IO, process, spawn_fail 1 out err os3,
           gw_error_set e2 GW_ERR_IO (''cannot configure worker file actions: '' @ sp_reason a))
        else if \<not> sp_attributes_init a then
          (GW_ERR_IO, process, spawn_fail 1 out err os3,
           gw_error_set e2 GW_ERR_IO (''cannot initialize spawn attributes: '' @ sp_reason a))
        else
          let os4 = os3\<lparr>os_spawn_objects := os_spawn_objects os3 + 1\<rparr> in
          if \<not> (sp_attr a 0 \<and> sp_attr a 1 \<and> sp_attr a 2 \<and> sp_attr a 3) then
            (GW_ERR_IO, process, spawn_fail 2 out err os4,
             gw_error_set e2 GW_ERR_IO (''cannot configure worker spawn attributes: '' @ sp_reason a))
          else case sp_spawn a of
            None \<Rightarrow> (GW_ERR_IO, process, spawn_fail 2 out err os4,
              gw_error_set e2 GW_ERR_IO
                (''cannot start worker '' @ [CHR 0x27] @ hd arguments @ [CHR 0x27] @ '': '' @ sp_reason a))
          | Some pid \<Rightarrow>
              let os5 = os4\<lparr>os_spawn_objects := os_spawn_objects os4 - 2,
                            os_children := insert pid (os_children os4)\<rparr>;
                  os6 = snd (close_fd (snd out) os5);
                  os7 = snd (close_fd (snd err) os6)
              in (GW_OK,
                  process\<lparr>pr_pid := pid, pr_stdout_fd := fst out, pr_stderr_fd := fst err,
                          pr_running := True, pr_reaped := False, pr_wait_status := 0\<rparr>,
                  os7, gw_error_clear e2))"

definition gw_process_start ::
  "spawn_answers \<Rightarrow> gw_process \<Rightarrow> string list \<Rightarrow> os_state \<Rightarrow> gw_error option \<Rightarrow> proc_result" where
  "gw_process_start a process arguments os error =
     (if arguments = [] then
        (GW_ERR_ARGUMENT, process, os, gw_error_set error GW_ERR_ARGUMENT ''worker arguments are required'')
      else if pr_running process \<or> pr_pid process > 0 then
        (GW_ERR_VALIDATION, process, os,
         gw_error_set error GW_ERR_VALIDATION ''worker process is already active'')
      else case sp_pipe_out a of
        None \<Rightarrow> (GW_ERR_IO, process, os,
                 gw_error_set error GW_ERR_IO (''cannot create stdout pipe: '' @ sp_reason a))
      | Some out \<Rightarrow>
      (case configure_pipe (sp_fcntl_out a) (sp_reason a) out (new_pipe out os) error of (st1, os1, e1) \<Rightarrow>
       if st1 \<noteq> GW_OK then (GW_ERR_IO, process, spawn_fail 0 out (-1, -1) os1, e1)
       else case sp_pipe_err a of
         None \<Rightarrow> (GW_ERR_IO, process, spawn_fail 0 out (-1, -1) os1,
                  gw_error_set e1 GW_ERR_IO (''cannot create stderr pipe: '' @ sp_reason a))
       | Some err \<Rightarrow>
       (case configure_pipe (sp_fcntl_err a) (sp_reason a) err (new_pipe err os1) e1 of (st2, os2, e2) \<Rightarrow>
        if st2 \<noteq> GW_OK then (GW_ERR_IO, process, spawn_fail 0 out err os2, e2)
        else spawn_child a process arguments out err os2 e2)))"

section \<open>Reading and polling\<close>

text \<open>The answer of a nonblocking \<^verbatim>\<open>read\<close>; \<open>Pipe_Again\<close> stands for \<^verbatim>\<open>EAGAIN\<close>,
  \<^verbatim>\<open>EWOULDBLOCK\<close> and \<^verbatim>\<open>EINTR\<close>.\<close>

datatype pipe_answer = Pipe_Data string | Pipe_Eof | Pipe_Again | Pipe_Error

text \<open>Result: status, process, state, bytes read, end of stream, error.\<close>

definition gw_process_read ::
  "pipe_answer \<Rightarrow> string \<Rightarrow> gw_process \<Rightarrow> gw_process_stream \<Rightarrow> nat \<Rightarrow> os_state \<Rightarrow> gw_error option \<Rightarrow>
   gw_status \<times> gw_process \<times> os_state \<times> string \<times> bool \<times> gw_error option" where
  "gw_process_read answer reason process stream capacity os error =
     (if capacity = 0 then
        (GW_ERR_ARGUMENT, process, os, [], False,
         gw_error_set error GW_ERR_ARGUMENT ''invalid worker read arguments'')
      else
        let descriptor = (case stream of GW_PROCESS_STDOUT \<Rightarrow> pr_stdout_fd process
                                       | GW_PROCESS_STDERR \<Rightarrow> pr_stderr_fd process) in
        if descriptor < 0 then (GW_OK, process, os, [], True, gw_error_clear error)
        else case answer of
          Pipe_Data d \<Rightarrow> (GW_OK, process, os, take capacity d, False, gw_error_clear error)
        | Pipe_Eof \<Rightarrow>
            (case close_fd descriptor os of (d, os') \<Rightarrow>
               (GW_OK,
                (case stream of GW_PROCESS_STDOUT \<Rightarrow> process\<lparr>pr_stdout_fd := d\<rparr>
                              | GW_PROCESS_STDERR \<Rightarrow> process\<lparr>pr_stderr_fd := d\<rparr>),
                os', [], True, gw_error_clear error))
        | Pipe_Again \<Rightarrow> (GW_OK, process, os, [], False, gw_error_clear error)
        | Pipe_Error \<Rightarrow>
            (GW_ERR_IO, process, os, [], False,
             gw_error_set error GW_ERR_IO (''cannot read worker stream: '' @ reason)))"

text \<open>The answer of \<^verbatim>\<open>waitpid\<close> for the worker's pid: still running, reaped with a status,
  interrupted, or failed.\<close>

datatype wait_answer = Wait_Running | Wait_Reaped u32 | Wait_Eintr | Wait_Error

definition reap :: "gw_process \<Rightarrow> u32 \<Rightarrow> os_state \<Rightarrow> gw_process \<times> os_state" where
  "reap process status os =
     (process\<lparr>pr_wait_status := status, pr_running := False, pr_reaped := True\<rparr>,
      os\<lparr>os_children := os_children os - {pr_pid process}\<rparr>)"

text \<open>Result: status, process, state, whether the worker has exited, error. The flag is meaningful
  for \<open>GW_OK\<close> only.\<close>

definition gw_process_poll_exit ::
  "wait_answer \<Rightarrow> string \<Rightarrow> gw_process \<Rightarrow> os_state \<Rightarrow> gw_error option \<Rightarrow>
   gw_status \<times> gw_process \<times> os_state \<times> bool \<times> gw_error option" where
  "gw_process_poll_exit answer reason process os error =
     (if pr_reaped process then (GW_OK, process, os, True, gw_error_clear error)
      else if pr_pid process \<le> 0 then
        (GW_ERR_VALIDATION, process, os, False,
         gw_error_set error GW_ERR_VALIDATION ''worker process has not been started'')
      else case answer of
        Wait_Running \<Rightarrow> (GW_OK, process, os, False, gw_error_clear error)
      | Wait_Reaped status \<Rightarrow>
          (case reap process status os of (p, os') \<Rightarrow> (GW_OK, p, os', True, gw_error_clear error))
      | Wait_Eintr \<Rightarrow> (GW_OK, process, os, False, gw_error_clear error)
      | Wait_Error \<Rightarrow>
          (GW_ERR_IO, process, os, False,
           gw_error_set error GW_ERR_IO (''cannot inspect worker process: '' @ reason)))"

section \<open>Stopping a worker\<close>

record timespec =
  tv_sec :: int
  tv_nsec :: int

text \<open>The clock reading is \<open>None\<close> where \<^verbatim>\<open>clock_gettime\<close> fails; a failed reading leaves the
  zero-initialized deadline.\<close>

definition deadline_reached :: "timespec option \<Rightarrow> timespec \<Rightarrow> bool" where
  "deadline_reached now deadline =
     (case now of
        None \<Rightarrow> True
      | Some n \<Rightarrow> tv_sec n > tv_sec deadline \<or> tv_sec n = tv_sec deadline \<and> tv_nsec n \<ge> tv_nsec deadline)"

definition make_deadline :: "timespec option \<Rightarrow> int \<Rightarrow> timespec" where
  "make_deadline now timeout_ms =
     (let base = (case now of Some n \<Rightarrow> n | None \<Rightarrow> \<lparr>tv_sec = 0, tv_nsec = 0\<rparr>);
          sec = tv_sec base + c_div timeout_ms 1000;
          nsec = tv_nsec base + c_mod timeout_ms 1000 * 1000000
      in if nsec \<ge> 1000000000 then \<lparr>tv_sec = sec + 1, tv_nsec = nsec - 1000000000\<rparr>
         else \<lparr>tv_sec = sec, tv_nsec = nsec\<rparr>)"

text \<open>The blocking wait after SIGKILL: interrupted calls are repeated; \<open>None\<close> while the kernel has
  not answered.\<close>

fun wait_after_kill ::
  "wait_answer list \<Rightarrow> string \<Rightarrow> gw_process \<Rightarrow> os_state \<Rightarrow> gw_error option \<Rightarrow> proc_result option" where
  "wait_after_kill [] reason process os error = None"
| "wait_after_kill (Wait_Eintr # as) reason process os error = wait_after_kill as reason process os error"
| "wait_after_kill (Wait_Reaped status # as) reason process os error =
     (case reap process status os of (p, os') \<Rightarrow> Some (GW_OK, p, os', error))"
| "wait_after_kill (_ # as) reason process os error =
     Some (GW_ERR_IO, process, os, gw_error_set error GW_ERR_IO (''cannot reap worker process: '' @ reason))"

datatype kill_answer = Kill_Ok | Kill_Esrch | Kill_Error

text \<open>\<open>kill(-pid, sig) < 0 && errno != ESRCH\<close>: the signal is recorded when it was delivered.\<close>

definition send_signal :: "kill_answer \<Rightarrow> int \<Rightarrow> signal \<Rightarrow> os_state \<Rightarrow> bool \<times> os_state" where
  "send_signal answer target sig os =
     (case answer of
        Kill_Ok \<Rightarrow> (True, os\<lparr>os_signals := os_signals os @ [(target, sig)]\<rparr>)
      | Kill_Esrch \<Rightarrow> (True, os)
      | Kill_Error \<Rightarrow> (False, os))"

record stop_answers =
  st_term :: kill_answer
  st_start :: "timespec option"
  st_polls :: "(timespec option \<times> wait_answer) list"
  st_last :: wait_answer
  st_kill :: kill_answer
  st_waits :: "wait_answer list"
  st_reason :: string

text \<open>The polling loop. \<open>Inl\<close>: it returned from the function; \<open>Inr\<close>: it was left because the
  deadline was reached; \<open>None\<close>: the list of answers ended while it was still running.\<close>

fun stop_loop ::
  "timespec \<Rightarrow> string \<Rightarrow> (timespec option \<times> wait_answer) list \<Rightarrow> gw_process \<Rightarrow> os_state \<Rightarrow>
   gw_error option \<Rightarrow> (proc_result + gw_process \<times> os_state \<times> gw_error option) option" where
  "stop_loop deadline reason [] process os error = None"
| "stop_loop deadline reason ((now, w) # polls) process os error =
     (if deadline_reached now deadline then Some (Inr (process, os, error))
      else case gw_process_poll_exit w reason process os error of (st, p, os', exited, e) \<Rightarrow>
        if st \<noteq> GW_OK then Some (Inl (st, p, os', e))
        else if exited then Some (Inl (GW_OK, p, os', e))
        else stop_loop deadline reason polls p os' e)"

definition gw_process_stop ::
  "stop_answers \<Rightarrow> gw_process \<Rightarrow> int \<Rightarrow> os_state \<Rightarrow> gw_error option \<Rightarrow> proc_result option" where
  "gw_process_stop a process timeout_ms os error =
     (if timeout_ms < 0 then
        Some (GW_ERR_ARGUMENT, process, os,
              gw_error_set error GW_ERR_ARGUMENT ''worker and non-negative timeout are required'')
      else if pr_reaped process then Some (GW_OK, process, os, gw_error_clear error)
      else if pr_pid process \<le> 0 then
        Some (GW_ERR_VALIDATION, process, os,
              gw_error_set error GW_ERR_VALIDATION ''worker process has not been started'')
      else case send_signal (st_term a) (- pr_pid process) SIGTERM os of (sent, os1) \<Rightarrow>
        if \<not> sent then
          Some (GW_ERR_IO, process, os1,
                gw_error_set error GW_ERR_IO (''cannot terminate worker process group: '' @ st_reason a))
        else case stop_loop (make_deadline (st_start a) timeout_ms) (st_reason a) (st_polls a) process os1 error of
          None \<Rightarrow> None
        | Some (Inl r) \<Rightarrow> Some r
        | Some (Inr (p, os2, e)) \<Rightarrow>
            (case gw_process_poll_exit (st_last a) (st_reason a) p os2 e of (st, p', os3, exited, e') \<Rightarrow>
               if st \<noteq> GW_OK then Some (st, p', os3, e')
               else if exited then Some (GW_OK, p', os3, e')
               else case send_signal (st_kill a) (- pr_pid p') SIGKILL os3 of (sent2, os4) \<Rightarrow>
                 if \<not> sent2 then
                   Some (GW_ERR_IO, p', os4,
                         gw_error_set e' GW_ERR_IO (''cannot kill worker process group: '' @ st_reason a))
                 else case wait_after_kill (st_waits a) (st_reason a) p' os4 e' of
                   None \<Rightarrow> None
                 | Some (st', p'', os5, e'') \<Rightarrow>
                     Some (st', p'', os5, if st' = GW_OK then gw_error_clear e'' else e'')))"

text \<open>The macros of \<^verbatim>\<open>sys/wait.h\<close> on the status word.\<close>

definition WTERMSIG :: "u32 \<Rightarrow> u32" where
  "WTERMSIG status = status AND 0x7F"

definition WIFEXITED :: "u32 \<Rightarrow> bool" where
  "WIFEXITED status \<longleftrightarrow> WTERMSIG status = 0"

definition WEXITSTATUS :: "u32 \<Rightarrow> u32" where
  "WEXITSTATUS status = drop_bit 8 (status AND 0xFF00)"

definition WIFSIGNALED :: "u32 \<Rightarrow> bool" where
  "WIFSIGNALED status \<longleftrightarrow> WTERMSIG status \<noteq> 0 \<and> WTERMSIG status \<noteq> 0x7F"

definition gw_process_exit_code :: "gw_process \<Rightarrow> int" where
  "gw_process_exit_code process =
     (if \<not> pr_reaped process then -1
      else if WIFEXITED (pr_wait_status process) then uint (WEXITSTATUS (pr_wait_status process))
      else if WIFSIGNALED (pr_wait_status process) then 128 + uint (WTERMSIG (pr_wait_status process))
      else -1)"

definition gw_process_close :: "gw_process \<Rightarrow> os_state \<Rightarrow> gw_error option \<Rightarrow> proc_result" where
  "gw_process_close process os error =
     (if pr_running process then
        (GW_ERR_VALIDATION, process, os,
         gw_error_set error GW_ERR_VALIDATION ''cannot close a running worker process'')
      else
        case close_fd (pr_stdout_fd process) os of (d1, os1) \<Rightarrow>
        case close_fd (pr_stderr_fd process) os1 of (d2, os2) \<Rightarrow>
          (GW_OK, process\<lparr>pr_stdout_fd := d1, pr_stderr_fd := d2, pr_pid := -1\<rparr>, os2,
           gw_error_clear error))"

section \<open>Starting: all or nothing\<close>

text \<open>The law of \<^verbatim>\<open>pipe\<close>: two different non-negative descriptors that were not open.\<close>

definition fresh_pipe :: "(int \<rightharpoonup> fd_flags) \<Rightarrow> int \<times> int \<Rightarrow> bool" where
  "fresh_pipe fds rw \<longleftrightarrow>
     0 \<le> fst rw \<and> 0 \<le> snd rw \<and> fst rw \<noteq> snd rw \<and> fds (fst rw) = None \<and> fds (snd rw) = None"

text \<open>\<open>os'\<close> differs from \<open>os\<close> in \<open>n\<close> more spawn objects and in descriptors of \<open>D\<close> only.\<close>

definition touches :: "int set \<Rightarrow> nat \<Rightarrow> os_state \<Rightarrow> os_state \<Rightarrow> bool" where
  "touches D n os os' \<longleftrightarrow>
     os_children os' = os_children os \<and> os_signals os' = os_signals os \<and>
     os_spawn_objects os' = os_spawn_objects os + n \<and> (\<forall>d. d \<notin> D \<longrightarrow> os_fds os' d = os_fds os d)"

abbreviation ends :: "int \<times> int \<Rightarrow> int set" where
  "ends rw \<equiv> {fst rw, snd rw}"

lemma touches_new_pipe: "touches D n os os' \<Longrightarrow> touches (D \<union> ends rw) n os (new_pipe rw os')"
  by (auto simp: touches_def new_pipe_def)

lemma touches_configure:
  assumes "touches D n os os'" and "ends rw \<subseteq> D" and "configure_pipe ans reason rw os' e = (st, os'', e')"
  shows "touches D n os os''"
  using assms by (auto simp: touches_def configure_pipe_def fd_set_def Let_def split: prod.splits if_splits)

lemma touches_object: "touches D n os os' \<Longrightarrow>
  touches D (n + 1) os (os'\<lparr>os_spawn_objects := os_spawn_objects os' + 1\<rparr>)"
  by (simp add: touches_def)

lemma spawn_fail_restores:
  assumes "touches (ends out \<union> ends err) n os os'"
    and "fresh_pipe (os_fds os) out" and "fresh_pipe (os_fds os) err"
  shows "spawn_fail n out err os' = os"
  using assms
  by (intro os_state.equality)
    (auto simp: spawn_fail_def close_fd_def os_close_def touches_def fresh_pipe_def Let_def fun_eq_iff)

lemma spawn_fail_restores_out:
  assumes "touches (ends out) n os os'" and "fresh_pipe (os_fds os) out"
  shows "spawn_fail n out (-1, -1) os' = os"
  using assms
  by (intro os_state.equality)
    (auto simp: spawn_fail_def close_fd_def os_close_def touches_def fresh_pipe_def Let_def fun_eq_iff)

lemma configure_pipe_ok:
  assumes "fresh_pipe fds0 rw" and "configure_pipe ans reason rw (new_pipe rw os) e = (GW_OK, os', e')"
  shows "os' = os\<lparr>os_fds := (os_fds os)(fst rw \<mapsto> \<lparr>fd_cloexec = True, fd_nonblock = True\<rparr>,
                                        snd rw \<mapsto> \<lparr>fd_cloexec = True, fd_nonblock = False\<rparr>)\<rparr> \<and> e' = e"
proof -
  obtain r w where rw: "rw = (r, w)" by (cases rw)
  with assms(1) have "r \<noteq> w" by (simp add: fresh_pipe_def)
  with assms(2) rw show ?thesis
    by (auto simp: configure_pipe_def new_pipe_def fd_set_def Let_def fun_eq_iff split: if_splits)
qed

lemma both_pipes_ok:
  assumes "fresh_pipe fds0 out" and "configure_pipe ans1 r1 out (new_pipe out os) e = (GW_OK, os1, e1)"
    and "fresh_pipe fds1 err" and "configure_pipe ans2 r2 err (new_pipe err os1) e1 = (GW_OK, os2, e2)"
  shows "os2 = os\<lparr>os_fds := (os_fds os)
     (fst out \<mapsto> \<lparr>fd_cloexec = True, fd_nonblock = True\<rparr>, snd out \<mapsto> \<lparr>fd_cloexec = True, fd_nonblock = False\<rparr>,
      fst err \<mapsto> \<lparr>fd_cloexec = True, fd_nonblock = True\<rparr>, snd err \<mapsto> \<lparr>fd_cloexec = True, fd_nonblock = False\<rparr>)\<rparr>"
  using configure_pipe_ok [OF assms(1,2)] configure_pipe_ok [OF assms(3,4)] by simp

definition started :: "gw_process \<Rightarrow> int \<Rightarrow> int \<Rightarrow> int \<Rightarrow> gw_process" where
  "started p pid out err = p\<lparr>pr_pid := pid, pr_stdout_fd := out, pr_stderr_fd := err,
     pr_running := True, pr_reaped := False, pr_wait_status := 0\<rparr>"

definition both_read_ends :: "os_state \<Rightarrow> int \<Rightarrow> int \<Rightarrow> int \<Rightarrow> os_state" where
  "both_read_ends os pid out err =
     os\<lparr>os_fds := (os_fds os)(out \<mapsto> \<lparr>fd_cloexec = True, fd_nonblock = True\<rparr>,
                             err \<mapsto> \<lparr>fd_cloexec = True, fd_nonblock = True\<rparr>),
        os_children := insert pid (os_children os)\<rparr>"

lemma spawn_child_fails:
  assumes "touches (ends out \<union> ends err) 0 os os2"
    and "fresh_pipe (os_fds os) out" and "fresh_pipe (os_fds os) err"
    and "spawn_child a p args out err os2 e2 = (st, p', os', e')" and "st \<noteq> GW_OK"
  shows "p' = p \<and> os' = os"
proof -
  note r = spawn_fail_restores [OF _ assms(2,3)]
  have "touches (ends out \<union> ends err) 1 os (os2\<lparr>os_spawn_objects := os_spawn_objects os2 + 1\<rparr>)"
    "touches (ends out \<union> ends err) 2 os (os2\<lparr>os_spawn_objects := os_spawn_objects os2 + 1 + 1\<rparr>)"
    using assms(1) by (simp_all add: touches_def)
  with assms(1,4,5) show ?thesis
    by (auto simp: spawn_child_def Let_def r split: if_splits option.splits)
qed

lemma spawn_child_succeeds:
  assumes "spawn_child a p args out err os2 e2 = (GW_OK, p', os', e')"
    and "fresh_pipe (os_fds os) out" and "fresh_pipe (os_fds os) err" and "ends out \<inter> ends err = {}"
    and "os2 = os\<lparr>os_fds := (os_fds os)
           (fst out \<mapsto> \<lparr>fd_cloexec = True, fd_nonblock = True\<rparr>, snd out \<mapsto> \<lparr>fd_cloexec = True, fd_nonblock = False\<rparr>,
            fst err \<mapsto> \<lparr>fd_cloexec = True, fd_nonblock = True\<rparr>, snd err \<mapsto> \<lparr>fd_cloexec = True, fd_nonblock = False\<rparr>)\<rparr>"
  shows "\<exists>pid. sp_spawn a = Some pid \<and> p' = started p pid (fst out) (fst err) \<and>
           os' = both_read_ends os pid (fst out) (fst err)"
proof -
  from assms(1) obtain pid where pid: "sp_spawn a = Some pid" "p' = started p pid (fst out) (fst err)"
    "os' = snd (close_fd (snd err) (snd (close_fd (snd out)
        (os2\<lparr>os_children := insert pid (os_children os2)\<rparr>))))"
    by (auto simp: spawn_child_def started_def Let_def split: if_splits option.splits)
  have "os' = both_read_ends os pid (fst out) (fst err)"
    unfolding pid(3) using assms(2-5)
    by (intro os_state.equality)
      (auto simp: both_read_ends_def close_fd_def os_close_def fresh_pipe_def fun_eq_iff)
  with pid show ?thesis by blast
qed

lemma process_start_cases:
  assumes "\<And>out. sp_pipe_out a = Some out \<Longrightarrow> fresh_pipe (os_fds os) out"
    and "\<And>out err. sp_pipe_out a = Some out \<Longrightarrow> sp_pipe_err a = Some err \<Longrightarrow>
           fresh_pipe (os_fds os) err \<and> ends out \<inter> ends err = {}"
    and "gw_process_start a p args os e = (st, p', os', e')"
  shows "if st \<noteq> GW_OK then p' = p \<and> os' = os
     else \<exists>out err pid. sp_pipe_out a = Some out \<and> sp_pipe_err a = Some err \<and> sp_spawn a = Some pid \<and>
       p' = started p pid (fst out) (fst err) \<and> os' = both_read_ends os pid (fst out) (fst err)"
proof (cases "args = [] \<or> pr_running p \<or> pr_pid p > 0 \<or> sp_pipe_out a = None")
  case True
  with assms(3) show ?thesis by (auto simp: gw_process_start_def split: if_splits)
next
  case False
  then obtain out where out: "sp_pipe_out a = Some out" by auto
  note fo = assms(1) [OF out]
  obtain st1 os1 e1 where c1:
    "configure_pipe (sp_fcntl_out a) (sp_reason a) out (new_pipe out os) e = (st1, os1, e1)"
    by (metis prod_cases3)
  have "touches {} 0 os os" by (simp add: touches_def)
  from touches_configure [OF touches_new_pipe [OF this] _ c1] have t1: "touches (ends out) 0 os os1" by simp
  note start = assms(3) [unfolded gw_process_start_def] 
  show ?thesis
  proof (cases "st1 \<noteq> GW_OK \<or> sp_pipe_err a = None")
    case True
    with start False out c1 spawn_fail_restores_out [OF t1 fo] show ?thesis by (auto split: if_splits)
  next
    case ok1: False
    then obtain err where err: "sp_pipe_err a = Some err" and st1: "st1 = GW_OK" by auto
    from assms(2) [OF out err] have fe: "fresh_pipe (os_fds os) err" and dis: "ends out \<inter> ends err = {}" by auto
    obtain st2 os2 e2 where c2:
      "configure_pipe (sp_fcntl_err a) (sp_reason a) err (new_pipe err os1) e1 = (st2, os2, e2)"
      by (metis prod_cases3)
    from touches_configure [OF touches_new_pipe [OF t1] _ c2]
    have t2: "touches (ends out \<union> ends err) 0 os os2" by simp
    show ?thesis
    proof (cases "st2 = GW_OK")
      case False
      with start \<open>\<not> (args = [] \<or> _)\<close> out c1 st1 err c2 spawn_fail_restores [OF t2 fo fe]
      show ?thesis by (auto split: if_splits)
    next
      case True
      with start \<open>\<not> (args = [] \<or> _)\<close> out c1 st1 err c2
      have sc: "spawn_child a p args out err os2 e2 = (st, p', os', e')" by simp
      note os2 = both_pipes_ok [OF fo c1 [unfolded st1] fe c2 [unfolded True]]
      show ?thesis
        using spawn_child_fails [OF t2 fo fe sc] spawn_child_succeeds [OF _ fo fe dis os2] sc out err
        by (cases "st = GW_OK") auto
    qed
  qed
qed

text \<open>C8: \<open>gw_process_start\<close> is all or nothing. If any of its calls fails, the process handle, the
  descriptor table, the children and the spawn objects are exactly as before, so nothing leaks; if it
  returns \<open>GW_OK\<close>, the gateway holds exactly two new descriptors, the read ends of the two pipes,
  both close-on-exec and nonblocking, and one new child.\<close>

theorem process_start_all_or_nothing:
  assumes "\<And>out. sp_pipe_out a = Some out \<Longrightarrow> fresh_pipe (os_fds os) out"
    and "\<And>out err. sp_pipe_out a = Some out \<Longrightarrow> sp_pipe_err a = Some err \<Longrightarrow>
           fresh_pipe (os_fds os) err \<and> ends out \<inter> ends err = {}"
    and "gw_process_start a p args os e = (st, p', os', e')"
  shows "if st \<noteq> GW_OK then p' = p \<and> os' = os
     else \<exists>out err pid. sp_pipe_out a = Some out \<and> sp_pipe_err a = Some err \<and> sp_spawn a = Some pid \<and>
       p' = started p pid (fst out) (fst err) \<and> os' = both_read_ends os pid (fst out) (fst err)"
  by (rule process_start_cases [OF assms])

section \<open>Stopping\<close>

definition ns :: "timespec \<Rightarrow> int" where
  "ns t = tv_sec t * 1000000000 + tv_nsec t"

definition normal_ts :: "timespec \<Rightarrow> bool" where
  "normal_ts t \<longleftrightarrow> 0 \<le> tv_nsec t \<and> tv_nsec t < 1000000000"

lemma make_deadline_ns:
  assumes "normal_ts t" and "0 \<le> ms"
  shows "ns (make_deadline (Some t) ms) = ns t + ms * 1000000 \<and> normal_ts (make_deadline (Some t) ms)"
proof -
  have "ms div 1000 * 1000 + ms mod 1000 = ms" by (rule div_mult_mod_eq)
  then have "ms div 1000 * 1000000000 + ms mod 1000 * 1000000 = ms * 1000000" by linarith
  moreover have "0 \<le> ms mod 1000" "ms mod 1000 < 1000" by simp_all
  ultimately show ?thesis
    using assms by (auto simp: make_deadline_def ns_def normal_ts_def Let_def c_simps)
qed

lemma deadline_reached_ns:
  "normal_ts n \<Longrightarrow> normal_ts d \<Longrightarrow> deadline_reached (Some n) d \<longleftrightarrow> ns d \<le> ns n"
  by (auto simp: deadline_reached_def ns_def normal_ts_def)

lemma poll_exit_cases:
  assumes "gw_process_poll_exit w reason p os e = (st, p', os', exited, e')" and "\<not> pr_reaped p" and "0 < pr_pid p"
  shows "pr_pid p' = pr_pid p \<and> os_signals os' = os_signals os \<and>
     (if st = GW_OK \<and> exited then pr_reaped p' \<and> \<not> pr_running p' \<and> pr_pid p \<notin> os_children os'
      else p' = p \<and> os' = os)"
  using assms by (auto simp: gw_process_poll_exit_def reap_def split: wait_answer.splits if_splits)

definition gone :: "int \<Rightarrow> gw_process \<Rightarrow> os_state \<Rightarrow> bool" where
  "gone pid p os \<longleftrightarrow> pr_reaped p \<and> \<not> pr_running p \<and> pid \<notin> os_children os"

lemma stop_loop_cases:
  assumes "\<not> pr_reaped p" and "0 < pr_pid p" and "stop_loop d reason polls p os e = Some r"
  shows "case r of
       Inl (st, p', os', e') \<Rightarrow> os_signals os' = os_signals os \<and> (st = GW_OK \<longrightarrow> gone (pr_pid p) p' os')
     | Inr (p', os', e') \<Rightarrow> p' = p \<and> os' = os \<and> (\<exists>nw \<in> set polls. deadline_reached (fst nw) d)"
  using assms
proof (induction polls arbitrary: e)
  case Nil
  then show ?case by simp
next
  case (Cons nw polls)
  obtain now w where nw: "nw = (now, w)" by (cases nw)
  obtain st p' os' ex e' where q: "gw_process_poll_exit w reason p os e = (st, p', os', ex, e')"
    by (metis prod_cases5)
  note pc = poll_exit_cases [OF q Cons.prems(1,2)]
  show ?case
  proof (cases "deadline_reached now d \<or> st \<noteq> GW_OK \<or> ex")
    case True
    with Cons.prems(3) nw q pc show ?thesis by (auto simp: gone_def split: if_splits)
  next
    case False
    with pc have "p' = p" "os' = os" by auto
    with Cons.IH [of e'] Cons.prems nw q False show ?thesis
      by (auto split: sum.splits)
  qed
qed

lemma wait_after_kill_cases:
  "wait_after_kill as reason p os e = Some (st, p', os', e') \<Longrightarrow>
   os_signals os' = os_signals os \<and> (st = GW_OK \<longrightarrow> gone (pr_pid p) p' os')"
  by (induction as reason p os e rule: wait_after_kill.induct) (auto simp: reap_def gone_def)

text \<open>The signals of a stop to the group of \<open>pid\<close>: SIGTERM first, unless the group is gone already (\<open>term\<close> is what
  \<^verbatim>\<open>kill\<close> answered to it); then SIGKILL, only if \<open>late\<close> and only if the first call did not fail.\<close>

definition escalation :: "kill_answer \<Rightarrow> int \<Rightarrow> bool \<Rightarrow> (int \<times> signal) list \<Rightarrow> bool" where
  "escalation asked pid late sent \<longleftrightarrow>
     (\<exists>kill \<in> {[], [(- pid, SIGKILL)]}.
        sent = (if asked = Kill_Ok then [(- pid, SIGTERM)] else []) @ kill \<and> (kill \<noteq> [] \<longrightarrow> asked \<noteq> Kill_Error \<and> late))"

lemma send_signal_sent:
  "send_signal k pid sig os = (ok, os') \<Longrightarrow>
   os_signals os' = os_signals os @ (if k = Kill_Ok then [(pid, sig)] else []) \<and> (ok \<longleftrightarrow> k \<noteq> Kill_Error)"
  by (auto simp: send_signal_def split: kill_answer.splits)

text \<open>What follows the deadline: a last look at the child, SIGKILL, and the wait for its end.\<close>

lemma kill_stage_cases:
  assumes "(case gw_process_poll_exit w reason p os e of (st, p', os3, exited, e') \<Rightarrow>
       if st \<noteq> GW_OK then Some (st, p', os3, e')
       else if exited then Some (GW_OK, p', os3, e')
       else case send_signal k (- pr_pid p') SIGKILL os3 of (sent2, os4) \<Rightarrow>
         if \<not> sent2 then
           Some (GW_ERR_IO, p', os4, gw_error_set e' GW_ERR_IO (''cannot kill worker process group: '' @ reason))
         else case wait_after_kill waits reason p' os4 e' of
           None \<Rightarrow> None
         | Some (st', p'', os5, e'') \<Rightarrow>
             Some (st', p'', os5, if st' = GW_OK then gw_error_clear e'' else e'')) = Some (st, p', os', e')"
    and "\<not> pr_reaped p" "0 < pr_pid p"
  shows "(st = GW_OK \<longrightarrow> gone (pr_pid p) p' os')
    \<and> (\<exists>x. os_signals os' = os_signals os @ x \<and> x \<in> {[], [(- pr_pid p, SIGKILL)]})"
proof -
  obtain st2 p2 os2 ex e2 where q: "gw_process_poll_exit w reason p os e = (st2, p2, os2, ex, e2)" by (metis prod_cases5)
  note pc = poll_exit_cases [OF q assms(2,3)]
  obtain ok2 os3 where s2: "send_signal k (- pr_pid p2) SIGKILL os2 = (ok2, os3)" by fastforce
  from send_signal_sent [OF s2] pc have sig: "\<exists>x. os_signals os3 = os_signals os @ x \<and> x \<in> {[], [(- pr_pid p, SIGKILL)]}"
    by (auto split: if_splits)
  show ?thesis
  proof (cases "st2 = GW_OK \<and> \<not> ex \<and> ok2")
    case False
    with assms(1) q s2 pc sig show ?thesis by (auto simp: gone_def split: if_splits)
  next
    case True
    with assms(1) q s2 obtain e3 where "wait_after_kill waits reason p2 os3 e2 = Some (st, p', os', e3)"
      by (auto split: option.splits)
    from wait_after_kill_cases [OF this] pc sig show ?thesis by auto
  qed
qed

text \<open>The whole of \<open>gw_process_stop\<close> on a worker that is not reaped yet: the signals it sends, and
  what holds of the child when it reports success.\<close>

lemma process_stop_cases:
  assumes "gw_process_stop a p ms os e = Some (st, p', os', e')" and "\<not> pr_reaped p"
  shows "(st = GW_OK \<longrightarrow> gone (pr_pid p) p' os') \<and>
     (\<exists>sent. os_signals os' = os_signals os @ sent \<and>
        (if ms < 0 \<or> pr_pid p \<le> 0 then sent = []
         else escalation (st_term a) (pr_pid p)
           (\<exists>nw \<in> set (st_polls a). deadline_reached (fst nw) (make_deadline (st_start a) ms)) sent))"
proof (cases "ms < 0 \<or> pr_pid p \<le> 0")
  case True
  with assms show ?thesis by (auto simp: gw_process_stop_def split: if_splits)
next
  case pos: False
  let ?d = "make_deadline (st_start a) ms"
  let ?asked = "if st_term a = Kill_Ok then [(- pr_pid p, SIGTERM)] else []"
  obtain ok os1 where s1: "send_signal (st_term a) (- pr_pid p) SIGTERM os = (ok, os1)" by fastforce
  from send_signal_sent [OF s1] have x: "os_signals os1 = os_signals os @ ?asked" and ok: "ok \<longleftrightarrow> st_term a \<noteq> Kill_Error"
    by simp_all
  have none: "escalation (st_term a) (pr_pid p) late ?asked" for late by (simp add: escalation_def)
  show ?thesis
  proof (cases ok)
    case False
    with assms s1 x none pos show ?thesis by (auto simp: gw_process_stop_def)
  next
    case True
    note base = assms pos s1 True
    obtain r where r: "stop_loop ?d (st_reason a) (st_polls a) p os1 e = Some r"
      using base by (auto simp: gw_process_stop_def split: option.splits)
    note lc = stop_loop_cases [OF assms(2) _ r]
    show ?thesis
    proof (cases r)
      case (Inl y)
      with base r lc x none show ?thesis by (auto simp: gw_process_stop_def)
    next
      case (Inr y)
      with lc pos obtain e1 where y: "y = (p, os1, e1)" and late: "\<exists>nw \<in> set (st_polls a). deadline_reached (fst nw) ?d"
        by (cases y) auto
      from base r Inr y kill_stage_cases [where w = "st_last a" and reason = "st_reason a" and p = p and os = os1 and e = e1
        and k = "st_kill a" and waits = "st_waits a" and st = st and p' = p' and os' = os' and e' = e']
      obtain z where z: "st = GW_OK \<longrightarrow> gone (pr_pid p) p' os'" "os_signals os' = os_signals os1 @ z"
        "z \<in> {[], [(- pr_pid p, SIGKILL)]}" by (auto simp: gw_process_stop_def)
      with late True ok have "escalation (st_term a) (pr_pid p) (\<exists>nw \<in> set (st_polls a). deadline_reached (fst nw) ?d) (?asked @ z)"
        unfolding escalation_def by blast
      with z(1,2) x pos show ?thesis by simp
    qed
  qed
qed

text \<open>C23: a stop that returns \<open>GW_OK\<close> for a worker that was not reaped has reaped it: the handle is
  marked, and the pid is no longer among the children, so no zombie stays behind.\<close>

theorem process_stop_reaps:
  assumes "gw_process_stop a p ms os e = Some (GW_OK, p', os', e')" and "\<not> pr_reaped p"
  shows "pr_reaped p' \<and> \<not> pr_running p' \<and> pr_pid p \<notin> os_children os'"
  using process_stop_cases [OF assms] by (simp add: gone_def)

text \<open>C24: SIGKILL is the last resort. Whatever the outcome, a stop of a started worker first signals SIGTERM to the
  worker's own process group, which is in the signal log exactly if \<^verbatim>\<open>kill\<close> succeeded (it answers ESRCH for a
  group that is gone); then nothing but SIGKILL to the same group may follow, at most once, only if the SIGTERM call
  did not fail, and only if the monotonic clock was read at least \<open>timeout_ms\<close> milliseconds after the deadline was
  set. A worker that was never started is sent nothing.\<close>

theorem process_stop_escalates_late:
  assumes "gw_process_stop a p ms os e = Some (st, p', os', e')" and "\<not> pr_reaped p"
    and "st_start a = Some t0" and "normal_ts t0" and "0 \<le> ms"
    and "\<forall>nw \<in> set (st_polls a). \<exists>n. fst nw = Some n \<and> normal_ts n"
  shows "\<exists>sent. os_signals os' = os_signals os @ sent \<and>
     (if pr_pid p \<le> 0 then sent = []
      else \<exists>kill. sent = (if st_term a = Kill_Ok then [(- pr_pid p, SIGTERM)] else []) @ kill \<and>
        (kill = [] \<or>
         kill = [(- pr_pid p, SIGKILL)] \<and> st_term a \<noteq> Kill_Error \<and>
           (\<exists>now w. (Some now, w) \<in> set (st_polls a) \<and> ns t0 + ms * 1000000 \<le> ns now)))"
proof -
  note d = make_deadline_ns [OF assms(4,5)]
  let ?late = "\<exists>nw \<in> set (st_polls a). deadline_reached (fst nw) (make_deadline (st_start a) ms)"
  have late: "\<exists>now w. (Some now, w) \<in> set (st_polls a) \<and> ns t0 + ms * 1000000 \<le> ns now" if ?late
  proof -
    from that obtain nw where nw: "nw \<in> set (st_polls a)"
        "deadline_reached (fst nw) (make_deadline (Some t0) ms)" using assms(3) by auto
    with assms(6) obtain n where n: "fst nw = Some n" "normal_ts n" by blast
    with nw(2) d have "ns t0 + ms * 1000000 \<le> ns n" by (simp add: deadline_reached_ns)
    with nw(1) n(1) show ?thesis by (metis prod.collapse)
  qed
  from process_stop_cases [OF assms(1,2)] assms(5) obtain sent where sent: "os_signals os' = os_signals os @ sent"
    "if pr_pid p \<le> 0 then sent = [] else escalation (st_term a) (pr_pid p) ?late sent" by auto
  show ?thesis
  proof (cases "pr_pid p \<le> 0")
    case False
    with sent(2) obtain kill where "kill = [] \<or> kill = [(- pr_pid p, SIGKILL)]"
      "sent = (if st_term a = Kill_Ok then [(- pr_pid p, SIGTERM)] else []) @ kill"
      "kill \<noteq> [] \<longrightarrow> st_term a \<noteq> Kill_Error \<and> ?late" unfolding escalation_def by auto
    with sent(1) late False show ?thesis by auto
  qed (use sent in simp)
qed

section \<open>What waiting and stopping leave alone\<close>

text \<open>Waiting for and stopping a worker never touch descriptors or spawn objects, signal nothing but
  the worker's own process group, and take from the children only the worker, when it is reaped.\<close>

definition signalled :: "int \<Rightarrow> os_state \<Rightarrow> os_state \<Rightarrow> bool" where
  "signalled pid os os' \<longleftrightarrow> (\<exists>sent. os_signals os' = os_signals os @ sent \<and> fst ` set sent \<subseteq> {- pid})"

lemma signalled_same: "os_signals os' = os_signals os \<Longrightarrow> signalled pid os os'"
  by (simp add: signalled_def)

lemma signalled_trans:
  assumes "signalled pid os os1" and "signalled pid os1 os2"
  shows "signalled pid os os2"
proof -
  from assms obtain x y where "os_signals os1 = os_signals os @ x" "fst ` set x \<subseteq> {- pid}"
    "os_signals os2 = os_signals os1 @ y" "fst ` set y \<subseteq> {- pid}"
    by (auto simp: signalled_def)
  then show ?thesis unfolding signalled_def by (intro exI [of _ "x @ y"]) auto
qed

definition same_worker :: "gw_process \<Rightarrow> os_state \<Rightarrow> gw_process \<Rightarrow> os_state \<Rightarrow> bool" where
  "same_worker p os p' os' \<longleftrightarrow>
     pr_pid p' = pr_pid p \<and> pr_stdout_fd p' = pr_stdout_fd p \<and> pr_stderr_fd p' = pr_stderr_fd p \<and>
     os_fds os' = os_fds os \<and> os_spawn_objects os' = os_spawn_objects os \<and>
     signalled (pr_pid p) os os' \<and>
     (pr_reaped p' = pr_reaped p \<and> pr_running p' = pr_running p \<and> os_children os' = os_children os \<or>
      pr_reaped p' \<and> \<not> pr_running p' \<and> os_children os' = os_children os - {pr_pid p})"

lemma same_worker_refl [simp]: "same_worker p os p os"
  by (simp add: same_worker_def signalled_same)

lemma same_worker_trans:
  assumes "same_worker p os p1 os1" and "same_worker p1 os1 p2 os2"
  shows "same_worker p os p2 os2"
proof -
  have "signalled (pr_pid p) os os2"
    using assms signalled_trans [of "pr_pid p" os os1 os2] by (simp add: same_worker_def)
  with assms show ?thesis unfolding same_worker_def by (elim conjE disjE) auto
qed

lemma reap_same: "reap p status os = (p', os') \<Longrightarrow> same_worker p os p' os'"
  by (auto simp: reap_def same_worker_def signalled_same)

lemma send_signal_same: "send_signal a (- pr_pid p) sig os = (ok, os') \<Longrightarrow> same_worker p os p os'"
  by (auto simp: send_signal_def same_worker_def signalled_def split: kill_answer.splits)

lemma poll_exit_same: "gw_process_poll_exit w reason p os e = (st, p', os', ex, e') \<Longrightarrow> same_worker p os p' os'"
  by (auto simp: gw_process_poll_exit_def reap_same split: wait_answer.splits if_splits prod.splits)

lemma wait_after_kill_same:
  "wait_after_kill as reason p os e = Some (st, p', os', e') \<Longrightarrow> same_worker p os p' os'"
  by (induction as reason p os e rule: wait_after_kill.induct) (auto simp: reap_same split: prod.splits)

lemma stop_loop_same:
  "stop_loop d reason polls p os e = Some r \<Longrightarrow>
   (case r of Inl (st, p', os', e') \<Rightarrow> same_worker p os p' os' | Inr (p', os', e') \<Rightarrow> same_worker p os p' os')"
proof (induction polls arbitrary: p os e)
  case Nil
  then show ?case by simp
next
  case (Cons nw polls)
  obtain now w where nw: "nw = (now, w)" by (cases nw)
  obtain st p1 os1 ex e1 where q: "gw_process_poll_exit w reason p os e = (st, p1, os1, ex, e1)"
    by (metis prod_cases5)
  note same = poll_exit_same [OF q]
  show ?case
  proof (cases "deadline_reached now d \<or> st \<noteq> GW_OK \<or> ex")
    case True
    with Cons.prems nw q same show ?thesis by (auto split: if_splits)
  next
    case False
    with Cons.prems nw q have "stop_loop d reason polls p1 os1 e1 = Some r" by simp
    from Cons.IH [OF this] same show ?thesis
      by (auto split: sum.splits intro: same_worker_trans)
  qed
qed

lemma process_stop_same:
  assumes "gw_process_stop a p ms os e = Some (st, p', os', e')"
  shows "same_worker p os p' os'"
proof (cases "ms < 0 \<or> pr_reaped p \<or> pr_pid p \<le> 0")
  case True
  with assms show ?thesis by (auto simp: gw_process_stop_def split: if_splits)
next
  case False
  obtain ok os1 where s1: "send_signal (st_term a) (- pr_pid p) SIGTERM os = (ok, os1)" by fastforce
  note w1 = send_signal_same [OF s1]
  consider "\<not> ok" | r where "ok"
    "stop_loop (make_deadline (st_start a) ms) (st_reason a) (st_polls a) p os1 e = Some (Inl r)"
    | p2 os2 e2 where "ok"
    "stop_loop (make_deadline (st_start a) ms) (st_reason a) (st_polls a) p os1 e = Some (Inr (p2, os2, e2))"
    using assms False s1 by (fastforce simp: gw_process_stop_def split: option.splits sum.splits)
  then show ?thesis
  proof cases
    case 1
    with assms False s1 w1 show ?thesis by (auto simp: gw_process_stop_def)
  next
    case (2 r)
    with assms False s1 have "r = (st, p', os', e')" by (simp add: gw_process_stop_def)
    with stop_loop_same [OF 2(2)] w1 show ?thesis by (auto intro: same_worker_trans)
  next
    case (3 p2 os2 e2)
    with stop_loop_same [OF 3(2)] w1 have w2: "same_worker p os p2 os2" by (auto intro: same_worker_trans)
    obtain st3 p3 os3 ex e3 where q: "gw_process_poll_exit (st_last a) (st_reason a) p2 os2 e2 = (st3, p3, os3, ex, e3)"
      by (metis prod_cases5)
    have w3: "same_worker p os p3 os3" by (rule same_worker_trans [OF w2 poll_exit_same [OF q]])
    obtain ok2 os4 where s2: "send_signal (st_kill a) (- pr_pid p3) SIGKILL os3 = (ok2, os4)" by fastforce
    have w4: "same_worker p os p3 os4" by (rule same_worker_trans [OF w3 send_signal_same [OF s2]])
    show ?thesis
    proof (cases "st3 = GW_OK \<and> \<not> ex \<and> ok2")
      case False
      with assms \<open>\<not> (ms < 0 \<or> _)\<close> s1 3 q s2 w3 w4 show ?thesis
        by (auto simp: gw_process_stop_def split: if_splits)
    next
      case True
      with assms False s1 3 q s2 obtain e4 where
        "wait_after_kill (st_waits a) (st_reason a) p3 os4 e3 = Some (st, p', os', e4)"
        by (auto simp: gw_process_stop_def split: option.splits)
      from wait_after_kill_same [OF this] w4 show ?thesis by (auto intro: same_worker_trans)
    qed
  qed
qed

section \<open>Exit codes\<close>

lemma WTERMSIG_unat: "unat (WTERMSIG w) = unat w mod 128"
proof -
  have "(0x7F :: u32) = mask 7" by (simp add: mask_eq_exp_minus_1)
  then have "WTERMSIG w = take_bit 7 w" by (simp add: WTERMSIG_def take_bit_eq_mask)
  then show ?thesis by (simp add: take_bit_eq_mod unat_mod_distrib)
qed

lemma WEXITSTATUS_unat: "unat (WEXITSTATUS w) = unat w div 256 mod 256"
proof -
  have "drop_bit 8 (0xFF00 :: u32) = mask 8" by (simp add: mask_eq_exp_minus_1)
  then have "WEXITSTATUS w = take_bit 8 (drop_bit 8 w)"
    by (simp add: WEXITSTATUS_def drop_bit_and take_bit_eq_mask)
  then show ?thesis
    by (simp add: take_bit_eq_mod drop_bit_eq_div unat_mod_distrib unat_div_distrib)
qed

lemma exit_code_unat:
  "pr_reaped p \<Longrightarrow> gw_process_exit_code p =
     (let s = unat (pr_wait_status p) in
      if s mod 128 = 0 then int (s div 256 mod 256)
      else if s mod 128 \<noteq> 127 then 128 + int (s mod 128) else -1)"
proof -
  have "WTERMSIG w = 0 \<longleftrightarrow> unat w mod 128 = 0" "WTERMSIG w = 0x7F \<longleftrightarrow> unat w mod 128 = 127" for w
    unfolding word_unat_eq_iff WTERMSIG_unat by simp_all
  moreover assume "pr_reaped p"
  ultimately show ?thesis
    unfolding gw_process_exit_code_def WIFEXITED_def WIFSIGNALED_def uint_nat WTERMSIG_unat WEXITSTATUS_unat Let_def
    by simp
qed

text \<open>The shell-style exit code: -1 while the child is not reaped; the exit status of a child
  that called exit; 128 plus the signal number, with or without a core dump, of one that was killed.\<close>

theorem exit_code_decodes:
  assumes "pr_reaped p" and "code < 256" and "0 < sig" and "sig < 127"
  shows "gw_process_exit_code (p\<lparr>pr_wait_status := of_nat (code * 256)\<rparr>) = int code
       \<and> gw_process_exit_code (p\<lparr>pr_wait_status := of_nat sig\<rparr>) = 128 + int sig
       \<and> gw_process_exit_code (p\<lparr>pr_wait_status := of_nat (sig + 128)\<rparr>) = 128 + int sig"
proof -
  have n: "unat (of_nat n :: u32) = n" if "n < 65536" for n :: nat
    using that by (simp add: unat_of_nat)
  have "unat (of_nat (code * 256) :: u32) = code * 256" "unat (of_nat sig :: u32) = sig"
      "unat (of_nat (sig + 128) :: u32) = sig + 128"
    by (rule n, use assms in simp)+
  moreover have "code * 256 mod 128 = 0" by presburger
  ultimately show ?thesis
    using assms by (simp add: exit_code_unat Let_def del: of_nat_mult of_nat_add)
qed

theorem exit_code_decodes_witness:
  "gw_process_exit_code (gw_process_init\<lparr>pr_reaped := True, pr_wait_status := of_nat (3 * 256)\<rparr>) = 3
   \<and> gw_process_exit_code (gw_process_init\<lparr>pr_reaped := True, pr_wait_status := of_nat 9\<rparr>) = 137"
  using exit_code_decodes [of "gw_process_init\<lparr>pr_reaped := True\<rparr>" 3 9] by simp

section \<open>Concrete runs\<close>

definition quiet_os :: os_state where
  "quiet_os = \<lparr>os_fds = [0 \<mapsto> \<lparr>fd_cloexec = False, fd_nonblock = False\<rparr>], os_children = {}, os_spawn_objects = 0,
     os_signals = []\<rparr>"

definition failing_spawn :: spawn_answers where
  "failing_spawn = \<lparr>sp_pipe_out = Some (3, 4), sp_fcntl_out = (\<lambda>n. True), sp_pipe_err = Some (5, 6),
     sp_fcntl_err = (\<lambda>n. True), sp_actions_init = True, sp_add = (\<lambda>n. True), sp_attributes_init = True,
     sp_attr = (\<lambda>n. True), sp_spawn = None, sp_reason = ''no such file''\<rparr>"

theorem process_start_all_or_nothing_witness:
  "fst (gw_process_start failing_spawn gw_process_init [''ffmpeg''] quiet_os None) = GW_ERR_IO \<and>
   fst (snd (snd (gw_process_start failing_spawn gw_process_init [''ffmpeg''] quiet_os None))) = quiet_os"
proof -
  obtain st p' os' e' where r: "gw_process_start failing_spawn gw_process_init [''ffmpeg''] quiet_os None = (st, p', os', e')"
    by (metis prod_cases4)
  have "fst (gw_process_start failing_spawn gw_process_init [''ffmpeg''] quiet_os None) = GW_ERR_IO"
    by (simp add: gw_process_start_def spawn_child_def failing_spawn_def gw_process_init_def configure_pipe_def
        add_file_actions_def)
  then have st: "st = GW_ERR_IO" using r by simp
  have "if st \<noteq> GW_OK then p' = gw_process_init \<and> os' = quiet_os
     else \<exists>out err pid. sp_pipe_out failing_spawn = Some out \<and> sp_pipe_err failing_spawn = Some err \<and>
       sp_spawn failing_spawn = Some pid \<and> p' = started gw_process_init pid (fst out) (fst err) \<and>
       os' = both_read_ends quiet_os pid (fst out) (fst err)"
    by (rule process_start_all_or_nothing [OF _ _ r])
      (auto simp: failing_spawn_def fresh_pipe_def quiet_os_def)
  with st r show ?thesis by simp
qed

definition live_worker :: gw_process where
  "live_worker = started gw_process_init 77 3 5"

definition stubborn_stop :: stop_answers where
  "stubborn_stop = \<lparr>st_term = Kill_Ok, st_start = Some \<lparr>tv_sec = 100, tv_nsec = 999000000\<rparr>,
     st_polls = [(Some \<lparr>tv_sec = 101, tv_nsec = 0\<rparr>, Wait_Running), (Some \<lparr>tv_sec = 106, tv_nsec = 0\<rparr>, Wait_Running)],
     st_last = Wait_Running, st_kill = Kill_Ok, st_waits = [Wait_Eintr, Wait_Reaped 9], st_reason = []\<rparr>"

lemma stubborn_stop_result:
  "gw_process_stop stubborn_stop live_worker 5000 (quiet_os\<lparr>os_children := {77}\<rparr>) None =
     Some (GW_OK, live_worker\<lparr>pr_wait_status := 9, pr_running := False, pr_reaped := True\<rparr>,
       quiet_os\<lparr>os_signals := [(-77, SIGTERM), (-77, SIGKILL)]\<rparr>, None)"
  by (simp add: gw_process_stop_def stubborn_stop_def live_worker_def started_def gw_process_init_def
      quiet_os_def send_signal_def make_deadline_def deadline_reached_def gw_process_poll_exit_def reap_def
      c_div_def c_mod_def)

theorem process_stop_reaps_witness:
  "pr_reaped (live_worker\<lparr>pr_wait_status := 9, pr_running := False, pr_reaped := True\<rparr>)
   \<and> pr_pid live_worker \<notin> os_children (quiet_os\<lparr>os_signals := [(-77, SIGTERM), (-77, SIGKILL)]\<rparr>)"
  using process_stop_reaps [OF stubborn_stop_result] by (simp add: live_worker_def started_def)

theorem process_stop_escalates_late_witness:
  "\<exists>now w. (Some now, w) \<in> set (st_polls stubborn_stop) \<and> ns \<lparr>tv_sec = 100, tv_nsec = 999000000\<rparr> + 5000 * 1000000 \<le> ns now"
proof -
  have "\<not> pr_reaped live_worker" "pr_pid live_worker = 77" by (simp_all add: live_worker_def started_def)
  moreover have "st_start stubborn_stop = Some \<lparr>tv_sec = 100, tv_nsec = 999000000\<rparr>"
    "normal_ts \<lparr>tv_sec = 100, tv_nsec = 999000000\<rparr>" "(0::int) \<le> 5000"
    "\<forall>nw \<in> set (st_polls stubborn_stop). \<exists>n. fst nw = Some n \<and> normal_ts n"
    by (simp_all add: stubborn_stop_def normal_ts_def)
  ultimately show ?thesis
    using process_stop_escalates_late [OF stubborn_stop_result] by (auto simp: quiet_os_def split: if_splits)
qed

end
