(* ===== verification/Config_Validate.thy ===== *)
theory Config_Validate
  imports Config_Text Channel_State
begin

text \<open>
  Policy validation (\<open>gw_config_validate\<close> of \<^verbatim>\<open>src/config/config.c\<close>) with its character
  checks. \<open>inet_pton4\<close> and \<open>inet_pton6\<close>, the two address families of \<^verbatim>\<open>inet_pton\<close>, are
  parameters. \<open>valid_config\<close> is the declarative policy; validation is shown to decide it, and the
  policy to give what the other components rely on (a valid retry policy, no overflow in the
  pipeline's arithmetic, unambiguous identifiers and paths).
\<close>

section \<open>Operations\<close>

fun all_safe :: "string \<Rightarrow> bool" where
  "all_safe [] = True"
| "all_safe (c # s) = (if \<not> isalnum c \<and> c \<noteq> CHR ''_'' \<and> c \<noteq> CHR ''-'' then False else all_safe s)"

definition valid_identifier :: "string \<Rightarrow> bool" where
  "valid_identifier value = (if value = [] then False else all_safe value)"

definition supported_codec :: "string \<Rightarrow> bool" where
  "supported_codec codec \<longleftrightarrow> codec = ''h264_rkmpp'' \<or> codec = ''hevc_rkmpp''"

fun all_path_safe :: "string \<Rightarrow> bool" where
  "all_path_safe [] = True"
| "all_path_safe (c # s) =
     (if \<not> isalnum c \<and> c \<noteq> CHR ''/'' \<and> c \<noteq> CHR ''_'' \<and> c \<noteq> CHR ''-'' \<and> c \<noteq> CHR ''.''
      then False else all_path_safe s)"

definition valid_absolute_directory :: "string \<Rightarrow> bool" where
  "valid_absolute_directory value =
     (if value = [] \<or> hd value \<noteq> CHR ''/'' then False else all_path_safe value)"

text \<open>One check: a diagnostic and \<open>GW_ERR_VALIDATION\<close> when the condition is violated.\<close>

definition check :: "bool \<Rightarrow> string \<Rightarrow> gw_error option \<Rightarrow> gw_status \<times> gw_error option" where
  "check violated message error =
     (if violated then (GW_ERR_VALIDATION, gw_error_set error GW_ERR_VALIDATION message)
      else (GW_OK, error))"

fun check_previous ::
  "gw_channel_config list \<Rightarrow> gw_channel_config \<Rightarrow> gw_error option \<Rightarrow> gw_status \<times> gw_error option" where
  "check_previous [] channel error = (GW_OK, error)"
| "check_previous (p # previous) channel error =
     (case run_steps
        [check (ch_id p = ch_id channel) (''duplicate channel id '' @ [CHR 0x27] @ ch_id channel @ [CHR 0x27]),
         check (out_path (ch_output p) = out_path (ch_output channel))
           (''duplicate MediaMTX output path '' @ [CHR 0x27] @ out_path (ch_output channel) @ [CHR 0x27])] error of
      (st, e) \<Rightarrow> if st = GW_OK then check_previous previous channel e else (st, e))"

definition channel_says :: "gw_channel_config \<Rightarrow> string \<Rightarrow> string" where
  "channel_says channel text = ''channel '' @ [CHR 0x27] @ ch_id channel @ [CHR 0x27] @ text"

definition validate_channel ::
  "gw_channel_config list \<Rightarrow> gw_channel_config \<Rightarrow> gw_error option \<Rightarrow> gw_status \<times> gw_error option" where
  "validate_channel previous channel = run_steps
    [check (\<not> valid_identifier (ch_id channel))
       (''channels['' @ dec_nat (length previous) @ ''].id may contain only letters, digits, '' @
        [CHR 0x27] @ ''_'' @ [CHR 0x27] @ '' and '' @ [CHR 0x27] @ ''-'' @ [CHR 0x27]),
     check_previous previous channel,
     check (in_type (ch_input channel) \<noteq> ''rtsp'' \<or> \<not> strncmp_eq (in_url (ch_input channel)) ''rtsp://'' 7)
       (channel_says channel '' phase-1 input must be an rtsp:// URL''),
     check (in_transport (ch_input channel) \<noteq> ''tcp'' \<and> in_transport (ch_input channel) \<noteq> ''udp'')
       (channel_says channel '' transport must be tcp or udp''),
     check (\<not> supported_codec (decoder (ch_video channel)) \<or> \<not> supported_codec (encoder (ch_video channel)))
       (channel_says channel '' requires h264_rkmpp or hevc_rkmpp codecs''),
     check (width (ch_video channel) < 64 \<or> width (ch_video channel) > 7680 \<or>
            height (ch_video channel) < 64 \<or> height (ch_video channel) > 4320 \<or>
            bitrate_kbps (ch_video channel) < 64 \<or> bitrate_kbps (ch_video channel) > 100000 \<or>
            fps (ch_video channel) < 1 \<or> fps (ch_video channel) > 240)
       (channel_says channel '' video dimensions, bitrate, or fps are out of range''),
     check (\<not> valid_identifier (out_path (ch_output channel)))
       (channel_says channel '' output.path must be a safe path segment'')]"

text \<open>The loop over the channels: the ones before \<open>index\<close>, and the ones still to visit.\<close>

fun validate_channels ::
  "gw_channel_config list \<Rightarrow> gw_channel_config list \<Rightarrow> gw_error option \<Rightarrow> gw_status \<times> gw_error option" where
  "validate_channels previous [] error = (GW_OK, error)"
| "validate_channels previous (channel # rest) error =
     (case validate_channel previous channel error of
        (st, e) \<Rightarrow> if st = GW_OK then validate_channels (previous @ [channel]) rest e else (st, e))"

type_synonym addr_check = "string \<Rightarrow> bool"

definition validate_steps ::
  "addr_check \<Rightarrow> addr_check \<Rightarrow> gw_config \<Rightarrow> (gw_error option \<Rightarrow> gw_status \<times> gw_error option) list" where
  "validate_steps inet_pton4 inet_pton6 config =
    (let r = recording (mediamtx config); d = defaults config in
    [check (\<not> inet_pton4 (srv_listen (server config)) \<and> \<not> inet_pton6 (srv_listen (server config)))
       ''server.listen must be a numeric IPv4 or IPv6 address'',
     check (\<not> strncmp_eq (publish_base_url (mediamtx config)) ''rtsp://'' 7)
       ''mediamtx.publish_base_url must use rtsp://'',
     check (\<not> valid_absolute_directory (rec_directory r))
       ''mediamtx.recording.directory must be a safe absolute path'',
     check (rec_format r \<noteq> ''fmp4'' \<and> rec_format r \<noteq> ''mpegts'')
       ''mediamtx.recording.format must be fmp4 or mpegts'',
     check (part_duration_sec r < 1 \<or> part_duration_sec r > 60 \<or> max_part_size_mb r < 1 \<or>
            max_part_size_mb r > 4096 \<or> segment_duration_sec r < 1 \<or> segment_duration_sec r > 86400 \<or>
            delete_after_sec r < 0 \<or> min_free_mb r < 0)
       ''MediaMTX recording limits are out of range'',
     check (\<not> inet_pton4 (playback_listen r) \<and> \<not> inet_pton6 (playback_listen r))
       ''mediamtx.recording.playback_listen must be a numeric address'',
     check (startup_timeout_sec d \<le> 0 \<or> progress_timeout_sec d \<le> 0 \<or> stable_run_sec d \<le> 0 \<or>
            stop_timeout_sec d \<le> 0 \<or> max_retries d < 0 \<or> max_backoff_sec d \<le> 0)
       ''timeouts/backoff must be positive and max_retries non-negative'',
     validate_channels [] (channels config)])"

definition gw_config_validate ::
  "addr_check \<Rightarrow> addr_check \<Rightarrow> gw_config \<Rightarrow> gw_error option \<Rightarrow> gw_status \<times> gw_error option" where
  "gw_config_validate inet_pton4 inet_pton6 config error =
     (case run_steps (validate_steps inet_pton4 inet_pton6 config) error of
        (st, e) \<Rightarrow> if st = GW_OK then (GW_OK, gw_error_clear e) else (st, e))"

section \<open>The policy\<close>

definition safe_segment :: "string \<Rightarrow> bool" where
  "safe_segment s \<longleftrightarrow> s \<noteq> [] \<and> (\<forall>c \<in> set s. isalnum c \<or> c = CHR ''_'' \<or> c = CHR ''-'')"

definition safe_directory :: "string \<Rightarrow> bool" where
  "safe_directory s \<longleftrightarrow> prefix ''/'' s \<and>
     (\<forall>c \<in> set s. isalnum c \<or> c = CHR ''/'' \<or> c = CHR ''_'' \<or> c = CHR ''-'' \<or> c = CHR ''.'')"

definition valid_video :: "gw_video_config \<Rightarrow> bool" where
  "valid_video v \<longleftrightarrow>
     decoder v \<in> {''h264_rkmpp'', ''hevc_rkmpp''} \<and> encoder v \<in> {''h264_rkmpp'', ''hevc_rkmpp''} \<and>
     width v \<in> {64..7680} \<and> height v \<in> {64..4320} \<and> bitrate_kbps v \<in> {64..100000} \<and> fps v \<in> {1..240}"

definition valid_channel :: "gw_channel_config \<Rightarrow> bool" where
  "valid_channel c \<longleftrightarrow>
     safe_segment (ch_id c) \<and> in_type (ch_input c) = ''rtsp'' \<and> prefix ''rtsp://'' (in_url (ch_input c)) \<and>
     in_transport (ch_input c) \<in> {''tcp'', ''udp''} \<and> valid_video (ch_video c) \<and>
     safe_segment (out_path (ch_output c))"

definition valid_recording :: "addr_check \<Rightarrow> gw_recording_config \<Rightarrow> bool" where
  "valid_recording numeric r \<longleftrightarrow>
     safe_directory (rec_directory r) \<and> rec_format r \<in> {''fmp4'', ''mpegts''} \<and>
     part_duration_sec r \<in> {1..60} \<and> max_part_size_mb r \<in> {1..4096} \<and>
     segment_duration_sec r \<in> {1..86400} \<and> 0 \<le> delete_after_sec r \<and> 0 \<le> min_free_mb r \<and>
     numeric (playback_listen r)"

definition valid_defaults :: "gw_retry_policy \<Rightarrow> bool" where
  "valid_defaults d \<longleftrightarrow>
     0 < startup_timeout_sec d \<and> 0 < progress_timeout_sec d \<and> 0 < stable_run_sec d \<and>
     0 < stop_timeout_sec d \<and> 0 \<le> max_retries d \<and> 0 < max_backoff_sec d"

definition valid_config :: "addr_check \<Rightarrow> gw_config \<Rightarrow> bool" where
  "valid_config numeric c \<longleftrightarrow>
     numeric (srv_listen (server c)) \<and> prefix ''rtsp://'' (publish_base_url (mediamtx c)) \<and>
     valid_recording numeric (recording (mediamtx c)) \<and> valid_defaults (defaults c) \<and>
     list_all valid_channel (channels c) \<and>
     distinct (map ch_id (channels c)) \<and> distinct (map (out_path \<circ> ch_output) (channels c))"

lemma valid_identifier_iff: "valid_identifier s \<longleftrightarrow> safe_segment s"
proof -
  have "all_safe s \<longleftrightarrow> (\<forall>c \<in> set s. isalnum c \<or> c = CHR ''_'' \<or> c = CHR ''-'')"
    by (induction s) auto
  then show ?thesis by (simp add: valid_identifier_def safe_segment_def)
qed

lemma valid_absolute_directory_iff: "valid_absolute_directory s \<longleftrightarrow> safe_directory s"
proof -
  have "all_path_safe s \<longleftrightarrow>
      (\<forall>c \<in> set s. isalnum c \<or> c = CHR ''/'' \<or> c = CHR ''_'' \<or> c = CHR ''-'' \<or> c = CHR ''.'')"
    by (induction s) auto
  then show ?thesis by (cases s) (auto simp: valid_absolute_directory_def safe_directory_def)
qed

lemma rtsp_prefix_iff: "strncmp_eq s ''rtsp://'' 7 \<longleftrightarrow> prefix ''rtsp://'' s"
proof -
  have "prefix ''rtsp://'' s \<longleftrightarrow> take (length ''rtsp://'') s = ''rtsp://''"
    by (metis append_eq_conv_conj prefix_def take_is_prefix)
  then show ?thesis by (simp add: strncmp_eq_def eval_nat_numeral)
qed

text \<open>Sequences of checks: the outcome is \<open>GW_OK\<close> or \<open>GW_ERR_VALIDATION\<close>, and \<open>GW_OK\<close> exactly
  when every check passes, whatever the error object; on a failure the error object, if there is one,
  holds \<open>GW_ERR_VALIDATION\<close>.\<close>

definition decides :: "(gw_error option \<Rightarrow> gw_status \<times> gw_error option) \<Rightarrow> bool \<Rightarrow> bool" where
  "decides f ok \<longleftrightarrow>
     (\<forall>e. fst (f e) = (if ok then GW_OK else GW_ERR_VALIDATION) \<and>
          (\<not> ok \<longrightarrow> error_code_or (snd (f e)) GW_ERR_VALIDATION = GW_ERR_VALIDATION))"

lemma decides_check: "decides (check violated m) (\<not> violated)"
  by (auto simp: decides_def check_def gw_error_set_def split: option.splits)

lemma decides_Nil: "decides (run_steps []) True"
  by (simp add: decides_def)

lemma decides_Cons:
  assumes "decides f p" and "decides (run_steps fs) q"
  shows "decides (run_steps (f # fs)) (p \<and> q)"
  unfolding decides_def
proof
  fix e
  obtain st e1 where f: "f e = (st, e1)" by fastforce
  from assms(1) f have "st = (if p then GW_OK else GW_ERR_VALIDATION)"
    "\<not> p \<longrightarrow> error_code_or e1 GW_ERR_VALIDATION = GW_ERR_VALIDATION"
    unfolding decides_def by (metis fst_conv, metis snd_conv)
  with assms(2) f show "fst (run_steps (f # fs) e) = (if p \<and> q then GW_OK else GW_ERR_VALIDATION) \<and>
      (\<not> (p \<and> q) \<longrightarrow> error_code_or (snd (run_steps (f # fs) e)) GW_ERR_VALIDATION = GW_ERR_VALIDATION)"
    by (auto simp: decides_def)
qed

lemma decides_cong: "decides f p \<Longrightarrow> p = q \<Longrightarrow> decides f q"
  by simp

lemmas decides_intros = decides_Cons decides_Nil decides_check

lemma decides_previous:
  "decides (check_previous ps c)
     (ch_id c \<notin> ch_id ` set ps \<and> out_path (ch_output c) \<notin> (out_path \<circ> ch_output) ` set ps)"
proof (induction ps)
  case Nil
  then show ?case by (simp add: decides_def)
next
  case (Cons p ps)
  have eq: "check_previous (p # ps) c = run_steps
      [check (ch_id p = ch_id c) (''duplicate channel id '' @ [CHR 0x27] @ ch_id c @ [CHR 0x27]),
       check (out_path (ch_output p) = out_path (ch_output c))
         (''duplicate MediaMTX output path '' @ [CHR 0x27] @ out_path (ch_output c) @ [CHR 0x27]),
       check_previous ps c]"
    by (auto simp: fun_eq_iff check_def split: prod.splits)
  show ?case unfolding eq by (rule decides_cong, (rule decides_intros Cons)+) auto
qed

lemma decides_channel:
  "decides (validate_channel ps c)
     (valid_channel c \<and> ch_id c \<notin> ch_id ` set ps \<and>
      out_path (ch_output c) \<notin> (out_path \<circ> ch_output) ` set ps)"
  unfolding validate_channel_def
  by (rule decides_cong, (rule decides_intros decides_previous)+)
    (auto simp: valid_channel_def valid_video_def valid_identifier_iff rtsp_prefix_iff
      supported_codec_def)

lemma decides_channels:
  "decides (validate_channels ps cs)
     (list_all valid_channel cs \<and>
      distinct (map ch_id cs) \<and> ch_id ` set ps \<inter> ch_id ` set cs = {} \<and>
      distinct (map (out_path \<circ> ch_output) cs) \<and>
      (out_path \<circ> ch_output) ` set ps \<inter> (out_path \<circ> ch_output) ` set cs = {})"
proof (induction cs arbitrary: ps)
  case Nil
  then show ?case by (simp add: decides_def)
next
  case (Cons c cs)
  have eq: "validate_channels ps (c # cs) = run_steps [validate_channel ps c, validate_channels (ps @ [c]) cs]"
    by (auto simp: fun_eq_iff split: prod.splits)
  show ?case unfolding eq
    by (rule decides_cong, (rule decides_Cons decides_Nil decides_channel Cons)+) auto
qed

lemma validate_steps_decides:
  "decides (run_steps (validate_steps inet_pton4 inet_pton6 config))
     (valid_config (\<lambda>s. inet_pton4 s \<or> inet_pton6 s) config)"
  unfolding validate_steps_def Let_def
  by (rule decides_cong, (rule decides_intros decides_channels)+)
    (simp only: valid_config_def valid_recording_def valid_defaults_def rtsp_prefix_iff
      valid_absolute_directory_iff de_Morgan_conj de_Morgan_disj not_not not_le not_less
      atLeastAtMost_iff insert_iff empty_iff conj_assoc image_empty list.set Int_empty_left simp_thms
      HOL.conj_ac)

lemma validate_status:
  "fst (gw_config_validate inet_pton4 inet_pton6 config err) =
     (if valid_config (\<lambda>s. inet_pton4 s \<or> inet_pton6 s) config then GW_OK else GW_ERR_VALIDATION)"
  using validate_steps_decides [of inet_pton4 inet_pton6 config]
  by (auto simp: gw_config_validate_def decides_def split: prod.splits if_splits dest!: spec [of _ err])

lemma validate_error_code:
  assumes "fst (gw_config_validate inet_pton4 inet_pton6 config err) \<noteq> GW_OK"
  shows "error_code_or (snd (gw_config_validate inet_pton4 inet_pton6 config err)) GW_ERR_VALIDATION = GW_ERR_VALIDATION"
  using validate_steps_decides [of inet_pton4 inet_pton6 config] assms
  by (auto simp: gw_config_validate_def decides_def split: prod.splits if_splits dest!: spec [of _ err])

text \<open>C14: \<open>gw_config_validate\<close> decides the policy: it returns \<open>GW_OK\<close> exactly for the
  configurations with numeric listen addresses, an rtsp publish URL, recording limits and timeouts in
  range, channels whose identifiers, URLs, codecs and dimensions are admissible, and no two channels
  with the same id or the same output path; in every other case it returns \<open>GW_ERR_VALIDATION\<close>.\<close>

theorem config_validate_decides:
  "fst (gw_config_validate inet_pton4 inet_pton6 config err) =
     (if valid_config (\<lambda>s. inet_pton4 s \<or> inet_pton6 s) config then GW_OK else GW_ERR_VALIDATION)"
  by (rule validate_status)

section \<open>What the policy gives to the other components\<close>

lemma valid_defaults_policy: "valid_defaults d \<Longrightarrow> policy_bounded d \<Longrightarrow> valid_policy d"
  by (simp add: valid_defaults_def policy_bounded_def valid_policy_def is_int32_def)

lemma valid_channel_gop: "valid_channel c \<Longrightarrow> is_int32 (fps (ch_video c) * 2)"
  by (simp add: valid_channel_def valid_video_def is_int32_def)

end
