(* ===== verification/Worker_Attempt.thy ===== *)
theory Worker_Attempt
  imports Channel_Snapshot Pipeline_Builder Process_Manager Stderr_Redaction
begin

text \<open>
  One supervised run of a worker (\<^verbatim>\<open>include/gateway/supervisor.h\<close>, the first part of
  \<^verbatim>\<open>src/channel/supervisor.c\<close>): the options, the time tests and \<open>run_worker_attempt\<close> with its
  poll loop. Everything the code asks the outside world for in one pass of the loop is one
  environment record; the loop consumes a list of them and has no result (\<open>None\<close>) while the list
  ends before the loop does, or while a blocking stop has not been answered. Snapshots handed to the
  observer are collected in order. Diagnostics printed to stdout and stderr are left out except the
  worker's own stderr lines, which the line buffer logs. Shown: what the loop keeps holds on every
  way out of it, and an attempt gives back every descriptor, child and argument string.
\<close>

section \<open>Data\<close>

datatype worker_attempt_outcome =
    ATTEMPT_PENDING
  | ATTEMPT_CLEAN_EXIT
  | ATTEMPT_WORKER_FAILURE
  | ATTEMPT_STARTUP_TIMEOUT
  | ATTEMPT_PROGRESS_TIMEOUT
  | ATTEMPT_STOP_REQUESTED
  | ATTEMPT_INTERNAL_ERROR

record worker_attempt_result =
  ar_outcome :: worker_attempt_outcome
  ar_exit_code :: int
  ar_progress :: gw_worker_progress

text \<open>The options without their callbacks: the answers of \<^verbatim>\<open>stop_check\<close> and the signal flag are
  in the environment, the observer is the list of published snapshots.\<close>

record gw_supervisor_options =
  so_ffmpeg_binary :: string
  so_stop_on_clean_exit :: bool
  so_exit_on_retry_exhaustion :: bool

definition gw_supervisor_options_init :: gw_supervisor_options where
  "gw_supervisor_options_init =
     \<lparr>so_ffmpeg_binary = ''ffmpeg'', so_stop_on_clean_exit = False, so_exit_on_retry_exhaustion = False\<rparr>"

text \<open>\<open>requested\<close>: what \<^verbatim>\<open>stop_check\<close> returns, if there is one; \<open>flag\<close>: the value of the signal flag,
  if there is one.\<close>

definition stop_signal_value :: "int option \<Rightarrow> int option \<Rightarrow> int" where
  "stop_signal_value requested flag =
     (case requested of
        Some r \<Rightarrow> if r \<noteq> 0 then r else (case flag of Some v \<Rightarrow> v | None \<Rightarrow> 0)
      | None \<Rightarrow> (case flag of Some v \<Rightarrow> v | None \<Rightarrow> 0))"

section \<open>Time\<close>

definition stop_timeout_ms :: "gw_config \<Rightarrow> int" where
  "stop_timeout_ms config =
     (if stop_timeout_sec (defaults config) > c_div INT_MAX 1000 then INT_MAX
      else stop_timeout_sec (defaults config) * 1000)"

definition timeout_elapsed :: "timespec option \<Rightarrow> timespec \<Rightarrow> int \<Rightarrow> bool" where
  "timeout_elapsed now start timeout_sec =
     (case now of
        None \<Rightarrow> False
      | Some n \<Rightarrow>
          let seconds = tv_sec n - tv_sec start;
              nanoseconds = tv_nsec n - tv_nsec start;
              (seconds', nanoseconds') =
                (if nanoseconds < 0 then (seconds - 1, nanoseconds + 1000000000) else (seconds, nanoseconds))
          in seconds' > timeout_sec \<or> seconds' = timeout_sec \<and> nanoseconds' \<ge> 0)"

fun attempt_event_string :: "worker_attempt_outcome \<Rightarrow> string" where
  "attempt_event_string ATTEMPT_CLEAN_EXIT = ''clean_exit''"
| "attempt_event_string ATTEMPT_WORKER_FAILURE = ''worker_failure''"
| "attempt_event_string ATTEMPT_STARTUP_TIMEOUT = ''startup_timeout''"
| "attempt_event_string ATTEMPT_PROGRESS_TIMEOUT = ''progress_timeout''"
| "attempt_event_string ATTEMPT_STOP_REQUESTED = ''stop_requested''"
| "attempt_event_string ATTEMPT_INTERNAL_ERROR = ''internal_error''"
| "attempt_event_string ATTEMPT_PENDING = ''unknown''"

section \<open>One attempt\<close>

text \<open>One pass of the loop: the stop request, the answers for stopping on request, whether \<^verbatim>\<open>poll\<close>
  failed (other than by an interruption), the two \<^verbatim>\<open>revents\<close> tests, the answers of the two reads
  and of \<^verbatim>\<open>waitpid\<close>, the clock readings, and the answers for stopping on a timeout.\<close>

record pass_env =
  pe_stop_check :: "int option"
  pe_stop_flag :: "int option"
  pe_stop_answers :: stop_answers
  pe_poll_failed :: bool
  pe_out_ready :: bool
  pe_err_ready :: bool
  pe_out :: pipe_answer
  pe_err :: pipe_answer
  pe_progress_time :: "timespec option"
  pe_wait :: wait_answer
  pe_stable_time :: "timespec option"
  pe_timeout_time :: "timespec option"
  pe_timeout_answers :: stop_answers
  pe_reason :: string

text \<open>The locals of \<open>run_worker_attempt\<close> during the loop, with the runtime and snapshot it updates
  through pointers, the published snapshots and the operating system.\<close>

record attempt_state =
  at_outcome :: worker_attempt_outcome
  at_process :: gw_process
  at_os :: os_state
  at_parser :: gw_progress_parser
  at_latest :: gw_worker_progress
  at_error :: "gw_error option"
  at_lines :: stderr_line_buffer
  at_received :: bool
  at_stable :: bool
  at_exited :: bool
  at_started_at :: timespec
  at_last_progress_at :: timespec
  at_running_since :: timespec
  at_runtime :: gw_channel_runtime
  at_snapshot :: gw_channel_snapshot
  at_published :: "gw_channel_snapshot list"

definition publish :: "attempt_state \<Rightarrow> attempt_state" where
  "publish s = s\<lparr>at_published := at_published s @ [at_snapshot s]\<rparr>"

text \<open>A stage of the loop body continues or leaves the loop; \<open>None\<close>: it is blocked.\<close>

datatype flow = Go attempt_state | Leave attempt_state

fun run_stages :: "(attempt_state \<Rightarrow> flow option) list \<Rightarrow> attempt_state \<Rightarrow> flow option" where
  "run_stages [] s = Some (Go s)"
| "run_stages (f # fs) s =
     (case f s of
        None \<Rightarrow> None
      | Some (Leave s') \<Rightarrow> Some (Leave s')
      | Some (Go s') \<Rightarrow> run_stages fs s')"

definition stop_worker ::
  "stop_answers \<Rightarrow> gw_config \<Rightarrow> attempt_state \<Rightarrow> (gw_status \<times> attempt_state) option" where
  "stop_worker a config s =
     (case gw_process_stop a (at_process s) (stop_timeout_ms config) (at_os s) (at_error s) of
        None \<Rightarrow> None
      | Some (st, p, os, e) \<Rightarrow> Some (st, s\<lparr>at_process := p, at_os := os, at_error := e\<rparr>))"

definition stage_stop :: "pass_env \<Rightarrow> gw_config \<Rightarrow> attempt_state \<Rightarrow> flow option" where
  "stage_stop env config s =
     (if stop_signal_value (pe_stop_check env) (pe_stop_flag env) \<noteq> 0 \<and> at_outcome s = ATTEMPT_PENDING \<and> \<not> at_exited s then
        case stop_worker (pe_stop_answers env) config s of
          None \<Rightarrow> None
        | Some (st, s') \<Rightarrow>
            if st \<noteq> GW_OK then Some (Leave s')
            else Some (Go (s'\<lparr>at_outcome := ATTEMPT_STOP_REQUESTED, at_exited := True\<rparr>))
      else Some (Go s))"

definition stage_poll :: "pass_env \<Rightarrow> attempt_state \<Rightarrow> flow option" where
  "stage_poll env s = (if pe_poll_failed env then Some (Leave s) else Some (Go s))"

definition read_worker ::
  "pipe_answer \<Rightarrow> string \<Rightarrow> gw_process_stream \<Rightarrow> attempt_state \<Rightarrow> gw_status \<times> attempt_state \<times> string \<times> bool" where
  "read_worker answer reason stream s =
     (case gw_process_read answer reason (at_process s) stream 2048 (at_os s) (at_error s) of
        (st, p, os, bytes, eos, e) \<Rightarrow>
          (st, s\<lparr>at_process := p, at_os := os, at_error := e\<rparr>, bytes, eos))"

text \<open>A completed progress record: the first one moves the channel to RUNNING.\<close>

definition on_progress :: "pass_env \<Rightarrow> gw_config \<Rightarrow> attempt_state \<Rightarrow> flow option" where
  "on_progress env config s =
     (case pe_progress_time env of
        None \<Rightarrow> Some (Leave (s\<lparr>at_outcome := ATTEMPT_INTERNAL_ERROR\<rparr>))
      | Some now \<Rightarrow>
          let s1 = s\<lparr>at_last_progress_at := now\<rparr>;
              (st, s2) =
                (if \<not> at_received s1 then
                   (case gw_channel_transition (at_runtime s1) GW_CHANNEL_EVENT_PROGRESS (defaults config) (at_error s1) of
                      (st, r, e) \<Rightarrow>
                        (st, s1\<lparr>at_received := True, at_running_since := now, at_runtime := r, at_error := e\<rparr>))
                 else (GW_OK, s1))
          in if st \<noteq> GW_OK then Some (Leave (s2\<lparr>at_outcome := ATTEMPT_INTERNAL_ERROR\<rparr>))
             else Some (Go (publish (s2\<lparr>at_snapshot :=
                    gw_channel_snapshot_set_progress
                      (gw_channel_snapshot_update_runtime (at_snapshot s2) (at_runtime s2) ''progress'')
                      (at_latest s2) ''progress''\<rparr>))))"

definition stage_stdout :: "strtod_fn \<Rightarrow> pass_env \<Rightarrow> gw_config \<Rightarrow> attempt_state \<Rightarrow> flow option" where
  "stage_stdout strtod env config s =
     (if \<not> pe_out_ready env then Some (Go s)
      else case read_worker (pe_out env) (pe_reason env) GW_PROCESS_STDOUT s of
        (st, s1, bytes, eos) \<Rightarrow>
          if st \<noteq> GW_OK then Some (Leave s1)
          else case gw_progress_parser_consume strtod (at_parser s1) bytes (at_latest s1) (at_error s1) of
            (st2, parser, latest, completed, e) \<Rightarrow>
              let s2 = s1\<lparr>at_parser := parser, at_latest := latest, at_error := e\<rparr> in
              if st2 \<noteq> GW_OK then Some (Leave s2)
              else if completed then on_progress env config s2
              else Some (Go s2))"

definition stage_stderr :: "pass_env \<Rightarrow> gw_channel_config \<Rightarrow> attempt_state \<Rightarrow> flow option" where
  "stage_stderr env channel s =
     (if \<not> pe_err_ready env then Some (Go s)
      else case read_worker (pe_err env) (pe_reason env) GW_PROCESS_STDERR s of
        (st, s1, bytes, eos) \<Rightarrow>
          if st \<noteq> GW_OK then Some (Leave s1)
          else
            let l = consume_stderr channel ''worker'' (at_lines s1) bytes in
            Some (Go (s1\<lparr>at_lines := (if eos then flush_stderr channel ''worker'' l else l)\<rparr>)))"

definition stage_wait :: "pass_env \<Rightarrow> attempt_state \<Rightarrow> flow option" where
  "stage_wait env s =
     (if at_exited s then Some (Go s)
      else case gw_process_poll_exit (pe_wait env) (pe_reason env) (at_process s) (at_os s) (at_error s) of
        (st, p, os, exited, e) \<Rightarrow>
          let s1 = s\<lparr>at_process := p, at_os := os, at_error := e\<rparr> in
          if st \<noteq> GW_OK then Some (Leave s1) else Some (Go (s1\<lparr>at_exited := exited\<rparr>)))"

definition stage_stable :: "pass_env \<Rightarrow> gw_config \<Rightarrow> attempt_state \<Rightarrow> flow option" where
  "stage_stable env config s =
     (if \<not> at_exited s \<and> at_received s \<and> \<not> at_stable s \<and>
         timeout_elapsed (pe_stable_time env) (at_running_since s) (stable_run_sec (defaults config)) then
        case gw_channel_transition (at_runtime s) GW_CHANNEL_EVENT_STABLE (defaults config) (at_error s) of
          (st, r, e) \<Rightarrow>
            let s1 = s\<lparr>at_runtime := r, at_error := e\<rparr> in
            if st \<noteq> GW_OK then Some (Leave (s1\<lparr>at_outcome := ATTEMPT_INTERNAL_ERROR\<rparr>))
            else Some (Go (publish (s1\<lparr>at_stable := True,
                   at_snapshot := gw_channel_snapshot_update_runtime (at_snapshot s1) r ''stable''\<rparr>)))
      else Some (Go s))"

definition timeout_outcome :: "pass_env \<Rightarrow> gw_config \<Rightarrow> attempt_state \<Rightarrow> worker_attempt_outcome" where
  "timeout_outcome env config s =
     (if \<not> at_received s \<and>
         timeout_elapsed (pe_timeout_time env) (at_started_at s) (startup_timeout_sec (defaults config))
      then ATTEMPT_STARTUP_TIMEOUT
      else if at_received s \<and>
         timeout_elapsed (pe_timeout_time env) (at_last_progress_at s) (progress_timeout_sec (defaults config))
      then ATTEMPT_PROGRESS_TIMEOUT
      else ATTEMPT_PENDING)"

definition stage_timeout :: "pass_env \<Rightarrow> gw_config \<Rightarrow> attempt_state \<Rightarrow> flow option" where
  "stage_timeout env config s =
     (if \<not> at_exited s \<and> at_outcome s = ATTEMPT_PENDING then
        let oc = timeout_outcome env config s in
        if oc \<noteq> ATTEMPT_PENDING then
          case stop_worker (pe_timeout_answers env) config s of
            None \<Rightarrow> None
          | Some (st, s1) \<Rightarrow>
              if st \<noteq> GW_OK then Some (Leave (s1\<lparr>at_outcome := ATTEMPT_INTERNAL_ERROR\<rparr>))
              else Some (Go (s1\<lparr>at_outcome := oc, at_exited := True\<rparr>))
        else Some (Go s)
      else Some (Go s))"

definition pass_stages ::
  "strtod_fn \<Rightarrow> gw_config \<Rightarrow> gw_channel_config \<Rightarrow> pass_env \<Rightarrow> (attempt_state \<Rightarrow> flow option) list" where
  "pass_stages strtod config channel env =
     [stage_stop env config, stage_poll env, stage_stdout strtod env config, stage_stderr env channel,
      stage_wait env, stage_stable env config, stage_timeout env config]"

fun attempt_loop ::
  "strtod_fn \<Rightarrow> gw_config \<Rightarrow> gw_channel_config \<Rightarrow> pass_env list \<Rightarrow> attempt_state \<Rightarrow> attempt_state option" where
  "attempt_loop strtod config channel envs s =
     (if at_exited s \<and> pr_stdout_fd (at_process s) < 0 \<and> pr_stderr_fd (at_process s) < 0 then Some s
      else case envs of
        [] \<Rightarrow> None
      | env # rest \<Rightarrow>
          (case run_stages (pass_stages strtod config channel env) s of
             None \<Rightarrow> None
           | Some (Leave s') \<Rightarrow> Some s'
           | Some (Go s') \<Rightarrow> attempt_loop strtod config channel rest s'))"

declare attempt_loop.simps [simp del]

record attempt_env =
  ae_alloc :: "nat \<Rightarrow> bool"
  ae_spawn :: spawn_answers
  ae_start_time :: "timespec option"
  ae_passes :: "pass_env list"
  ae_cleanup :: stop_answers

text \<open>What an attempt works on: the runtime, the snapshot, the snapshots published so far, the
  operating system, the live argument strings, the stderr log.\<close>

record sup_state =
  ss_runtime :: gw_channel_runtime
  ss_snapshot :: gw_channel_snapshot
  ss_published :: "gw_channel_snapshot list"
  ss_os :: os_state
  ss_live :: nat
  ss_log :: "string list"

definition no_error :: gw_error where
  "no_error = \<lparr>err_code = GW_OK, err_message = []\<rparr>"

definition internal_error_result :: worker_attempt_result where
  "internal_error_result =
     \<lparr>ar_outcome = ATTEMPT_INTERNAL_ERROR, ar_exit_code = -1, ar_progress = empty_progress\<rparr>"

text \<open>The part after the loop: stop what still runs, read the exit code, close, free.\<close>

definition attempt_finish ::
  "stop_answers \<Rightarrow> gw_config \<Rightarrow> gw_supervisor_options \<Rightarrow> attempt_state \<Rightarrow>
   (worker_attempt_result \<times> attempt_state) option" where
  "attempt_finish cleanup config options s =
     (case (if pr_running (at_process s) then map_option snd (stop_worker cleanup config s) else Some s) of
        None \<Rightarrow> None
      | Some s1 \<Rightarrow>
          let p = at_process s1;
              code = (if pr_reaped p then gw_process_exit_code p else -1);
              oc = (if pr_reaped p \<and> at_outcome s1 = ATTEMPT_PENDING then
                      (if code = 0 \<and> so_stop_on_clean_exit options then ATTEMPT_CLEAN_EXIT
                       else ATTEMPT_WORKER_FAILURE)
                    else at_outcome s1)
          in case gw_process_close p (at_os s1) (at_error s1) of (st, p', os, e) \<Rightarrow>
            Some (\<lparr>ar_outcome = (if st \<noteq> GW_OK then ATTEMPT_INTERNAL_ERROR else oc),
                   ar_exit_code = code, ar_progress = at_latest s1\<rparr>,
                  s1\<lparr>at_process := p', at_os := os, at_error := e\<rparr>))"

definition attempt_start :: "gw_process \<Rightarrow> os_state \<Rightarrow> gw_error option \<Rightarrow> timespec \<Rightarrow> sup_state \<Rightarrow> attempt_state" where
  "attempt_start p os e now s =
     publish
       \<lparr>at_outcome = ATTEMPT_PENDING, at_process = p, at_os = os, at_parser = gw_progress_parser_init,
        at_latest = empty_progress, at_error = e, at_lines = \<lparr>sl_data = [], sl_dropping = False, sl_log = []\<rparr>,
        at_received = False, at_stable = False, at_exited = False, at_started_at = now,
        at_last_progress_at = now, at_running_since = \<lparr>tv_sec = 0, tv_nsec = 0\<rparr>,
        at_runtime = ss_runtime s,
        at_snapshot = gw_channel_snapshot_set_process (ss_snapshot s) GW_CHANNEL_PROCESS_WORKER (pr_pid p) ''worker_started'',
        at_published = ss_published s\<rparr>"

definition run_worker_attempt ::
  "strtod_fn \<Rightarrow> gw_config \<Rightarrow> gw_channel_config \<Rightarrow> gw_supervisor_options \<Rightarrow> attempt_env \<Rightarrow> sup_state \<Rightarrow>
   (worker_attempt_result \<times> sup_state) option" where
  "run_worker_attempt strtod config channel options env s =
     (case gw_pipeline_build (ae_alloc env) channel (mediamtx config) (Some (so_ffmpeg_binary options))
             \<lparr>items = [], count = 0, pl_live = ss_live s, pl_error = Some no_error\<rparr> of
        (st0, args) \<Rightarrow>
          if st0 \<noteq> GW_OK then Some (internal_error_result, s\<lparr>ss_live := pl_live args\<rparr>)
          else
            let argv = map the (takeWhile (\<lambda>x. x \<noteq> None) (items args));
                freed = pl_live (gw_pipeline_argv_free args)
            in case gw_process_start (ae_spawn env) gw_process_init argv (ss_os s) (pl_error args) of
              (st1, p, os1, e1) \<Rightarrow>
                if st1 \<noteq> GW_OK then
                  Some (internal_error_result\<lparr>ar_outcome := ATTEMPT_WORKER_FAILURE\<rparr>, s\<lparr>ss_os := os1, ss_live := freed\<rparr>)
                else case ae_start_time env of
                  None \<Rightarrow>
                    (case gw_process_stop (ae_cleanup env) p (stop_timeout_ms config) os1 e1 of
                       None \<Rightarrow> None
                     | Some (st2, p2, os2, e2) \<Rightarrow>
                         (case gw_process_close p2 os2 e2 of (st3, p3, os3, e3) \<Rightarrow>
                            Some (internal_error_result, s\<lparr>ss_os := os3, ss_live := freed\<rparr>)))
                | Some now \<Rightarrow>
                    (case attempt_loop strtod config channel (ae_passes env) (attempt_start p os1 e1 now s) of
                       None \<Rightarrow> None
                     | Some a1 \<Rightarrow>
                         (case attempt_finish (ae_cleanup env) config options a1 of
                            None \<Rightarrow> None
                          | Some (result, a2) \<Rightarrow>
                              Some (result,
                                s\<lparr>ss_runtime := at_runtime a2, ss_snapshot := at_snapshot a2,
                                  ss_published := at_published a2, ss_os := at_os a2, ss_live := freed,
                                  ss_log := ss_log s @ sl_log (at_lines a2)\<rparr>))))"

section \<open>Invariants of the poll loop\<close>

fun flow_state :: "flow \<Rightarrow> attempt_state" where
  "flow_state (Go s) = s"
| "flow_state (Leave s) = s"

text \<open>What every stage of the loop body keeps holds when the loop is left, on every way out.\<close>

locale loop_invariant =
  fixes strtod :: strtod_fn and config :: gw_config and channel :: gw_channel_config
    and I :: "attempt_state \<Rightarrow> bool"
  assumes stage: "f \<in> set (pass_stages strtod config channel env) \<Longrightarrow> I s \<Longrightarrow> f s = Some r \<Longrightarrow> I (flow_state r)"
begin

lemma run_stages_inv:
  assumes "set fs \<subseteq> set (pass_stages strtod config channel env)" and "I s" and "run_stages fs s = Some r"
  shows "I (flow_state r)"
  using assms
proof (induction fs arbitrary: s)
  case Nil
  then show ?case by auto
next
  case (Cons f fs)
  then obtain q where q: "f s = Some q" by (auto split: option.splits)
  have "I (flow_state q)" using stage [of f env s q] Cons.prems q by simp
  with Cons q show ?case by (cases q) auto
qed

lemma loop_inv:
  assumes "attempt_loop strtod config channel envs s = Some s'" and "I s"
  shows "I s'"
  using assms
proof (induction envs arbitrary: s)
  case Nil
  then show ?case by (simp add: attempt_loop.simps [of _ _ _ "[]"] split: if_splits)
next
  case (Cons env envs)
  note step = attempt_loop.simps [of strtod config channel "env # envs" s]
  show ?case
  proof (cases "at_exited s \<and> pr_stdout_fd (at_process s) < 0 \<and> pr_stderr_fd (at_process s) < 0")
    case True
    with Cons.prems step show ?thesis by simp
  next
    case False
    with Cons.prems(1) step obtain q where
      q: "run_stages (pass_stages strtod config channel env) s = Some q" by (auto split: option.splits)
    from run_stages_inv [OF order_refl Cons.prems(2) q] Cons.IH Cons.prems(1) step False q
    show ?thesis by (cases q) auto
  qed
qed

end

section \<open>An attempt gives everything back\<close>

text \<open>During an attempt the gateway holds the worker's two read ends, as long as they are open, and
  the child, as long as it is not reaped; nothing else differs from the state before.\<close>

definition holds_worker :: "os_state \<Rightarrow> int \<Rightarrow> int \<Rightarrow> int \<Rightarrow> gw_process \<Rightarrow> os_state \<Rightarrow> bool" where
  "holds_worker before pid out err p os \<longleftrightarrow>
     0 < pid \<and> pid \<notin> os_children before \<and> 0 \<le> out \<and> 0 \<le> err \<and> out \<noteq> err \<and>
     os_fds before out = None \<and> os_fds before err = None \<and>
     pr_pid p = pid \<and> pr_running p = (\<not> pr_reaped p) \<and>
     pr_stdout_fd p \<in> {out, -1} \<and> pr_stderr_fd p \<in> {err, -1} \<and>
     (\<forall>d. \<not> (0 \<le> d \<and> (d = pr_stdout_fd p \<or> d = pr_stderr_fd p)) \<longrightarrow> os_fds os d = os_fds before d) \<and>
     os_children os = (if pr_reaped p then os_children before else insert pid (os_children before)) \<and>
     os_spawn_objects os = os_spawn_objects before \<and>
     signalled pid before os"

lemma holds_worker_same:
  assumes "holds_worker before pid out err p os" and "same_worker p os p' os'"
  shows "holds_worker before pid out err p' os'"
proof -
  have "signalled pid before os'"
    using assms signalled_trans [of pid before os os'] by (simp add: holds_worker_def same_worker_def)
  moreover from assms have "os_children os' = (if pr_reaped p' then os_children before else insert pid (os_children before))"
    by (auto simp: holds_worker_def same_worker_def)
  moreover from assms have "pr_running p' = (\<not> pr_reaped p')" by (auto simp: holds_worker_def same_worker_def)
  ultimately show ?thesis using assms by (simp add: holds_worker_def same_worker_def)
qed

lemma holds_worker_read:
  assumes "holds_worker before pid out err p os"
    and "gw_process_read a reason p stream cap os e = (st, p', os', bytes, eos, e')"
  shows "holds_worker before pid out err p' os'"
  using assms unfolding holds_worker_def
  by (cases stream; cases a) (auto simp: gw_process_read_def close_fd_def os_close_def signalled_def Let_def split: if_splits)

lemma holds_worker_close:
  assumes "holds_worker before pid out err p os" and "gw_process_close p os e = (GW_OK, p', os', e')"
  shows "\<exists>sent. os' = before\<lparr>os_signals := os_signals before @ sent\<rparr> \<and> fst ` set sent \<subseteq> {- pid}"
proof -
  from assms obtain sent where sent: "os_signals os = os_signals before @ sent" "fst ` set sent \<subseteq> {- pid}"
    by (auto simp: holds_worker_def signalled_def)
  from assms(2) have "\<not> pr_running p" by (auto simp: gw_process_close_def split: if_splits)
  with assms sent(1) have "os' = before\<lparr>os_signals := os_signals before @ sent\<rparr>"
    unfolding holds_worker_def
    by (intro os_state.equality)
      (auto simp: gw_process_close_def close_fd_def os_close_def fun_eq_iff split: if_splits prod.splits)
  with sent(2) show ?thesis by blast
qed

abbreviation attempt_holds :: "os_state \<Rightarrow> int \<Rightarrow> int \<Rightarrow> int \<Rightarrow> attempt_state \<Rightarrow> bool" where
  "attempt_holds before pid out err s \<equiv> holds_worker before pid out err (at_process s) (at_os s)"

lemma stop_worker_holds:
  assumes "stop_worker a config s = Some (st, s')" and "attempt_holds before pid out err s"
  shows "attempt_holds before pid out err s'"
  using assms(1) holds_worker_same [OF assms(2) process_stop_same]
  by (auto simp: stop_worker_def split: option.splits)

lemma read_worker_holds:
  assumes "read_worker a reason stream s = (st, s', bytes, eos)" and "attempt_holds before pid out err s"
  shows "attempt_holds before pid out err s'"
proof -
  obtain st1 p1 os1 b1 eos1 e1 where
    r: "gw_process_read a reason (at_process s) stream 2048 (at_os s) (at_error s) = (st1, p1, os1, b1, eos1, e1)"
    by (metis prod_cases6)
  from holds_worker_read [OF assms(2) r] assms(1) r show ?thesis by (auto simp: read_worker_def)
qed

lemma on_progress_holds:
  "on_progress env config s = Some r \<Longrightarrow>
   at_process (flow_state r) = at_process s \<and> at_os (flow_state r) = at_os s"
  by (auto simp: on_progress_def publish_def Let_def split: option.splits if_splits prod.splits)

lemma stage_holds:
  assumes "f \<in> set (pass_stages strtod config channel env)" and "attempt_holds before pid out err s"
    and "f s = Some r"
  shows "attempt_holds before pid out err (flow_state r)"
proof -
  from assms(1) consider "f = stage_stop env config" | "f = stage_poll env" | "f = stage_stdout strtod env config"
    | "f = stage_stderr env channel" | "f = stage_wait env" | "f = stage_stable env config"
    | "f = stage_timeout env config"
    by (auto simp: pass_stages_def)
  then show ?thesis
  proof cases
    case 1
    with assms(2,3) stop_worker_holds [OF _ assms(2), of _ config] show ?thesis
      by (auto simp: stage_stop_def split: if_splits option.splits)
  next
    case 2
    with assms(2,3) show ?thesis by (auto simp: stage_poll_def split: if_splits)
  next
    case 3
    with assms(2,3) read_worker_holds [OF _ assms(2)] on_progress_holds [of env config _ r] show ?thesis
      by (fastforce simp: stage_stdout_def Let_def split: if_splits prod.splits)
  next
    case 4
    with assms(2,3) show ?thesis
      by (auto simp: stage_stderr_def Let_def split: if_splits prod.splits dest: read_worker_holds [OF _ assms(2)])
  next
    case 5
    with assms(2,3) show ?thesis
      by (auto simp: stage_wait_def Let_def split: if_splits prod.splits
          intro: holds_worker_same [OF assms(2) poll_exit_same])
  next
    case 6
    with assms(2,3) show ?thesis
      by (auto simp: stage_stable_def publish_def Let_def split: if_splits prod.splits)
  next
    case 7
    with assms(2,3) stop_worker_holds [OF _ assms(2), of _ config] show ?thesis
      by (auto simp: stage_timeout_def Let_def split: if_splits option.splits)
  qed
qed

interpretation held: loop_invariant strtod config channel "attempt_holds before pid out err"
  for strtod config channel before pid out err
  by unfold_locales (rule stage_holds)

text \<open>The laws of \<^verbatim>\<open>pipe\<close> and \<^verbatim>\<open>posix_spawn\<close>: new descriptors were not open, a new child has
  a positive pid no other child has.\<close>

definition spawn_lawful :: "spawn_answers \<Rightarrow> os_state \<Rightarrow> bool" where
  "spawn_lawful a os \<longleftrightarrow>
     (\<forall>out. sp_pipe_out a = Some out \<longrightarrow> fresh_pipe (os_fds os) out) \<and>
     (\<forall>out err. sp_pipe_out a = Some out \<longrightarrow> sp_pipe_err a = Some err \<longrightarrow>
        fresh_pipe (os_fds os) err \<and> ends out \<inter> ends err = {}) \<and>
     (\<forall>pid. sp_spawn a = Some pid \<longrightarrow> 0 < pid \<and> pid \<notin> os_children os)"

lemma started_holds:
  assumes "spawn_lawful a os" and "gw_process_start a gw_process_init argv os e = (GW_OK, p, os', e')"
  shows "\<exists>pid out err. sp_spawn a = Some pid \<and> holds_worker os pid out err p os'"
proof -
  have "\<exists>out err pid. sp_pipe_out a = Some out \<and> sp_pipe_err a = Some err \<and> sp_spawn a = Some pid \<and>
       p = started gw_process_init pid (fst out) (fst err) \<and> os' = both_read_ends os pid (fst out) (fst err)"
    using process_start_cases [OF _ _ assms(2)] assms(1) unfolding spawn_lawful_def by auto
  then obtain out err pid where a: "sp_pipe_out a = Some out" "sp_pipe_err a = Some err" "sp_spawn a = Some pid"
      "p = started gw_process_init pid (fst out) (fst err)" "os' = both_read_ends os pid (fst out) (fst err)"
    by blast
  from assms(1) a(1-3) have "fresh_pipe (os_fds os) out" "fresh_pipe (os_fds os) err" "ends out \<inter> ends err = {}"
      "0 < pid" "pid \<notin> os_children os"
    by (auto simp: spawn_lawful_def)
  then have "holds_worker os pid (fst out) (fst err) p os'"
    unfolding a(4,5) by (auto simp: holds_worker_def started_def both_read_ends_def fresh_pipe_def signalled_same)
  with a(3) show ?thesis by blast
qed

lemma start_failed_unchanged:
  assumes "spawn_lawful a os" and "gw_process_start a p argv os e = (st, p', os', e')" and "st \<noteq> GW_OK"
  shows "os' = os"
  using process_start_cases [OF _ _ assms(2)] assms(1,3) unfolding spawn_lawful_def by auto

lemma attempt_finish_gives_back:
  assumes "attempt_finish cleanup config options s = Some (result, s')"
    and "attempt_holds before pid out err s" and "ar_outcome result \<noteq> ATTEMPT_INTERNAL_ERROR"
  shows "\<exists>sent. at_os s' = before\<lparr>os_signals := os_signals before @ sent\<rparr> \<and> fst ` set sent \<subseteq> {- pid}"
    and "ar_outcome result \<noteq> ATTEMPT_PENDING"
proof -
  obtain s1 where s1: "(if pr_running (at_process s) then map_option snd (stop_worker cleanup config s) else Some s) = Some s1"
    using assms(1) by (auto simp: attempt_finish_def split: option.splits)
  have h: "attempt_holds before pid out err s1"
    using s1 assms(2) stop_worker_holds [OF _ assms(2)] by (auto split: if_splits)
  obtain st p' os' e' where c: "gw_process_close (at_process s1) (at_os s1) (at_error s1) = (st, p', os', e')"
    by (metis prod_cases4)
  have ok: "st = GW_OK" and s': "at_os s' = os'"
    using assms(1,3) s1 c by (auto simp: attempt_finish_def Let_def split: if_splits)
  from holds_worker_close [OF h c [unfolded ok]] s'
  show "\<exists>sent. at_os s' = before\<lparr>os_signals := os_signals before @ sent\<rparr> \<and> fst ` set sent \<subseteq> {- pid}" by simp
  from ok c have "\<not> pr_running (at_process s1)" by (auto simp: gw_process_close_def split: if_splits)
  with h have "pr_reaped (at_process s1)" by (simp add: holds_worker_def)
  with assms(1,3) s1 c ok show "ar_outcome result \<noteq> ATTEMPT_PENDING"
    by (auto simp: attempt_finish_def Let_def split: if_splits)
qed

lemma attempt_start_holds [simp]: "at_process (attempt_start p os e now s) = p" "at_os (attempt_start p os e now s) = os"
  by (simp_all add: attempt_start_def publish_def)

lemma build_frees:
  assumes "channel_bounded c" and "is_int32 (fps (ch_video c) * 2)"
    and "gw_pipeline_build alloc c m b \<lparr>items = old, count = n, pl_live = base, pl_error = e\<rparr> = (st, args)"
  shows "if st = GW_OK then pl_live (gw_pipeline_argv_free args) = base else pl_live args = base"
proof (cases "publish_base_url m = []")
  case True
  with assms(3) show ?thesis by (auto simp: gw_pipeline_build_def)
next
  case False
  note r = pipeline_build_cases [OF assms(1,2) False, of alloc b old n base e]
  have l: "pl_live (holding base e' []) = base" for e' by (simp add: holding_def)
  have f: "pl_live (gw_pipeline_argv_free (holding base e' (ffmpeg_options c x @ [y]))) = base" for e' x y
    by (simp add: argv_free_holding ffmpeg_options_def l)
  show ?thesis using r assms(3) l f by (auto simp: Let_def split: if_splits)
qed

lemma started_attempt_gives_back:
  assumes "spawn_lawful (ae_spawn env) (ss_os s)"
    and "gw_process_start (ae_spawn env) gw_process_init argv (ss_os s) e0 = (GW_OK, p, os1, e1)"
    and "attempt_loop strtod config channel passes (attempt_start p os1 e1 now s) = Some a1"
    and "attempt_finish cleanup config options a1 = Some (result, a2)"
    and "ar_outcome result \<noteq> ATTEMPT_INTERNAL_ERROR"
  shows "ar_outcome result \<noteq> ATTEMPT_PENDING \<and>
     (\<exists>sent. at_os a2 = (ss_os s)\<lparr>os_signals := os_signals (ss_os s) @ sent\<rparr> \<and>
        (\<forall>x \<in> set sent. sp_spawn (ae_spawn env) = Some (- fst x)))"
proof -
  obtain pid out err where pid: "sp_spawn (ae_spawn env) = Some pid" and h: "holds_worker (ss_os s) pid out err p os1"
    using started_holds [OF assms(1,2)] by blast
  have "attempt_holds (ss_os s) pid out err (attempt_start p os1 e1 now s)" using h by simp
  from held.loop_inv [OF assms(3) this] have h1: "attempt_holds (ss_os s) pid out err a1" .
  obtain sent where sent: "at_os a2 = (ss_os s)\<lparr>os_signals := os_signals (ss_os s) @ sent\<rparr>" "fst ` set sent \<subseteq> {- pid}"
    using attempt_finish_gives_back(1) [OF assms(4) h1 assms(5)] by blast
  have "\<forall>x \<in> set sent. sp_spawn (ae_spawn env) = Some (- fst x)" using sent(2) pid by auto
  with sent(1) attempt_finish_gives_back(2) [OF assms(4) h1 assms(5)] show ?thesis by blast
qed

text \<open>C4: an attempt gives everything back. Whatever happens in it (a failed start, a worker that
  exits, a timeout, a stop request, a failing poll, read or parse), every duplicated argument string
  is freed, and unless the outcome is an internal error the descriptor table, the children and the
  spawn objects are exactly as before: the worker is reaped and both pipes are closed. Signals went
  to the worker's own process group only, and the outcome is never left pending.\<close>

theorem attempt_gives_back:
  assumes "spawn_lawful (ae_spawn env) (ss_os s)" and "channel_bounded channel"
    and "is_int32 (fps (ch_video channel) * 2)"
    and "run_worker_attempt strtod config channel options env s = Some (result, s')"
  shows "ss_live s' = ss_live s \<and>
     (ar_outcome result \<noteq> ATTEMPT_INTERNAL_ERROR \<longrightarrow>
        ar_outcome result \<noteq> ATTEMPT_PENDING \<and>
        (\<exists>sent. ss_os s' = (ss_os s)\<lparr>os_signals := os_signals (ss_os s) @ sent\<rparr> \<and>
           (\<forall>x \<in> set sent. sp_spawn (ae_spawn env) = Some (- fst x))))"
proof -
  obtain st args where b: "gw_pipeline_build (ae_alloc env) channel (mediamtx config) (Some (so_ffmpeg_binary options))
             \<lparr>items = [], count = 0, pl_live = ss_live s, pl_error = Some no_error\<rparr> = (st, args)" by fastforce
  note live = build_frees [OF assms(2,3) b]
  obtain st1 p os1 e1 where g: "gw_process_start (ae_spawn env) gw_process_init
      (map the (takeWhile (\<lambda>x. x \<noteq> None) (items args))) (ss_os s) (pl_error args) = (st1, p, os1, e1)"
    by (metis prod_cases4)
  note run = assms(4) [unfolded run_worker_attempt_def b]
  consider "st \<noteq> GW_OK" | "st = GW_OK" "st1 \<noteq> GW_OK" | "st = GW_OK" "st1 = GW_OK" "ae_start_time env = None"
    | now where "st = GW_OK" "st1 = GW_OK" "ae_start_time env = Some now" by blast
  then show ?thesis
  proof cases
    case 1
    with run live show ?thesis by (auto simp: internal_error_result_def)
  next
    case 2
    with run live g start_failed_unchanged [OF assms(1) g] show ?thesis
      by (auto simp: Let_def internal_error_result_def intro!: exI [of _ "[]"])
  next
    case 3
    with run live g show ?thesis
      by (auto simp: Let_def internal_error_result_def split: option.splits prod.splits)
  next
    case (4 now)
    with run g obtain a1 a2 where
      "attempt_loop strtod config channel (ae_passes env) (attempt_start p os1 e1 now s) = Some a1"
      "attempt_finish (ae_cleanup env) config options a1 = Some (result, a2)"
      "ss_os s' = at_os a2" "ss_live s' = pl_live (gw_pipeline_argv_free args)"
      by (auto simp: Let_def split: option.splits)
    with started_attempt_gives_back [OF assms(1) g [unfolded 4(2)]] live 4(1) show ?thesis by auto
  qed
qed

section \<open>A concrete attempt\<close>

text \<open>A worker that prints nothing: after the startup timeout it is asked to stop, ignores SIGTERM
  and is killed; then both pipes report end of file.\<close>

definition camera_config :: gw_config where
  "camera_config = \<lparr>server = \<lparr>srv_enabled = False, srv_listen = ''127.0.0.1'', srv_port = 9090\<rparr>,
     mediamtx = sample_mediamtx, defaults = default_policy, channels = [sample_channel]\<rparr>"

definition good_spawn :: spawn_answers where
  "good_spawn = failing_spawn\<lparr>sp_spawn := Some 77\<rparr>"

definition silent_pass :: pass_env where
  "silent_pass = \<lparr>pe_stop_check = None, pe_stop_flag = Some 0, pe_stop_answers = stubborn_stop,
     pe_poll_failed = False, pe_out_ready = False, pe_err_ready = False, pe_out = Pipe_Again, pe_err = Pipe_Again,
     pe_progress_time = None, pe_wait = Wait_Running, pe_stable_time = None,
     pe_timeout_time = Some \<lparr>tv_sec = 100, tv_nsec = 0\<rparr>, pe_timeout_answers = stubborn_stop, pe_reason = []\<rparr>"

definition final_pass :: pass_env where
  "final_pass = silent_pass\<lparr>pe_out_ready := True, pe_err_ready := True, pe_out := Pipe_Eof, pe_err := Pipe_Eof\<rparr>"

definition silent_attempt :: attempt_env where
  "silent_attempt = \<lparr>ae_alloc = (\<lambda>n. True), ae_spawn = good_spawn,
     ae_start_time = Some \<lparr>tv_sec = 85, tv_nsec = 0\<rparr>, ae_passes = [silent_pass, final_pass],
     ae_cleanup = stubborn_stop\<rparr>"

definition starting_state :: sup_state where
  "starting_state = \<lparr>ss_runtime = fresh_start,
     ss_snapshot = gw_channel_snapshot_update_runtime (gw_channel_snapshot_init sample_channel) fresh_start ''start'',
     ss_published = [gw_channel_snapshot_update_runtime (gw_channel_snapshot_init sample_channel) fresh_start ''start''],
     ss_os = quiet_os, ss_live = 0, ss_log = []\<rparr>"

lemma camera_build:
  "gw_pipeline_build (\<lambda>n. True) sample_channel sample_mediamtx (Some ''ffmpeg'')
     \<lparr>items = [], count = 0, pl_live = 0, pl_error = Some no_error\<rparr> =
   (GW_OK, holding 0 (Some no_error) (ffmpeg_options sample_channel ''ffmpeg'' @ [''rtsp://127.0.0.1:8554/cam01'']))"
proof -
  have u: "output_url_text sample_mediamtx sample_channel = ''rtsp://127.0.0.1:8554/cam01''"
    by (simp add: output_url_text_def sample_mediamtx_def sample_channel_def)
  have "is_int32 (fps (ch_video sample_channel) * 2)" by (simp add: sample_channel_def is_int32_def)
  moreover have "publish_base_url sample_mediamtx \<noteq> []" by (simp add: sample_mediamtx_def)
  ultimately show ?thesis
    using pipeline_build_cases [OF sample_channel_bounded, of sample_mediamtx "\<lambda>n. True" "Some ''ffmpeg''" "[]" 0 0 "Some no_error"]
    by (simp add: u no_error_def)
qed

lemma good_spawn_start:
  "argv \<noteq> [] \<Longrightarrow> gw_process_start good_spawn gw_process_init argv quiet_os e =
     (GW_OK, live_worker, both_read_ends quiet_os 77 3 5, gw_error_clear e)"
  by (auto simp: gw_process_start_def spawn_child_def good_spawn_def failing_spawn_def gw_process_init_def
      configure_pipe_def add_file_actions_def live_worker_def started_def both_read_ends_def quiet_os_def
      new_pipe_def fd_set_def close_fd_def os_close_def fun_eq_iff Let_def)

lemma live_worker_stop:
  "gw_process_stop stubborn_stop live_worker 5000 (both_read_ends quiet_os 77 3 5) e =
     Some (GW_OK, live_worker\<lparr>pr_wait_status := 9, pr_running := False, pr_reaped := True\<rparr>,
       (both_read_ends quiet_os 77 3 5)\<lparr>os_children := {}, os_signals := [(-77, SIGTERM), (-77, SIGKILL)]\<rparr>, gw_error_clear e)"
  by (cases e) (simp_all add: gw_process_stop_def stubborn_stop_def live_worker_def started_def gw_process_init_def
      quiet_os_def both_read_ends_def send_signal_def make_deadline_def deadline_reached_def
      gw_process_poll_exit_def reap_def c_div_def c_mod_def)

lemma live_worker_simps [simp]:
  "pr_pid live_worker = 77" "pr_stdout_fd live_worker = 3" "pr_stderr_fd live_worker = 5"
  "pr_running live_worker" "\<not> pr_reaped live_worker"
  by (simp_all add: live_worker_def started_def)

lemma camera_config_simps [simp]:
  "defaults camera_config = default_policy" "mediamtx camera_config = sample_mediamtx"
  "stop_timeout_ms camera_config = 5000" "startup_timeout_sec default_policy = 15"
  by (simp_all add: stop_timeout_ms_def camera_config_def default_policy_def c_div_def)

lemmas pass_defs = pass_stages_def stage_stop_def stop_signal_value_def stage_poll_def stage_stdout_def
  stage_stderr_def stage_wait_def stage_stable_def stage_timeout_def

lemma silent_attempt_result:
  "map_option (ar_outcome \<circ> fst) (run_worker_attempt no_strtod camera_config sample_channel gw_supervisor_options_init
     silent_attempt starting_state) = Some ATTEMPT_STARTUP_TIMEOUT"
proof -
  have argv: "takeWhile (\<lambda>x. x \<noteq> None) (items (holding 0 e (ffmpeg_options sample_channel b @ [u]))) \<noteq> []" for e b u
    by (simp add: holding_def ffmpeg_options_def)
  let ?s = "attempt_start live_worker (both_read_ends quiet_os 77 3 5) (Some no_error) \<lparr>tv_sec = 85, tv_nsec = 0\<rparr> starting_state"
  let ?t = "?s\<lparr>at_outcome := ATTEMPT_STARTUP_TIMEOUT, at_exited := True,
       at_process := live_worker\<lparr>pr_wait_status := 9, pr_running := False, pr_reaped := True\<rparr>,
       at_os := (both_read_ends quiet_os 77 3 5)\<lparr>os_children := {}, os_signals := [(-77, SIGTERM), (-77, SIGKILL)]\<rparr>\<rparr>"
  have p1: "run_stages (pass_stages no_strtod camera_config sample_channel silent_pass) ?s = Some (Go ?t)"
    by (simp add: pass_defs silent_pass_def gw_process_poll_exit_def timeout_outcome_def
        timeout_elapsed_def attempt_start_def publish_def stop_worker_def live_worker_stop no_error_def)
  have p2: "\<exists>u. run_stages (pass_stages no_strtod camera_config sample_channel final_pass) ?t = Some (Go u) \<and>
      at_outcome u = ATTEMPT_STARTUP_TIMEOUT \<and> at_exited u \<and> pr_stdout_fd (at_process u) = -1 \<and>
      pr_stderr_fd (at_process u) = -1 \<and> \<not> pr_running (at_process u)"
    by (simp add: pass_defs final_pass_def silent_pass_def read_worker_def gw_process_read_def close_fd_def
        gw_progress_parser_consume_def Let_def attempt_start_def publish_def no_error_def)
  then obtain u where u: "run_stages (pass_stages no_strtod camera_config sample_channel final_pass) ?t = Some (Go u)"
    "at_outcome u = ATTEMPT_STARTUP_TIMEOUT" "at_exited u" "pr_stdout_fd (at_process u) = -1"
    "pr_stderr_fd (at_process u) = -1" "\<not> pr_running (at_process u)" by blast
  have "attempt_loop no_strtod camera_config sample_channel [silent_pass, final_pass] ?s = Some u"
    using p1 u by (simp add: attempt_loop.simps attempt_start_def publish_def)
  moreover have "attempt_finish stubborn_stop camera_config gw_supervisor_options_init u \<noteq> None"
    "attempt_finish stubborn_stop camera_config gw_supervisor_options_init u = Some (r, v) \<Longrightarrow>
       ar_outcome r = ATTEMPT_STARTUP_TIMEOUT" for r v
    using u by (auto simp: attempt_finish_def gw_process_close_def Let_def close_fd_def)
  moreover have "ss_live starting_state = 0" "ss_os starting_state = quiet_os" "pl_error (holding 0 e xs) = e"
    "gw_error_clear (Some no_error) = Some no_error" for e xs
    by (simp_all add: starting_state_def holding_def no_error_def)
  moreover have "so_ffmpeg_binary gw_supervisor_options_init = ''ffmpeg''" by (simp add: gw_supervisor_options_init_def)
  ultimately show ?thesis using argv
    by (auto simp: run_worker_attempt_def silent_attempt_def camera_build good_spawn_start Let_def split: option.splits)
qed

lemma good_spawn_lawful: "spawn_lawful good_spawn quiet_os"
  by (auto simp: spawn_lawful_def good_spawn_def failing_spawn_def fresh_pipe_def quiet_os_def)

theorem attempt_gives_back_witness:
  "\<exists>result s'. run_worker_attempt no_strtod camera_config sample_channel gw_supervisor_options_init
       silent_attempt starting_state = Some (result, s') \<and> ar_outcome result = ATTEMPT_STARTUP_TIMEOUT \<and>
     ss_live s' = 0 \<and> os_fds (ss_os s') = os_fds quiet_os \<and> os_children (ss_os s') = {}"
proof -
  obtain result s' where r: "run_worker_attempt no_strtod camera_config sample_channel gw_supervisor_options_init
      silent_attempt starting_state = Some (result, s')" "ar_outcome result = ATTEMPT_STARTUP_TIMEOUT"
    using silent_attempt_result by fastforce
  have "is_int32 (fps (ch_video sample_channel) * 2)" by (simp add: sample_channel_def is_int32_def)
  from attempt_gives_back [OF _ sample_channel_bounded this r(1)] good_spawn_lawful
  have "ss_live s' = 0 \<and> (\<exists>sent. ss_os s' = quiet_os\<lparr>os_signals := os_signals quiet_os @ sent\<rparr>)"
    using r(2) by (auto simp: silent_attempt_def starting_state_def)
  with r show ?thesis by (auto simp: quiet_os_def)
qed


section \<open>Draining ignores stop requests\<close>

text \<open>A pass in which \<^verbatim>\<open>poll\<close> reports nothing.\<close>

definition quiet_pass :: "pass_env \<Rightarrow> bool" where
  "quiet_pass env \<longleftrightarrow> \<not> pe_poll_failed env \<and> \<not> pe_out_ready env \<and> \<not> pe_err_ready env"

lemma quiet_pass_idle:
  "at_exited s \<Longrightarrow> quiet_pass env \<Longrightarrow> run_stages (pass_stages strtod config channel env) s = Some (Go s)"
  by (simp add: pass_defs quiet_pass_def)

text \<open>C38: Once the worker itself has exited, the loop waits for end of file on both pipes and no longer
  looks at stop requests. If another process inherited a write end and stays silent, the attempt does not
  end, however many passes are made and whatever the stop flag says.\<close>

theorem draining_ignores_stop:
  assumes "at_exited s" and "0 \<le> pr_stdout_fd (at_process s) \<or> 0 \<le> pr_stderr_fd (at_process s)"
    and "list_all quiet_pass envs"
  shows "attempt_loop strtod config channel envs s = None"
  using assms(3)
proof (induction envs)
  case Nil
  with assms(1,2) show ?case by (subst attempt_loop.simps) auto
next
  case (Cons env envs)
  with assms(1,2) quiet_pass_idle [OF assms(1), of env strtod config channel] show ?case
    by (subst attempt_loop.simps) auto
qed

definition drained_state :: attempt_state where
  "drained_state = (attempt_start live_worker (both_read_ends quiet_os 77 3 5) (Some no_error)
     \<lparr>tv_sec = 85, tv_nsec = 0\<rparr> starting_state)\<lparr>at_exited := True\<rparr>"

theorem draining_ignores_stop_witness:
  "\<forall>n. attempt_loop no_strtod camera_config sample_channel
     (replicate n (silent_pass\<lparr>pe_stop_flag := Some 15\<rparr>)) drained_state = None"
proof (rule allI, rule draining_ignores_stop)
  fix n
  show "at_exited drained_state" by (simp add: drained_state_def)
  show "0 \<le> pr_stdout_fd (at_process drained_state) \<or> 0 \<le> pr_stderr_fd (at_process drained_state)"
    by (simp add: drained_state_def)
  show "list_all quiet_pass (replicate n (silent_pass\<lparr>pe_stop_flag := Some 15\<rparr>))"
    by (simp add: list_all_length quiet_pass_def silent_pass_def)
qed

end
