(* ===== verification/Supervisor.thy ===== *)
theory Supervisor
  imports Worker_Attempt Config_Validate
begin

text \<open>
  Supervision of one channel (the second part of \<^verbatim>\<open>src/channel/supervisor.c\<close>): the backoff
  wait and the endless retry loop around the worker attempts. A loop consumes one environment per
  round and has no result while its list ends first. Shown: the state machine accepts every event
  the supervisor sends, the return codes mean what the header says, and the observer sees
  consistent snapshots that follow the edges of the lifecycle diagram.
\<close>

section \<open>Retries\<close>

record backoff_env =
  be_start :: "timespec option"
  be_passes :: "(timespec option \<times> int option \<times> int option) list"

fun backoff_wait ::
  "timespec \<Rightarrow> int \<Rightarrow> (timespec option \<times> int option \<times> int option) list \<Rightarrow> bool option" where
  "backoff_wait started_at backoff_sec [] = None"
| "backoff_wait started_at backoff_sec ((now, requested, flag) # rest) =
     (if timeout_elapsed now started_at backoff_sec then Some True
      else if stop_signal_value requested flag \<noteq> 0 then Some False
      else backoff_wait started_at backoff_sec rest)"

definition wait_for_backoff :: "backoff_env \<Rightarrow> int \<Rightarrow> bool option" where
  "wait_for_backoff env backoff_sec =
     (case be_start env of
        None \<Rightarrow> Some False
      | Some started_at \<Rightarrow> backoff_wait started_at backoff_sec (be_passes env))"

definition ss_publish :: "sup_state \<Rightarrow> sup_state" where
  "ss_publish s = s\<lparr>ss_published := ss_published s @ [ss_snapshot s]\<rparr>"

text \<open>A transition of the supervisor: on success the snapshot is updated with the given event and
  published; \<open>Inl\<close> is the error return of the caller.\<close>

definition sup_transition ::
  "gw_config \<Rightarrow> gw_channel_event \<Rightarrow> string \<Rightarrow> bool \<Rightarrow> sup_state \<Rightarrow> sup_state + sup_state" where
  "sup_transition config event text clear s =
     (case gw_channel_transition (ss_runtime s) event (defaults config) (Some no_error) of
        (st, r, e) \<Rightarrow>
          if st \<noteq> GW_OK then Inl (s\<lparr>ss_runtime := r\<rparr>)
          else Inr (ss_publish (s\<lparr>ss_runtime := r,
                 ss_snapshot := gw_channel_snapshot_update_runtime
                   (if clear then gw_channel_snapshot_clear_live_data (ss_snapshot s) else ss_snapshot s) r text\<rparr>)))"

text \<open>The body of the retry loop: \<open>Inl\<close> is the return value, \<open>Inr\<close> goes on with the next round.\<close>

definition supervise_round ::
  "strtod_fn \<Rightarrow> gw_config \<Rightarrow> gw_channel_config \<Rightarrow> gw_supervisor_options \<Rightarrow> attempt_env \<times> backoff_env \<Rightarrow>
   sup_state \<Rightarrow> (int \<times> sup_state + sup_state) option" where
  "supervise_round strtod config channel options env s =
     (case run_worker_attempt strtod config channel options (fst env) s of
        None \<Rightarrow> None
      | Some (attempt, s1) \<Rightarrow>
          let event = attempt_event_string (ar_outcome attempt);
              sn1 = gw_channel_snapshot_clear_process (ss_snapshot s1) (ar_exit_code attempt) event;
              sn2 = (if wp_status (ar_progress attempt) \<noteq> []
                     then gw_channel_snapshot_set_progress sn1 (ar_progress attempt) event else sn1);
              s2 = ss_publish (s1\<lparr>ss_snapshot := sn2\<rparr>)
          in if ar_outcome attempt = ATTEMPT_CLEAN_EXIT \<or> ar_outcome attempt = ATTEMPT_STOP_REQUESTED then
               (case sup_transition config GW_CHANNEL_EVENT_STOP event False s2 of
                  Inl s3 \<Rightarrow> Some (Inl (1, s3))
                | Inr s3 \<Rightarrow> Some (Inl (0, s3)))
             else case sup_transition config GW_CHANNEL_EVENT_FAILURE event True s2 of
               Inl s3 \<Rightarrow> Some (Inl (1, s3))
             | Inr s3 \<Rightarrow>
                 if rt_state (ss_runtime s3) = GW_CHANNEL_FAILED \<and> so_exit_on_retry_exhaustion options then
                   Some (Inl (1, s3))
                 else case wait_for_backoff (snd env) (rt_backoff_sec (ss_runtime s3)) of
                   None \<Rightarrow> None
                 | Some False \<Rightarrow>
                     (case sup_transition config GW_CHANNEL_EVENT_STOP ''stop_requested'' False s3 of
                        Inl s4 \<Rightarrow> Some (Inl (1, s4))
                      | Inr s4 \<Rightarrow> Some (Inl (0, s4)))
                 | Some True \<Rightarrow>
                     (case sup_transition config GW_CHANNEL_EVENT_BACKOFF_ELAPSED ''backoff_elapsed'' False s3 of
                        Inl s4 \<Rightarrow> Some (Inl (1, s4))
                      | Inr s4 \<Rightarrow> Some (Inr s4)))"

fun supervise_loop ::
  "strtod_fn \<Rightarrow> gw_config \<Rightarrow> gw_channel_config \<Rightarrow> gw_supervisor_options \<Rightarrow> (attempt_env \<times> backoff_env) list \<Rightarrow>
   sup_state \<Rightarrow> (int \<times> sup_state) option" where
  "supervise_loop strtod config channel options [] s = None"
| "supervise_loop strtod config channel options (env # envs) s =
     (case supervise_round strtod config channel options env s of
        None \<Rightarrow> None
      | Some (Inl r) \<Rightarrow> Some r
      | Some (Inr s') \<Rightarrow> supervise_loop strtod config channel options envs s')"

definition supervisor_init :: "gw_channel_config \<Rightarrow> os_state \<Rightarrow> sup_state" where
  "supervisor_init channel os =
     \<lparr>ss_runtime = gw_channel_runtime_init (ch_enabled channel), ss_snapshot = gw_channel_snapshot_init channel,
      ss_published = [], ss_os = os, ss_live = 0, ss_log = []\<rparr>"

definition gw_supervisor_run ::
  "strtod_fn \<Rightarrow> gw_config \<Rightarrow> gw_channel_config \<Rightarrow> gw_supervisor_options \<Rightarrow> (attempt_env \<times> backoff_env) list \<Rightarrow>
   os_state \<Rightarrow> (int \<times> sup_state) option" where
  "gw_supervisor_run strtod config channel options envs os =
     (if so_ffmpeg_binary options = [] then Some (2, supervisor_init channel os)
      else case sup_transition config GW_CHANNEL_EVENT_START ''start'' False (supervisor_init channel os) of
        Inl s \<Rightarrow> Some (1, s)
      | Inr s \<Rightarrow> supervise_loop strtod config channel options envs s)"

section \<open>What the observer sees\<close>

text \<open>Between two published snapshots the state stays or follows one edge of the lifecycle diagram,
  other than the administrative ones.\<close>

definition observed_step :: "gw_channel_state \<Rightarrow> gw_channel_state \<Rightarrow> bool" where
  "observed_step a b \<longleftrightarrow>
     a = b \<or> (\<exists>e. e \<noteq> GW_CHANNEL_EVENT_ENABLE \<and> e \<noteq> GW_CHANNEL_EVENT_DISABLE \<and> channel_edge a e b)"

definition observed :: "gw_channel_snapshot list \<Rightarrow> gw_channel_snapshot \<Rightarrow> bool" where
  "observed seen s \<longleftrightarrow>
     seen \<noteq> [] \<and> list_all snapshot_inv seen \<and> successively observed_step (map sn_state seen) \<and>
     sn_state (last seen) = sn_state s \<and> snapshot_inv s"

lemma observed_publish:
  assumes "observed seen s" and "observed_step (sn_state s) (sn_state s')" and "snapshot_inv s'"
  shows "observed (seen @ [s']) s'"
  using assms by (auto simp: observed_def successively_append_iff last_map)

lemma observed_step_refl [simp]: "observed_step a a"
  by (simp add: observed_step_def)

lemma observed_same: "observed seen s \<Longrightarrow> snapshot_inv s' \<Longrightarrow> sn_state s' = sn_state s \<Longrightarrow> observed seen s'"
  by (simp add: observed_def)

lemma observed_edge:
  "channel_edge a e b \<Longrightarrow> e \<noteq> GW_CHANNEL_EVENT_ENABLE \<Longrightarrow> e \<noteq> GW_CHANNEL_EVENT_DISABLE \<Longrightarrow> observed_step a b"
  by (auto simp: observed_step_def)

lemma snapshot_states [simp]:
  "sn_state (gw_channel_snapshot_update_runtime s r e) = rt_state r"
  "sn_state (gw_channel_snapshot_set_process s k pid e) = sn_state s"
  "sn_state (gw_channel_snapshot_clear_process s code e) = sn_state s"
  "sn_state (gw_channel_snapshot_clear_live_data s) = sn_state s"
  "sn_state (gw_channel_snapshot_set_progress s w e) = sn_state s"
  by (simp_all add: snapshot_op_defs Let_def)

text \<open>During an attempt the channel is STARTING until the first record and RUNNING after it, and the
  snapshot shows that state.\<close>

definition attempt_ok :: "gw_config \<Rightarrow> attempt_state \<Rightarrow> bool" where
  "attempt_ok config s \<longleftrightarrow>
     valid_policy (defaults config) \<and> runtime_inv (defaults config) (at_runtime s) \<and>
     rt_state (at_runtime s) = (if at_received s then GW_CHANNEL_RUNNING else GW_CHANNEL_STARTING) \<and>
     sn_state (at_snapshot s) = rt_state (at_runtime s) \<and> observed (at_published s) (at_snapshot s) \<and>
     parser_bounded (at_parser s) \<and> progress_bounded (at_latest s)"

lemma progress_accepted:
  assumes "valid_policy p" and "rt_state r = GW_CHANNEL_STARTING"
  shows "gw_channel_transition r GW_CHANNEL_EVENT_PROGRESS p e =
           (GW_OK, r\<lparr>rt_state := GW_CHANNEL_RUNNING\<rparr>, gw_error_clear e)"
  using assms by (simp add: gw_channel_transition_def valid_policy_def)

lemma stable_accepted:
  assumes "valid_policy p" and "rt_state r = GW_CHANNEL_RUNNING"
  shows "gw_channel_transition r GW_CHANNEL_EVENT_STABLE p e =
           (GW_OK, r\<lparr>rt_consecutive_failures := 0, rt_backoff_sec := 0\<rparr>, gw_error_clear e)"
  using assms by (simp add: gw_channel_transition_def valid_policy_def)

lemma attempt_ok_cong:
  assumes "attempt_ok config s" and "at_runtime s' = at_runtime s" and "at_received s' = at_received s"
    and "at_snapshot s' = at_snapshot s" and "at_published s' = at_published s"
    and "parser_bounded (at_parser s')" and "progress_bounded (at_latest s')"
  shows "attempt_ok config s'"
  using assms by (simp add: attempt_ok_def)

lemma attempt_okD:
  assumes "attempt_ok config s"
  shows "valid_policy (defaults config)" "parser_bounded (at_parser s)" "progress_bounded (at_latest s)"
    "observed (at_published s) (at_snapshot s)" "snapshot_inv (at_snapshot s)"
  using assms by (simp_all add: attempt_ok_def observed_def)

lemma stop_worker_ok:
  "stop_worker a config s = Some (st, s') \<Longrightarrow> attempt_ok config s \<Longrightarrow> attempt_ok config s'"
  by (auto simp: stop_worker_def attempt_ok_def split: option.splits)

lemma read_worker_ok:
  "read_worker a reason stream s = (st, s', bytes, eos) \<Longrightarrow> attempt_ok config s \<Longrightarrow> attempt_ok config s'"
  by (auto simp: read_worker_def attempt_ok_def split: prod.splits)

lemma on_progress_ok:
  assumes "attempt_ok config s" and "on_progress env config s = Some r"
  shows "attempt_ok config (flow_state r)"
proof (cases "pe_progress_time env")
  case None
  with assms show ?thesis by (auto simp: on_progress_def attempt_ok_def)
next
  case (Some now)
  note ok = attempt_okD [OF assms(1)]
  show ?thesis
  proof (cases "at_received s")
    case True
    with assms(1) have st: "rt_state (at_runtime s) = GW_CHANNEL_RUNNING" "sn_state (at_snapshot s) = GW_CHANNEL_RUNNING"
      "runtime_inv (defaults config) (at_runtime s)" by (simp_all add: attempt_ok_def)
    have "observed (at_published s @ [gw_channel_snapshot_set_progress
            (gw_channel_snapshot_update_runtime (at_snapshot s) (at_runtime s) ''progress'') (at_latest s) ''progress''])
          (gw_channel_snapshot_set_progress
            (gw_channel_snapshot_update_runtime (at_snapshot s) (at_runtime s) ''progress'') (at_latest s) ''progress'')"
      by (rule observed_publish [OF ok(4)]) (simp_all add: st observed_step_def ok snapshot_inv_intros)
    with assms(2) Some True ok st show ?thesis
      by (auto simp: on_progress_def publish_def attempt_ok_def)
  next
    case False
    with assms(1) have st: "rt_state (at_runtime s) = GW_CHANNEL_STARTING" "sn_state (at_snapshot s) = GW_CHANNEL_STARTING"
      "runtime_inv (defaults config) (at_runtime s)" by (simp_all add: attempt_ok_def)
    let ?r = "at_runtime s\<lparr>rt_state := GW_CHANNEL_RUNNING\<rparr>"
    have inv: "runtime_inv (defaults config) ?r" using st by (simp add: runtime_inv_def)
    have "observed (at_published s @ [gw_channel_snapshot_set_progress
            (gw_channel_snapshot_update_runtime (at_snapshot s) ?r ''progress'') (at_latest s) ''progress''])
          (gw_channel_snapshot_set_progress
            (gw_channel_snapshot_update_runtime (at_snapshot s) ?r ''progress'') (at_latest s) ''progress'')"
      by (rule observed_publish [OF ok(4)])
        (simp_all add: st ok snapshot_inv_intros observed_edge [of _ GW_CHANNEL_EVENT_PROGRESS])
    with assms(2) Some False ok st inv show ?thesis
      by (auto simp: on_progress_def publish_def attempt_ok_def progress_accepted)
  qed
qed

lemma stage_stdout_ok:
  assumes "attempt_ok config s" and "stage_stdout strtod env config s = Some r"
  shows "attempt_ok config (flow_state r)"
proof (cases "pe_out_ready env")
  case False
  with assms show ?thesis by (auto simp: stage_stdout_def)
next
  case True
  obtain st s1 bytes eos where r1: "read_worker (pe_out env) (pe_reason env) GW_PROCESS_STDOUT s = (st, s1, bytes, eos)"
    by (metis prod_cases4)
  note ok1 = read_worker_ok [OF r1 assms(1)]
  obtain st2 parser latest fin e where
    c: "gw_progress_parser_consume strtod (at_parser s1) bytes (at_latest s1) (at_error s1) = (st2, parser, latest, fin, e)"
    by (metis prod_cases5)
  from consume_bounds [OF attempt_okD(2,3) [OF ok1], of strtod bytes "at_error s1"] c
  have "attempt_ok config (s1\<lparr>at_parser := parser, at_latest := latest, at_error := e\<rparr>)"
    by (intro attempt_ok_cong [OF ok1]) simp_all
  with assms True r1 c ok1 on_progress_ok show ?thesis
    by (auto simp: stage_stdout_def Let_def split: if_splits)
qed

lemma stage_stable_ok:
  assumes "attempt_ok config s" and "stage_stable env config s = Some r"
  shows "attempt_ok config (flow_state r)"
proof (cases "\<not> at_exited s \<and> at_received s \<and> \<not> at_stable s \<and>
         timeout_elapsed (pe_stable_time env) (at_running_since s) (stable_run_sec (defaults config))")
  case False
  with assms show ?thesis by (auto simp: stage_stable_def)
next
  case True
  note ok = attempt_okD [OF assms(1)]
  from True assms(1) have st: "rt_state (at_runtime s) = GW_CHANNEL_RUNNING" "sn_state (at_snapshot s) = GW_CHANNEL_RUNNING"
    by (simp_all add: attempt_ok_def)
  let ?r = "at_runtime s\<lparr>rt_consecutive_failures := 0, rt_backoff_sec := 0\<rparr>"
  have "observed (at_published s @ [gw_channel_snapshot_update_runtime (at_snapshot s) ?r ''stable''])
      (gw_channel_snapshot_update_runtime (at_snapshot s) ?r ''stable'')"
    by (rule observed_publish [OF ok(4)]) (simp_all add: st ok snapshot_inv_intros observed_step_def)
  moreover have "runtime_inv (defaults config) ?r" using st by (simp add: runtime_inv_def)
  ultimately show ?thesis using assms(2) True ok st
    by (auto simp: stage_stable_def publish_def attempt_ok_def stable_accepted)
qed

lemma stage_ok:
  assumes "f \<in> set (pass_stages strtod config channel env)" and "attempt_ok config s" and "f s = Some r"
  shows "attempt_ok config (flow_state r)"
proof -
  note out = stage_stdout_ok [OF assms(2), of strtod env r] and stable = stage_stable_ok [OF assms(2), of env r]
  have stop: "stop_worker a config s = Some (st, s') \<Longrightarrow> attempt_ok config s'" for a st s'
    by (rule stop_worker_ok [OF _ assms(2)])
  have cong: "attempt_ok config s' \<Longrightarrow> attempt_ok config (s'\<lparr>at_outcome := oc, at_exited := ex\<rparr>)"
    "attempt_ok config s' \<Longrightarrow> attempt_ok config (s'\<lparr>at_outcome := oc\<rparr>)"
    "attempt_ok config s' \<Longrightarrow> attempt_ok config (s'\<lparr>at_exited := ex\<rparr>)" 
    "attempt_ok config s' \<Longrightarrow> attempt_ok config (s'\<lparr>at_lines := l\<rparr>)" 
    "attempt_ok config s' \<Longrightarrow> attempt_ok config (s'\<lparr>at_process := p, at_os := os, at_error := e\<rparr>)" for s' oc ex l p os e
    by (simp_all add: attempt_ok_def)
  from assms(1) consider "f = stage_stop env config" | "f = stage_poll env" | "f = stage_stdout strtod env config"
    | "f = stage_stderr env channel" | "f = stage_wait env" | "f = stage_stable env config"
    | "f = stage_timeout env config"
    by (auto simp: pass_stages_def)
  then show ?thesis
  proof cases
    case 1
    with assms(2,3) stop cong(1) show ?thesis by (auto simp: stage_stop_def split: if_splits option.splits)
  next
    case 2
    with assms(2,3) show ?thesis by (auto simp: stage_poll_def split: if_splits)
  next
    case 4
    with assms(2,3) read_worker_ok [OF _ assms(2)] cong(4) show ?thesis
      by (auto simp: stage_stderr_def Let_def split: if_splits prod.splits)
  next
    case 5
    with assms(2,3) cong(3,5) show ?thesis by (auto simp: stage_wait_def Let_def split: if_splits prod.splits)
  next
    case 7
    with assms(2,3) stop cong(1,2) show ?thesis
      by (auto simp: stage_timeout_def Let_def split: if_splits option.splits)
  qed (use assms out stable in auto)
qed

interpretation kept: loop_invariant strtod config channel "attempt_ok config"
  for strtod config channel
  by unfold_locales (rule stage_ok)

section \<open>The rounds of the supervisor\<close>

definition sup_ok :: "gw_config \<Rightarrow> sup_state \<Rightarrow> bool" where
  "sup_ok config s \<longleftrightarrow>
     valid_policy (defaults config) \<and> runtime_inv (defaults config) (ss_runtime s) \<and>
     sn_state (ss_snapshot s) = rt_state (ss_runtime s) \<and> observed (ss_published s) (ss_snapshot s)"

definition positive_pids :: "attempt_env \<Rightarrow> bool" where
  "positive_pids env \<longleftrightarrow> (case sp_spawn (ae_spawn env) of Some pid \<Rightarrow> 0 < pid | None \<Rightarrow> True)"

lemma started_pid: "gw_process_start a p argv os e = (GW_OK, p', os', e') \<Longrightarrow> sp_spawn a = Some (pr_pid p')"
  by (auto simp: gw_process_start_def spawn_child_def Let_def split: if_splits option.splits prod.splits)

lemma attempt_start_ok:
  assumes "sup_ok config s" and "rt_state (ss_runtime s) = GW_CHANNEL_STARTING" and "0 < pr_pid p"
  shows "attempt_ok config (attempt_start p os e now s)"
proof -
  let ?n = "gw_channel_snapshot_set_process (ss_snapshot s) GW_CHANNEL_PROCESS_WORKER (pr_pid p) ''worker_started''"
  from assms(1) have "snapshot_inv (ss_snapshot s)" "observed (ss_published s) (ss_snapshot s)"
    by (simp_all add: sup_ok_def observed_def)
  then have "observed (ss_published s @ [?n]) ?n"
    by (intro observed_publish [of _ "ss_snapshot s"]) (simp_all add: set_process_inv assms(3))
  moreover have "parser_bounded gw_progress_parser_init"
    by (simp add: parser_bounded_def gw_progress_parser_init_def)
  ultimately show ?thesis using assms by (simp add: attempt_start_def publish_def attempt_ok_def sup_ok_def)
qed

lemma attempt_finish_ok:
  assumes "attempt_ok config s" and "attempt_finish cleanup config options s = Some (result, s')"
  shows "attempt_ok config s' \<and> ar_progress result = at_latest s'"
proof -
  obtain s1 where s1: "(if pr_running (at_process s) then map_option snd (stop_worker cleanup config s) else Some s) = Some s1"
    using assms(2) by (auto simp: attempt_finish_def split: option.splits)
  then have "attempt_ok config s1" using stop_worker_ok [OF _ assms(1)] assms(1) by (auto split: if_splits)
  then show ?thesis using assms(2) s1
    by (auto simp: attempt_finish_def Let_def attempt_ok_def split: prod.splits)
qed

lemma attempt_result_ok:
  assumes "sup_ok config s" and "rt_state (ss_runtime s) = GW_CHANNEL_STARTING" and "positive_pids env"
    and "run_worker_attempt strtod config channel options env s = Some (result, s')"
  shows "sup_ok config s' \<and> rt_state (ss_runtime s') \<in> {GW_CHANNEL_STARTING, GW_CHANNEL_RUNNING} \<and>
     progress_bounded (ar_progress result)"
proof -
  obtain st args where b: "gw_pipeline_build (ae_alloc env) channel (mediamtx config) (Some (so_ffmpeg_binary options))
             \<lparr>items = [], count = 0, pl_live = ss_live s, pl_error = Some no_error\<rparr> = (st, args)" by fastforce
  obtain st1 p os1 e1 where g: "gw_process_start (ae_spawn env) gw_process_init
      (map the (takeWhile (\<lambda>x. x \<noteq> None) (items args))) (ss_os s) (pl_error args) = (st1, p, os1, e1)"
    by (metis prod_cases4)
  note run = assms(4) [unfolded run_worker_attempt_def b]
  show ?thesis
  proof (cases "st = GW_OK \<and> st1 = GW_OK \<and> ae_start_time env \<noteq> None")
    case False
    with run g assms(1,2) show ?thesis
      by (auto simp: sup_ok_def Let_def internal_error_result_def split: if_splits option.splits prod.splits)
  next
    case True
    then obtain now where now: "ae_start_time env = Some now" by blast
    from started_pid g True assms(3) have "0 < pr_pid p" by (auto simp: positive_pids_def)
    note start = attempt_start_ok [OF assms(1,2) this]
    from run g now True obtain a1 a2 where a:
      "attempt_loop strtod config channel (ae_passes env) (attempt_start p os1 e1 now s) = Some a1"
      "attempt_finish (ae_cleanup env) config options a1 = Some (result, a2)"
      "ss_runtime s' = at_runtime a2" "ss_snapshot s' = at_snapshot a2" "ss_published s' = at_published a2"
      by (auto simp: Let_def split: option.splits)
    from attempt_finish_ok [OF kept.loop_inv [OF a(1) start] a(2)] a(3-5) show ?thesis
      by (auto simp: attempt_ok_def sup_ok_def)
  qed
qed

text \<open>A transition along an edge of the diagram is accepted, published, and keeps the invariant.\<close>

lemma sup_transition_ok:
  assumes "sup_ok config s" and "channel_edge (rt_state (ss_runtime s)) event t"
    and "event \<noteq> GW_CHANNEL_EVENT_ENABLE" and "event \<noteq> GW_CHANNEL_EVENT_DISABLE"
  shows "\<exists>s'. sup_transition config event tx clear s = Inr s' \<and> sup_ok config s' \<and>
     channel_edge (rt_state (ss_runtime s)) event (rt_state (ss_runtime s'))"
proof -
  let ?p = "defaults config"
  obtain st r e where g: "gw_channel_transition (ss_runtime s) event ?p (Some no_error) = (st, r, e)"
    by (metis prod_cases3)
  from assms(1) have v: "valid_policy ?p" and i: "runtime_inv ?p (ss_runtime s)" and
    o: "observed (ss_published s) (ss_snapshot s)" and n: "sn_state (ss_snapshot s) = rt_state (ss_runtime s)"
    by (simp_all add: sup_ok_def)
  from transition_cases [OF v, of "ss_runtime s" event "Some no_error"] g assms(2)
  have ok: "st = GW_OK" and edge: "channel_edge (rt_state (ss_runtime s)) event (rt_state r)"
    by (auto split: if_splits)
  have ri: "runtime_inv ?p r" using transition_runtime_inv [OF v i, of event "Some no_error"] g by simp
  let ?n = "gw_channel_snapshot_update_runtime
      (if clear then gw_channel_snapshot_clear_live_data (ss_snapshot s) else ss_snapshot s) r tx"
  from o have "snapshot_inv ?n" by (simp add: observed_def snapshot_inv_intros)
  moreover have "observed_step (sn_state (ss_snapshot s)) (sn_state ?n)"
    using observed_edge [OF edge assms(3,4)] n by simp
  ultimately have "observed (ss_published s @ [?n]) ?n" by (intro observed_publish [OF o])
  with v ri have "sup_ok config (ss_publish (s\<lparr>ss_runtime := r, ss_snapshot := ?n\<rparr>))"
    by (simp add: sup_ok_def ss_publish_def)
  moreover have "sup_transition config event tx clear s = Inr (ss_publish (s\<lparr>ss_runtime := r, ss_snapshot := ?n\<rparr>))"
    using g ok by (simp add: sup_transition_def)
  moreover have "rt_state (ss_runtime (ss_publish (s\<lparr>ss_runtime := r, ss_snapshot := ?n\<rparr>))) = rt_state r"
    by (simp add: ss_publish_def)
  ultimately show ?thesis using edge by metis
qed

text \<open>What a return of the supervisor means.\<close>

definition returned_ok :: "gw_config \<Rightarrow> gw_supervisor_options \<Rightarrow> int \<Rightarrow> sup_state \<Rightarrow> bool" where
  "returned_ok config options rc s \<longleftrightarrow>
     rc = 0 \<and> rt_state (ss_runtime s) = GW_CHANNEL_STOPPED \<or>
     rc = 1 \<and> rt_state (ss_runtime s) = GW_CHANNEL_FAILED \<and> so_exit_on_retry_exhaustion options"

lemma stop_returns:
  assumes "sup_ok config s" and "rt_state (ss_runtime s) \<noteq> GW_CHANNEL_DISABLED"
  shows "\<exists>s'. sup_transition config GW_CHANNEL_EVENT_STOP tx clear s = Inr s' \<and> sup_ok config s' \<and>
     rt_state (ss_runtime s') = GW_CHANNEL_STOPPED"
  using sup_transition_ok [OF assms(1), of GW_CHANNEL_EVENT_STOP GW_CHANNEL_STOPPED tx clear] assms(2) by auto

definition reported :: "worker_attempt_result \<Rightarrow> sup_state \<Rightarrow> sup_state" where
  "reported a s =
     (let event = attempt_event_string (ar_outcome a);
          sn = gw_channel_snapshot_clear_process (ss_snapshot s) (ar_exit_code a) event
      in ss_publish (s\<lparr>ss_snapshot := (if wp_status (ar_progress a) \<noteq> []
           then gw_channel_snapshot_set_progress sn (ar_progress a) event else sn)\<rparr>))"

lemma reported_ok:
  assumes "sup_ok config s" and "progress_bounded (ar_progress a)"
  shows "sup_ok config (reported a s) \<and> ss_runtime (reported a s) = ss_runtime s"
proof -
  let ?e = "attempt_event_string (ar_outcome a)"
  let ?m = "gw_channel_snapshot_clear_process (ss_snapshot s) (ar_exit_code a) ?e"
  let ?n = "if wp_status (ar_progress a) \<noteq> [] then gw_channel_snapshot_set_progress ?m (ar_progress a) ?e else ?m"
  have "snapshot_inv ?n" using assms by (simp add: sup_ok_def observed_def snapshot_inv_intros)
  then have "observed (ss_published s @ [?n]) ?n"
    using assms(1) by (intro observed_publish [of _ "ss_snapshot s"]) (simp_all add: sup_ok_def)
  then show ?thesis using assms(1) by (simp add: sup_ok_def ss_publish_def reported_def Let_def)
qed

text \<open>After a failed attempt: the channel waits, and either stops or starts again.\<close>

lemma failed_round_ok:
  assumes "sup_ok config s" and "rt_state (ss_runtime s) \<in> {GW_CHANNEL_STARTING, GW_CHANNEL_RUNNING}"
  shows "\<exists>s3 s4 s5. sup_transition config GW_CHANNEL_EVENT_FAILURE tx True s = Inr s3 \<and> sup_ok config s3 \<and>
     rt_state (ss_runtime s3) \<in> {GW_CHANNEL_BACKOFF, GW_CHANNEL_FAILED} \<and>
     sup_transition config GW_CHANNEL_EVENT_STOP ''stop_requested'' False s3 = Inr s4 \<and> sup_ok config s4 \<and>
     rt_state (ss_runtime s4) = GW_CHANNEL_STOPPED \<and>
     sup_transition config GW_CHANNEL_EVENT_BACKOFF_ELAPSED ''backoff_elapsed'' False s3 = Inr s5 \<and> sup_ok config s5 \<and>
     rt_state (ss_runtime s5) = GW_CHANNEL_STARTING"
proof -
  have "channel_edge (rt_state (ss_runtime s)) GW_CHANNEL_EVENT_FAILURE GW_CHANNEL_BACKOFF" using assms(2) by auto
  from sup_transition_ok [OF assms(1) this, of tx True] obtain s3 where
    s3: "sup_transition config GW_CHANNEL_EVENT_FAILURE tx True s = Inr s3" and ok3: "sup_ok config s3"
    and "channel_edge (rt_state (ss_runtime s)) GW_CHANNEL_EVENT_FAILURE (rt_state (ss_runtime s3))" by auto
  then have st3: "rt_state (ss_runtime s3) \<in> {GW_CHANNEL_BACKOFF, GW_CHANNEL_FAILED}" by auto
  then have "channel_edge (rt_state (ss_runtime s3)) GW_CHANNEL_EVENT_BACKOFF_ELAPSED GW_CHANNEL_STARTING" by auto
  from sup_transition_ok [OF ok3 this, of "''backoff_elapsed''" False] obtain s5 where
    "sup_transition config GW_CHANNEL_EVENT_BACKOFF_ELAPSED ''backoff_elapsed'' False s3 = Inr s5"
    "sup_ok config s5" "rt_state (ss_runtime s5) = GW_CHANNEL_STARTING" by auto
  moreover have "rt_state (ss_runtime s3) \<noteq> GW_CHANNEL_DISABLED" using st3 by auto
  from stop_returns [OF ok3 this] obtain s4 where
    "sup_transition config GW_CHANNEL_EVENT_STOP ''stop_requested'' False s3 = Inr s4"
    "sup_ok config s4" "rt_state (ss_runtime s4) = GW_CHANNEL_STOPPED" by blast
  ultimately show ?thesis using s3 ok3 st3 by blast
qed

lemma backoff_positive:
  assumes "sup_ok config s" and "rt_state (ss_runtime s) \<in> {GW_CHANNEL_BACKOFF, GW_CHANNEL_FAILED}"
  shows "1 \<le> rt_backoff_sec (ss_runtime s)"
proof -
  have "(1::int) \<le> 2 ^ n" for n by simp
  with assms show ?thesis by (auto simp: sup_ok_def runtime_inv_def valid_policy_def)
qed

lemma supervise_round_ok:
  assumes "sup_ok config s" and "rt_state (ss_runtime s) = GW_CHANNEL_STARTING" and "positive_pids (fst env)"
    and "supervise_round strtod config channel options env s = Some r"
  shows "case r of Inl (rc, s') \<Rightarrow> sup_ok config s' \<and> returned_ok config options rc s'
       | Inr s' \<Rightarrow> sup_ok config s' \<and> rt_state (ss_runtime s') = GW_CHANNEL_STARTING"
proof -
  obtain a s1 where a: "run_worker_attempt strtod config channel options (fst env) s = Some (a, s1)"
    using assms(4) by (auto simp: supervise_round_def split: option.splits)
  note ok1 = attempt_result_ok [OF assms(1-3) a]
  let ?ev = "attempt_event_string (ar_outcome a)"
  have ok2: "sup_ok config (reported a s1)"
    and st2: "rt_state (ss_runtime (reported a s1)) \<in> {GW_CHANNEL_STARTING, GW_CHANNEL_RUNNING}"
    using ok1 reported_ok [of config s1 a] by auto
  show ?thesis
  proof (cases "ar_outcome a = ATTEMPT_CLEAN_EXIT \<or> ar_outcome a = ATTEMPT_STOP_REQUESTED")
    case True
    have "rt_state (ss_runtime (reported a s1)) \<noteq> GW_CHANNEL_DISABLED" using st2 by auto
    from stop_returns [OF ok2 this] obtain s3 where
      "sup_transition config GW_CHANNEL_EVENT_STOP ?ev False (reported a s1) = Inr s3" "sup_ok config s3"
      "rt_state (ss_runtime s3) = GW_CHANNEL_STOPPED" by blast
    with assms(4) a True show ?thesis
      by (auto simp: supervise_round_def reported_def Let_def returned_ok_def)
  next
    case False
    from failed_round_ok [OF ok2 st2, of ?ev] obtain s3 s4 s5 where
      "sup_transition config GW_CHANNEL_EVENT_FAILURE ?ev True (reported a s1) = Inr s3" "sup_ok config s3"
      "sup_transition config GW_CHANNEL_EVENT_STOP ''stop_requested'' False s3 = Inr s4" "sup_ok config s4"
      "rt_state (ss_runtime s4) = GW_CHANNEL_STOPPED"
      "sup_transition config GW_CHANNEL_EVENT_BACKOFF_ELAPSED ''backoff_elapsed'' False s3 = Inr s5" "sup_ok config s5"
      "rt_state (ss_runtime s5) = GW_CHANNEL_STARTING" by blast
    with assms(4) a False show ?thesis
      by (auto simp: supervise_round_def reported_def Let_def returned_ok_def split: if_splits option.splits bool.splits)
  qed
qed

text \<open>Every state the supervisor is in between two rounds, and the one it returns with.\<close>

inductive supervision ::
  "strtod_fn \<Rightarrow> gw_config \<Rightarrow> gw_channel_config \<Rightarrow> gw_supervisor_options \<Rightarrow> os_state \<Rightarrow> int option \<Rightarrow> sup_state \<Rightarrow> bool"
  for strtod config channel options os where
  started: "sup_transition config GW_CHANNEL_EVENT_START ''start'' False (supervisor_init channel os) = Inr s \<Longrightarrow>
    supervision strtod config channel options os None s"
| retried: "supervision strtod config channel options os None s \<Longrightarrow> positive_pids (fst env) \<Longrightarrow>
    supervise_round strtod config channel options env s = Some (Inr s') \<Longrightarrow>
    supervision strtod config channel options os None s'"
| returned: "supervision strtod config channel options os None s \<Longrightarrow> positive_pids (fst env) \<Longrightarrow>
    supervise_round strtod config channel options env s = Some (Inl (rc, s')) \<Longrightarrow>
    supervision strtod config channel options os (Some rc) s'"

lemma start_ok:
  assumes "valid_policy (defaults config)" and "ch_enabled channel"
  shows "\<exists>s. sup_transition config GW_CHANNEL_EVENT_START ''start'' False (supervisor_init channel os) = Inr s \<and>
     sup_ok config s \<and> rt_state (ss_runtime s) = GW_CHANNEL_STARTING"
proof -
  let ?r = "gw_channel_runtime_init True\<lparr>rt_state := GW_CHANNEL_STARTING\<rparr>"
  have "gw_channel_transition (gw_channel_runtime_init True) GW_CHANNEL_EVENT_START (defaults config) (Some no_error) =
      (GW_OK, ?r, gw_error_clear (Some no_error))"
    using assms(1) by (simp add: gw_channel_transition_def gw_channel_runtime_init_def valid_policy_def)
  moreover have "runtime_inv (defaults config) ?r" by (simp add: runtime_inv_def gw_channel_runtime_init_def)
  moreover have "snapshot_inv (gw_channel_snapshot_update_runtime (gw_channel_snapshot_init channel) ?r ''start'')"
    by (simp add: snapshot_inv_intros snapshot_init_inv)
  ultimately show ?thesis
    using assms by (simp add: sup_transition_def supervisor_init_def ss_publish_def sup_ok_def observed_def)
qed

lemma supervision_ok:
  assumes "supervision strtod config channel options os rc s" and "valid_policy (defaults config)" and "ch_enabled channel"
  shows "sup_ok config s \<and>
     (case rc of None \<Rightarrow> rt_state (ss_runtime s) = GW_CHANNEL_STARTING | Some c \<Rightarrow> returned_ok config options c s)"
  using assms(1)
proof (induction rule: supervision.induct)
  case (started s)
  with start_ok [OF assms(2,3), of os] show ?case by auto
next
  case (retried s env s')
  from supervise_round_ok [of config s env strtod channel options "Inr s'"] retried show ?case by simp
next
  case (returned s env rc s')
  from supervise_round_ok [of config s env strtod channel options "Inl (rc, s')"] returned show ?case by simp
qed

lemma supervise_loop_supervision:
  assumes "supervise_loop strtod config channel options envs s = Some (rc, s')"
    and "supervision strtod config channel options os None s" and "list_all (positive_pids \<circ> fst) envs"
  shows "supervision strtod config channel options os (Some rc) s'"
  using assms
proof (induction envs arbitrary: s)
  case Nil
  then show ?case by simp
next
  case (Cons env envs)
  then obtain r where r: "supervise_round strtod config channel options env s = Some r"
    by (auto split: option.splits)
  show ?case
  proof (cases r)
    case (Inl x)
    with Cons.prems r show ?thesis by (auto intro: supervision.returned)
  next
    case (Inr s1)
    with Cons.prems r have "supervision strtod config channel options os None s1"
      by (auto intro: supervision.retried)
    with Cons r Inr show ?thesis by simp
  qed
qed

text \<open>C3: the supervisor follows the lifecycle. In every state it is in between two rounds, and in
  the one it returns with, the published snapshots are consistent (a worker is named by a positive
  pid, a live one has no exit code, no progress without the flag, texts and numbers within bounds),
  each state follows the one before along the diagram, the last one shows the runtime's state,
  and the runtime's fields fit that state; between rounds the channel is STARTING.\<close>

theorem supervision_observed:
  assumes "supervision strtod config channel options os rc s" and "valid_policy (defaults config)"
    and "ch_enabled channel"
  shows "list_all snapshot_inv (ss_published s) \<and> successively observed_step (map sn_state (ss_published s)) \<and>
     ss_published s \<noteq> [] \<and> sn_state (last (ss_published s)) = rt_state (ss_runtime s) \<and>
     runtime_inv (defaults config) (ss_runtime s) \<and>
     (rc = None \<longrightarrow> rt_state (ss_runtime s) = GW_CHANNEL_STARTING)"
  using supervision_ok [OF assms] by (auto simp: sup_ok_def observed_def)

text \<open>C26: the state machine accepts every event the supervisor sends, so the return codes mean what
  they should: 2 for a missing executable name, before anything happens; for a disabled channel 1 at
  once; otherwise 0 exactly when the channel was stopped, and 1 only when retries are exhausted and
  the caller asked to leave then.\<close>

theorem supervisor_return_codes:
  assumes "gw_supervisor_run strtod config channel options envs os = Some (rc, s)"
    and "valid_policy (defaults config)" and "list_all (positive_pids \<circ> fst) envs"
  shows "if so_ffmpeg_binary options = [] then rc = 2 \<and> s = supervisor_init channel os
     else if \<not> ch_enabled channel then rc = 1 \<and> s = supervisor_init channel os
     else (rc = 0 \<and> rt_state (ss_runtime s) = GW_CHANNEL_STOPPED) \<or>
          (rc = 1 \<and> rt_state (ss_runtime s) = GW_CHANNEL_FAILED \<and> so_exit_on_retry_exhaustion options \<and>
           max_retries (defaults config) < uint (rt_consecutive_failures (ss_runtime s)))"
proof (cases "so_ffmpeg_binary options = [] \<or> \<not> ch_enabled channel")
  case True
  with assms(1,2) show ?thesis
    by (auto simp: gw_supervisor_run_def sup_transition_def supervisor_init_def gw_channel_runtime_init_def
        gw_channel_transition_def reject_transition_def valid_policy_def)
next
  case False
  then obtain s1 where s1: "sup_transition config GW_CHANNEL_EVENT_START ''start'' False (supervisor_init channel os) = Inr s1"
    using start_ok [OF assms(2)] by blast
  with assms(1) False have "supervise_loop strtod config channel options envs s1 = Some (rc, s)"
    by (simp add: gw_supervisor_run_def)
  from supervise_loop_supervision [OF this supervision.started [OF s1] assms(3)]
  have "supervision strtod config channel options os (Some rc) s" .
  from supervision_ok [OF this assms(2)] False show ?thesis
    by (auto simp: returned_ok_def sup_ok_def runtime_inv_def)
qed

section \<open>Waiting\<close>

lemma timeout_elapsed_None [simp]: "\<not> timeout_elapsed None t sec"
  by (simp add: timeout_elapsed_def)

lemma timeout_elapsed_ns:
  assumes "normal_ts n" and "normal_ts t"
  shows "timeout_elapsed (Some n) t sec \<longleftrightarrow> ns t + sec * 1000000000 \<le> ns n"
  using assms by (auto simp: timeout_elapsed_def ns_def normal_ts_def Let_def)

lemma backoff_wait_cases:
  "backoff_wait t sec passes = Some b \<Longrightarrow>
   (if b then \<exists>(now, q) \<in> set passes. timeout_elapsed now t sec
    else \<exists>(now, req, fl) \<in> set passes. stop_signal_value req fl \<noteq> 0 \<and> \<not> timeout_elapsed now t sec)"
  by (induction t sec passes rule: backoff_wait.induct) (auto split: if_splits)

text \<open>The backoff is waited out or cut short, nothing else. If the wait reports that the delay has
  passed, the monotonic clock was read at least that many seconds after its start; if it reports
  otherwise, a stop was requested before the delay had passed, or the clock could not be read at
  the start. And it does end: as soon as one reading shows the delay passed, or one pass finds a
  stop request, there is an answer.\<close>

theorem backoff_wait_exact:
  assumes "\<forall>(now, q) \<in> set (be_passes env). \<forall>n. now = Some n \<longrightarrow> normal_ts n"
    and "\<forall>t. be_start env = Some t \<longrightarrow> normal_ts t"
  shows "(wait_for_backoff env sec = Some True \<longrightarrow>
            (\<exists>t n q. be_start env = Some t \<and> (Some n, q) \<in> set (be_passes env) \<and> ns t + sec * 1000000000 \<le> ns n))
    \<and> (wait_for_backoff env sec = Some False \<longrightarrow>
            be_start env = None \<or> (\<exists>now req fl. (now, req, fl) \<in> set (be_passes env) \<and> stop_signal_value req fl \<noteq> 0))
    \<and> (wait_for_backoff env sec = None \<longrightarrow>
            (\<exists>t. be_start env = Some t \<and> (\<forall>(now, req, fl) \<in> set (be_passes env).
               stop_signal_value req fl = 0 \<and> (\<forall>n. now = Some n \<longrightarrow> ns n < ns t + sec * 1000000000))))"
proof (cases "be_start env")
  case None
  then show ?thesis by (simp add: wait_for_backoff_def)
next
  case (Some t)
  then have w: "wait_for_backoff env sec = backoff_wait t sec (be_passes env)" and t: "normal_ts t"
    using assms(2) by (simp_all add: wait_for_backoff_def)
  have el: "timeout_elapsed now t sec \<longleftrightarrow> (\<exists>n. now = Some n \<and> ns t + sec * 1000000000 \<le> ns n)"
    if "(now, q) \<in> set (be_passes env)" for now q
  proof (cases now)
    case (Some n)
    with that assms(1) have "normal_ts n" by auto
    with Some t show ?thesis by (simp add: timeout_elapsed_ns)
  qed simp
  have none: "backoff_wait t sec ps = None \<Longrightarrow>
      \<forall>(now, req, fl) \<in> set ps. stop_signal_value req fl = 0 \<and> \<not> timeout_elapsed now t sec" for ps
    by (induction ps) (auto split: if_splits)
  have "wait_for_backoff env sec = None \<Longrightarrow> \<forall>(now, req, fl) \<in> set (be_passes env).
      stop_signal_value req fl = 0 \<and> (\<forall>n. now = Some n \<longrightarrow> ns n < ns t + sec * 1000000000)"
    using none [of "be_passes env"] el w by fastforce
  moreover have "wait_for_backoff env sec = Some True \<Longrightarrow> \<exists>n q. (Some n, q) \<in> set (be_passes env) \<and> ns t + sec * 1000000000 \<le> ns n"
    using backoff_wait_cases [of t sec "be_passes env" True] el w by fastforce
  moreover have "wait_for_backoff env sec = Some False \<Longrightarrow> \<exists>now req fl. (now, req, fl) \<in> set (be_passes env) \<and> stop_signal_value req fl \<noteq> 0"
    using backoff_wait_cases [of t sec "be_passes env" False] w by fastforce
  ultimately show ?thesis using Some by simp
qed

section \<open>A concrete run\<close>

text \<open>The attempt that times out, then a stop while the supervisor waits.\<close>

definition stopped_backoff :: backoff_env where
  "stopped_backoff = \<lparr>be_start = Some \<lparr>tv_sec = 200, tv_nsec = 0\<rparr>,
     be_passes = [(Some \<lparr>tv_sec = 200, tv_nsec = 5\<rparr>, None, Some 0), (Some \<lparr>tv_sec = 200, tv_nsec = 100000000\<rparr>, None, Some 15)]\<rparr>"

lemma camera_start:
  "sup_transition camera_config GW_CHANNEL_EVENT_START ''start'' False (supervisor_init sample_channel quiet_os) = Inr starting_state"
  by (simp add: sup_transition_def supervisor_init_def sample_channel_def gw_channel_transition_def
      gw_channel_runtime_init_def default_policy_def fresh_start_def starting_state_def ss_publish_def)

lemma silent_positive: "positive_pids silent_attempt"
  by (simp add: positive_pids_def silent_attempt_def good_spawn_def)

lemma silent_supervision:
  "\<exists>s. supervise_round no_strtod camera_config sample_channel gw_supervisor_options_init (silent_attempt, stopped_backoff)
     starting_state = Some (Inl (0, s))"
proof -
  have en: "ch_enabled sample_channel" by (simp add: sample_channel_def)
  obtain a s1 where a: "run_worker_attempt no_strtod camera_config sample_channel gw_supervisor_options_init
      silent_attempt starting_state = Some (a, s1)" "ar_outcome a = ATTEMPT_STARTUP_TIMEOUT"
    using silent_attempt_result by fastforce
  have "sup_ok camera_config starting_state" "rt_state (ss_runtime starting_state) = GW_CHANNEL_STARTING"
    using start_ok [of camera_config sample_channel quiet_os] camera_start en by auto
  from attempt_result_ok [OF this silent_positive a(1)]
  have "sup_ok camera_config (reported a s1)"
    "rt_state (ss_runtime (reported a s1)) \<in> {GW_CHANNEL_STARTING, GW_CHANNEL_RUNNING}"
    using reported_ok [of camera_config s1 a] by auto
  from failed_round_ok [OF this, of "attempt_event_string ATTEMPT_STARTUP_TIMEOUT"] obtain s3 s4 where
    "sup_transition camera_config GW_CHANNEL_EVENT_FAILURE (attempt_event_string ATTEMPT_STARTUP_TIMEOUT) True
       (reported a s1) = Inr s3" and s3: "sup_ok camera_config s3"
    "rt_state (ss_runtime s3) \<in> {GW_CHANNEL_BACKOFF, GW_CHANNEL_FAILED}" and
    "sup_transition camera_config GW_CHANNEL_EVENT_STOP ''stop_requested'' False s3 = Inr s4" by blast
  moreover have "wait_for_backoff stopped_backoff sec = Some False" if "1 \<le> sec" for sec
    using that by (simp add: wait_for_backoff_def stopped_backoff_def timeout_elapsed_def stop_signal_value_def)
  moreover have "1 \<le> rt_backoff_sec (ss_runtime s3)" by (rule backoff_positive [OF s3])
  ultimately show ?thesis using a
    by (auto simp: supervise_round_def reported_def Let_def gw_supervisor_options_init_def)
qed

theorem supervision_observed_witness:
  "\<exists>s. supervision no_strtod camera_config sample_channel gw_supervisor_options_init quiet_os (Some 0) s \<and>
     list_all snapshot_inv (ss_published s) \<and> successively observed_step (map sn_state (ss_published s))"
proof -
  have en: "ch_enabled sample_channel" by (simp add: sample_channel_def)
  obtain s where "supervise_round no_strtod camera_config sample_channel gw_supervisor_options_init
      (silent_attempt, stopped_backoff) starting_state = Some (Inl (0, s))" using silent_supervision by blast
  from supervision.returned [OF supervision.started [OF camera_start] _ this] silent_positive
  have "supervision no_strtod camera_config sample_channel gw_supervisor_options_init quiet_os (Some 0) s" by simp
  with supervision_observed [OF this _ en] show ?thesis by auto
qed

theorem supervisor_return_codes_witness:
  "\<exists>s. gw_supervisor_run no_strtod camera_config sample_channel gw_supervisor_options_init
       [(silent_attempt, stopped_backoff)] quiet_os = Some (0, s) \<and> rt_state (ss_runtime s) = GW_CHANNEL_STOPPED"
proof -
  obtain s where "supervise_round no_strtod camera_config sample_channel gw_supervisor_options_init
      (silent_attempt, stopped_backoff) starting_state = Some (Inl (0, s))" using silent_supervision by blast
  then have run: "gw_supervisor_run no_strtod camera_config sample_channel gw_supervisor_options_init
      [(silent_attempt, stopped_backoff)] quiet_os = Some (0, s)"
    by (simp add: gw_supervisor_run_def camera_start gw_supervisor_options_init_def)
  have "list_all (positive_pids \<circ> fst) [(silent_attempt, stopped_backoff)]" by (simp add: silent_positive)
  from supervisor_return_codes [OF run _ this] have "rt_state (ss_runtime s) = GW_CHANNEL_STOPPED"
    by (simp add: gw_supervisor_options_init_def sample_channel_def)
  with run show ?thesis by blast
qed

theorem backoff_wait_exact_witness:
  "wait_for_backoff stopped_backoff 4 = Some False \<and>
   (\<exists>now req fl. (now, req, fl) \<in> set (be_passes stopped_backoff) \<and> stop_signal_value req fl \<noteq> 0)"
proof -
  have w: "wait_for_backoff stopped_backoff 4 = Some False"
    by (simp add: wait_for_backoff_def stopped_backoff_def timeout_elapsed_def stop_signal_value_def)
  have "\<forall>(now, q) \<in> set (be_passes stopped_backoff). \<forall>n. now = Some n \<longrightarrow> normal_ts n"
    "\<forall>t. be_start stopped_backoff = Some t \<longrightarrow> normal_ts t" "be_start stopped_backoff \<noteq> None"
    by (simp_all add: stopped_backoff_def normal_ts_def)
  with backoff_wait_exact [of stopped_backoff 4] w show ?thesis by blast
qed

end
