(* ===== verification/Config_Load.thy ===== *)
theory Config_Load
  imports Config_Validate
begin

text \<open>
  Loading a configuration (\<^verbatim>\<open>src/config/config.c\<close>): defaults, the translation of a YAML
  document and the whole of \<open>gw_config_load_file\<close>. The parsed document of libyaml is a parameter:
  its root node and the function from node ids to nodes, as the code reads them through
  \<^verbatim>\<open>yaml_document_get_root_node\<close> and \<^verbatim>\<open>yaml_document_get_node\<close>. What the file system and
  the parser return is the argument \<open>load_input\<close>. Shown: whatever the document, a load that
  returns \<open>GW_OK\<close> delivers a configuration that is within every buffer and satisfies the policy.
\<close>

section \<open>The YAML document\<close>

datatype yaml_node =
    YAML_NO_NODE
  | YAML_SCALAR_NODE string
  | YAML_SEQUENCE_NODE "int list"
  | YAML_MAPPING_NODE "(int \<times> int) list"

record yaml_document =
  yd_root :: "yaml_node option"
  yd_node :: "int \<Rightarrow> yaml_node option"

fun is_mapping :: "yaml_node option \<Rightarrow> bool" where
  "is_mapping (Some (YAML_MAPPING_NODE ps)) = True"
| "is_mapping n = False"

section \<open>Readers\<close>

fun find_pair :: "yaml_document \<Rightarrow> (int \<times> int) list \<Rightarrow> string \<Rightarrow> yaml_node option" where
  "find_pair doc [] key = None"
| "find_pair doc ((k, v) # pairs) key =
     (case yd_node doc k of
        Some (YAML_SCALAR_NODE s) \<Rightarrow>
          if cstr s = key then yd_node doc v else find_pair doc pairs key
      | _ \<Rightarrow> find_pair doc pairs key)"

definition mapping_value :: "yaml_document \<Rightarrow> yaml_node option \<Rightarrow> string \<Rightarrow> yaml_node option" where
  "mapping_value doc mapping key =
     (case mapping of Some (YAML_MAPPING_NODE pairs) \<Rightarrow> find_pair doc pairs key | _ \<Rightarrow> None)"

definition scalar_text :: "yaml_node \<Rightarrow> string option" where
  "scalar_text node = (case node of YAML_SCALAR_NODE s \<Rightarrow> Some (cstr s) | _ \<Rightarrow> None)"

text \<open>A reader gets the destination's value and the error object and returns the status and both.\<close>

type_synonym 'v reader = "'v \<Rightarrow> gw_error option \<Rightarrow> gw_status \<times> 'v \<times> gw_error option"

definition read_string ::
  "yaml_document \<Rightarrow> yaml_node option \<Rightarrow> string \<Rightarrow> nat \<Rightarrow> bool \<Rightarrow> string reader" where
  "read_string doc mapping key capacity required destination error =
     (case mapping_value doc mapping key of
        None \<Rightarrow>
          if required then
            (GW_ERR_PARSE, destination, gw_error_set error GW_ERR_PARSE (''missing required field '' @ key))
          else (GW_OK, destination, error)
      | Some node \<Rightarrow>
          (case scalar_text node of
             None \<Rightarrow> (GW_ERR_PARSE, destination, gw_error_set error GW_ERR_PARSE (key @ '' must be a scalar string''))
           | Some v \<Rightarrow>
               (case copy_text destination capacity v of (status, d) \<Rightarrow>
                  (status, d,
                   if status = GW_ERR_ARGUMENT then
                     gw_error_set error status (''invalid destination for '' @ key)
                   else if status = GW_ERR_OVERFLOW then
                     gw_error_set error status (key @ '' exceeds '' @ dec_nat (capacity - 1) @ '' bytes'')
                   else error))))"

definition read_int :: "yaml_document \<Rightarrow> yaml_node option \<Rightarrow> string \<Rightarrow> bool \<Rightarrow> int reader" where
  "read_int doc mapping key required destination error =
     (case mapping_value doc mapping key of
        None \<Rightarrow>
          if required then
            (GW_ERR_PARSE, destination, gw_error_set error GW_ERR_PARSE (''missing required field '' @ key))
          else (GW_OK, destination, error)
      | Some node \<Rightarrow>
          (case scalar_text node of
             None \<Rightarrow> (GW_ERR_PARSE, destination, gw_error_set error GW_ERR_PARSE (key @ '' must be an integer''))
           | Some v \<Rightarrow>
               let r = strtol v in
               if conv_erange r \<or> conv_none r \<or> conv_end r \<noteq> [] \<or>
                  conv_value r < INT_MIN \<or> conv_value r > INT_MAX then
                 (GW_ERR_PARSE, destination, gw_error_set error GW_ERR_PARSE (key @ '' is not a valid integer''))
               else (GW_OK, conv_value r, error)))"

definition read_bool :: "yaml_document \<Rightarrow> yaml_node option \<Rightarrow> string \<Rightarrow> bool reader" where
  "read_bool doc mapping key destination error =
     (case mapping_value doc mapping key of
        None \<Rightarrow> (GW_OK, destination, error)
      | Some node \<Rightarrow>
          (case scalar_text node of
             None \<Rightarrow> (GW_ERR_PARSE, destination, gw_error_set error GW_ERR_PARSE (key @ '' must be true or false''))
           | Some v \<Rightarrow>
               if v = ''true'' \<or> v = ''True'' \<or> v = ''TRUE'' then (GW_OK, True, error)
               else if v = ''false'' \<or> v = ''False'' \<or> v = ''FALSE'' then (GW_OK, False, error)
               else (GW_ERR_PARSE, destination,
                     gw_error_set error GW_ERR_PARSE (key @ '' must be true or false''))))"

text \<open>A port field: read as an int starting from the current value, checked, then narrowed.\<close>

definition read_port ::
  "yaml_document \<Rightarrow> yaml_node option \<Rightarrow> string \<Rightarrow> int \<Rightarrow> string \<Rightarrow> u16 reader" where
  "read_port doc mapping key least message destination error =
     (case read_int doc mapping key False (uint destination) error of (status, port, e) \<Rightarrow>
        if status \<noteq> GW_OK then (status, destination, e)
        else if port < least \<or> port > 65535 then
          (GW_ERR_VALIDATION, destination, gw_error_set e GW_ERR_VALIDATION message)
        else (GW_OK, of_int port, e))"

text \<open>A reader applied to one field of a larger structure.\<close>

definition at_field ::
  "('c \<Rightarrow> 'v) \<Rightarrow> (('v \<Rightarrow> 'v) \<Rightarrow> 'c \<Rightarrow> 'c) \<Rightarrow> 'v reader \<Rightarrow>
   'c \<times> gw_error option \<Rightarrow> gw_status \<times> 'c \<times> gw_error option" where
  "at_field get upd reader s =
     (case s of (c, e) \<Rightarrow> case reader (get c) e of (st, v, e') \<Rightarrow> (st, upd (\<lambda>_. v) c, e'))"

section \<open>Defaults\<close>

definition gw_config_init :: gw_config where
  "gw_config_init =
     \<lparr>server = \<lparr>srv_enabled = True, srv_listen = ''127.0.0.1'', srv_port = 9080\<rparr>,
      mediamtx = \<lparr>publish_base_url = ''rtsp://127.0.0.1:8554'',
        recording = \<lparr>rec_enabled = False, rec_directory = ''/var/lib/rk-media-gateway/recordings'',
          rec_format = ''fmp4'', part_duration_sec = 1, max_part_size_mb = 50,
          segment_duration_sec = 3600, delete_after_sec = 86400, min_free_mb = 1024,
          playback_listen = ''127.0.0.1'', playback_port = 9996\<rparr>\<rparr>,
      defaults = \<lparr>startup_timeout_sec = 15, progress_timeout_sec = 10, stable_run_sec = 60,
        stop_timeout_sec = 5, max_retries = 10, max_backoff_sec = 30\<rparr>,
      channels = []\<rparr>"

definition channel_init :: gw_channel_config where
  "channel_init =
     \<lparr>ch_id = [], ch_enabled = True,
      ch_input = \<lparr>in_type = ''rtsp'', in_url = [], in_transport = ''tcp''\<rparr>,
      ch_video = \<lparr>decoder = ''h264_rkmpp'', width = 1280, height = 720, encoder = ''h264_rkmpp'',
                 bitrate_kbps = 4000, fps = 25\<rparr>,
      ch_output = \<lparr>out_path = []\<rparr>\<rparr>"

section \<open>One channel\<close>

text \<open>\<open>gw_expand_environment\<close> into a local buffer, then \<open>copy_text\<close> back into the URL.\<close>

definition expand_url :: "env_fn \<Rightarrow> string reader" where
  "expand_url getenv url error =
     (case gw_expand_environment getenv url GW_URL_CAP error of
        (status, expanded, e) \<Rightarrow>
          if status \<noteq> GW_OK then (status, url, e)
          else case copy_text url GW_URL_CAP (the expanded) of
            (status', u) \<Rightarrow>
              (status', u,
               if status' \<noteq> GW_OK then gw_error_set e status' ''cannot store expanded input URL'' else e))"

type_synonym 'c load_step = "'c \<times> gw_error option \<Rightarrow> gw_status \<times> 'c \<times> gw_error option"

definition require :: "bool \<Rightarrow> string \<Rightarrow> 'c load_step" where
  "require ok message s =
     (case s of (c, e) \<Rightarrow>
        if ok then (GW_OK, c, e) else (GW_ERR_PARSE, c, gw_error_set e GW_ERR_PARSE message))"

definition channel_steps ::
  "env_fn \<Rightarrow> yaml_document \<Rightarrow> yaml_node option \<Rightarrow> nat \<Rightarrow> gw_channel_config load_step list" where
  "channel_steps getenv doc node index =
     (let input = mapping_value doc node ''input'';
          video = mapping_value doc node ''video'';
          output = mapping_value doc node ''output''
      in
     [at_field ch_id ch_id_update (read_string doc node ''id'' GW_ID_CAP True),
      at_field ch_enabled ch_enabled_update (read_bool doc node ''enabled''),
      require (is_mapping input \<and> is_mapping video \<and> is_mapping output)
        (''channels['' @ dec_nat index @ ''] requires input, video, and output mappings''),
      at_field (in_type \<circ> ch_input) (ch_input_update \<circ> in_type_update)
        (read_string doc input ''type'' GW_NAME_CAP False),
      at_field (in_url \<circ> ch_input) (ch_input_update \<circ> in_url_update)
        (read_string doc input ''url'' GW_URL_CAP True),
      at_field (in_transport \<circ> ch_input) (ch_input_update \<circ> in_transport_update)
        (read_string doc input ''transport'' GW_NAME_CAP False),
      at_field (decoder \<circ> ch_video) (ch_video_update \<circ> decoder_update)
        (read_string doc video ''decoder'' GW_NAME_CAP False),
      at_field (encoder \<circ> ch_video) (ch_video_update \<circ> encoder_update)
        (read_string doc video ''encoder'' GW_NAME_CAP False),
      at_field (out_path \<circ> ch_output) (ch_output_update \<circ> out_path_update)
        (read_string doc output ''path'' GW_PATH_CAP True),
      at_field (width \<circ> ch_video) (ch_video_update \<circ> width_update) (read_int doc video ''width'' False),
      at_field (height \<circ> ch_video) (ch_video_update \<circ> height_update) (read_int doc video ''height'' False),
      at_field (bitrate_kbps \<circ> ch_video) (ch_video_update \<circ> bitrate_kbps_update)
        (read_int doc video ''bitrate_kbps'' False),
      at_field (fps \<circ> ch_video) (ch_video_update \<circ> fps_update) (read_int doc video ''fps'' False),
      at_field (in_url \<circ> ch_input) (ch_input_update \<circ> in_url_update) (expand_url getenv)])"

definition parse_channel ::
  "env_fn \<Rightarrow> yaml_document \<Rightarrow> yaml_node option \<Rightarrow> nat \<Rightarrow> gw_error option \<Rightarrow>
   gw_status \<times> gw_channel_config \<times> gw_error option" where
  "parse_channel getenv doc node index error =
     (if \<not> is_mapping node then
        (GW_ERR_PARSE, channel_init,
         gw_error_set error GW_ERR_PARSE (''channels['' @ dec_nat index @ ''] must be a mapping''))
      else run_steps (channel_steps getenv doc node index) (channel_init, error))"

section \<open>The document\<close>

definition server_steps :: "yaml_document \<Rightarrow> yaml_node option \<Rightarrow> gw_config load_step list" where
  "server_steps doc node =
     [at_field (srv_enabled \<circ> server) (server_update \<circ> srv_enabled_update) (read_bool doc node ''enabled''),
      at_field (srv_listen \<circ> server) (server_update \<circ> srv_listen_update)
        (read_string doc node ''listen'' GW_LISTEN_CAP False),
      at_field (srv_port \<circ> server) (server_update \<circ> srv_port_update)
        (read_port doc node ''port'' 0 ''server.port must be 0..65535'')]"

abbreviation rec_get :: "(gw_recording_config \<Rightarrow> 'v) \<Rightarrow> gw_config \<Rightarrow> 'v" where
  "rec_get f \<equiv> f \<circ> recording \<circ> mediamtx"

abbreviation rec_upd ::
  "(('v \<Rightarrow> 'v) \<Rightarrow> gw_recording_config \<Rightarrow> gw_recording_config) \<Rightarrow> ('v \<Rightarrow> 'v) \<Rightarrow> gw_config \<Rightarrow> gw_config" where
  "rec_upd u \<equiv> mediamtx_update \<circ> recording_update \<circ> u"

definition recording_steps :: "yaml_document \<Rightarrow> yaml_node option \<Rightarrow> gw_config load_step list" where
  "recording_steps doc node =
     [require (is_mapping node) ''mediamtx.recording must be a mapping'',
      at_field (rec_get rec_enabled) (rec_upd rec_enabled_update) (read_bool doc node ''enabled''),
      at_field (rec_get rec_directory) (rec_upd rec_directory_update)
        (read_string doc node ''directory'' GW_FILE_PATH_CAP False),
      at_field (rec_get rec_format) (rec_upd rec_format_update)
        (read_string doc node ''format'' GW_NAME_CAP False),
      at_field (rec_get part_duration_sec) (rec_upd part_duration_sec_update)
        (read_int doc node ''part_duration_sec'' False),
      at_field (rec_get max_part_size_mb) (rec_upd max_part_size_mb_update)
        (read_int doc node ''max_part_size_mb'' False),
      at_field (rec_get segment_duration_sec) (rec_upd segment_duration_sec_update)
        (read_int doc node ''segment_duration_sec'' False),
      at_field (rec_get delete_after_sec) (rec_upd delete_after_sec_update)
        (read_int doc node ''delete_after_sec'' False),
      at_field (rec_get min_free_mb) (rec_upd min_free_mb_update)
        (read_int doc node ''min_free_mb'' False),
      at_field (rec_get playback_listen) (rec_upd playback_listen_update)
        (read_string doc node ''playback_listen'' GW_LISTEN_CAP False),
      at_field (rec_get playback_port) (rec_upd playback_port_update)
        (read_port doc node ''playback_port'' 1 ''mediamtx.recording.playback_port must be 1..65535'')]"

definition mediamtx_steps :: "yaml_document \<Rightarrow> yaml_node option \<Rightarrow> gw_config load_step list" where
  "mediamtx_steps doc node =
     at_field (publish_base_url \<circ> mediamtx) (mediamtx_update \<circ> publish_base_url_update)
       (read_string doc node ''publish_base_url'' GW_URL_CAP False) #
     (case mapping_value doc node ''recording'' of
        None \<Rightarrow> [] | Some r \<Rightarrow> recording_steps doc (Some r))"

definition default_steps :: "yaml_document \<Rightarrow> yaml_node option \<Rightarrow> gw_config load_step list" where
  "default_steps doc node =
     [at_field (startup_timeout_sec \<circ> defaults) (defaults_update \<circ> startup_timeout_sec_update)
        (read_int doc node ''startup_timeout_sec'' False),
      at_field (progress_timeout_sec \<circ> defaults) (defaults_update \<circ> progress_timeout_sec_update)
        (read_int doc node ''progress_timeout_sec'' False),
      at_field (stable_run_sec \<circ> defaults) (defaults_update \<circ> stable_run_sec_update)
        (read_int doc node ''stable_run_sec'' False),
      at_field (stop_timeout_sec \<circ> defaults) (defaults_update \<circ> stop_timeout_sec_update)
        (read_int doc node ''stop_timeout_sec'' False),
      at_field (max_retries \<circ> defaults) (defaults_update \<circ> max_retries_update)
        (read_int doc node ''max_retries'' False),
      at_field (max_backoff_sec \<circ> defaults) (defaults_update \<circ> max_backoff_sec_update)
        (read_int doc node ''max_backoff_sec'' False)]"

fun parse_channels :: "env_fn \<Rightarrow> yaml_document \<Rightarrow> int list \<Rightarrow> gw_config load_step" where
  "parse_channels getenv doc [] (config, error) = (GW_OK, config, error)"
| "parse_channels getenv doc (item # items) (config, error) =
     (if length (channels config) \<ge> GW_MAX_CHANNELS then
        (GW_ERR_VALIDATION, config,
         gw_error_set error GW_ERR_VALIDATION (''channels exceeds limit of '' @ dec_nat GW_MAX_CHANNELS))
      else case parse_channel getenv doc (yd_node doc item) (length (channels config)) error of
        (status, channel, e) \<Rightarrow>
          if status \<noteq> GW_OK then (status, config, e)
          else parse_channels getenv doc items (config\<lparr>channels := channels config @ [channel]\<rparr>, e))"

definition channel_sequence_step :: "env_fn \<Rightarrow> yaml_document \<Rightarrow> yaml_node option \<Rightarrow> gw_config load_step" where
  "channel_sequence_step getenv doc node s =
     (case node of
        Some (YAML_SEQUENCE_NODE items) \<Rightarrow> parse_channels getenv doc items s
      | _ \<Rightarrow> require False ''channels must be a sequence'' s)"

definition parse_document :: "env_fn \<Rightarrow> yaml_document \<Rightarrow> gw_config load_step" where
  "parse_document getenv doc s =
     (let root = yd_root doc;
          srv = mapping_value doc root ''server'';
          mtx = mapping_value doc root ''mediamtx'';
          dflt = mapping_value doc root ''defaults'';
          chans = mapping_value doc root ''channels''
      in run_steps
          (require (is_mapping root) ''configuration root must be a mapping'' #
           (if srv = None then [] else server_steps doc srv) @
           (if mtx = None then [] else mediamtx_steps doc mtx) @
           (if dflt = None then [] else default_steps doc dflt) @
           [channel_sequence_step getenv doc chans]) s)"

section \<open>Loading a file\<close>

record load_input =
  li_open :: "string option"
  li_parser_ok :: bool
  li_document :: "(nat \<times> string option) + yaml_document"

text \<open>\<open>li_open\<close> is the \<^verbatim>\<open>strerror\<close> text of a failed \<^verbatim>\<open>fopen\<close>; the left summand of
  \<open>li_document\<close> is the position and problem of a failed \<^verbatim>\<open>yaml_parser_load\<close>.\<close>

definition gw_config_load_file ::
  "addr_check \<Rightarrow> addr_check \<Rightarrow> env_fn \<Rightarrow> load_input \<Rightarrow> string \<Rightarrow> gw_config load_step" where
  "gw_config_load_file inet_pton4 inet_pton6 getenv inp path s =
     (case s of (config, error0) \<Rightarrow>
      let error = gw_error_clear error0 in
      case li_open inp of
        Some reason \<Rightarrow>
          (GW_ERR_IO, config,
           gw_error_set error GW_ERR_IO
             (''cannot open configuration '' @ [CHR 0x27] @ path @ [CHR 0x27] @ '': '' @ reason))
      | None \<Rightarrow>
          if \<not> li_parser_ok inp then
            (GW_ERR_NO_MEMORY, config, gw_error_set error GW_ERR_NO_MEMORY ''cannot initialize YAML parser'')
          else case li_document inp of
            Inl (line, problem) \<Rightarrow>
              (GW_ERR_PARSE, config,
               gw_error_set error GW_ERR_PARSE
                 (''YAML parse error at line '' @ dec_nat (line + 1) @ '': '' @
                  (case problem of Some p \<Rightarrow> p | None \<Rightarrow> ''unknown error'')))
          | Inr doc \<Rightarrow>
              (case parse_document getenv doc (gw_config_init, error) of (status, c, e) \<Rightarrow>
                 if status \<noteq> GW_OK then (status, c, e)
                 else case gw_config_validate inet_pton4 inet_pton6 c e of (st, e') \<Rightarrow> (st, c, e')))"

section \<open>Every load stays within the buffers\<close>

definition reader_keeps :: "('v \<Rightarrow> bool) \<Rightarrow> 'v reader \<Rightarrow> bool" where
  "reader_keeps P r \<longleftrightarrow> (\<forall>d e. P d \<longrightarrow> P (fst (snd (r d e))))"

definition step_keeps :: "('c \<Rightarrow> bool) \<Rightarrow> 'c load_step \<Rightarrow> bool" where
  "step_keeps I f \<longleftrightarrow> (\<forall>c e. I c \<longrightarrow> I (fst (snd (f (c, e)))))"

lemma read_string_keeps: "reader_keeps (\<lambda>s. length s < cap) (read_string doc m key cap req)"
  by (auto simp: reader_keeps_def read_string_def copy_text_def split: option.splits)

lemma read_int_keeps: "reader_keeps is_int32 (read_int doc m key req)"
  by (auto simp: reader_keeps_def read_int_def is_int32_def Let_def split: option.splits)

lemma reader_keeps_True: "reader_keeps (\<lambda>_. True) r"
  by (simp add: reader_keeps_def)

lemma expand_url_keeps: "reader_keeps (\<lambda>s. length s < GW_URL_CAP) (expand_url getenv)"
  by (auto simp: reader_keeps_def expand_url_def copy_text_def split: prod.splits)

lemma at_field_keeps:
  assumes "reader_keeps P r" and "\<And>c. I c \<Longrightarrow> P (get c)" and "\<And>c v. I c \<Longrightarrow> P v \<Longrightarrow> I (upd (\<lambda>_. v) c)"
  shows "step_keeps I (at_field get upd r)"
proof -
  have "I (upd (\<lambda>_. fst (snd (r (get c) e))) c)" if "I c" for c e
    using assms that by (simp add: reader_keeps_def)
  then show ?thesis by (simp add: step_keeps_def at_field_def split_def)
qed

lemma require_keeps: "step_keeps I (require ok m)"
  by (simp add: step_keeps_def require_def)

lemma run_steps_keeps:
  assumes "list_all (step_keeps I) fs"
  shows "step_keeps I (run_steps fs)"
proof -
  have "\<And>f s. f \<in> set fs \<Longrightarrow> I (fst s) \<Longrightarrow> I (fst (snd (f s)))"
    using assms by (auto simp: list_all_iff step_keeps_def)
  then show ?thesis
    using run_steps_invariant [where I = "\<lambda>s. I (fst s)" and fs = fs] by (auto simp: step_keeps_def)
qed

lemmas keeps_intros = at_field_keeps [OF read_string_keeps] at_field_keeps [OF read_int_keeps]
  at_field_keeps [OF expand_url_keeps] at_field_keeps [OF reader_keeps_True] require_keeps

lemma channel_steps_keep: "list_all (step_keeps channel_bounded) (channel_steps getenv doc node index)"
  unfolding channel_steps_def Let_def list.pred_inject
  by (intro conjI; (rule keeps_intros | simp)) (simp_all add: channel_bounded_def)

lemma parse_channel_bounded:
  "parse_channel getenv doc node index err = (st, c, e) \<Longrightarrow> channel_bounded c"
proof -
  have "channel_bounded channel_init" by (simp add: channel_bounded_def channel_init_def is_int32_def)
  moreover from this have "channel_bounded (fst (snd (run_steps (channel_steps getenv doc node index) (channel_init, err))))"
    using run_steps_keeps [OF channel_steps_keep] by (simp add: step_keeps_def)
  moreover assume "parse_channel getenv doc node index err = (st, c, e)"
  ultimately show ?thesis by (auto simp: parse_channel_def split: if_splits)
qed

lemma server_steps_keep: "list_all (step_keeps config_bounded) (server_steps doc node)"
  unfolding server_steps_def list.pred_inject
  by (intro conjI; (rule keeps_intros | simp)) (simp_all add: config_bounded_def server_bounded_def)

lemma recording_steps_keep: "list_all (step_keeps config_bounded) (recording_steps doc node)"
  unfolding recording_steps_def list.pred_inject
  by (intro conjI; (rule keeps_intros | simp)) (simp_all add: config_bounded_def recording_bounded_def)

lemma mediamtx_steps_keep: "list_all (step_keeps config_bounded) (mediamtx_steps doc node)"
proof -
  have "step_keeps config_bounded (at_field (publish_base_url \<circ> mediamtx)
      (mediamtx_update \<circ> publish_base_url_update) (read_string doc node ''publish_base_url'' GW_URL_CAP False))"
    by (rule at_field_keeps [OF read_string_keeps]) (simp_all add: config_bounded_def)
  then show ?thesis
    using recording_steps_keep by (simp add: mediamtx_steps_def split: option.splits)
qed

lemma default_steps_keep: "list_all (step_keeps config_bounded) (default_steps doc node)"
  unfolding default_steps_def list.pred_inject
  by (intro conjI; (rule keeps_intros | simp)) (simp_all add: config_bounded_def policy_bounded_def)

lemma parse_channels_keep: "step_keeps config_bounded (parse_channels getenv doc items)"
proof -
  have "config_bounded c \<Longrightarrow> config_bounded (fst (snd (parse_channels getenv doc items (c, e))))" for c e
  proof (induction items arbitrary: c e)
    case Nil
    then show ?case by simp
  next
    case (Cons item items)
    obtain st ch e' where p: "parse_channel getenv doc (yd_node doc item) (length (channels c)) e = (st, ch, e')"
      by (metis prod_cases3)
    have "config_bounded (c\<lparr>channels := channels c @ [ch]\<rparr>)" if "\<not> GW_MAX_CHANNELS \<le> length (channels c)"
      using that Cons.prems parse_channel_bounded [OF p] by (simp add: config_bounded_def)
    with Cons p show ?case by simp
  qed
  then show ?thesis by (simp add: step_keeps_def)
qed

lemma parse_document_bounded:
  assumes "config_bounded c"
  shows "config_bounded (fst (snd (parse_document getenv doc (c, e))))"
proof -
  have "step_keeps config_bounded (channel_sequence_step getenv doc node)" for node
    using parse_channels_keep [of getenv doc]
    by (auto simp: step_keeps_def channel_sequence_step_def require_def split: option.splits yaml_node.splits)
  then have "list_all (step_keeps config_bounded)
      (require (is_mapping (yd_root doc)) ''configuration root must be a mapping'' #
       (if mapping_value doc (yd_root doc) ''server'' = None then []
        else server_steps doc (mapping_value doc (yd_root doc) ''server'')) @
       (if mapping_value doc (yd_root doc) ''mediamtx'' = None then []
        else mediamtx_steps doc (mapping_value doc (yd_root doc) ''mediamtx'')) @
       (if mapping_value doc (yd_root doc) ''defaults'' = None then []
        else default_steps doc (mapping_value doc (yd_root doc) ''defaults'')) @
       [channel_sequence_step getenv doc (mapping_value doc (yd_root doc) ''channels'')])"
    using server_steps_keep mediamtx_steps_keep default_steps_keep
    by (simp add: require_keeps)
  from run_steps_keeps [OF this] assms show ?thesis
    by (simp add: parse_document_def step_keeps_def Let_def)
qed

lemma config_init_bounded: "config_bounded gw_config_init"
  by (simp add: gw_config_init_def bounded_defs is_int32_def)

lemma load_file_valid:
  assumes "gw_config_load_file inet_pton4 inet_pton6 getenv inp path (config0, err0) = (GW_OK, config, err)"
  shows "config_bounded config \<and> valid_config (\<lambda>s. inet_pton4 s \<or> inet_pton6 s) config"
proof -
  from assms obtain doc e where d: "li_document inp = Inr doc"
      "parse_document getenv doc (gw_config_init, gw_error_clear err0) = (GW_OK, config, e)"
      "fst (gw_config_validate inet_pton4 inet_pton6 config e) = GW_OK"
    by (auto simp: gw_config_load_file_def Let_def split: option.splits if_splits sum.splits prod.splits)
  have "config_bounded config"
    using parse_document_bounded [OF config_init_bounded, of getenv doc "gw_error_clear err0"] d(2) by simp
  moreover have "valid_config (\<lambda>s. inet_pton4 s \<or> inet_pton6 s) config"
    using d(3) validate_status [of inet_pton4 inet_pton6 config e] by (simp split: if_splits)
  ultimately show ?thesis by simp
qed

text \<open>C6: whatever the file holds, if \<open>gw_config_load_file\<close> returns \<open>GW_OK\<close> the configuration fits
  every buffer and integer of the C structures, has at most 64 channels, and satisfies the whole
  policy; no document can smuggle an overlong string or an out-of-range number past the loader.\<close>

theorem load_file_delivers_valid:
  assumes "gw_config_load_file inet_pton4 inet_pton6 getenv inp path (config0, err0) = (GW_OK, config, err)"
  shows "config_bounded config \<and> valid_config (\<lambda>s. inet_pton4 s \<or> inet_pton6 s) config"
  by (rule load_file_valid [OF assms])

text \<open>A document with one channel, written as libyaml presents it.\<close>

definition sample_nodes :: "string list" where
  "sample_nodes = [''channels'', ''id'', ''cam01'', ''input'', ''url'', ''rtsp://${HOST}/live'',
     ''video'', ''fps'', ''30'', ''output'', ''path'', ''cam01'']"

definition sample_document :: yaml_document where
  "sample_document = \<lparr>yd_root = Some (YAML_MAPPING_NODE [(1, 20)]),
     yd_node = (\<lambda>i.
       if 1 \<le> i \<and> i \<le> 12 then Some (YAML_SCALAR_NODE (sample_nodes ! nat (i - 1)))
       else if i = 20 then Some (YAML_SEQUENCE_NODE [21])
       else if i = 21 then Some (YAML_MAPPING_NODE [(2, 3), (4, 22), (7, 23), (10, 24)])
       else if i = 22 then Some (YAML_MAPPING_NODE [(5, 6)])
       else if i = 23 then Some (YAML_MAPPING_NODE [(8, 9)])
       else if i = 24 then Some (YAML_MAPPING_NODE [(11, 12)])
       else None)\<rparr>"

definition sample_config :: gw_config where
  "sample_config = gw_config_init\<lparr>channels :=
     [channel_init\<lparr>ch_id := ''cam01'', ch_input := \<lparr>in_type = ''rtsp'', in_url = ''rtsp://cam/live'', in_transport = ''tcp''\<rparr>,
        ch_video := (ch_video channel_init)\<lparr>fps := 30\<rparr>, ch_output := \<lparr>out_path = ''cam01''\<rparr>\<rparr>]\<rparr>"

lemma sample_mapping_values:
  "mapping_value sample_document (yd_root sample_document) ''server'' = None"
  "mapping_value sample_document (yd_root sample_document) ''mediamtx'' = None"
  "mapping_value sample_document (yd_root sample_document) ''defaults'' = None"
  "mapping_value sample_document (yd_root sample_document) ''channels'' = Some (YAML_SEQUENCE_NODE [21])"
  by (simp_all add: mapping_value_def sample_document_def sample_nodes_def cstr_def)

lemma sample_channel_values:
  "mapping_value sample_document (yd_node sample_document 21) ''id'' = Some (YAML_SCALAR_NODE ''cam01'')"
  "mapping_value sample_document (yd_node sample_document 21) ''enabled'' = None"
  "mapping_value sample_document (yd_node sample_document 21) ''input'' = Some (YAML_MAPPING_NODE [(5, 6)])"
  "mapping_value sample_document (yd_node sample_document 21) ''video'' = Some (YAML_MAPPING_NODE [(8, 9)])"
  "mapping_value sample_document (yd_node sample_document 21) ''output'' = Some (YAML_MAPPING_NODE [(11, 12)])"
  "mapping_value sample_document (Some (YAML_MAPPING_NODE [(5, 6)])) ''type'' = None"
  "mapping_value sample_document (Some (YAML_MAPPING_NODE [(5, 6)])) ''url'' = Some (YAML_SCALAR_NODE ''rtsp://${HOST}/live'')"
  "mapping_value sample_document (Some (YAML_MAPPING_NODE [(5, 6)])) ''transport'' = None"
  "mapping_value sample_document (Some (YAML_MAPPING_NODE [(8, 9)])) ''decoder'' = None"
  "mapping_value sample_document (Some (YAML_MAPPING_NODE [(8, 9)])) ''encoder'' = None"
  "mapping_value sample_document (Some (YAML_MAPPING_NODE [(8, 9)])) ''width'' = None"
  "mapping_value sample_document (Some (YAML_MAPPING_NODE [(8, 9)])) ''height'' = None"
  "mapping_value sample_document (Some (YAML_MAPPING_NODE [(8, 9)])) ''bitrate_kbps'' = None"
  "mapping_value sample_document (Some (YAML_MAPPING_NODE [(8, 9)])) ''fps'' = Some (YAML_SCALAR_NODE ''30'')"
  "mapping_value sample_document (Some (YAML_MAPPING_NODE [(11, 12)])) ''path'' = Some (YAML_SCALAR_NODE ''cam01'')"
  by (simp_all add: mapping_value_def sample_document_def sample_nodes_def cstr_def)

lemma sample_parse_channel:
  "gw_error_clear err = err \<Longrightarrow> parse_channel [''HOST'' \<mapsto> ''cam''] sample_document (yd_node sample_document 21) 0 err
   = (GW_OK, hd (channels sample_config), err)"
proof -
  assume "gw_error_clear err = err"
  have "is_mapping (yd_node sample_document 21)" by (simp add: sample_document_def)
  moreover have "strtol ''30'' = \<lparr>conv_value = 30, conv_end = [], conv_none = False, conv_erange = False\<rparr>"
    by (simp add: strtoll_def strto_scan_def isspace_def isdigit_def digits_value_def digit_value_def)
  moreover have "gw_expand_environment [''HOST'' \<mapsto> ''cam''] ''rtsp://${HOST}/live'' GW_URL_CAP err
      = (GW_OK, Some ''rtsp://cam/live'', err)"
    using \<open>gw_error_clear err = err\<close> by (simp add: gw_expand_environment_def expand_loop.simps read_reference_def)
  ultimately show ?thesis
    by (simp add: parse_channel_def channel_steps_def sample_channel_values at_field_def read_string_def
        read_int_def read_bool_def scalar_text_def cstr_def copy_text_def require_def expand_url_def
        channel_init_def sample_config_def gw_config_init_def Let_def)
qed

lemma sample_load:
  "gw_error_clear err = err \<Longrightarrow> \<exists>err'. gw_config_load_file (\<lambda>s. s = ''127.0.0.1'') (\<lambda>s. False) [''HOST'' \<mapsto> ''cam'']
     \<lparr>li_open = None, li_parser_ok = True, li_document = Inr sample_document\<rparr> ''gateway.yaml''
     (gw_config_init, err) = (GW_OK, sample_config, err')"
proof -
  assume err: "gw_error_clear err = err"
  let ?ok = "\<lambda>s. s = ''127.0.0.1'' \<or> False"
  have "yd_root sample_document = Some (YAML_MAPPING_NODE [(1, 20)])" by (simp add: sample_document_def)
  then have p: "parse_document [''HOST'' \<mapsto> ''cam''] sample_document (gw_config_init, err) = (GW_OK, sample_config, err)"
    using sample_mapping_values sample_parse_channel [OF err]
    by (simp add: parse_document_def require_def channel_sequence_step_def Let_def)
      (simp add: gw_config_init_def sample_config_def)
  have "valid_config ?ok sample_config"
    by (simp add: valid_config_def valid_recording_def valid_defaults_def valid_channel_def valid_video_def
        safe_segment_def safe_directory_def isalnum_def isalpha_def isdigit_def sample_config_def
        gw_config_init_def channel_init_def)
  then have "fst (gw_config_validate (\<lambda>s. s = ''127.0.0.1'') (\<lambda>s. False) sample_config err) = GW_OK"
    using validate_status [of "\<lambda>s. s = ''127.0.0.1''" "\<lambda>s. False" sample_config err] by simp
  with p err show ?thesis by (auto simp: gw_config_load_file_def split: prod.splits)
qed

theorem load_file_delivers_valid_witness:
  "config_bounded sample_config \<and> valid_config (\<lambda>s. s = ''127.0.0.1'' \<or> False) sample_config"
proof -
  have "gw_error_clear None = None" by (simp add: gw_error_clear_def)
  from sample_load [OF this] obtain err where "gw_config_load_file (\<lambda>s. s = ''127.0.0.1'') (\<lambda>s. False) [''HOST'' \<mapsto> ''cam'']
     \<lparr>li_open = None, li_parser_ok = True, li_document = Inr sample_document\<rparr> ''gateway.yaml''
     (gw_config_init, None) = (GW_OK, sample_config, err)" by blast
  from load_file_delivers_valid [OF this] show ?thesis .
qed

end
