(* ===== verification/Channel_Manager.thy ===== *)
theory Channel_Manager
  imports Supervisor Config_Load
begin

text \<open>
  The registry of all managed channels (\<^verbatim>\<open>include/gateway/channel_manager.h\<close>,
  \<^verbatim>\<open>src/channel/channel_manager.c\<close>): 64 slots, one supervisor thread per occupied slot, a
  metrics thread, reload, and the commands of the control plane. The lifecycle lock makes the
  operations atomic against each other; a channel thread acts on its own slot by publishing
  snapshots and by returning, in steps of its own between the operations, and while an operation
  joins it. What such a thread does until its join returns is an argument (\<open>join_answer\<close>), as is
  whether \<^verbatim>\<open>pthread_create\<close> succeeds for a slot. The unlocked reads of the two atomics
  \<^verbatim>\<open>thread_running\<close> and \<^verbatim>\<open>active_threads\<close> see the state between two steps. Callbacks of the
  caller (stop check, observer) are left out of the options.
\<close>

abbreviation SIGTERM_NUMBER :: int where "SIGTERM_NUMBER \<equiv> 15"

section \<open>Data\<close>

record gw_channel_entry =
  en_occupied :: bool
  en_thread_started :: bool
  en_thread_running :: bool
  en_result :: int
  en_stop_signal :: int
  en_generation :: u64
  en_options :: gw_supervisor_options
  en_run_config :: gw_config
  en_snapshot :: gw_channel_snapshot
  en_metrics_tracker :: gw_process_metrics_tracker
  en_worker_metrics :: gw_process_metrics_snapshot
  en_metrics_generation :: u64

record gw_channel_manager =
  mg_config :: gw_config
  mg_caller_options :: gw_supervisor_options
  mg_stop_signal :: int
  mg_active_threads :: u64
  mg_metrics_stop_requested :: bool
  mg_metrics_thread_started :: bool
  mg_entries :: "gw_channel_entry list"
  mg_started :: bool
  mg_result :: int

record gw_metrics_target =
  mt_occupied :: bool
  mt_generation :: u64
  mt_process_kind :: gw_channel_process_kind
  mt_process_pid :: int

record gw_channel_reload_summary =
  rs_unchanged :: nat
  rs_added :: nat
  rs_removed :: nat
  rs_restarted :: nat

definition on_entry :: "nat \<Rightarrow> (gw_channel_entry \<Rightarrow> gw_channel_entry) \<Rightarrow> gw_channel_manager \<Rightarrow> gw_channel_manager" where
  "on_entry i f m = m\<lparr>mg_entries := (mg_entries m)[i := f (mg_entries m ! i)]\<rparr>"

definition entry_channel :: "gw_channel_entry \<Rightarrow> gw_channel_config" where
  "entry_channel e = channels (en_run_config e) ! 0"

section \<open>What the threads do\<close>

text \<open>The stop source handed to each supervisor; the last two arguments are the caller's own.\<close>

definition entry_stop_requested :: "gw_channel_entry \<Rightarrow> gw_channel_manager \<Rightarrow> int option \<Rightarrow> int option \<Rightarrow> int" where
  "entry_stop_requested entry manager caller_check caller_signal =
     (if en_stop_signal entry \<noteq> 0 then en_stop_signal entry
      else if mg_stop_signal manager \<noteq> 0 then mg_stop_signal manager
      else stop_signal_value caller_check caller_signal)"

definition manager_observe :: "nat \<Rightarrow> gw_channel_snapshot \<Rightarrow> gw_channel_manager \<Rightarrow> gw_channel_manager" where
  "manager_observe i snapshot =
     on_entry i (\<lambda>e. e\<lparr>en_snapshot := snapshot\<lparr>sn_configuration_generation := en_generation e\<rparr>\<rparr>)"

text \<open>The end of \<open>run_channel\<close>, with the value \<open>gw_supervisor_run\<close> returned.\<close>

definition run_channel_return :: "nat \<Rightarrow> int \<Rightarrow> gw_channel_manager \<Rightarrow> gw_channel_manager" where
  "run_channel_return i rc m =
     (let m1 = on_entry i (\<lambda>e. e\<lparr>en_result := rc, en_thread_running := False\<rparr>) m
      in m1\<lparr>mg_active_threads := mg_active_threads m1 - 1\<rparr>)"

record join_answer =
  ja_snapshots :: "gw_channel_snapshot list"
  ja_result :: int

text \<open>\<^verbatim>\<open>pthread_join\<close> of a slot's thread: if it is still running, it publishes and returns first.\<close>

definition join_entry :: "join_answer \<Rightarrow> nat \<Rightarrow> gw_channel_manager \<Rightarrow> gw_channel_manager" where
  "join_entry a i m =
     on_entry i (\<lambda>e. e\<lparr>en_thread_started := False\<rparr>)
       (if en_thread_running (mg_entries m ! i)
        then run_channel_return i (ja_result a) (fold (manager_observe i) (ja_snapshots a) m)
        else m)"

section \<open>Metrics\<close>

definition sample_targets :: "gw_channel_manager \<Rightarrow> gw_metrics_target list" where
  "sample_targets m =
     map (\<lambda>e. \<lparr>mt_occupied = en_occupied e, mt_generation = en_generation e,
               mt_process_kind = sn_process_kind (en_snapshot e),
               mt_process_pid = sn_process_pid (en_snapshot e)\<rparr>) (mg_entries m)"

text \<open>One slot of one pass of the sampler: \<open>target\<close> was read earlier, \<open>read_metrics\<close> is
  \<open>gw_process_metrics_read\<close> at this moment.\<close>

definition sampled_slot ::
  "fp_ops \<Rightarrow> (int \<Rightarrow> gw_process_metrics option) \<Rightarrow> int \<Rightarrow> int \<Rightarrow> gw_metrics_target \<Rightarrow>
   gw_channel_entry \<Rightarrow> gw_channel_entry" where
  "sampled_slot fp read_metrics sample_time_ns hz target e =
     (let e1 = (if en_metrics_generation e \<noteq> mt_generation target
                then e\<lparr>en_metrics_tracker := gw_process_metrics_tracker_init,
                       en_metrics_generation := mt_generation target\<rparr>
                else e);
          (pid, raw) = (if mt_occupied target \<and> mt_process_kind target = GW_CHANNEL_PROCESS_WORKER \<and>
                           mt_process_pid target > 0
                        then (mt_process_pid target, read_metrics (mt_process_pid target))
                        else (-1, None));
          (tracker, sampled) =
            gw_process_metrics_tracker_update fp (en_metrics_tracker e1) pid raw sample_time_ns hz;
          e2 = e1\<lparr>en_metrics_tracker := tracker\<rparr>
      in if en_occupied e2 = mt_occupied target \<and> en_generation e2 = mt_generation target \<and>
            sn_process_kind (en_snapshot e2) = mt_process_kind target \<and>
            sn_process_pid (en_snapshot e2) = mt_process_pid target
         then e2\<lparr>en_worker_metrics := sampled\<rparr>
         else e2\<lparr>en_worker_metrics := no_metrics\<rparr>)"

definition sample_entry ::
  "fp_ops \<Rightarrow> (int \<Rightarrow> gw_process_metrics option) \<Rightarrow> int \<Rightarrow> int \<Rightarrow> nat \<Rightarrow> gw_metrics_target \<Rightarrow>
   gw_channel_manager \<Rightarrow> gw_channel_manager" where
  "sample_entry fp read_metrics sample_time_ns hz i target =
     on_entry i (sampled_slot fp read_metrics sample_time_ns hz target)"

definition attach_worker_metrics :: "gw_channel_entry \<Rightarrow> gw_channel_snapshot \<Rightarrow> gw_channel_snapshot" where
  "attach_worker_metrics entry snapshot =
     snapshot\<lparr>sn_worker_metrics :=
       (if sn_process_kind snapshot = GW_CHANNEL_PROCESS_WORKER \<and>
           ms_pid (en_worker_metrics entry) = sn_process_pid snapshot
        then en_worker_metrics entry
        else no_metrics\<lparr>ms_pid := sn_process_pid snapshot\<rparr>)\<rparr>"

section \<open>Comparing configurations\<close>

definition retry_policy_equal :: "gw_retry_policy \<Rightarrow> gw_retry_policy \<Rightarrow> bool" where
  "retry_policy_equal a b \<longleftrightarrow>
     startup_timeout_sec a = startup_timeout_sec b \<and> progress_timeout_sec a = progress_timeout_sec b \<and>
     stable_run_sec a = stable_run_sec b \<and> stop_timeout_sec a = stop_timeout_sec b \<and>
     max_retries a = max_retries b \<and> max_backoff_sec a = max_backoff_sec b"

definition channel_config_equal :: "gw_channel_config \<Rightarrow> gw_channel_config \<Rightarrow> bool" where
  "channel_config_equal a b \<longleftrightarrow>
     ch_enabled a = ch_enabled b \<and> ch_id a = ch_id b \<and>
     in_type (ch_input a) = in_type (ch_input b) \<and> in_url (ch_input a) = in_url (ch_input b) \<and>
     in_transport (ch_input a) = in_transport (ch_input b) \<and>
     decoder (ch_video a) = decoder (ch_video b) \<and> width (ch_video a) = width (ch_video b) \<and>
     height (ch_video a) = height (ch_video b) \<and> encoder (ch_video a) = encoder (ch_video b) \<and>
     bitrate_kbps (ch_video a) = bitrate_kbps (ch_video b) \<and> fps (ch_video a) = fps (ch_video b) \<and>
     out_path (ch_output a) = out_path (ch_output b)"

definition worker_globals_equal :: "gw_config \<Rightarrow> gw_config \<Rightarrow> bool" where
  "worker_globals_equal a b \<longleftrightarrow>
     publish_base_url (mediamtx a) = publish_base_url (mediamtx b) \<and> retry_policy_equal (defaults a) (defaults b)"

section \<open>Searching\<close>

definition find_enabled_channel :: "gw_config \<Rightarrow> string \<Rightarrow> gw_channel_config option" where
  "find_enabled_channel config cid = List.find (\<lambda>c. ch_enabled c \<and> ch_id c = cid) (channels config)"

definition find_entry :: "gw_channel_manager \<Rightarrow> string \<Rightarrow> nat option" where
  "find_entry m cid = scan_free (\<lambda>e. en_occupied e \<and> ch_id (entry_channel e) = cid) (mg_entries m)"

definition find_free_entry :: "gw_channel_entry list \<Rightarrow> nat option" where
  "find_free_entry entries = scan_free (\<lambda>e. \<not> en_occupied e) entries"

interpretation slots: slot_table find_free_entry "\<lambda>e. \<not> en_occupied e"
  unfolding find_free_entry_def by (rule scan_free_slot_table)

section \<open>One slot\<close>

definition configure_entry ::
  "gw_channel_config \<Rightarrow> gw_config \<Rightarrow> gw_supervisor_options \<Rightarrow> gw_channel_entry \<Rightarrow> gw_channel_entry" where
  "configure_entry channel config caller_options entry =
     (let generation = (if en_occupied entry then en_generation entry else 0) + 1
      in entry\<lparr>
        en_run_config := gw_config_init\<lparr>server := server config, mediamtx := mediamtx config,
                           defaults := defaults config, channels := [channel]\<rparr>,
        en_options := caller_options, en_result := 0, en_stop_signal := 0, en_generation := generation,
        en_snapshot := (gw_channel_snapshot_init channel)\<lparr>sn_configuration_generation := generation\<rparr>,
        en_worker_metrics := no_metrics, en_occupied := True\<rparr>)"

type_synonym thread_answers = "nat \<Rightarrow> string option"

text \<open>\<open>creates i = None\<close>: \<^verbatim>\<open>pthread_create\<close> succeeds for slot \<open>i\<close>; otherwise the text of its error.\<close>

definition start_entry ::
  "thread_answers \<Rightarrow> nat \<Rightarrow> gw_channel_manager \<Rightarrow> gw_error option \<Rightarrow>
   gw_status \<times> gw_channel_manager \<times> gw_error option" where
  "start_entry creates i m error =
     (let m1 = on_entry i (\<lambda>e. e\<lparr>en_result := 0, en_stop_signal := 0, en_thread_running := True\<rparr>) m;
          m2 = m1\<lparr>mg_active_threads := mg_active_threads m1 + 1\<rparr>
      in case creates i of
        Some reason \<Rightarrow>
          let m3 = m2\<lparr>mg_active_threads := mg_active_threads m2 - 1\<rparr>;
              m4 = on_entry i (\<lambda>e. e\<lparr>en_thread_running := False\<rparr>) m3
          in (GW_ERR_IO, m4,
              gw_error_set error GW_ERR_IO
                (''cannot start channel '' @ [CHR 0x27] @ ch_id (entry_channel (mg_entries m4 ! i)) @ [CHR 0x27] @
                 '': '' @ reason))
      | None \<Rightarrow> (GW_OK, on_entry i (\<lambda>e. e\<lparr>en_thread_started := True\<rparr>) m2, error))"

definition stop_entry :: "(nat \<Rightarrow> join_answer) \<Rightarrow> nat \<Rightarrow> gw_channel_manager \<Rightarrow> gw_channel_manager" where
  "stop_entry joins i m =
     (if en_thread_started (mg_entries m ! i)
      then join_entry (joins i) i (on_entry i (\<lambda>e. e\<lparr>en_stop_signal := SIGTERM_NUMBER\<rparr>) m)
      else m)"

section \<open>Creating and starting\<close>

record create_answers =
  ca_alloc :: bool
  ca_rwlock :: "string option"
  ca_mutex :: "string option"

text \<open>A slot as \<^verbatim>\<open>calloc\<close> and the first loop leave it.\<close>

definition zero_config :: gw_config where
  "zero_config =
     \<lparr>server = \<lparr>srv_enabled = False, srv_listen = [], srv_port = 0\<rparr>,
      mediamtx = \<lparr>publish_base_url = [], recording = \<lparr>rec_enabled = False, rec_directory = [], rec_format = [],
        part_duration_sec = 0, max_part_size_mb = 0, segment_duration_sec = 0, delete_after_sec = 0,
        min_free_mb = 0, playback_listen = [], playback_port = 0\<rparr>\<rparr>,
      defaults = \<lparr>startup_timeout_sec = 0, progress_timeout_sec = 0, stable_run_sec = 0, stop_timeout_sec = 0,
        max_retries = 0, max_backoff_sec = 0\<rparr>,
      channels = []\<rparr>"

definition zero_snapshot :: gw_channel_snapshot where
  "zero_snapshot =
     \<lparr>sn_channel_id = [], sn_state = GW_CHANNEL_DISABLED, sn_last_event = [],
      sn_process_kind = GW_CHANNEL_PROCESS_NONE, sn_process_pid = 0, sn_has_exit_code = False,
      sn_last_exit_code = 0, sn_consecutive_failures = 0, sn_total_restarts = 0,
      sn_configuration_generation = 0, sn_backoff_sec = 0, sn_has_progress = False,
      sn_progress = empty_progress, sn_worker_metrics = no_metrics\<lparr>ms_pid := 0\<rparr>\<rparr>"

definition empty_entry :: gw_channel_entry where
  "empty_entry = \<lparr>en_occupied = False, en_thread_started = False, en_thread_running = False, en_result = 0,
     en_stop_signal = 0, en_generation = 0, en_options = \<lparr>so_ffmpeg_binary = [], so_stop_on_clean_exit = False,
     so_exit_on_retry_exhaustion = False\<rparr>, en_run_config = zero_config, en_snapshot = zero_snapshot,
     en_metrics_tracker = gw_process_metrics_tracker_init, en_worker_metrics = no_metrics,
     en_metrics_generation = 0\<rparr>"

text \<open>The second loop of \<open>gw_channel_manager_create\<close>; \<open>None\<close>: the null pointer of a failed search
  would be dereferenced.\<close>

fun fill_entries ::
  "gw_config \<Rightarrow> gw_supervisor_options \<Rightarrow> gw_channel_config list \<Rightarrow> gw_channel_entry list \<Rightarrow>
   gw_channel_entry list option" where
  "fill_entries config options [] entries = Some entries"
| "fill_entries config options (c # cs) entries =
     (if \<not> ch_enabled c then fill_entries config options cs entries
      else case find_free_entry entries of
        None \<Rightarrow> None
      | Some i \<Rightarrow> fill_entries config options cs (entries[i := configure_entry c config options (entries ! i)]))"

text \<open>Result: status, the manager where there is one, error; \<open>None\<close> as above.\<close>

definition gw_channel_manager_create ::
  "create_answers \<Rightarrow> addr_check \<Rightarrow> addr_check \<Rightarrow> gw_config \<Rightarrow> gw_supervisor_options \<Rightarrow> gw_error option \<Rightarrow>
   (gw_status \<times> gw_channel_manager option \<times> gw_error option) option" where
  "gw_channel_manager_create a inet_pton4 inet_pton6 config options error =
     (if so_ffmpeg_binary options = [] then
        Some (GW_ERR_VALIDATION, None,
              gw_error_set error GW_ERR_VALIDATION ''manager executable names must not be empty'')
      else case gw_config_validate inet_pton4 inet_pton6 config error of (st, e) \<Rightarrow>
        if st \<noteq> GW_OK then Some (error_code_or e GW_ERR_VALIDATION, None, e)
        else if length (filter ch_enabled (channels config)) = 0 then
          Some (GW_ERR_VALIDATION, None,
                gw_error_set e GW_ERR_VALIDATION ''at least one enabled channel is required'')
        else if \<not> ca_alloc a then
          Some (GW_ERR_NO_MEMORY, None, gw_error_set e GW_ERR_NO_MEMORY ''cannot allocate channel manager'')
        else case ca_rwlock a of
          Some reason \<Rightarrow>
            Some (GW_ERR_IO, None, gw_error_set e GW_ERR_IO (''cannot initialize snapshot lock: '' @ reason))
        | None \<Rightarrow>
            (case ca_mutex a of
               Some reason \<Rightarrow>
                 Some (GW_ERR_IO, None, gw_error_set e GW_ERR_IO (''cannot initialize lifecycle lock: '' @ reason))
             | None \<Rightarrow>
                 (case fill_entries config options (channels config) (replicate GW_MAX_CHANNELS empty_entry) of
                    None \<Rightarrow> None
                  | Some entries \<Rightarrow>
                      Some (GW_OK,
                        Some \<lparr>mg_config = config, mg_caller_options = options, mg_stop_signal = 0,
                              mg_active_threads = 0, mg_metrics_stop_requested = False,
                              mg_metrics_thread_started = False, mg_entries = entries, mg_started = False,
                              mg_result = 0\<rparr>,
                        gw_error_clear e))))"

definition gw_channel_manager_request_stop :: "int \<Rightarrow> gw_channel_manager \<Rightarrow> gw_channel_manager" where
  "gw_channel_manager_request_stop signal_number m =
     m\<lparr>mg_stop_signal := (if signal_number \<noteq> 0 then signal_number else SIGTERM_NUMBER),
       mg_metrics_stop_requested := True\<rparr>"

definition stop_entries :: "(nat \<Rightarrow> join_answer) \<Rightarrow> gw_channel_manager \<Rightarrow> gw_channel_manager" where
  "stop_entries joins m = fold (stop_entry joins) [0..<GW_MAX_CHANNELS] m"

text \<open>The loop that starts the occupied slots, until one fails.\<close>

fun start_entries ::
  "thread_answers \<Rightarrow> nat list \<Rightarrow> gw_channel_manager \<Rightarrow> gw_error option \<Rightarrow>
   gw_status \<times> gw_channel_manager \<times> gw_error option" where
  "start_entries creates [] m error = (GW_OK, m, error)"
| "start_entries creates (i # is) m error =
     (if \<not> en_occupied (mg_entries m ! i) then start_entries creates is m error
      else case start_entry creates i m error of (st, m', e) \<Rightarrow>
        if st \<noteq> GW_OK then (st, m', e) else start_entries creates is m' e)"

definition gw_channel_manager_start ::
  "thread_answers \<Rightarrow> string option \<Rightarrow> (nat \<Rightarrow> join_answer) \<Rightarrow> gw_channel_manager \<Rightarrow> gw_error option \<Rightarrow>
   gw_status \<times> gw_channel_manager \<times> gw_error option" where
  "gw_channel_manager_start creates metrics_create joins m error =
     (if mg_started m then
        (GW_ERR_VALIDATION, m, gw_error_set error GW_ERR_VALIDATION ''channel manager is already started'')
      else
        let m1 = m\<lparr>mg_started := True, mg_metrics_stop_requested := False\<rparr> in
        case start_entries creates [0..<GW_MAX_CHANNELS] m1 error of (st, m2, e) \<Rightarrow>
          if st \<noteq> GW_OK then
            (st, stop_entries joins (gw_channel_manager_request_stop SIGTERM_NUMBER m2), e)
          else case metrics_create of
            Some reason \<Rightarrow>
              let m3 = stop_entries joins (gw_channel_manager_request_stop SIGTERM_NUMBER m2) in
              (GW_ERR_IO, m3\<lparr>mg_started := False\<rparr>,
               gw_error_set e GW_ERR_IO (''cannot start metrics sampler: '' @ reason))
          | None \<Rightarrow> (GW_OK, m2\<lparr>mg_metrics_thread_started := True\<rparr>, gw_error_clear e))"

section \<open>Reload\<close>

record reload_state =
  rl_manager :: gw_channel_manager
  rl_changes :: gw_channel_reload_summary
  rl_status :: gw_status
  rl_error :: "gw_error option"

definition no_changes :: gw_channel_reload_summary where
  "no_changes = \<lparr>rs_unchanged = 0, rs_added = 0, rs_removed = 0, rs_restarted = 0\<rparr>"

definition configure_slot :: "nat \<Rightarrow> gw_channel_config \<Rightarrow> gw_config \<Rightarrow> gw_channel_manager \<Rightarrow> gw_channel_manager" where
  "configure_slot i channel config m = on_entry i (configure_entry channel config (mg_caller_options m)) m"

text \<open>\<^verbatim>\<open>configure_entry(...); if (start_entry(...) != GW_OK) final_status = GW_ERR_IO;\<close>\<close>

definition launch ::
  "thread_answers \<Rightarrow> nat \<Rightarrow> gw_channel_config \<Rightarrow> gw_config \<Rightarrow> reload_state \<Rightarrow> reload_state" where
  "launch creates i channel candidate s =
     (case start_entry creates i (configure_slot i channel candidate (rl_manager s)) (rl_error s) of
        (st, m, e) \<Rightarrow>
          s\<lparr>rl_manager := m, rl_error := e, rl_status := (if st \<noteq> GW_OK then GW_ERR_IO else rl_status s)\<rparr>)"

definition reload_slot ::
  "thread_answers \<Rightarrow> (nat \<Rightarrow> join_answer) \<Rightarrow> bool \<Rightarrow> gw_config \<Rightarrow> nat \<Rightarrow> reload_state \<Rightarrow> reload_state" where
  "reload_slot creates joins globals_equal candidate i s =
     (let m = rl_manager s; entry = mg_entries m ! i; changes = rl_changes s in
      if \<not> en_occupied entry then s
      else case find_enabled_channel candidate (ch_id (entry_channel entry)) of
        None \<Rightarrow>
          s\<lparr>rl_manager := on_entry i (\<lambda>e. e\<lparr>en_occupied := False\<rparr>) (stop_entry joins i m),
            rl_changes := changes\<lparr>rs_removed := rs_removed changes + 1\<rparr>\<rparr>
      | Some replacement \<Rightarrow>
          if globals_equal \<and> channel_config_equal (entry_channel entry) replacement then
            s\<lparr>rl_changes := changes\<lparr>rs_unchanged := rs_unchanged changes + 1\<rparr>\<rparr>
          else
            (launch creates i replacement candidate (s\<lparr>rl_manager := stop_entry joins i m\<rparr>))
              \<lparr>rl_changes := changes\<lparr>rs_restarted := rs_restarted changes + 1\<rparr>\<rparr>)"

fun reload_added :: "thread_answers \<Rightarrow> gw_config \<Rightarrow> gw_channel_config list \<Rightarrow> reload_state \<Rightarrow> reload_state" where
  "reload_added creates candidate [] s = s"
| "reload_added creates candidate (c # cs) s =
     (if \<not> ch_enabled c \<or> find_entry (rl_manager s) (ch_id c) \<noteq> None then reload_added creates candidate cs s
      else case find_free_entry (mg_entries (rl_manager s)) of
        None \<Rightarrow>
          s\<lparr>rl_error := gw_error_set (rl_error s) GW_ERR_OVERFLOW ''channel manager capacity exceeded'',
            rl_status := GW_ERR_OVERFLOW\<rparr>
      | Some i \<Rightarrow>
          let s1 = launch creates i c candidate s; changes = rl_changes s1 in
          reload_added creates candidate cs (s1\<lparr>rl_changes := changes\<lparr>rs_added := rs_added changes + 1\<rparr>\<rparr>))"

definition gw_channel_manager_reload ::
  "thread_answers \<Rightarrow> (nat \<Rightarrow> join_answer) \<Rightarrow> addr_check \<Rightarrow> addr_check \<Rightarrow> gw_config \<Rightarrow> gw_channel_manager \<Rightarrow>
   gw_error option \<Rightarrow> gw_status \<times> gw_channel_manager \<times> gw_channel_reload_summary \<times> gw_error option" where
  "gw_channel_manager_reload creates joins inet_pton4 inet_pton6 candidate m error =
     (if \<not> mg_started m \<or> mg_stop_signal m \<noteq> 0 then
        (GW_ERR_VALIDATION, m, no_changes,
         gw_error_set error GW_ERR_VALIDATION ''channel manager is not available for reload'')
      else case gw_config_validate inet_pton4 inet_pton6 candidate error of (st, e) \<Rightarrow>
        if st \<noteq> GW_OK then (error_code_or e GW_ERR_VALIDATION, m, no_changes, e)
        else
          let globals_equal = worker_globals_equal (mg_config m) candidate;
              s0 = \<lparr>rl_manager = m, rl_changes = no_changes, rl_status = GW_OK, rl_error = e\<rparr>;
              s1 = fold (reload_slot creates joins globals_equal candidate) [0..<GW_MAX_CHANNELS] s0;
              s2 = reload_added creates candidate (channels candidate) s1
          in (rl_status s2, (rl_manager s2)\<lparr>mg_config := candidate\<rparr>, rl_changes s2,
              if rl_status s2 = GW_OK then gw_error_clear (rl_error s2) else rl_error s2))"

section \<open>Reading the registry\<close>

definition gw_channel_manager_get_snapshot ::
  "gw_channel_manager \<Rightarrow> string \<Rightarrow> gw_error option \<Rightarrow> gw_status \<times> gw_channel_snapshot option \<times> gw_error option" where
  "gw_channel_manager_get_snapshot m channel_id error =
     (case List.find (\<lambda>e. en_occupied e \<and> sn_channel_id (en_snapshot e) = channel_id) (mg_entries m) of
        Some e \<Rightarrow> (GW_OK, Some (attach_worker_metrics e (en_snapshot e)), gw_error_clear error)
      | None \<Rightarrow> (GW_ERR_NOT_FOUND, None,
          gw_error_set error GW_ERR_NOT_FOUND
            (''channel '' @ [CHR 0x27] @ channel_id @ [CHR 0x27] @ '' is not managed'')))"

text \<open>The copying loop: the snapshots copied so far, and whether the array was too small.\<close>

fun copy_snapshots :: "nat \<Rightarrow> gw_channel_entry list \<Rightarrow> gw_channel_snapshot list \<Rightarrow> gw_channel_snapshot list \<times> bool" where
  "copy_snapshots capacity [] copied = (copied, False)"
| "copy_snapshots capacity (e # es) copied =
     (if \<not> en_occupied e then copy_snapshots capacity es copied
      else if length copied \<ge> capacity then (copied, True)
      else copy_snapshots capacity es (copied @ [attach_worker_metrics e (en_snapshot e)]))"

text \<open>Result: status, the copied prefix of the array, the count, error.\<close>

definition gw_channel_manager_list_snapshots ::
  "gw_channel_manager \<Rightarrow> nat \<Rightarrow> gw_error option \<Rightarrow>
   gw_status \<times> gw_channel_snapshot list \<times> nat \<times> gw_error option" where
  "gw_channel_manager_list_snapshots m capacity error =
     (case copy_snapshots capacity (mg_entries m) [] of (copied, too_small) \<Rightarrow>
        if too_small then
          (GW_ERR_OVERFLOW, copied, 0, gw_error_set error GW_ERR_OVERFLOW ''snapshot array capacity is too small'')
        else (GW_OK, copied, length copied, gw_error_clear error))"

section \<open>Commands\<close>

type_synonym command_result = "gw_status \<times> gw_channel_manager \<times> gw_error option"

definition quoted :: "string \<Rightarrow> string" where
  "quoted s = ''channel '' @ [CHR 0x27] @ s @ [CHR 0x27]"

definition command_entry ::
  "gw_channel_manager \<Rightarrow> string \<Rightarrow> gw_error option \<Rightarrow> gw_status \<times> nat option \<times> gw_error option" where
  "command_entry m channel_id error =
     (if \<not> mg_started m \<or> mg_stop_signal m \<noteq> 0 then
        (GW_ERR_CONFLICT, None,
         gw_error_set error GW_ERR_CONFLICT ''channel manager is not available for control'')
      else case find_entry m channel_id of
        None \<Rightarrow> (GW_ERR_NOT_FOUND, None,
                 gw_error_set error GW_ERR_NOT_FOUND (quoted channel_id @ '' is not managed''))
      | Some i \<Rightarrow> (GW_OK, Some i, error))"

text \<open>The common frame of the three commands: argument check, \<open>command_entry\<close>, then the body.\<close>

definition with_command ::
  "gw_channel_manager \<Rightarrow> string \<Rightarrow> gw_error option \<Rightarrow> (nat \<Rightarrow> gw_error option \<Rightarrow> command_result) \<Rightarrow> command_result" where
  "with_command m channel_id error body =
     (if channel_id = [] then
        (GW_ERR_ARGUMENT, m, gw_error_set error GW_ERR_ARGUMENT ''manager and channel id are required'')
      else case command_entry m channel_id error of
        (st, None, e) \<Rightarrow> (st, m, e)
      | (st, Some i, e) \<Rightarrow> body i e)"

definition clear_if_ok :: "command_result \<Rightarrow> command_result" where
  "clear_if_ok r = (case r of (st, m, e) \<Rightarrow> (st, m, if st = GW_OK then gw_error_clear e else e))"

definition gw_channel_manager_start_channel ::
  "thread_answers \<Rightarrow> (nat \<Rightarrow> join_answer) \<Rightarrow> gw_channel_manager \<Rightarrow> string \<Rightarrow> gw_error option \<Rightarrow> command_result" where
  "gw_channel_manager_start_channel creates joins m channel_id error =
     with_command m channel_id error (\<lambda>i e.
       let entry = mg_entries m ! i;
           m1 = (if en_thread_started entry \<and> \<not> en_thread_running entry then join_entry (joins i) i m else m);
           entry1 = mg_entries m1 ! i;
           state = sn_state (en_snapshot entry1)
       in if en_thread_started entry1 then
            (GW_ERR_CONFLICT, m1, gw_error_set e GW_ERR_CONFLICT (quoted channel_id @ '' is already active''))
          else if state \<noteq> GW_CHANNEL_STOPPED \<and> state \<noteq> GW_CHANNEL_FAILED then
            (GW_ERR_CONFLICT, m1,
             gw_error_set e GW_ERR_CONFLICT
               (quoted channel_id @ '' cannot be started from '' @ gw_channel_state_string state))
          else clear_if_ok (start_entry creates i m1 e))"

definition gw_channel_manager_stop_channel ::
  "(nat \<Rightarrow> join_answer) \<Rightarrow> gw_channel_manager \<Rightarrow> string \<Rightarrow> gw_error option \<Rightarrow> command_result" where
  "gw_channel_manager_stop_channel joins m channel_id error =
     with_command m channel_id error (\<lambda>i e.
       let entry = mg_entries m ! i in
       if \<not> en_thread_started entry \<or> \<not> en_thread_running entry then
         (GW_ERR_CONFLICT, (if en_thread_started entry then join_entry (joins i) i m else m),
          gw_error_set e GW_ERR_CONFLICT (quoted channel_id @ '' is not active''))
       else (GW_OK, stop_entry joins i m, gw_error_clear e))"

definition gw_channel_manager_restart_channel ::
  "thread_answers \<Rightarrow> (nat \<Rightarrow> join_answer) \<Rightarrow> gw_channel_manager \<Rightarrow> string \<Rightarrow> gw_error option \<Rightarrow> command_result" where
  "gw_channel_manager_restart_channel creates joins m channel_id error =
     with_command m channel_id error (\<lambda>i e. clear_if_ok (start_entry creates i (stop_entry joins i m) e))"

section \<open>Finishing\<close>

definition gw_channel_manager_is_finished :: "gw_channel_manager \<Rightarrow> bool" where
  "gw_channel_manager_is_finished m \<longleftrightarrow> mg_started m \<and> mg_active_threads m = 0"

definition wait_slot :: "(nat \<Rightarrow> join_answer) \<Rightarrow> nat \<Rightarrow> gw_channel_manager \<Rightarrow> gw_channel_manager" where
  "wait_slot joins i m =
     (let entry = mg_entries m ! i;
          m1 = (if en_occupied entry \<and> en_thread_started entry then join_entry (joins i) i m else m);
          entry1 = mg_entries m1 ! i
      in if en_occupied entry1 \<and> en_result entry1 \<noteq> 0 then m1\<lparr>mg_result := 1\<rparr> else m1)"

definition gw_channel_manager_wait :: "(nat \<Rightarrow> join_answer) \<Rightarrow> gw_channel_manager \<Rightarrow> int \<times> gw_channel_manager" where
  "gw_channel_manager_wait joins m =
     (if \<not> mg_started m then (2, m)
      else
        let m1 = fold (wait_slot joins) [0..<GW_MAX_CHANNELS] (m\<lparr>mg_result := 0\<rparr>);
            m2 = m1\<lparr>mg_metrics_stop_requested := True, mg_metrics_thread_started := False\<rparr>
        in (mg_result m2, m2))"

text \<open>\<open>gw_channel_manager_destroy\<close> up to the release of the memory.\<close>

definition gw_channel_manager_destroy :: "(nat \<Rightarrow> join_answer) \<Rightarrow> gw_channel_manager \<Rightarrow> gw_channel_manager" where
  "gw_channel_manager_destroy joins m =
     (let m1 = (if mg_started m \<and> \<not> gw_channel_manager_is_finished m
                then gw_channel_manager_request_stop SIGTERM_NUMBER m else m)
      in if mg_started m1 then snd (gw_channel_manager_wait joins m1) else m1)"

section \<open>Operations as updates of one slot\<close>

text \<open>Every operation replaces the contents of slots and keeps the thread count in step. \<open>put_slot\<close>
  is that update; the lemmas below bring the operations into this form.\<close>

definition put_slot :: "nat \<Rightarrow> gw_channel_entry \<Rightarrow> gw_channel_manager \<Rightarrow> gw_channel_manager" where
  "put_slot i e m =
     m\<lparr>mg_entries := (mg_entries m)[i := e],
       mg_active_threads := mg_active_threads m + of_bool (en_thread_running e)
                              - of_bool (en_thread_running (mg_entries m ! i))\<rparr>"

definition joined :: "join_answer \<Rightarrow> gw_channel_entry \<Rightarrow> gw_channel_entry" where
  "joined a e =
     (if en_thread_running e then
        e\<lparr>en_snapshot := (if ja_snapshots a = [] then en_snapshot e
             else (last (ja_snapshots a))\<lparr>sn_configuration_generation := en_generation e\<rparr>),
          en_result := ja_result a, en_thread_running := False, en_thread_started := False\<rparr>
      else e\<lparr>en_thread_started := False\<rparr>)"

definition stopped :: "join_answer \<Rightarrow> gw_channel_entry \<Rightarrow> gw_channel_entry" where
  "stopped a e = (if en_thread_started e then joined a (e\<lparr>en_stop_signal := SIGTERM_NUMBER\<rparr>) else e)"

definition launched :: "string option \<Rightarrow> gw_channel_entry \<Rightarrow> gw_channel_entry" where
  "launched answer e =
     (case answer of
        None \<Rightarrow> e\<lparr>en_result := 0, en_stop_signal := 0, en_thread_running := True, en_thread_started := True\<rparr>
      | Some reason \<Rightarrow> e\<lparr>en_result := 0, en_stop_signal := 0, en_thread_running := False\<rparr>)"

lemma put_slot_simps [simp]:
  "mg_entries (put_slot i e m) = (mg_entries m)[i := e]"
  "mg_caller_options (put_slot i e m) = mg_caller_options m"
  "mg_config (put_slot i e m) = mg_config m"
  "mg_stop_signal (put_slot i e m) = mg_stop_signal m"
  "mg_started (put_slot i e m) = mg_started m"
  "mg_result (put_slot i e m) = mg_result m"
  by (simp_all add: put_slot_def)

lemma put_slot_put [simp]: "i < length (mg_entries m) \<Longrightarrow> put_slot i e (put_slot i e' m) = put_slot i e m"
  by (simp add: put_slot_def)

lemma on_entry_put_slot:
  "en_thread_running (f (mg_entries m ! i)) = en_thread_running (mg_entries m ! i) \<Longrightarrow>
   on_entry i f m = put_slot i (f (mg_entries m ! i)) m"
  by (simp add: on_entry_def put_slot_def)

lemma fold_observe:
  assumes "i < length (mg_entries m)"
  shows "fold (manager_observe i) ss m =
    (if ss = [] then m
     else on_entry i (\<lambda>e. e\<lparr>en_snapshot := (last ss)\<lparr>sn_configuration_generation := en_generation e\<rparr>\<rparr>) m)"
  using assms
proof (induction ss arbitrary: m)
  case (Cons s ss)
  have "i < length (mg_entries (manager_observe i s m))" using Cons.prems by (simp add: manager_observe_def on_entry_def)
  from Cons.IH [OF this] Cons.prems show ?case by (simp add: manager_observe_def on_entry_def)
qed simp

lemma join_entry_slot:
  assumes "i < length (mg_entries m)"
  shows "join_entry a i m = put_slot i (joined a (mg_entries m ! i)) m"
  using assms
  by (simp add: join_entry_def fold_observe run_channel_return_def on_entry_def put_slot_def joined_def Let_def)

lemma stop_entry_slot:
  assumes "i < length (mg_entries m)"
  shows "stop_entry joins i m = put_slot i (stopped (joins i) (mg_entries m ! i)) m"
proof (cases "en_thread_started (mg_entries m ! i)")
  case True
  let ?f = "\<lambda>e. e\<lparr>en_stop_signal := SIGTERM_NUMBER\<rparr>"
  have "on_entry i ?f m = put_slot i (?f (mg_entries m ! i)) m" by (rule on_entry_put_slot) simp
  with True assms show ?thesis by (simp add: stop_entry_def stopped_def join_entry_slot)
next
  case False
  then show ?thesis by (simp add: stop_entry_def stopped_def put_slot_def)
qed

lemma start_entry_slot:
  assumes "i < length (mg_entries m)" and "\<not> en_thread_running (mg_entries m ! i)"
  shows "fst (start_entry creates i m error) = (if creates i = None then GW_OK else GW_ERR_IO)"
    and "fst (snd (start_entry creates i m error)) = put_slot i (launched (creates i) (mg_entries m ! i)) m"
  using assms
  by (simp_all add: start_entry_def on_entry_def put_slot_def launched_def Let_def split: option.splits)

lemma configure_slot_slot:
  "configure_slot i c config m = put_slot i (configure_entry c config (mg_caller_options m) (mg_entries m ! i)) m"
  unfolding configure_slot_def by (rule on_entry_put_slot) (simp add: configure_entry_def Let_def)

section \<open>The invariant\<close>

definition entry_ok :: "gw_channel_entry \<Rightarrow> bool" where
  "entry_ok e \<longleftrightarrow>
     (en_thread_running e \<longrightarrow> en_thread_started e) \<and> (en_thread_started e \<longrightarrow> en_occupied e) \<and>
     (en_occupied e \<longrightarrow> length (channels (en_run_config e)) = 1 \<and> ch_enabled (entry_channel e) \<and>
        length (ch_id (entry_channel e)) < GW_ID_CAP \<and>
        sn_channel_id (en_snapshot e) = ch_id (entry_channel e) \<and>
        sn_configuration_generation (en_snapshot e) = en_generation e)"

definition entry_id :: "gw_channel_entry \<Rightarrow> string" where
  "entry_id e = ch_id (entry_channel e)"

definition manager_inv :: "gw_channel_manager \<Rightarrow> bool" where
  "manager_inv m \<longleftrightarrow>
     length (mg_entries m) = GW_MAX_CHANNELS \<and> list_all entry_ok (mg_entries m) \<and>
     (\<forall>i < GW_MAX_CHANNELS. \<forall>j < GW_MAX_CHANNELS. i \<noteq> j \<longrightarrow> en_occupied (mg_entries m ! i) \<longrightarrow>
        en_occupied (mg_entries m ! j) \<longrightarrow> entry_id (mg_entries m ! i) \<noteq> entry_id (mg_entries m ! j)) \<and>
     mg_active_threads m = of_nat (length (filter en_thread_running (mg_entries m)))"

lemma put_slot_inv:
  assumes "manager_inv m" and "i < GW_MAX_CHANNELS" and "entry_ok e"
    and "\<And>j. en_occupied e \<Longrightarrow> j < GW_MAX_CHANNELS \<Longrightarrow> j \<noteq> i \<Longrightarrow> en_occupied (mg_entries m ! j) \<Longrightarrow>
           entry_id (mg_entries m ! j) \<noteq> entry_id e"
  shows "manager_inv (put_slot i e m)"
proof -
  let ?xs = "mg_entries m" and ?P = en_thread_running
  from assms(1,2) have len: "length ?xs = GW_MAX_CHANNELS" and i: "i < length ?xs" by (simp_all add: manager_inv_def)
  have "length (filter ?P (?xs[i := e])) + of_bool (?P (?xs ! i)) = length (filter ?P ?xs) + of_bool (?P e)"
    by (rule filter_update_count [OF i])
  then have "(of_nat (length (filter ?P (?xs[i := e]))) :: u64) + of_bool (?P (?xs ! i)) =
      of_nat (length (filter ?P ?xs)) + of_bool (?P e)"
    by (metis of_nat_add of_nat_of_bool)
  then have act: "(of_nat (length (filter ?P (?xs[i := e]))) :: u64) =
      of_nat (length (filter ?P ?xs)) + of_bool (?P e) - of_bool (?P (?xs ! i))"
    by (simp add: algebra_simps)
  have ok: "list_all entry_ok (?xs[i := e])"
    using assms(1,3) set_update_subset_insert [of ?xs i e] by (auto simp: manager_inv_def list_all_iff)
  have ids: "entry_id (?xs[i := e] ! k) \<noteq> entry_id (?xs[i := e] ! j)"
    if "k < GW_MAX_CHANNELS" "j < GW_MAX_CHANNELS" "k \<noteq> j" "en_occupied (?xs[i := e] ! k)" "en_occupied (?xs[i := e] ! j)"
    for k j
    using that assms(1,4) i by (auto simp: manager_inv_def nth_list_update split: if_splits) metis+
  show ?thesis unfolding manager_inv_def
    using assms(1) act ok ids len by (auto simp: put_slot_def manager_inv_def)
qed

lemma put_slot_same_id:
  assumes "manager_inv m" and "i < GW_MAX_CHANNELS" and "entry_ok e"
    and "en_occupied e \<Longrightarrow> en_occupied (mg_entries m ! i) \<and> entry_id e = entry_id (mg_entries m ! i)"
  shows "manager_inv (put_slot i e m)"
  by (rule put_slot_inv [OF assms(1-3)]) (use assms in \<open>auto simp: manager_inv_def\<close>)

lemma inv_slot:
  assumes "manager_inv m" and "i < GW_MAX_CHANNELS"
  shows "entry_ok (mg_entries m ! i)" "i < length (mg_entries m)"
  using assms by (auto simp: manager_inv_def list_all_length)

lemma entry_ok_launched:
  assumes "entry_ok e" and "en_occupied e" and "\<not> en_thread_running e"
  shows "entry_ok (launched r e)" "en_occupied (launched r e)" "entry_id (launched r e) = entry_id e"
    "en_run_config (launched r e) = en_run_config e"
  using assms by (auto simp: launched_def entry_ok_def entry_id_def entry_channel_def split: option.splits)

lemma entry_ok_configured:
  assumes "ch_enabled c" and "length (ch_id c) < GW_ID_CAP" and "\<not> en_thread_running e" and "\<not> en_thread_started e"
  shows "entry_ok (configure_entry c config opts e)" "en_occupied (configure_entry c config opts e)"
    "entry_id (configure_entry c config opts e) = ch_id c" "entry_channel (configure_entry c config opts e) = c"
    "\<not> en_thread_running (configure_entry c config opts e)"
  using assms
  by (simp_all add: configure_entry_def entry_ok_def entry_id_def entry_channel_def snapshot_op_defs
      snprintf_text_def Let_def)

section \<open>Loops over the slots\<close>

text \<open>\<open>m'\<close> differs from \<open>m\<close>, as far as the slots and the thread count go, in slot \<open>i\<close> only.\<close>

definition slot_step :: "nat \<Rightarrow> gw_channel_entry \<Rightarrow> gw_channel_manager \<Rightarrow> gw_channel_manager \<Rightarrow> bool" where
  "slot_step i e m m' \<longleftrightarrow>
     mg_entries m' = mg_entries (put_slot i e m) \<and> mg_active_threads m' = mg_active_threads (put_slot i e m)"

lemma manager_inv_cong:
  "mg_entries m' = mg_entries m \<Longrightarrow> mg_active_threads m' = mg_active_threads m \<Longrightarrow> manager_inv m' = manager_inv m"
  by (simp add: manager_inv_def)

lemma slot_step_inv:
  assumes "slot_step i e m m'" and "manager_inv m" and "i < GW_MAX_CHANNELS" and "entry_ok e"
    and "en_occupied e \<Longrightarrow> en_occupied (mg_entries m ! i) \<and> entry_id e = entry_id (mg_entries m ! i)"
  shows "manager_inv m'"
proof -
  have "manager_inv (put_slot i e m)" by (rule put_slot_same_id [OF assms(2-5)])
  then show ?thesis using assms(1) manager_inv_cong unfolding slot_step_def by blast
qed

text \<open>The loops of the manager visit each slot once, and what they do to a slot depends on that slot
  only: \<open>F\<close> tells what. \<open>K\<close> is what else the step needs and keeps, \<open>P\<close> what it needs of the slot.\<close>

locale slot_loop =
  fixes mgr :: "'s \<Rightarrow> gw_channel_manager" and step :: "nat \<Rightarrow> 's \<Rightarrow> 's"
    and F :: "nat \<Rightarrow> gw_channel_entry \<Rightarrow> gw_channel_entry"
    and K :: "'s \<Rightarrow> bool" and P :: "nat \<Rightarrow> gw_channel_entry \<Rightarrow> bool"
  assumes step_slot: "i < GW_MAX_CHANNELS \<Longrightarrow> manager_inv (mgr s) \<Longrightarrow> K s \<Longrightarrow> P i (mg_entries (mgr s) ! i) \<Longrightarrow>
      slot_step i (F i (mg_entries (mgr s) ! i)) (mgr s) (mgr (step i s)) \<and> K (step i s)"
    and step_keeps: "entry_ok e \<Longrightarrow> P i e \<Longrightarrow>
      entry_ok (F i e) \<and> (en_occupied (F i e) \<longrightarrow> en_occupied e \<and> entry_id (F i e) = entry_id e)"
begin

lemma step_inv:
  assumes "i < GW_MAX_CHANNELS" and "manager_inv (mgr s)" and "K s" and "P i (mg_entries (mgr s) ! i)"
  shows "manager_inv (mgr (step i s))"
  by (rule slot_step_inv [OF conjunct1 [OF step_slot [OF assms]] assms(2,1)])
    (use step_keeps [OF inv_slot(1) [OF assms(2,1)] assms(4)] in simp_all)

lemma loop:
  assumes "distinct is" and "set is \<subseteq> {..<GW_MAX_CHANNELS}" and "manager_inv (mgr s)" and "K s"
    and "\<And>i. i \<in> set is \<Longrightarrow> P i (mg_entries (mgr s) ! i)"
  shows "manager_inv (mgr (fold step is s)) \<and> K (fold step is s) \<and>
     (\<forall>k < GW_MAX_CHANNELS. mg_entries (mgr (fold step is s)) ! k =
        (if k \<in> set is then F k (mg_entries (mgr s) ! k) else mg_entries (mgr s) ! k))"
  using assms
proof (induction "is" arbitrary: s)
  case Nil
  then show ?case by simp
next
  case (Cons i js)
  then have i: "i < GW_MAX_CHANNELS" "P i (mg_entries (mgr s) ! i)" by auto
  note st = step_slot [OF i(1) Cons.prems(3,4) i(2)] and inv = step_inv [OF i(1) Cons.prems(3,4) i(2)]
  have len: "length (mg_entries (mgr s)) = GW_MAX_CHANNELS" using Cons.prems(3) by (simp add: manager_inv_def)
  from st have e: "mg_entries (mgr (step i s)) = (mg_entries (mgr s))[i := F i (mg_entries (mgr s) ! i)]"
    by (simp add: slot_step_def)
  have "P k (mg_entries (mgr (step i s)) ! k)" if "k \<in> set js" for k
    using that Cons.prems(1,5) e by (cases "k = i") auto
  from Cons.IH [OF _ _ inv _ this] Cons.prems st e len show ?case
    by (auto simp: nth_list_update)
qed

lemma all_slots:
  assumes "manager_inv (mgr s)" and "K s" and "\<And>i. i < GW_MAX_CHANNELS \<Longrightarrow> P i (mg_entries (mgr s) ! i)"
  shows "manager_inv (mgr (fold step [0..<GW_MAX_CHANNELS] s))" and "K (fold step [0..<GW_MAX_CHANNELS] s)"
    and "\<And>k. k < GW_MAX_CHANNELS \<Longrightarrow>
           mg_entries (mgr (fold step [0..<GW_MAX_CHANNELS] s)) ! k = F k (mg_entries (mgr s) ! k)"
  using loop [of "[0..<GW_MAX_CHANNELS]" s] assms by (auto simp: atLeast0LessThan)

end

lemma put_slot_step: "slot_step i e m (put_slot i e m)"
  by (simp add: slot_step_def)

text \<open>The snapshots a thread publishes are those of its own channel.\<close>

definition own_snapshots :: "join_answer \<Rightarrow> gw_channel_entry \<Rightarrow> bool" where
  "own_snapshots a e \<longleftrightarrow> (\<forall>s \<in> set (ja_snapshots a). sn_channel_id s = entry_id e)"

lemma stopped_ok:
  assumes "entry_ok e" and "own_snapshots a e"
  shows "entry_ok (stopped a e)" "entry_ok (joined a e)"
  using assms
  by (auto simp: own_snapshots_def stopped_def joined_def entry_ok_def entry_id_def entry_channel_def)

lemma stopped_simps [simp]:
  "en_occupied (stopped a e) = en_occupied e" "entry_id (stopped a e) = entry_id e"
  "entry_channel (stopped a e) = entry_channel e" "en_run_config (stopped a e) = en_run_config e"
  "en_generation (stopped a e) = en_generation e" "\<not> en_thread_started (stopped a e)"
  "en_occupied (joined a e) = en_occupied e" "entry_id (joined a e) = entry_id e"
  "\<not> en_thread_started (joined a e)" "\<not> en_thread_running (joined a e)"
  by (auto simp: stopped_def joined_def entry_id_def entry_channel_def)

lemma stopped_not_running: "entry_ok e \<Longrightarrow> \<not> en_thread_running (stopped a e)"
  by (auto simp: stopped_def joined_def entry_ok_def)

end
