(* ===== verification/Manager_Reload.thy ===== *)
theory Manager_Reload
  imports Channel_Manager
begin

text \<open>
  Reloading the configuration of the channel manager. Both loops of
  \<open>gw_channel_manager_reload\<close> are brought into the form of slot updates; the result: the registry
  serves exactly the enabled channels of the candidate, untouched slots keep running, and the
  summary adds up.
\<close>

section \<open>Reload\<close>

text \<open>What one pass of the first loop makes of a slot.\<close>

definition reloaded ::
  "thread_answers \<Rightarrow> (nat \<Rightarrow> join_answer) \<Rightarrow> bool \<Rightarrow> gw_config \<Rightarrow> gw_supervisor_options \<Rightarrow> nat \<Rightarrow>
   gw_channel_entry \<Rightarrow> gw_channel_entry" where
  "reloaded creates joins same cand opts i e =
     (if \<not> en_occupied e then e
      else case find_enabled_channel cand (entry_id e) of
        None \<Rightarrow> (stopped (joins i) e)\<lparr>en_occupied := False\<rparr>
      | Some c \<Rightarrow>
          if same \<and> channel_config_equal (entry_channel e) c then e
          else launched (creates i) (configure_entry c cand opts (stopped (joins i) e)))"

lemma find_enabled_SomeD:
  "find_enabled_channel cand cid = Some c \<Longrightarrow> c \<in> set (channels cand) \<and> ch_enabled c \<and> ch_id c = cid"
  by (auto simp: find_enabled_channel_def find_Some_iff)

lemma find_enabled_iff:
  assumes "distinct (map ch_id (channels cand))"
  shows "find_enabled_channel cand (ch_id c) = Some c \<longleftrightarrow> c \<in> set (channels cand) \<and> ch_enabled c"
proof
  assume c: "c \<in> set (channels cand) \<and> ch_enabled c"
  then obtain d where d: "find_enabled_channel cand (ch_id c) = Some d"
    by (cases "find_enabled_channel cand (ch_id c)") (auto simp: find_enabled_channel_def find_None_iff)
  with c assms have "d = c" using find_enabled_SomeD [OF d] by (auto simp: distinct_map inj_on_def)
  with d show "find_enabled_channel cand (ch_id c) = Some c" by simp
qed (simp add: find_enabled_SomeD)

lemma launch_slot:
  assumes "i < length (mg_entries (rl_manager s))" and "\<not> en_thread_running (mg_entries (rl_manager s) ! i)"
  shows "rl_manager (launch creates i c cand s) =
      put_slot i (launched (creates i) (configure_entry c cand (mg_caller_options (rl_manager s)) (mg_entries (rl_manager s) ! i)))
        (rl_manager s)"
    and "rl_status (launch creates i c cand s) = (if creates i = None then rl_status s else GW_ERR_IO)"
    and "rl_changes (launch creates i c cand s) = rl_changes s"
proof -
  let ?m = "configure_slot i c cand (rl_manager s)"
  have "\<not> en_thread_running (mg_entries ?m ! i)" "i < length (mg_entries ?m)"
    using assms by (simp_all add: configure_slot_slot configure_entry_def Let_def)
  note st = start_entry_slot [OF this(2,1), of creates "rl_error s"]
  obtain x y z where r: "start_entry creates i ?m (rl_error s) = (x, y, z)" by (metis prod_cases3)
  with st assms show "rl_manager (launch creates i c cand s) =
      put_slot i (launched (creates i) (configure_entry c cand (mg_caller_options (rl_manager s)) (mg_entries (rl_manager s) ! i)))
        (rl_manager s)"
    "rl_status (launch creates i c cand s) = (if creates i = None then rl_status s else GW_ERR_IO)"
    "rl_changes (launch creates i c cand s) = rl_changes s"
    by (simp_all add: launch_def configure_slot_slot)
qed

lemma reload_slot_step:
  assumes "i < GW_MAX_CHANNELS" and "manager_inv (rl_manager s)"
  shows "rl_manager (reload_slot creates joins same cand i s) =
     put_slot i (reloaded creates joins same cand (mg_caller_options (rl_manager s)) i (mg_entries (rl_manager s) ! i)) (rl_manager s)"
proof -
  let ?m = "rl_manager s" and ?e = "mg_entries (rl_manager s) ! i"
  note ok = inv_slot [OF assms(2,1)]
  have keep: "put_slot i ?e ?m = ?m" by (simp add: put_slot_def)
  let ?st = "stopped (joins i) ?e"
  have stop: "stop_entry joins i ?m = put_slot i ?st ?m" by (rule stop_entry_slot [OF ok(2)])
  have free: "on_entry i (\<lambda>e. e\<lparr>en_occupied := False\<rparr>) (put_slot i ?st ?m) = put_slot i (?st\<lparr>en_occupied := False\<rparr>) ?m"
    using ok(2) by (subst on_entry_put_slot) simp_all
  have go: "rl_manager (launch creates i c cand (s\<lparr>rl_manager := put_slot i ?st ?m\<rparr>)) =
      put_slot i (launched (creates i) (configure_entry c cand (mg_caller_options ?m) ?st)) ?m" for c
    using launch_slot(1) [of i "s\<lparr>rl_manager := put_slot i ?st ?m\<rparr>"] ok stopped_not_running [OF ok(1)] by simp
  show ?thesis
    by (auto simp: reload_slot_def reloaded_def Let_def keep stop free go entry_id_def [symmetric] split: option.splits)
qed

abbreviation ids_fit :: "gw_config \<Rightarrow> bool" where
  "ids_fit config \<equiv> list_all (\<lambda>c. length (ch_id c) < GW_ID_CAP) (channels config)"

lemma reloaded_keeps:
  assumes "entry_ok e" and "own_snapshots (joins i) e" and "ids_fit cand"
  shows "entry_ok (reloaded creates joins same cand opts i e)"
    and "en_occupied (reloaded creates joins same cand opts i e) \<Longrightarrow>
           en_occupied e \<and> entry_id (reloaded creates joins same cand opts i e) = entry_id e"
proof -
  let ?st = "stopped (joins i) e"
  note st = stopped_ok(1) [OF assms(1,2)] and nr = stopped_not_running [OF assms(1), of "joins i"]
  have off: "entry_ok (?st\<lparr>en_occupied := False\<rparr>)" using nr by (simp add: entry_ok_def)
  have new: "entry_ok (launched (creates i) (configure_entry c cand opts ?st)) \<and>
      entry_id (launched (creates i) (configure_entry c cand opts ?st)) = ch_id c"
    if "find_enabled_channel cand (entry_id e) = Some c" for c
  proof -
    from find_enabled_SomeD [OF that] assms(3) have c: "ch_enabled c" "length (ch_id c) < GW_ID_CAP"
      by (auto simp: list_all_iff)
    note conf = entry_ok_configured [OF c nr stopped_simps(6), of cand opts]
    from entry_ok_launched [OF conf(1,2,5)] conf(3) show ?thesis by simp
  qed
  from assms(1) off new find_enabled_SomeD show "entry_ok (reloaded creates joins same cand opts i e)"
    by (auto simp: reloaded_def split: option.splits)
  show "en_occupied e \<and> entry_id (reloaded creates joins same cand opts i e) = entry_id e"
    if "en_occupied (reloaded creates joins same cand opts i e)"
    using that new find_enabled_SomeD by (fastforce simp: reloaded_def split: option.splits if_splits)
qed

interpretation rl: slot_loop rl_manager "reload_slot creates joins same cand"
    "reloaded creates joins same cand opts" "\<lambda>s. mg_caller_options (rl_manager s) = opts \<and> mg_started (rl_manager s)"
    "\<lambda>i e. own_snapshots (joins i) e \<and> ids_fit cand"
  for creates joins same cand opts
proof
  show "slot_step i (reloaded creates joins same cand opts i (mg_entries (rl_manager s) ! i)) (rl_manager s)
      (rl_manager (reload_slot creates joins same cand i s)) \<and>
    mg_caller_options (rl_manager (reload_slot creates joins same cand i s)) = opts \<and>
    mg_started (rl_manager (reload_slot creates joins same cand i s))"
    if "i < GW_MAX_CHANNELS" "manager_inv (rl_manager s)" "mg_caller_options (rl_manager s) = opts \<and> mg_started (rl_manager s)" for i s
    using that by (auto simp: reload_slot_step put_slot_step)
  show "entry_ok (reloaded creates joins same cand opts i e) \<and>
      (en_occupied (reloaded creates joins same cand opts i e) \<longrightarrow>
       en_occupied e \<and> entry_id (reloaded creates joins same cand opts i e) = entry_id e)"
    if "entry_ok e" "own_snapshots (joins i) e \<and> ids_fit cand" for i e
    using that reloaded_keeps [of e joins i cand creates same opts] by blast
qed

definition occupied_count :: "gw_channel_manager \<Rightarrow> nat" where
  "occupied_count m = length (filter en_occupied (mg_entries m))"

definition managed :: "gw_channel_manager \<Rightarrow> gw_channel_config set" where
  "managed m = {c. \<exists>k < GW_MAX_CHANNELS. en_occupied (mg_entries m ! k) \<and> entry_channel (mg_entries m ! k) = c}"

lemma occupied_put:
  assumes "i < length (mg_entries m)"
  shows "occupied_count (put_slot i e m) + of_bool (en_occupied (mg_entries m ! i)) =
     occupied_count m + of_bool (en_occupied e)"
  using filter_update_count [OF assms] by (simp add: occupied_count_def)

text \<open>The counters of the first loop, slot by slot.\<close>

lemma reload_slot_counts:
  assumes "i < GW_MAX_CHANNELS" and "manager_inv (rl_manager s)"
  shows "let c = rl_changes s; s' = reload_slot creates joins same cand i s; c' = rl_changes s' in
     occupied_count (rl_manager s') + rs_removed c' = occupied_count (rl_manager s) + rs_removed c \<and>
     rs_unchanged c' + rs_restarted c' + rs_removed c' =
       rs_unchanged c + rs_restarted c + rs_removed c + of_bool (en_occupied (mg_entries (rl_manager s) ! i)) \<and>
     rs_added c' = rs_added c \<and>
     (rl_status s' = rl_status s \<or> rl_status s' = GW_ERR_IO \<and> creates i \<noteq> None)"
proof -
  let ?m = "rl_manager s" and ?e = "mg_entries (rl_manager s) ! i"
  note ok = inv_slot [OF assms(2,1)] and rs = reload_slot_step [OF assms, of creates joins same cand]
  note cnt = occupied_put [OF ok(2), of "reloaded creates joins same cand (mg_caller_options ?m) i ?e"]
  have stop: "stop_entry joins i ?m = put_slot i (stopped (joins i) ?e) ?m" by (rule stop_entry_slot [OF ok(2)])
  have l: "rl_status (launch creates i c cand (s\<lparr>rl_manager := put_slot i (stopped (joins i) ?e) ?m\<rparr>)) =
      (if creates i = None then rl_status s else GW_ERR_IO)" for c
    using launch_slot(2) [of i "s\<lparr>rl_manager := put_slot i (stopped (joins i) ?e) ?m\<rparr>"] ok
      stopped_not_running [OF ok(1)] by simp
  have occ: "en_occupied (launched x (configure_entry c cand o' e'))" for x c o' e'
    by (simp add: launched_def configure_entry_def Let_def split: option.splits)
  show ?thesis
  proof (cases "en_occupied ?e")
    case False
    then show ?thesis by (simp add: reload_slot_def Let_def)
  next
    case True
    show ?thesis
    proof (cases "find_enabled_channel cand (ch_id (entry_channel ?e))")
      case None
      with True cnt rs show ?thesis by (simp add: reload_slot_def reloaded_def Let_def entry_id_def)
    next
      case (Some c)
      with True cnt rs l occ show ?thesis
        by (auto simp: reload_slot_def reloaded_def Let_def entry_id_def stop)
    qed
  qed
qed

lemma reload_loop_counts:
  assumes "distinct is" and "set is \<subseteq> {..<GW_MAX_CHANNELS}" and "manager_inv (rl_manager s)" and "ids_fit cand"
    and "\<And>i. i \<in> set is \<Longrightarrow> own_snapshots (joins i) (mg_entries (rl_manager s) ! i)" and "mg_started (rl_manager s)"
  shows "let c = rl_changes s; s' = fold (reload_slot creates joins same cand) is s; c' = rl_changes s' in
     occupied_count (rl_manager s') + rs_removed c' = occupied_count (rl_manager s) + rs_removed c \<and>
     rs_unchanged c' + rs_restarted c' + rs_removed c' = rs_unchanged c + rs_restarted c + rs_removed c +
       length (filter (\<lambda>i. en_occupied (mg_entries (rl_manager s) ! i)) is) \<and>
     rs_added c' = rs_added c \<and>
     (rl_status s' = rl_status s \<or> rl_status s' = GW_ERR_IO \<and> (\<exists>i. creates i \<noteq> None))"
  using assms
proof (induction "is" arbitrary: s)
  case Nil
  then show ?case by simp
next
  case (Cons i js)
  let ?t = "reload_slot creates joins same cand i s"
  from Cons.prems have i: "i < GW_MAX_CHANNELS" and own: "own_snapshots (joins i) (mg_entries (rl_manager s) ! i)" by auto
  have inv: "manager_inv (rl_manager ?t)"
    by (rule rl.step_inv [OF i Cons.prems(3)]) (use own Cons.prems(4,6) in simp_all)
  have same: "mg_entries (rl_manager ?t) ! k = mg_entries (rl_manager s) ! k" if "k \<in> set js" for k
    using that Cons.prems(1) reload_slot_step [OF i Cons.prems(3)] by (cases "k = i") auto
  have "own_snapshots (joins k) (mg_entries (rl_manager ?t) ! k)" if "k \<in> set js" for k
    using that same Cons.prems(5) by simp
  moreover have "mg_started (rl_manager ?t)" using reload_slot_step [OF i Cons.prems(3)] Cons.prems(6) by simp
  ultimately have IH: "let c = rl_changes ?t; s' = fold (reload_slot creates joins same cand) js ?t; c' = rl_changes s' in
     occupied_count (rl_manager s') + rs_removed c' = occupied_count (rl_manager ?t) + rs_removed c \<and>
     rs_unchanged c' + rs_restarted c' + rs_removed c' = rs_unchanged c + rs_restarted c + rs_removed c +
       length (filter (\<lambda>i. en_occupied (mg_entries (rl_manager ?t) ! i)) js) \<and>
     rs_added c' = rs_added c \<and>
     (rl_status s' = rl_status ?t \<or> rl_status s' = GW_ERR_IO \<and> (\<exists>i. creates i \<noteq> None))"
    using Cons.IH [OF _ _ inv Cons.prems(4)] Cons.prems(1,2) by simp
  have "filter (\<lambda>i. en_occupied (mg_entries (rl_manager ?t) ! i)) js =
      filter (\<lambda>i. en_occupied (mg_entries (rl_manager s) ! i)) js"
    using same by (auto intro: filter_cong)
  then show ?case
    using IH Cons.prems(1,2) reload_slot_counts [OF i Cons.prems(3), of creates joins same cand]
    unfolding Let_def by auto
qed

text \<open>The second loop: every slot in use belongs to an enabled channel of the candidate.\<close>

definition serves :: "gw_config \<Rightarrow> gw_channel_manager \<Rightarrow> bool" where
  "serves cand m \<longleftrightarrow>
     (\<forall>k < GW_MAX_CHANNELS. en_occupied (mg_entries m ! k) \<longrightarrow>
        entry_channel (mg_entries m ! k) \<in> set (channels cand) \<and> ch_enabled (entry_channel (mg_entries m ! k)))"

lemma find_entry_None_iff:
  "manager_inv m \<Longrightarrow> find_entry m cid = None \<longleftrightarrow>
     (\<forall>k < GW_MAX_CHANNELS. en_occupied (mg_entries m ! k) \<longrightarrow> entry_id (mg_entries m ! k) \<noteq> cid)"
proof -
  assume inv: "manager_inv m"
  have "find_entry m cid = None \<longleftrightarrow> (\<forall>e \<in> set (mg_entries m). \<not> (en_occupied e \<and> ch_id (entry_channel e) = cid))"
    unfolding find_entry_def by (rule slot_table.free_pos_None_iff [OF scan_free_slot_table])
  then show ?thesis using inv by (auto simp: manager_inv_def entry_id_def all_set_conv_all_nth)
qed

lemma free_slot_exists:
  assumes "manager_inv m" and "serves cand m" and "length (channels cand) \<le> GW_MAX_CHANNELS"
    and "c \<in> set (channels cand)" and "find_entry m (ch_id c) = None"
  shows "\<exists>i. find_free_entry (mg_entries m) = Some i"
proof (rule ccontr)
  assume "\<nexists>i. find_free_entry (mg_entries m) = Some i"
  then have full: "\<forall>e \<in> set (mg_entries m). en_occupied e" using slots.free_pos_NoneD by fastforce
  have len: "length (mg_entries m) = GW_MAX_CHANNELS" using assms(1) by (simp add: manager_inv_def)
  let ?id = "\<lambda>k. entry_id (mg_entries m ! k)"
  have occ: "en_occupied (mg_entries m ! k)" if "k < GW_MAX_CHANNELS" for k using full len that by simp
  have inj: "inj_on ?id {..<GW_MAX_CHANNELS}"
    using assms(1) occ by (auto simp: manager_inv_def inj_on_def)
  have "?id ` {..<GW_MAX_CHANNELS} \<subseteq> ch_id ` set (channels cand) - {ch_id c}"
    using assms(2,5) occ find_entry_None_iff [OF assms(1)] by (auto simp: serves_def entry_id_def)
  then have "card {..<GW_MAX_CHANNELS} \<le> card (ch_id ` set (channels cand) - {ch_id c})"
    using card_inj_on_le [OF inj] by simp
  also have "\<dots> < card (ch_id ` set (channels cand))" using assms(4) by (intro card_Diff1_less) auto
  also have "\<dots> \<le> length (channels cand)" by (metis card_length length_map list.set_map)
  finally show False using assms(3) by simp
qed

text \<open>Launching a channel that has no slot yet, in a free one.\<close>

lemma launch_free:
  fixes creates :: thread_answers and cand :: gw_config
  assumes "manager_inv (rl_manager s)" and "find_free_entry (mg_entries (rl_manager s)) = Some i"
    and "find_entry (rl_manager s) (ch_id c) = None" and "ch_enabled c" and "length (ch_id c) < GW_ID_CAP"
  defines "e \<equiv> launched (creates i) (configure_entry c cand (mg_caller_options (rl_manager s)) (mg_entries (rl_manager s) ! i))"
  shows "rl_manager (launch creates i c cand s) = put_slot i e (rl_manager s)" and "i < GW_MAX_CHANNELS"
    and "\<not> en_occupied (mg_entries (rl_manager s) ! i)" and "en_occupied e" and "entry_channel e = c"
    and "en_thread_running e \<longleftrightarrow> creates i = None" and "manager_inv (put_slot i e (rl_manager s))"
    and "rl_status (launch creates i c cand s) = (if creates i = None then rl_status s else GW_ERR_IO)"
    and "rl_changes (launch creates i c cand s) = rl_changes s"
proof -
  from slots.free_pos_SomeD [OF assms(2)] assms(1) show i: "i < GW_MAX_CHANNELS"
    and free: "\<not> en_occupied (mg_entries (rl_manager s) ! i)" by (auto simp: manager_inv_def)
  note ok = inv_slot [OF assms(1) i]
  with free have nr: "\<not> en_thread_running (mg_entries (rl_manager s) ! i)"
    and ns: "\<not> en_thread_started (mg_entries (rl_manager s) ! i)" by (auto simp: entry_ok_def)
  note l = launch_slot [OF ok(2) nr, of creates c cand]
  from l(1) show "rl_manager (launch creates i c cand s) = put_slot i e (rl_manager s)" by (simp add: e_def)
  from l(2,3) show "rl_status (launch creates i c cand s) = (if creates i = None then rl_status s else GW_ERR_IO)"
    "rl_changes (launch creates i c cand s) = rl_changes s" by simp_all
  note conf = entry_ok_configured [OF assms(4,5) nr ns, of cand "mg_caller_options (rl_manager s)"]
  note la = entry_ok_launched [OF conf(1,2,5), of "creates i"]
  from la(2) show occ: "en_occupied e" by (simp add: e_def)
  from la(4) conf(4) show ch: "entry_channel e = c" by (simp add: e_def entry_channel_def)
  show "en_thread_running e \<longleftrightarrow> creates i = None" by (simp add: e_def launched_def split: option.splits)
  show "manager_inv (put_slot i e (rl_manager s))"
  proof (rule put_slot_inv [OF assms(1) i])
    show "entry_ok e" using la(1) by (simp add: e_def)
    show "entry_id (mg_entries (rl_manager s) ! j) \<noteq> entry_id e"
      if "j < GW_MAX_CHANNELS" "en_occupied (mg_entries (rl_manager s) ! j)" for j
      using that assms(3) find_entry_None_iff [OF assms(1)] ch by (auto simp: entry_id_def)
  qed
qed

text \<open>What the second loop does, for a list of channels of the candidate.\<close>

definition adds_to :: "thread_answers \<Rightarrow> reload_state \<Rightarrow> reload_state \<Rightarrow> bool" where
  "adds_to creates s s' \<longleftrightarrow>
     (\<forall>k < GW_MAX_CHANNELS. if en_occupied (mg_entries (rl_manager s) ! k)
        then mg_entries (rl_manager s') ! k = mg_entries (rl_manager s) ! k
        else en_occupied (mg_entries (rl_manager s') ! k) \<longrightarrow>
             (en_thread_running (mg_entries (rl_manager s') ! k) \<longleftrightarrow> creates k = None)) \<and>
     (\<exists>n. rl_changes s' = (rl_changes s)\<lparr>rs_added := rs_added (rl_changes s) + n\<rparr> \<and>
          occupied_count (rl_manager s') = occupied_count (rl_manager s) + n) \<and>
     mg_started (rl_manager s') = mg_started (rl_manager s) \<and>
     (rl_status s' = rl_status s \<or> rl_status s' = GW_ERR_IO \<and> (\<exists>i. creates i \<noteq> None))"

lemma adds_to_refl: "adds_to creates s s"
  by (auto simp: adds_to_def intro: exI [of _ 0])

lemma adds_to_trans:
  assumes "adds_to creates s t" and "adds_to creates t u"
  shows "adds_to creates s u"
proof -
  from assms obtain n n' where "rl_changes t = (rl_changes s)\<lparr>rs_added := rs_added (rl_changes s) + n\<rparr>"
    "occupied_count (rl_manager t) = occupied_count (rl_manager s) + n"
    "rl_changes u = (rl_changes t)\<lparr>rs_added := rs_added (rl_changes t) + n'\<rparr>"
    "occupied_count (rl_manager u) = occupied_count (rl_manager t) + n'" by (auto simp: adds_to_def)
  then have "\<exists>n. rl_changes u = (rl_changes s)\<lparr>rs_added := rs_added (rl_changes s) + n\<rparr> \<and>
      occupied_count (rl_manager u) = occupied_count (rl_manager s) + n"
    by (intro exI [of _ "n + n'"]) simp
  moreover have "rl_status u = rl_status s \<or> rl_status u = GW_ERR_IO \<and> (\<exists>i. creates i \<noteq> None)"
    using assms by (auto simp: adds_to_def)
  moreover have "if en_occupied (mg_entries (rl_manager s) ! k)
        then mg_entries (rl_manager u) ! k = mg_entries (rl_manager s) ! k
        else en_occupied (mg_entries (rl_manager u) ! k) \<longrightarrow>
             (en_thread_running (mg_entries (rl_manager u) ! k) \<longleftrightarrow> creates k = None)" if "k < GW_MAX_CHANNELS" for k
    using assms that unfolding adds_to_def by (metis (full_types))
  ultimately show ?thesis using assms by (simp add: adds_to_def)
qed

lemma launch_adds:
  fixes creates :: thread_answers
  assumes "manager_inv (rl_manager s)" and "find_free_entry (mg_entries (rl_manager s)) = Some i"
    and "find_entry (rl_manager s) (ch_id c) = None" and "c \<in> set (channels cand)" and "ch_enabled c"
    and "length (ch_id c) < GW_ID_CAP" and "serves cand (rl_manager s)"
  defines "t \<equiv> (launch creates i c cand s)\<lparr>rl_changes := (rl_changes s)\<lparr>rs_added := rs_added (rl_changes s) + 1\<rparr>\<rparr>"
  shows "adds_to creates s t" and "manager_inv (rl_manager t)" and "serves cand (rl_manager t)"
    and "c \<in> managed (rl_manager t)"
proof -
  note lf = launch_free(1,4-8) [OF assms(1-3,5,6), where creates = creates and cand = cand]
    and free = launch_free(2,3) [OF assms(1-3,5,6)]
  let ?e = "launched (creates i) (configure_entry c cand (mg_caller_options (rl_manager s)) (mg_entries (rl_manager s) ! i))"
  have m: "rl_manager t = put_slot i ?e (rl_manager s)" using lf(1) by (simp add: t_def)
  note len = inv_slot(2) [OF assms(1) free(1)]
  have "occupied_count (rl_manager t) = occupied_count (rl_manager s) + 1"
    using occupied_put [OF len, of ?e] lf(2) free(2) by (simp add: m)
  moreover have "rl_status t = rl_status s \<or> rl_status t = GW_ERR_IO \<and> (\<exists>i. creates i \<noteq> None)"
    using lf(6) by (auto simp: t_def)
  moreover have "rl_changes t = (rl_changes s)\<lparr>rs_added := rs_added (rl_changes s) + 1\<rparr>" by (simp add: t_def)
  ultimately show "adds_to creates s t"
    unfolding adds_to_def using free(2) lf(4) len by (auto simp: m nth_list_update)
  show "manager_inv (rl_manager t)" using lf(5) by (simp add: m)
  show "serves cand (rl_manager t)"
    using assms(4,5,7) lf(3) len by (auto simp: m serves_def nth_list_update)
  show "c \<in> managed (rl_manager t)" unfolding managed_def m using free(1) lf(2,3) len by (auto intro!: exI [of _ i])
qed

lemma adds_managed:
  assumes "adds_to creates s t" and "c \<in> managed (rl_manager s)"
  shows "c \<in> managed (rl_manager t)"
proof -
  from assms(2) obtain k where k: "k < GW_MAX_CHANNELS" "en_occupied (mg_entries (rl_manager s) ! k)"
    "entry_channel (mg_entries (rl_manager s) ! k) = c" by (auto simp: managed_def)
  with assms(1) have "mg_entries (rl_manager t) ! k = mg_entries (rl_manager s) ! k" by (auto simp: adds_to_def)
  with k show ?thesis by (auto simp: managed_def)
qed

lemma reload_added_result:
  assumes "manager_inv (rl_manager s)" and "serves cand (rl_manager s)" and "length (channels cand) \<le> GW_MAX_CHANNELS"
    and "ids_fit cand" and "distinct (map ch_id (channels cand))" and "set cs \<subseteq> set (channels cand)"
  shows "adds_to creates s (reload_added creates cand cs s) \<and> manager_inv (rl_manager (reload_added creates cand cs s)) \<and>
     serves cand (rl_manager (reload_added creates cand cs s)) \<and>
     {c \<in> set cs. ch_enabled c} \<subseteq> managed (rl_manager (reload_added creates cand cs s))"
  using assms(1,2,6)
proof (induction cs arbitrary: s)
  case Nil
  then show ?case by (simp add: adds_to_refl)
next
  case (Cons c cs)
  have c: "c \<in> set (channels cand)" "length (ch_id c) < GW_ID_CAP" using Cons.prems assms(4) by (auto simp: list_all_iff)
  show ?case
  proof (cases "\<not> ch_enabled c \<or> find_entry (rl_manager s) (ch_id c) \<noteq> None")
    case True
    have "c \<in> managed (rl_manager s)" if "ch_enabled c"
    proof -
      from that True find_entry_None_iff [OF Cons.prems(1), of "ch_id c"] obtain k where
        k: "k < GW_MAX_CHANNELS" "en_occupied (mg_entries (rl_manager s) ! k)" "entry_id (mg_entries (rl_manager s) ! k) = ch_id c"
        by auto
      with Cons.prems(2) c assms(5) have "entry_channel (mg_entries (rl_manager s) ! k) = c"
        by (auto simp: serves_def entry_id_def distinct_map inj_on_def)
      with k show ?thesis by (auto simp: managed_def)
    qed
    with Cons.IH [OF Cons.prems(1,2)] Cons.prems(3) True adds_managed show ?thesis by auto
  next
    case False
    then have en: "ch_enabled c" and none: "find_entry (rl_manager s) (ch_id c) = None" by auto
    from free_slot_exists [OF Cons.prems(1,2) assms(3) c(1) none] obtain i where
      i: "find_free_entry (mg_entries (rl_manager s)) = Some i" by blast
    note la = launch_adds [OF Cons.prems(1) i none c(1) en c(2) Cons.prems(2), where creates = creates]
    have ch: "rl_changes (launch creates i c cand s) = rl_changes s"
      using launch_free(9) [OF Cons.prems(1) i none en c(2)] .
    let ?t = "(launch creates i c cand s)\<lparr>rl_changes := (rl_changes s)\<lparr>rs_added := rs_added (rl_changes s) + 1\<rparr>\<rparr>"
    have r: "reload_added creates cand (c # cs) s = reload_added creates cand cs ?t"
      using False i ch by (simp add: Let_def)
    note ih = Cons.IH [OF la(2,3)]
    with Cons.prems(3) adds_to_trans [OF la(1)] adds_managed [OF _ la(4)] show ?thesis
      unfolding r by auto
  qed
qed

lemma channel_config_equal_iff: "channel_config_equal a b \<longleftrightarrow> a = b"
  by (cases a; cases b) (auto simp: channel_config_equal_def gw_input_config.equality gw_video_config.equality
      gw_output_config.equality)

lemma reloaded_channel:
  assumes "en_occupied (reloaded creates joins same cand opts i e)"
  shows "find_enabled_channel cand (entry_id e) = Some (entry_channel (reloaded creates joins same cand opts i e))"
  using assms
  by (auto simp: reloaded_def channel_config_equal_iff launched_def configure_entry_def entry_channel_def Let_def
      split: option.splits if_splits)

lemma reloaded_unchanged:
  assumes "entry_ok e" and "en_occupied e" and "same" and "entry_channel e \<in> set (channels cand)"
    and "distinct (map ch_id (channels cand))"
  shows "reloaded creates joins same cand opts i e = e"
  using assms find_enabled_iff [OF assms(5), of "entry_channel e"]
  by (auto simp: reloaded_def channel_config_equal_iff entry_ok_def entry_id_def)

lemma reloaded_running:
  "en_occupied (reloaded creates joins same cand opts i e) \<Longrightarrow> creates i = None \<Longrightarrow>
   reloaded creates joins same cand opts i e = e \<or> en_thread_running (reloaded creates joins same cand opts i e)"
  by (auto simp: reloaded_def launched_def split: option.splits if_splits)

lemma managed_serves:
  assumes "serves cand m" and "{c \<in> set (channels cand). ch_enabled c} \<subseteq> managed m"
  shows "managed m = {c \<in> set (channels cand). ch_enabled c}"
  using assms by (auto simp: serves_def managed_def)

lemma occupied_managed:
  assumes "manager_inv m" and "managed m = {c \<in> set cs. ch_enabled c}" and "distinct cs"
  shows "occupied_count m = length (filter ch_enabled cs)"
proof -
  let ?K = "{k. k < length (mg_entries m) \<and> en_occupied (mg_entries m ! k)}"
  have len: "length (mg_entries m) = GW_MAX_CHANNELS" using assms(1) by (simp add: manager_inv_def)
  have "inj_on (\<lambda>k. entry_channel (mg_entries m ! k)) ?K"
    using assms(1) by (auto simp: manager_inv_def inj_on_def entry_id_def) metis
  moreover have "(\<lambda>k. entry_channel (mg_entries m ! k)) ` ?K = managed m" using len by (auto simp: managed_def)
  ultimately have "card (managed m) = card ?K" by (metis card_image)
  also have "\<dots> = occupied_count m" by (simp add: occupied_count_def length_filter_conv_card)
  finally have "occupied_count m = card {c \<in> set cs. ch_enabled c}" using assms(2) by simp
  also have "\<dots> = length (filter ch_enabled cs)" using assms(3) by (metis distinct_card distinct_filter set_filter)
  finally show ?thesis .
qed

definition reload_start :: "gw_channel_manager \<Rightarrow> gw_error option \<Rightarrow> reload_state" where
  "reload_start m e = \<lparr>rl_manager = m, rl_changes = no_changes, rl_status = GW_OK, rl_error = e\<rparr>"

text \<open>The first loop as a whole.\<close>

lemma reload_first_loop:
  fixes creates :: thread_answers and same :: bool and e :: "gw_error option"
  assumes "manager_inv m" and "ids_fit cand" and "distinct (map ch_id (channels cand))"
    and "\<forall>i < GW_MAX_CHANNELS. own_snapshots (joins i) (mg_entries m ! i)" and "mg_started m"
  defines "s \<equiv> fold (reload_slot creates joins same cand) [0..<GW_MAX_CHANNELS] (reload_start m e)"
  shows "manager_inv (rl_manager s)" and "serves cand (rl_manager s)"
    and "\<And>k. k < GW_MAX_CHANNELS \<Longrightarrow>
           mg_entries (rl_manager s) ! k = reloaded creates joins same cand (mg_caller_options m) k (mg_entries m ! k)"
    and "rs_unchanged (rl_changes s) + rs_restarted (rl_changes s) = occupied_count (rl_manager s)"
    and "rs_unchanged (rl_changes s) + rs_restarted (rl_changes s) + rs_removed (rl_changes s) = occupied_count m"
    and "rs_added (rl_changes s) = 0"
    and "rl_status s = GW_OK \<or> rl_status s = GW_ERR_IO \<and> (\<exists>i. creates i \<noteq> None)"
    and "mg_started (rl_manager s)"
proof -
  have m: "rl_manager (reload_start m e) = m" "rl_changes (reload_start m e) = no_changes"
    "rl_status (reload_start m e) = GW_OK" by (simp_all add: reload_start_def)
  have len: "length (mg_entries m) = GW_MAX_CHANNELS" using assms(1) by (simp add: manager_inv_def)
  have own: "own_snapshots (joins i) (mg_entries (rl_manager (reload_start m e)) ! i) \<and> ids_fit cand"
    if "i < GW_MAX_CHANNELS" for i using assms(2,4) that m by simp
  note l = rl.all_slots [where s = "reload_start m e" and opts = "mg_caller_options m" and joins = joins and cand = cand
      and creates = creates and same = same, unfolded m, OF assms(1) conjI [OF refl assms(5)], folded s_def]
  show "manager_inv (rl_manager s)" by (rule l(1)) (use own m in simp)
  show "mg_started (rl_manager s)" by (rule conjunct2, rule l(2)) (use own m in simp)
  show nth: "mg_entries (rl_manager s) ! k = reloaded creates joins same cand (mg_caller_options m) k (mg_entries m ! k)"
    if "k < GW_MAX_CHANNELS" for k by (rule l(3)) (use own m that in simp_all)
  show "serves cand (rl_manager s)"
    unfolding serves_def
  proof (intro allI impI)
    fix k assume k: "k < GW_MAX_CHANNELS" "en_occupied (mg_entries (rl_manager s) ! k)"
    from find_enabled_SomeD [OF reloaded_channel [OF k(2) [unfolded nth [OF k(1)]]]]
    show "entry_channel (mg_entries (rl_manager s) ! k) \<in> set (channels cand) \<and>
        ch_enabled (entry_channel (mg_entries (rl_manager s) ! k))" by (simp add: nth [OF k(1)])
  qed
  have f: "length (filter (\<lambda>i. en_occupied (mg_entries m ! i)) [0..<GW_MAX_CHANNELS]) = occupied_count m"
    unfolding occupied_count_def len [symmetric] by (rule filter_nth_count)
  note c = reload_loop_counts [of "[0..<GW_MAX_CHANNELS]" "reload_start m e" cand joins creates same, unfolded m]
  have c': "occupied_count (rl_manager s) + rs_removed (rl_changes s) = occupied_count m \<and>
      rs_unchanged (rl_changes s) + rs_restarted (rl_changes s) + rs_removed (rl_changes s) = occupied_count m \<and>
      rs_added (rl_changes s) = 0 \<and> (rl_status s = GW_OK \<or> rl_status s = GW_ERR_IO \<and> (\<exists>i. creates i \<noteq> None))"
    using c [OF distinct_upt _ assms(1,2)] assms(4,5) f unfolding s_def Let_def
    by (simp add: no_changes_def atLeast0LessThan)
  then show "rs_unchanged (rl_changes s) + rs_restarted (rl_changes s) = occupied_count (rl_manager s)"
    "rs_unchanged (rl_changes s) + rs_restarted (rl_changes s) + rs_removed (rl_changes s) = occupied_count m"
    "rs_added (rl_changes s) = 0" "rl_status s = GW_OK \<or> rl_status s = GW_ERR_IO \<and> (\<exists>i. creates i \<noteq> None)"
    by simp_all
qed

lemma reload_keeps_slot:
  assumes "adds_to creates s1 s2" and "manager_inv m" and "k < GW_MAX_CHANNELS"
    and "mg_entries (rl_manager s1) ! k = reloaded creates joins True cand opts k (mg_entries m ! k)"
    and "distinct (map ch_id (channels cand))" and "en_occupied (mg_entries m ! k)"
    and "entry_channel (mg_entries m ! k) \<in> set (channels cand)"
  shows "mg_entries (rl_manager s2) ! k = mg_entries m ! k"
proof -
  have "mg_entries (rl_manager s1) ! k = mg_entries m ! k"
    using reloaded_unchanged [OF inv_slot(1) [OF assms(2,3)] assms(6) TrueI assms(7,5)] assms(4) by simp
  with assms(1,3,6) show ?thesis by (auto simp: adds_to_def)
qed

lemma reload_runs_slot:
  assumes "adds_to creates s1 s2" and "\<forall>i. creates i = None" and "k < GW_MAX_CHANNELS"
    and "mg_entries (rl_manager s1) ! k = reloaded creates joins same cand opts k (mg_entries m ! k)"
    and "en_occupied (mg_entries (rl_manager s2) ! k)"
  shows "mg_entries (rl_manager s2) ! k = mg_entries m ! k \<or> en_thread_running (mg_entries (rl_manager s2) ! k)"
proof (cases "en_occupied (mg_entries (rl_manager s1) ! k)")
  case True
  with assms(1,3) have "mg_entries (rl_manager s2) ! k = mg_entries (rl_manager s1) ! k" by (simp add: adds_to_def)
  with True assms(2,4) reloaded_running [of creates joins same cand opts k "mg_entries m ! k"] show ?thesis by auto
next
  case False
  with assms(1,2,3,5) show ?thesis by (simp add: adds_to_def)
qed

lemma reload_result:
  assumes "manager_inv m" and "mg_started m" and "mg_stop_signal m = 0"
    and "valid_config (\<lambda>s. inet4 s \<or> inet6 s) cand" and "config_bounded cand"
    and "\<forall>i < GW_MAX_CHANNELS. own_snapshots (joins i) (mg_entries m ! i)"
    and "gw_channel_manager_reload creates joins inet4 inet6 cand m err = (st, m', ch, err')"
  shows "manager_inv m' \<and> mg_started m' \<and> mg_config m' = cand \<and>
     managed m' = {c \<in> set (channels cand). ch_enabled c} \<and>
     (\<forall>k < GW_MAX_CHANNELS. en_occupied (mg_entries m ! k) \<longrightarrow> worker_globals_equal (mg_config m) cand \<longrightarrow>
        entry_channel (mg_entries m ! k) \<in> set (channels cand) \<longrightarrow> mg_entries m' ! k = mg_entries m ! k) \<and>
     ((\<forall>i. creates i = None) \<longrightarrow> st = GW_OK \<and> (\<forall>k < GW_MAX_CHANNELS. en_occupied (mg_entries m' ! k) \<longrightarrow>
        mg_entries m' ! k = mg_entries m ! k \<or> en_thread_running (mg_entries m' ! k))) \<and>
     st \<in> {GW_OK, GW_ERR_IO} \<and>
     rs_unchanged ch + rs_restarted ch + rs_added ch = length (filter ch_enabled (channels cand)) \<and>
     rs_unchanged ch + rs_restarted ch + rs_removed ch = occupied_count m"
proof -
  let ?same = "worker_globals_equal (mg_config m) cand"
  have fit: "ids_fit cand" using assms(5) by (auto simp: config_bounded_def list_all_iff channel_bounded_def)
  have len: "length (channels cand) \<le> GW_MAX_CHANNELS" using assms(5) by (simp add: config_bounded_def)
  have ids: "distinct (map ch_id (channels cand))" "distinct (channels cand)"
    using assms(4) by (simp_all add: valid_config_def distinct_map)
  obtain e where v: "gw_config_validate inet4 inet6 cand err = (GW_OK, e)"
    using validate_status [of inet4 inet6 cand err] assms(4) by (metis prod.collapse)
  define s1 where "s1 = fold (reload_slot creates joins ?same cand) [0..<GW_MAX_CHANNELS] (reload_start m e)"
  define s2 where "s2 = reload_added creates cand (channels cand) s1"
  note f = reload_first_loop [OF assms(1) fit ids(1) assms(6,2), where creates = creates and same = ?same and e = e, folded s1_def]
  note a = reload_added_result [OF f(1,2) len fit ids(1) order_refl, of creates, folded s2_def]
  have out: "st = rl_status s2" "m' = (rl_manager s2)\<lparr>mg_config := cand\<rparr>" "ch = rl_changes s2"
    using assms(2,3,7) v by (simp_all add: gw_channel_manager_reload_def Let_def s1_def s2_def reload_start_def)
  from a have adds: "adds_to creates s1 s2" and inv2: "manager_inv (rl_manager s2)"
    and mng: "managed (rl_manager s2) = {c \<in> set (channels cand). ch_enabled c}"
    using managed_serves by auto
  have cong: "manager_inv m' = manager_inv (rl_manager s2)" "managed m' = managed (rl_manager s2)"
    "mg_entries m' = mg_entries (rl_manager s2)"
    by (simp_all add: out(2) manager_inv_def managed_def)
  have keep: "mg_entries m' ! k = mg_entries m ! k"
    if "k < GW_MAX_CHANNELS" "en_occupied (mg_entries m ! k)" ?same "entry_channel (mg_entries m ! k) \<in> set (channels cand)" for k
    using reload_keeps_slot [OF adds assms(1) that(1) _ ids(1) that(2,4)] f(3) [OF that(1)] that(3) cong by simp
  have status: "st \<in> {GW_OK, GW_ERR_IO}" "(\<forall>i. creates i = None) \<longrightarrow> st = GW_OK"
    using f(7) adds by (auto simp: adds_to_def out(1))
  have run: "(\<forall>i. creates i = None) \<longrightarrow> (\<forall>k < GW_MAX_CHANNELS. en_occupied (mg_entries m' ! k) \<longrightarrow>
      mg_entries m' ! k = mg_entries m ! k \<or> en_thread_running (mg_entries m' ! k))"
    unfolding cong using reload_runs_slot [OF adds _ _ f(3)] by blast
  from occupied_managed [OF inv2 mng ids(2)] adds f(4-6)
  have "rs_unchanged ch + rs_restarted ch + rs_added ch = length (filter ch_enabled (channels cand))"
    "rs_unchanged ch + rs_restarted ch + rs_removed ch = occupied_count m"
    by (auto simp: adds_to_def out(3))
  moreover have "mg_started m'" using f(8) adds by (simp add: adds_to_def out(2))
  ultimately show ?thesis using inv2 mng cong keep run status out(2) by simp
qed

text \<open>C5: a reload makes the registry serve exactly the enabled channels of the new configuration. For
  a valid candidate and a running manager: there is always a free slot (the reload never fails for
  lack of capacity); afterwards the occupied slots hold exactly the candidate's enabled channels,
  each once; a slot whose channel, publish URL and retry policy are unchanged is not touched at
  all, so its worker keeps running; if every thread can be created the status is \<open>GW_OK\<close> and every
  other slot in use has a new thread; and the summary counts add up on both sides.\<close>

theorem reload_serves_candidate:
  assumes "manager_inv m" and "mg_started m" and "mg_stop_signal m = 0"
    and "valid_config (\<lambda>s. inet4 s \<or> inet6 s) cand" and "config_bounded cand"
    and "\<forall>i < GW_MAX_CHANNELS. own_snapshots (joins i) (mg_entries m ! i)"
    and "gw_channel_manager_reload creates joins inet4 inet6 cand m err = (st, m', ch, err')"
  shows "manager_inv m' \<and> mg_config m' = cand \<and>
     managed m' = {c \<in> set (channels cand). ch_enabled c} \<and>
     (\<forall>k < GW_MAX_CHANNELS. en_occupied (mg_entries m ! k) \<longrightarrow> worker_globals_equal (mg_config m) cand \<longrightarrow>
        entry_channel (mg_entries m ! k) \<in> set (channels cand) \<longrightarrow> mg_entries m' ! k = mg_entries m ! k) \<and>
     ((\<forall>i. creates i = None) \<longrightarrow> st = GW_OK \<and> (\<forall>k < GW_MAX_CHANNELS. en_occupied (mg_entries m' ! k) \<longrightarrow>
        mg_entries m' ! k = mg_entries m ! k \<or> en_thread_running (mg_entries m' ! k))) \<and>
     st \<in> {GW_OK, GW_ERR_IO} \<and>
     rs_unchanged ch + rs_restarted ch + rs_added ch = length (filter ch_enabled (channels cand)) \<and>
     rs_unchanged ch + rs_restarted ch + rs_removed ch = occupied_count m"
  using reload_result [OF assms] by simp

end
