(* ===== verification/Manager_Control.thy ===== *)
theory Manager_Control
  imports Manager_Reload
begin

text \<open>
  Creating, starting, commanding and finishing the channel manager, and the registry read by the
  control plane. The operations and the steps of the threads form a transition system; every
  reachable state satisfies the invariant of the registry, so the unlocked test for the end of all
  channels is exact.
\<close>

section \<open>Creation\<close>

text \<open>Configuring a free slot for a channel that has none.\<close>

lemma configure_free:
  assumes "manager_inv m" and "find_free_entry (mg_entries m) = Some i" and "find_entry m (ch_id c) = None"
    and "ch_enabled c" and "length (ch_id c) < GW_ID_CAP"
  shows "manager_inv (m\<lparr>mg_entries := (mg_entries m)[i := configure_entry c config opts (mg_entries m ! i)]\<rparr>)"
    and "i < GW_MAX_CHANNELS" and "\<not> en_occupied (mg_entries m ! i)"
    and "\<not> en_thread_started (configure_entry c config opts (mg_entries m ! i))"
    and "entry_channel (configure_entry c config opts (mg_entries m ! i)) = c"
    and "en_occupied (configure_entry c config opts (mg_entries m ! i))"
proof -
  let ?e = "configure_entry c config opts (mg_entries m ! i)"
  from slots.free_pos_SomeD [OF assms(2)] assms(1) show i: "i < GW_MAX_CHANNELS"
    and free: "\<not> en_occupied (mg_entries m ! i)" by (auto simp: manager_inv_def)
  with inv_slot(1) [OF assms(1) i] have nr: "\<not> en_thread_running (mg_entries m ! i)" "\<not> en_thread_started (mg_entries m ! i)"
    by (auto simp: entry_ok_def)
  note conf = entry_ok_configured [OF assms(4,5) nr, of config opts]
  from conf(4,2) show ch: "entry_channel ?e = c" and "en_occupied ?e" by simp_all
  show "\<not> en_thread_started ?e" using nr(2) by (simp add: configure_entry_def Let_def)
  have "manager_inv (put_slot i ?e m)"
    by (rule put_slot_inv [OF assms(1) i conf(1)])
      (use assms(3) find_entry_None_iff [OF assms(1)] ch in \<open>auto simp: entry_id_def\<close>)
  moreover have "put_slot i ?e m = m\<lparr>mg_entries := (mg_entries m)[i := ?e]\<rparr>"
    using conf(5) nr(1) by (simp add: put_slot_def)
  ultimately show "manager_inv (m\<lparr>mg_entries := (mg_entries m)[i := ?e]\<rparr>)" by simp
qed

definition unserved :: "gw_channel_manager \<Rightarrow> gw_channel_config list \<Rightarrow> bool" where
  "unserved m cs \<longleftrightarrow> distinct (map ch_id cs) \<and> (\<forall>c \<in> set cs. find_entry m (ch_id c) = None)"

definition idle :: "gw_channel_manager \<Rightarrow> bool" where
  "idle m \<longleftrightarrow> (\<forall>e \<in> set (mg_entries m). \<not> en_thread_started e)"

lemma fill_entries_result:
  assumes "manager_inv m" and "serves config m" and "length (channels config) \<le> GW_MAX_CHANNELS"
    and "ids_fit config" and "set cs \<subseteq> set (channels config)" and "unserved m cs" and "idle m"
  shows "\<exists>es. fill_entries config opts cs (mg_entries m) = Some es \<and> manager_inv (m\<lparr>mg_entries := es\<rparr>) \<and>
     serves config (m\<lparr>mg_entries := es\<rparr>) \<and> idle (m\<lparr>mg_entries := es\<rparr>) \<and>
     managed m \<union> {c \<in> set cs. ch_enabled c} \<subseteq> managed (m\<lparr>mg_entries := es\<rparr>)"
  using assms(1,2,5,6,7)
proof (induction cs arbitrary: m)
  case Nil
  then show ?case by auto
next
  case (Cons c cs)
  have c: "c \<in> set (channels config)" "length (ch_id c) < GW_ID_CAP" using Cons.prems(3) assms(4) by (auto simp: list_all_iff)
  from Cons.prems(4) have un: "unserved m cs" and none: "find_entry m (ch_id c) = None" by (auto simp: unserved_def)
  show ?case
  proof (cases "ch_enabled c")
    case False
    with Cons.IH [OF Cons.prems(1,2) _ un Cons.prems(5)] Cons.prems(3) show ?thesis by auto
  next
    case en: True
    from free_slot_exists [OF Cons.prems(1,2) assms(3) c(1) none] obtain i where i: "find_free_entry (mg_entries m) = Some i" by blast
    note cf = configure_free(1,4-6) [OF Cons.prems(1) i none en c(2), of config opts]
      and fr = configure_free(2,3) [OF Cons.prems(1) i none en c(2)]
    let ?m = "m\<lparr>mg_entries := (mg_entries m)[i := configure_entry c config opts (mg_entries m ! i)]\<rparr>"
    have len: "i < length (mg_entries m)" using inv_slot(2) [OF Cons.prems(1) fr(1)] .
    have nth: "(mg_entries m)[i := configure_entry c config opts (mg_entries m ! i)] ! k = (if k = i then configure_entry c config opts (mg_entries m ! i) else mg_entries m ! k)" for k
      using len by (simp add: nth_list_update)
    have "serves config ?m" using Cons.prems(2) c(1) en cf(3) by (auto simp: serves_def nth)
    moreover have "unserved ?m cs"
      using Cons.prems(4) un none cf(1,3) by (auto simp: unserved_def find_entry_None_iff [OF cf(1)]
          find_entry_None_iff [OF Cons.prems(1)] nth entry_id_def)
    moreover have "idle ?m"
      using Cons.prems(5) cf(2) set_update_subset_insert [of "mg_entries m" i] by (auto simp: idle_def)
    ultimately obtain es where es: "fill_entries config opts cs (mg_entries ?m) = Some es"
      "manager_inv (?m\<lparr>mg_entries := es\<rparr>)" "serves config (?m\<lparr>mg_entries := es\<rparr>)" "idle (?m\<lparr>mg_entries := es\<rparr>)"
      "managed ?m \<union> {c \<in> set cs. ch_enabled c} \<subseteq> managed (?m\<lparr>mg_entries := es\<rparr>)"
      using Cons.IH [OF cf(1)] Cons.prems(3) by auto
    have "managed m \<union> {c} \<subseteq> managed ?m"
      using fr cf(3,4) by (auto simp: managed_def nth split: if_splits)
    with es en i show ?thesis by auto
  qed
qed

definition empty_manager :: "gw_config \<Rightarrow> gw_supervisor_options \<Rightarrow> gw_channel_manager" where
  "empty_manager config options =
     \<lparr>mg_config = config, mg_caller_options = options, mg_stop_signal = 0, mg_active_threads = 0,
      mg_metrics_stop_requested = False, mg_metrics_thread_started = False,
      mg_entries = replicate GW_MAX_CHANNELS empty_entry, mg_started = False, mg_result = 0\<rparr>"

lemma empty_manager_ok:
  "manager_inv (empty_manager config options)" "serves config' (empty_manager config options)"
  "idle (empty_manager config options)" "find_entry (empty_manager config options) cid = None"
proof -
  have "entry_ok empty_entry" by (simp add: entry_ok_def empty_entry_def)
  then have "manager_inv (empty_manager config options)"
    by (simp add: manager_inv_def empty_manager_def list_all_iff) (simp add: empty_entry_def)
  then show "manager_inv (empty_manager config options)" "find_entry (empty_manager config options) cid = None"
    by (simp_all add: find_entry_None_iff) (simp add: empty_manager_def empty_entry_def)
  show "serves config' (empty_manager config options)" "idle (empty_manager config options)"
    by (simp_all add: serves_def idle_def empty_manager_def empty_entry_def)
qed

lemma create_cases:
  assumes "config_bounded config"
  shows "\<exists>st mo e. gw_channel_manager_create a inet4 inet6 config options err = Some (st, mo, e) \<and>
     (st = GW_OK \<longleftrightarrow> mo \<noteq> None) \<and>
     (\<forall>m. mo = Some m \<longrightarrow> manager_inv m \<and> idle m \<and> \<not> mg_started m \<and> mg_stop_signal m = 0 \<and> mg_config m = config \<and>
        valid_config (\<lambda>s. inet4 s \<or> inet6 s) config \<and> managed m = {c \<in> set (channels config). ch_enabled c} \<and> managed m \<noteq> {})"
proof -
  obtain vst ve where v: "gw_config_validate inet4 inet6 config err = (vst, ve)" by fastforce
  show ?thesis
  proof (cases "so_ffmpeg_binary options \<noteq> [] \<and> vst = GW_OK \<and> filter ch_enabled (channels config) \<noteq> [] \<and>
      ca_alloc a \<and> ca_rwlock a = None \<and> ca_mutex a = None")
    case False
    have "error_code_or ve GW_ERR_VALIDATION \<noteq> GW_OK" if "vst \<noteq> GW_OK"
      using that v validate_error_code [of inet4 inet6 config err] by simp
    with False v show ?thesis
      by (auto simp: gw_channel_manager_create_def split: option.splits if_splits)
  next
    case True
    have valid: "valid_config (\<lambda>s. inet4 s \<or> inet6 s) config"
      using validate_status [of inet4 inet6 config err] v True by (simp split: if_splits)
    have b: "length (channels config) \<le> GW_MAX_CHANNELS" "ids_fit config" "distinct (map ch_id (channels config))"
      using assms valid by (auto simp: config_bounded_def channel_bounded_def list_all_iff valid_config_def)
    let ?m = "empty_manager config options"
    have un: "unserved ?m (channels config)" using b(3) empty_manager_ok(4) by (simp add: unserved_def)
    from fill_entries_result [OF empty_manager_ok(1,2) b(1,2) order_refl un empty_manager_ok(3), of options]
    obtain es where es: "fill_entries config options (channels config) (mg_entries ?m) = Some es"
      "manager_inv (?m\<lparr>mg_entries := es\<rparr>)" "serves config (?m\<lparr>mg_entries := es\<rparr>)" "idle (?m\<lparr>mg_entries := es\<rparr>)"
      "{c \<in> set (channels config). ch_enabled c} \<subseteq> managed (?m\<lparr>mg_entries := es\<rparr>)" by auto
    have "managed (?m\<lparr>mg_entries := es\<rparr>) = {c \<in> set (channels config). ch_enabled c}"
      by (rule managed_serves [OF es(3,5)])
    moreover have "{c \<in> set (channels config). ch_enabled c} \<noteq> {}" using True by (auto simp: filter_empty_conv)
    ultimately show ?thesis using True v valid es
      by (auto simp: gw_channel_manager_create_def empty_manager_def)
  qed
qed

section \<open>Starting\<close>

interpretation st: slot_loop "\<lambda>m. m" "stop_entry joins" "\<lambda>i. stopped (joins i)" "\<lambda>m. True" "\<lambda>i. own_snapshots (joins i)"
  for joins
proof
  show "slot_step i (stopped (joins i) (mg_entries m ! i)) m (stop_entry joins i m) \<and> True"
    if "i < GW_MAX_CHANNELS" "manager_inv m" for i m
    using stop_entry_slot [OF inv_slot(2) [OF that(2,1)]] put_slot_step by simp
qed (simp add: stopped_ok)

definition joins_lawful :: "(nat \<Rightarrow> join_answer) \<Rightarrow> gw_channel_manager \<Rightarrow> bool" where
  "joins_lawful joins m \<longleftrightarrow> (\<forall>i < GW_MAX_CHANNELS. own_snapshots (joins i) (mg_entries m ! i))"

definition same_channels :: "gw_channel_manager \<Rightarrow> gw_channel_manager \<Rightarrow> bool" where
  "same_channels m m' \<longleftrightarrow> (\<forall>k < GW_MAX_CHANNELS. en_occupied (mg_entries m' ! k) = en_occupied (mg_entries m ! k) \<and>
     entry_channel (mg_entries m' ! k) = entry_channel (mg_entries m ! k))"

lemma same_channels_managed: "same_channels m m' \<Longrightarrow> managed m' = managed m"
  by (auto simp: same_channels_def managed_def)

lemma same_channels_trans: "same_channels m m1 \<Longrightarrow> same_channels m1 m2 \<Longrightarrow> same_channels m m2"
  by (simp add: same_channels_def)

lemma same_channels_lawful: "same_channels m m' \<Longrightarrow> joins_lawful joins m' = joins_lawful joins m"
  by (simp add: same_channels_def joins_lawful_def own_snapshots_def entry_id_def)

lemma idle_nth: "manager_inv m \<Longrightarrow> idle m \<longleftrightarrow> (\<forall>k < GW_MAX_CHANNELS. \<not> en_thread_started (mg_entries m ! k))"
  by (simp add: idle_def manager_inv_def all_set_conv_all_nth)

lemma stop_entries_result:
  assumes "manager_inv m" and "joins_lawful joins m"
  shows "manager_inv (stop_entries joins m) \<and> idle (stop_entries joins m) \<and> same_channels m (stop_entries joins m)"
proof -
  note a = st.all_slots [where s = m and joins = joins, folded stop_entries_def, OF assms(1) TrueI]
  have own: "own_snapshots (joins i) (mg_entries m ! i)" if "i < GW_MAX_CHANNELS" for i
    using assms(2) that by (simp add: joins_lawful_def)
  have inv: "manager_inv (stop_entries joins m)" by (rule a(1)) (use own in simp)
  have nth: "mg_entries (stop_entries joins m) ! k = stopped (joins k) (mg_entries m ! k)" if "k < GW_MAX_CHANNELS" for k
    by (rule a(3)) (use own that in simp_all)
  show ?thesis using inv by (simp add: idle_nth nth same_channels_def)
qed

text \<open>The flags of the manager itself do not matter to the registry, and the loops do not touch them.\<close>

lemma flag_updates [simp]:
  "manager_inv (m\<lparr>mg_started := b\<rparr>) = manager_inv m" "managed (m\<lparr>mg_started := b\<rparr>) = managed m"
  "idle (m\<lparr>mg_started := b\<rparr>) = idle m"
  "manager_inv (m\<lparr>mg_metrics_thread_started := b\<rparr>) = manager_inv m"
  "managed (m\<lparr>mg_metrics_thread_started := b\<rparr>) = managed m"
  "manager_inv (m\<lparr>mg_metrics_stop_requested := b\<rparr>) = manager_inv m"
  "manager_inv (m\<lparr>mg_result := r\<rparr>) = manager_inv m"
  "manager_inv (gw_channel_manager_request_stop sig m) = manager_inv m"
  "joins_lawful joins (gw_channel_manager_request_stop sig m) = joins_lawful joins m"
  "managed (gw_channel_manager_request_stop sig m) = managed m"
  "idle (gw_channel_manager_request_stop sig m) = idle m"
  by (simp_all add: manager_inv_def managed_def idle_def joins_lawful_def gw_channel_manager_request_stop_def)

lemma stop_entries_frame:
  "mg_stop_signal (stop_entries joins m) = mg_stop_signal m" "mg_started (stop_entries joins m) = mg_started m"
proof -
  have o: "mg_stop_signal (fold (manager_observe i) ss m) = mg_stop_signal m \<and>
      mg_started (fold (manager_observe i) ss m) = mg_started m" for i ss m
    by (induction ss arbitrary: m) (simp_all add: manager_observe_def on_entry_def)
  have e: "mg_stop_signal (stop_entry joins i m) = mg_stop_signal m \<and> mg_started (stop_entry joins i m) = mg_started m" for i m
    by (simp add: stop_entry_def join_entry_def run_channel_return_def on_entry_def o Let_def)
  have "mg_stop_signal (fold (stop_entry joins) ks m) = mg_stop_signal m \<and>
      mg_started (fold (stop_entry joins) ks m) = mg_started m" for ks m
    by (induction ks arbitrary: m) (simp_all add: e)
  then show "mg_stop_signal (stop_entries joins m) = mg_stop_signal m" "mg_started (stop_entries joins m) = mg_started m"
    by (simp_all add: stop_entries_def)
qed

lemma start_entry_frame:
  "start_entry creates i m err = (st, m', e') \<Longrightarrow>
   mg_started m' = mg_started m \<and> mg_stop_signal m' = mg_stop_signal m \<and> mg_config m' = mg_config m"
  by (auto simp: start_entry_def on_entry_def Let_def split: option.splits)

lemma start_entries_frame:
  "start_entries creates is m err = (st, m', e') \<Longrightarrow>
   mg_started m' = mg_started m \<and> mg_stop_signal m' = mg_stop_signal m \<and> mg_config m' = mg_config m"
  by (induction "is" arbitrary: m err) (auto split: if_splits prod.splits dest: start_entry_frame)

lemma start_entry_inv:
  assumes "manager_inv m" and "i < GW_MAX_CHANNELS" and "en_occupied (mg_entries m ! i)"
    and "\<not> en_thread_running (mg_entries m ! i)" and "start_entry creates i m err = (st, m', e')"
  shows "manager_inv m'" and "m' = put_slot i (launched (creates i) (mg_entries m ! i)) m"
    and "st = (if creates i = None then GW_OK else GW_ERR_IO)" and "same_channels m m'"
    and "st = GW_OK \<Longrightarrow> en_thread_running (mg_entries m' ! i) \<and> en_thread_started (mg_entries m' ! i)"
    and "k \<noteq> i \<Longrightarrow> mg_entries m' ! k = mg_entries m ! k"
proof -
  note ok = inv_slot [OF assms(1,2)]
  from start_entry_slot [OF ok(2) assms(4), of creates err] assms(5)
  show m': "m' = put_slot i (launched (creates i) (mg_entries m ! i)) m"
    and st: "st = (if creates i = None then GW_OK else GW_ERR_IO)" by simp_all
  note la = entry_ok_launched [OF ok(1) assms(3,4), of "creates i"]
  show "manager_inv m'" unfolding m' by (rule put_slot_same_id [OF assms(1,2) la(1)]) (use la assms(3) in simp)
  show "same_channels m m'"
    using la(2,4) assms(3) ok(2) by (auto simp: m' same_channels_def nth_list_update entry_channel_def)
  show "en_thread_running (mg_entries m' ! i) \<and> en_thread_started (mg_entries m' ! i)" if "st = GW_OK"
    using that st ok(2) by (simp add: m' launched_def split: if_splits)
  show "mg_entries m' ! k = mg_entries m ! k" if "k \<noteq> i" using that by (simp add: m')
qed

lemma start_entries_result:
  assumes "manager_inv m" and "distinct is" and "set is \<subseteq> {..<GW_MAX_CHANNELS}"
    and "\<forall>i \<in> set is. \<not> en_thread_running (mg_entries m ! i)" and "start_entries creates is m err = (st, m', e')"
  shows "manager_inv m' \<and> same_channels m m' \<and> st \<in> {GW_OK, GW_ERR_IO} \<and>
     ((\<forall>i. creates i = None) \<longrightarrow> st = GW_OK) \<and>
     (\<forall>k. k \<notin> set is \<longrightarrow> mg_entries m' ! k = mg_entries m ! k) \<and>
     (st = GW_OK \<longrightarrow> (\<forall>i \<in> set is. en_occupied (mg_entries m' ! i) \<longrightarrow> en_thread_running (mg_entries m' ! i)))"
  using assms
proof (induction "is" arbitrary: m err)
  case Nil
  then show ?case by (simp add: same_channels_def)
next
  case (Cons i js)
  then have i: "i < GW_MAX_CHANNELS" "\<not> en_thread_running (mg_entries m ! i)" "i \<notin> set js" by auto
  show ?case
  proof (cases "en_occupied (mg_entries m ! i)")
    case False
    with Cons.prems have r: "start_entries creates js m err = (st, m', e')" by simp
    note Cons.IH [OF Cons.prems(1) _ _ _ r]
    with Cons.prems(2-4) False i show ?thesis by auto
  next
    case True
    obtain st1 m1 e1 where s1: "start_entry creates i m err = (st1, m1, e1)" by (metis prod_cases3)
    note se = start_entry_inv [OF Cons.prems(1) i(1) True i(2) s1]
    show ?thesis
    proof (cases "st1 = GW_OK")
      case False
      with Cons.prems(5) True s1 have "st = st1" "m' = m1" by auto
      with se False show ?thesis by (auto split: if_splits)
    next
      case ok: True
      with Cons.prems(5) True s1 have r: "start_entries creates js m1 e1 = (st, m', e')" by simp
      have "\<forall>j \<in> set js. \<not> en_thread_running (mg_entries m1 ! j)"
      proof
        fix j assume j: "j \<in> set js"
        with i(3) have "j \<noteq> i" by auto
        with se(6) j Cons.prems(4) show "\<not> en_thread_running (mg_entries m1 ! j)" by simp
      qed
      note ih = Cons.IH [OF se(1) _ _ this r]
      with Cons.prems(2,3) i(3) se(4-6) ok same_channels_trans show ?thesis by auto
    qed
  qed
qed

lemma idle_no_threads:
  assumes "manager_inv m" and "idle m"
  shows "mg_active_threads m = 0" and "\<forall>e \<in> set (mg_entries m). \<not> en_thread_running e"
proof -
  show nr: "\<forall>e \<in> set (mg_entries m). \<not> en_thread_running e"
    using assms by (auto simp: manager_inv_def idle_def list_all_iff entry_ok_def)
  then have "filter en_thread_running (mg_entries m) = []" by (simp add: filter_empty_conv)
  then show "mg_active_threads m = 0" using assms(1) by (simp add: manager_inv_def)
qed

lemma same_channels_refl [simp]: "mg_entries m' = mg_entries m \<Longrightarrow> same_channels m m'"
  by (simp add: same_channels_def)

lemma manager_start_result:
  assumes "manager_inv m" and "idle m" and "\<not> mg_started m" and "joins_lawful joins m"
    and "gw_channel_manager_start creates metrics joins m err = (st, m', e')"
  shows "manager_inv m' \<and> managed m' = managed m \<and>
     (if st = GW_OK
      then mg_started m' \<and> mg_stop_signal m' = mg_stop_signal m \<and> mg_config m' = mg_config m \<and>
           (\<forall>k < GW_MAX_CHANNELS. en_occupied (mg_entries m' ! k) \<longrightarrow> en_thread_running (mg_entries m' ! k))
      else idle m' \<and> mg_active_threads m' = 0 \<and> mg_stop_signal m' \<noteq> 0) \<and>
     ((\<forall>i. creates i = None) \<and> metrics = None \<longrightarrow> st = GW_OK)"
proof -
  let ?m = "m\<lparr>mg_started := True, mg_metrics_stop_requested := False\<rparr>"
  have inv: "manager_inv ?m" using assms(1) by (simp add: manager_inv_def)
  obtain st1 m1 e1 where s1: "start_entries creates [0..<GW_MAX_CHANNELS] ?m err = (st1, m1, e1)" by (metis prod_cases3)
  have len: "length (mg_entries m) = GW_MAX_CHANNELS" using assms(1) by (simp add: manager_inv_def)
  have "\<forall>i \<in> set [0..<GW_MAX_CHANNELS]. \<not> en_thread_running (mg_entries ?m ! i)"
    using idle_no_threads(2) [OF assms(1,2)] len by simp
  from start_entries_result [OF inv distinct_upt _ this s1]
  have r: "manager_inv m1" "same_channels m m1" "st1 \<in> {GW_OK, GW_ERR_IO}" "(\<forall>i. creates i = None) \<longrightarrow> st1 = GW_OK"
    "st1 = GW_OK \<longrightarrow> (\<forall>i < GW_MAX_CHANNELS. en_occupied (mg_entries m1 ! i) \<longrightarrow> en_thread_running (mg_entries m1 ! i))"
    by (auto simp: same_channels_def atLeast0LessThan)
  let ?f = "stop_entries joins (gw_channel_manager_request_stop SIGTERM_NUMBER m1)"
  have law: "joins_lawful joins m1" using same_channels_lawful [OF r(2)] assms(4) by simp
  have f: "manager_inv ?f" "idle ?f" "managed ?f = managed m"
    using stop_entries_result [of "gw_channel_manager_request_stop SIGTERM_NUMBER m1" joins] r(1) law
      same_channels_managed [OF r(2)] same_channels_managed [of "gw_channel_manager_request_stop SIGTERM_NUMBER m1" ?f]
    by simp_all
  note act = idle_no_threads(1) [OF f(1,2)]
  have sig: "mg_stop_signal ?f = SIGTERM_NUMBER" by (simp add: stop_entries_frame gw_channel_manager_request_stop_def)
  consider "st1 \<noteq> GW_OK" | reason where "st1 = GW_OK" "metrics = Some reason" | "st1 = GW_OK" "metrics = None"
    by (cases metrics) auto
  then show ?thesis
  proof cases
    case 1
    with assms(3,5) s1 have "st = st1" "m' = ?f" by (simp_all add: gw_channel_manager_start_def)
    with 1 f act r(4) sig show ?thesis by auto
  next
    case 2
    with assms(3,5) s1 have "st = GW_ERR_IO" "m' = ?f\<lparr>mg_started := False\<rparr>"
      by (simp_all add: gw_channel_manager_start_def Let_def)
    with 2 f act sig show ?thesis by simp
  next
    case 3
    with assms(3,5) s1 have "st = GW_OK" "m' = m1\<lparr>mg_metrics_thread_started := True\<rparr>"
      by (simp_all add: gw_channel_manager_start_def)
    moreover have "mg_started m1" "mg_stop_signal m1 = mg_stop_signal m" "mg_config m1 = mg_config m"
      using start_entries_frame [OF s1] by simp_all
    ultimately show ?thesis using 3 r same_channels_managed [OF r(2)] by simp
  qed
qed

text \<open>After a failed start every channel thread that is ever run again is told to stop, although a metrics thread that
  cannot be created leaves the manager ready to be started again.\<close>

lemma failed_start_stops_everything:
  assumes "manager_inv m" "idle m" "\<not> mg_started m" "joins_lawful joins m"
    "gw_channel_manager_start creates metrics joins m err = (st, m', e')" "st \<noteq> GW_OK"
  shows "entry_stop_requested entry m' caller_check caller_signal \<noteq> 0"
  using manager_start_result [OF assms(1-5)] assms(6) by (simp add: entry_stop_requested_def)

lemma failed_metrics_not_started:
  assumes "\<not> mg_started m" "gw_channel_manager_start creates (Some reason) joins m err = (st, m', e')"
    "start_entries creates [0..<GW_MAX_CHANNELS] (m\<lparr>mg_started := True, mg_metrics_stop_requested := False\<rparr>) err = (GW_OK, m2, e)"
  shows "st = GW_ERR_IO \<and> \<not> mg_started m'"
  using assms by (auto simp: gw_channel_manager_start_def Let_def)

text \<open>C25: starting the manager is all or nothing. On \<open>GW_OK\<close>, which is certain if every thread can be
  created, every occupied slot has a running thread; on a failure, of a channel thread or of the
  metrics thread, every thread that was created has been stopped and joined. In both cases the
  managed channels stay the same and the registry is consistent.\<close>

theorem manager_start_all_or_nothing:
  assumes "manager_inv m" and "idle m" and "\<not> mg_started m" and "joins_lawful joins m"
    and "gw_channel_manager_start creates metrics joins m err = (st, m', e')"
  shows "manager_inv m' \<and> managed m' = managed m \<and>
     (if st = GW_OK
      then mg_started m' \<and> mg_stop_signal m' = mg_stop_signal m \<and> mg_config m' = mg_config m \<and>
           (\<forall>k < GW_MAX_CHANNELS. en_occupied (mg_entries m' ! k) \<longrightarrow> en_thread_running (mg_entries m' ! k))
      else idle m' \<and> mg_active_threads m' = 0 \<and> mg_stop_signal m' \<noteq> 0) \<and>
     ((\<forall>i. creates i = None) \<and> metrics = None \<longrightarrow> st = GW_OK)"
  by (rule manager_start_result [OF assms])

section \<open>Commands\<close>

lemma find_entry_SomeD:
  assumes "manager_inv m" and "find_entry m cid = Some i"
  shows "i < GW_MAX_CHANNELS" "en_occupied (mg_entries m ! i)" "entry_id (mg_entries m ! i) = cid"
  using scan_free_SomeD [OF assms(2) [unfolded find_entry_def]] assms(1) by (auto simp: manager_inv_def entry_id_def)

lemma find_entry_unique:
  assumes "manager_inv m" and "k < GW_MAX_CHANNELS" and "en_occupied (mg_entries m ! k)"
  shows "find_entry m (entry_id (mg_entries m ! k)) = Some k"
proof (cases "find_entry m (entry_id (mg_entries m ! k))")
  case None
  then show ?thesis using find_entry_None_iff [OF assms(1)] assms(2,3) by auto
next
  case (Some i)
  with find_entry_SomeD [OF assms(1) Some] assms show ?thesis by (auto simp: manager_inv_def)
qed

definition available :: "gw_channel_manager \<Rightarrow> string \<Rightarrow> bool" where
  "available m cid \<longleftrightarrow> cid \<noteq> [] \<and> mg_started m \<and> mg_stop_signal m = 0"

lemma with_command_cases:
  "with_command m cid err body =
     (if available m cid then case find_entry m cid of
        Some i \<Rightarrow> body i err
      | None \<Rightarrow> (GW_ERR_NOT_FOUND, m, gw_error_set err GW_ERR_NOT_FOUND (quoted cid @ '' is not managed''))
      else if cid = [] then (GW_ERR_ARGUMENT, m, gw_error_set err GW_ERR_ARGUMENT ''manager and channel id are required'')
      else (GW_ERR_CONFLICT, m, gw_error_set err GW_ERR_CONFLICT ''channel manager is not available for control''))"
  by (auto simp: with_command_def command_entry_def available_def split: option.splits)

text \<open>What a command may do: nothing outside the slot it names, and the registry stays consistent.\<close>

definition only_slot :: "nat \<Rightarrow> gw_channel_manager \<Rightarrow> gw_channel_manager \<Rightarrow> bool" where
  "only_slot i m m' \<longleftrightarrow> manager_inv m' \<and> same_channels m m' \<and> (\<forall>k. k \<noteq> i \<longrightarrow> mg_entries m' ! k = mg_entries m ! k) \<and>
     mg_started m' = mg_started m \<and> mg_stop_signal m' = mg_stop_signal m"

lemma only_slot_refl: "manager_inv m \<Longrightarrow> only_slot i m m"
  by (simp add: only_slot_def)

lemma only_slot_trans: "only_slot i m m1 \<Longrightarrow> only_slot i m1 m2 \<Longrightarrow> only_slot i m m2"
  using same_channels_trans by (auto simp: only_slot_def)

lemma put_only_slot:
  assumes "manager_inv m" and "i < GW_MAX_CHANNELS" and "entry_ok e" and "en_occupied e = en_occupied (mg_entries m ! i)"
    and "entry_channel e = entry_channel (mg_entries m ! i)"
  shows "only_slot i m (put_slot i e m)"
  using put_slot_same_id [OF assms(1-3)] assms(4,5) inv_slot(2) [OF assms(1,2)]
  by (auto simp: only_slot_def same_channels_def entry_id_def nth_list_update)

lemma joined_channel [simp]: "entry_channel (joined a e) = entry_channel e"
  by (simp add: joined_def entry_channel_def)

lemma stop_only_slot:
  assumes "manager_inv m" and "i < GW_MAX_CHANNELS" and "own_snapshots (joins i) (mg_entries m ! i)"
  shows "only_slot i m (stop_entry joins i m)" "mg_entries (stop_entry joins i m) ! i = stopped (joins i) (mg_entries m ! i)"
    "only_slot i m (join_entry (joins i) i m)" "mg_entries (join_entry (joins i) i m) ! i = joined (joins i) (mg_entries m ! i)"
proof -
  note ok = inv_slot [OF assms(1,2)] and s = stopped_ok [OF inv_slot(1) [OF assms(1,2)] assms(3)]
  show "only_slot i m (stop_entry joins i m)" "only_slot i m (join_entry (joins i) i m)"
    unfolding stop_entry_slot [OF ok(2)] join_entry_slot [OF ok(2)]
    by (rule put_only_slot [OF assms(1,2)], use s in simp_all)+
  show "mg_entries (stop_entry joins i m) ! i = stopped (joins i) (mg_entries m ! i)"
    "mg_entries (join_entry (joins i) i m) ! i = joined (joins i) (mg_entries m ! i)"
    unfolding stop_entry_slot [OF ok(2)] join_entry_slot [OF ok(2)] using ok(2) by simp_all
qed

lemma start_only_slot:
  assumes "manager_inv m" and "i < GW_MAX_CHANNELS" and "en_occupied (mg_entries m ! i)"
    and "\<not> en_thread_running (mg_entries m ! i)" and "start_entry creates i m err = (st, m', e')"
  shows "only_slot i m m'"
  using start_entry_inv [OF assms] start_entry_frame [OF assms(5)] by (simp add: only_slot_def)

lemma stop_channel_result:
  assumes "manager_inv m" and "joins_lawful joins m"
    and "gw_channel_manager_stop_channel joins m cid err = (st, m', e')"
  shows "(st = GW_OK \<longleftrightarrow> available m cid \<and> (\<exists>k. find_entry m cid = Some k \<and> en_thread_running (mg_entries m ! k))) \<and>
     (\<forall>k. find_entry m cid = Some k \<longrightarrow> only_slot k m m' \<and>
        (available m cid \<longrightarrow> \<not> en_thread_started (mg_entries m' ! k) \<and> \<not> en_thread_running (mg_entries m' ! k))) \<and>
     (find_entry m cid = None \<longrightarrow> m' = m)"
proof (cases "find_entry m cid")
  case None
  with assms show ?thesis by (auto simp: gw_channel_manager_stop_channel_def with_command_cases split: if_splits)
next
  case (Some i)
  note i = find_entry_SomeD [OF assms(1) Some]
  have own: "own_snapshots (joins i) (mg_entries m ! i)" using assms(2) i(1) by (simp add: joins_lawful_def)
  note ok = inv_slot(1) [OF assms(1) i(1)] and so = stop_only_slot [where joins = joins, OF assms(1) i(1) own]
  have run: "en_thread_running (mg_entries m ! i) \<Longrightarrow> en_thread_started (mg_entries m ! i)" using ok by (simp add: entry_ok_def)
  show ?thesis
  proof (cases "available m cid \<and> en_thread_running (mg_entries m ! i)")
    case True
    with assms(3) Some run have "st = GW_OK" "m' = stop_entry joins i m"
      by (auto simp: gw_channel_manager_stop_channel_def with_command_cases)
    with True Some so(1,2) stopped_not_running [OF ok] show ?thesis by simp
  next
    case False
    with assms(3) Some run only_slot_refl [OF assms(1)] so(3,4) show ?thesis
      by (auto simp: gw_channel_manager_stop_channel_def with_command_cases Let_def split: if_splits)
  qed
qed

text \<open>Stopping one channel. The command succeeds exactly if the manager is available, the channel is
  managed and its thread is running; then the thread has been joined and its slot has no thread any
  more. Whatever the outcome, every other slot is as before, the managed channels are the same,
  and the registry stays consistent.\<close>

theorem stop_channel_exact:
  assumes "manager_inv m" and "joins_lawful joins m"
    and "gw_channel_manager_stop_channel joins m cid err = (st, m', e')"
  shows "(st = GW_OK \<longleftrightarrow> available m cid \<and> (\<exists>k. find_entry m cid = Some k \<and> en_thread_running (mg_entries m ! k))) \<and>
     (\<forall>k. find_entry m cid = Some k \<longrightarrow> only_slot k m m' \<and>
        (available m cid \<longrightarrow> \<not> en_thread_started (mg_entries m' ! k) \<and> \<not> en_thread_running (mg_entries m' ! k))) \<and>
     (find_entry m cid = None \<longrightarrow> m' = m)"
  by (rule stop_channel_result [OF assms])

lemma start_channel_result:
  assumes "manager_inv m" and "joins_lawful joins m"
    and "gw_channel_manager_start_channel creates joins m cid err = (st, m', e')"
  shows "(st = GW_OK \<longleftrightarrow> available m cid \<and> (\<exists>k. find_entry m cid = Some k \<and> \<not> en_thread_running (mg_entries m ! k) \<and>
        sn_state (en_snapshot (mg_entries m ! k)) \<in> {GW_CHANNEL_STOPPED, GW_CHANNEL_FAILED} \<and> creates k = None)) \<and>
     (\<forall>k. find_entry m cid = Some k \<longrightarrow> only_slot k m m' \<and> (st = GW_OK \<longrightarrow> en_thread_running (mg_entries m' ! k))) \<and>
     (find_entry m cid = None \<longrightarrow> m' = m)"
proof (cases "find_entry m cid")
  case None
  with assms show ?thesis by (auto simp: gw_channel_manager_start_channel_def with_command_cases split: if_splits)
next
  case (Some i)
  note i = find_entry_SomeD [OF assms(1) Some]
  let ?e = "mg_entries m ! i"
  have own: "own_snapshots (joins i) ?e" using assms(2) i(1) by (simp add: joins_lawful_def)
  note ok = inv_slot(1) [OF assms(1) i(1)] and so = stop_only_slot(3,4) [where joins = joins, OF assms(1) i(1) own]
  define m1 where "m1 = (if en_thread_started ?e \<and> \<not> en_thread_running ?e then join_entry (joins i) i m else m)"
  note body = assms(3) [unfolded gw_channel_manager_start_channel_def with_command_cases Some option.case Let_def, folded m1_def]
  have m1: "only_slot i m m1" "en_occupied (mg_entries m1 ! i)" "en_snapshot (mg_entries m1 ! i) = en_snapshot ?e"
    "en_thread_running (mg_entries m1 ! i) = en_thread_running ?e" "en_thread_started (mg_entries m1 ! i) = en_thread_running ?e"
    using so only_slot_refl [OF assms(1)] i(2) ok by (auto simp: m1_def joined_def entry_ok_def)
  show ?thesis
  proof (cases "available m cid \<and> \<not> en_thread_running ?e \<and>
      sn_state (en_snapshot ?e) \<in> {GW_CHANNEL_STOPPED, GW_CHANNEL_FAILED}")
    case False
    with body Some m1 only_slot_refl [OF assms(1)] show ?thesis by (auto split: if_splits)
  next
    case True
    obtain x m2 z where st: "start_entry creates i m1 err = (x, m2, z)" by (metis prod_cases3)
    have inv: "manager_inv m1" using m1(1) by (simp add: only_slot_def)
    note se = start_entry_inv [OF inv i(1) m1(2) _ st] and os = start_only_slot [OF inv i(1) m1(2) _ st]
    have "st = x" "m' = m2"
      using body Some True m1 st by (auto simp: clear_if_ok_def)
    with True Some se(3,5) m1(4) only_slot_trans [OF m1(1) os] show ?thesis by (auto split: if_splits)
  qed
qed

text \<open>Starting one channel. The command succeeds exactly if the manager is available, the channel is
  managed, no thread of it is running, its last published state is STOPPED or FAILED and the thread
  can be created; then the thread is running. Nothing outside its slot changes.\<close>

theorem start_channel_exact:
  assumes "manager_inv m" and "joins_lawful joins m"
    and "gw_channel_manager_start_channel creates joins m cid err = (st, m', e')"
  shows "(st = GW_OK \<longleftrightarrow> available m cid \<and> (\<exists>k. find_entry m cid = Some k \<and> \<not> en_thread_running (mg_entries m ! k) \<and>
        sn_state (en_snapshot (mg_entries m ! k)) \<in> {GW_CHANNEL_STOPPED, GW_CHANNEL_FAILED} \<and> creates k = None)) \<and>
     (\<forall>k. find_entry m cid = Some k \<longrightarrow> only_slot k m m' \<and> (st = GW_OK \<longrightarrow> en_thread_running (mg_entries m' ! k))) \<and>
     (find_entry m cid = None \<longrightarrow> m' = m)"
  by (rule start_channel_result [OF assms])

lemma restart_channel_slot:
  assumes "manager_inv m" and "joins_lawful joins m"
    and "gw_channel_manager_restart_channel creates joins m cid err = (st, m', e')"
  shows "manager_inv m' \<and> mg_started m' = mg_started m"
proof (cases "\<exists>i. available m cid \<and> find_entry m cid = Some i")
  case False
  with assms show ?thesis
    by (auto simp: gw_channel_manager_restart_channel_def with_command_cases split: if_splits option.splits)
next
  case True
  then obtain i where Some: "find_entry m cid = Some i" and av: "available m cid" by blast
  note i = find_entry_SomeD [OF assms(1) Some]
  have own: "own_snapshots (joins i) (mg_entries m ! i)" using assms(2) i(1) by (simp add: joins_lawful_def)
  note ok = inv_slot(1) [OF assms(1) i(1)] and so = stop_only_slot(1,2) [where joins = joins, OF assms(1) i(1) own]
  obtain x m2 z where s2: "start_entry creates i (stop_entry joins i m) err = (x, m2, z)" by (metis prod_cases3)
  have "only_slot i (stop_entry joins i m) m2"
    by (rule start_only_slot [OF _ i(1) _ _ s2]) (use so i(2) stopped_not_running [OF ok] in \<open>auto simp: only_slot_def\<close>)
  from only_slot_trans [OF so(1) this] assms(3) Some av s2 show ?thesis
    by (auto simp: gw_channel_manager_restart_channel_def with_command_cases clear_if_ok_def only_slot_def)
qed

section \<open>Waiting for the end\<close>

definition waited :: "(nat \<Rightarrow> join_answer) \<Rightarrow> nat \<Rightarrow> gw_channel_entry \<Rightarrow> gw_channel_entry" where
  "waited joins i e = (if en_occupied e \<and> en_thread_started e then joined (joins i) e else e)"

lemma waited_simps [simp]:
  "en_occupied (waited joins i e) = en_occupied e" "entry_channel (waited joins i e) = entry_channel e"
  by (simp_all add: waited_def)

lemma wait_slot_entries:
  assumes "i < GW_MAX_CHANNELS" and "manager_inv m"
  shows "slot_step i (waited joins i (mg_entries m ! i)) m (wait_slot joins i m)"
    and "mg_result (wait_slot joins i m) =
      (if en_occupied (mg_entries m ! i) \<and> en_result (waited joins i (mg_entries m ! i)) \<noteq> 0 then 1 else mg_result m)"
    and "mg_started (wait_slot joins i m) = mg_started m"
proof -
  note ok = inv_slot(2) [OF assms(2,1)]
  have keep: "put_slot i (mg_entries m ! i) m = m" by (simp add: put_slot_def)
  let ?m = "put_slot i (waited joins i (mg_entries m ! i)) m"
  have m1: "(if en_occupied (mg_entries m ! i) \<and> en_thread_started (mg_entries m ! i) then join_entry (joins i) i m else m) = ?m"
    by (simp add: waited_def join_entry_slot [OF ok] keep)
  have w: "wait_slot joins i m =
      (if en_occupied (mg_entries m ! i) \<and> en_result (waited joins i (mg_entries m ! i)) \<noteq> 0 then ?m\<lparr>mg_result := 1\<rparr> else ?m)"
    unfolding wait_slot_def Let_def m1 using ok by simp
  show "slot_step i (waited joins i (mg_entries m ! i)) m (wait_slot joins i m)"
    "mg_result (wait_slot joins i m) =
      (if en_occupied (mg_entries m ! i) \<and> en_result (waited joins i (mg_entries m ! i)) \<noteq> 0 then 1 else mg_result m)"
    "mg_started (wait_slot joins i m) = mg_started m"
    unfolding w by (simp_all add: slot_step_def)
qed

interpretation wt: slot_loop "\<lambda>m. m" "wait_slot joins" "waited joins" "\<lambda>m. mg_started m" "\<lambda>i. own_snapshots (joins i)"
  for joins
proof
  show "slot_step i (waited joins i (mg_entries m ! i)) m (wait_slot joins i m) \<and> mg_started (wait_slot joins i m)"
    if "i < GW_MAX_CHANNELS" "manager_inv m" "mg_started m" for i m
    using wait_slot_entries(1,3) [OF that(1,2)] that(3) by simp
  show "entry_ok (waited joins i e) \<and> (en_occupied (waited joins i e) \<longrightarrow> en_occupied e \<and> entry_id (waited joins i e) = entry_id e)"
    if "entry_ok e" "own_snapshots (joins i) e" for i e
    using that stopped_ok(2) [OF that] by (simp add: waited_def)
qed

lemma wait_result:
  assumes "distinct is" and "set is \<subseteq> {..<GW_MAX_CHANNELS}" and "manager_inv m" and "mg_started m"
    and "\<forall>i \<in> set is. own_snapshots (joins i) (mg_entries m ! i)"
  shows "mg_result (fold (wait_slot joins) is m) =
     (if \<exists>i \<in> set is. en_occupied (mg_entries m ! i) \<and> en_result (waited joins i (mg_entries m ! i)) \<noteq> 0
      then 1 else mg_result m)"
  using assms
proof (induction "is" arbitrary: m)
  case Nil
  then show ?case by simp
next
  case (Cons i js)
  then have i: "i < GW_MAX_CHANNELS" "own_snapshots (joins i) (mg_entries m ! i)" "i \<notin> set js" by auto
  note w = wait_slot_entries [OF i(1) Cons.prems(3), of joins]
    and inv = wt.step_inv [where joins = joins, OF i(1) Cons.prems(3,4) i(2)]
  have same: "mg_entries (wait_slot joins i m) ! k = mg_entries m ! k" if "k \<in> set js" for k
    using that i(3) w(1) by (cases "k = i") (auto simp: slot_step_def)
  have "\<forall>k \<in> set js. own_snapshots (joins k) (mg_entries (wait_slot joins i m) ! k)" using same Cons.prems(5) by simp
  note ih = Cons.IH [OF _ _ inv _ this]
  have "(\<exists>k \<in> set js. en_occupied (mg_entries (wait_slot joins i m) ! k) \<and>
        en_result (waited joins k (mg_entries (wait_slot joins i m) ! k)) \<noteq> 0) \<longleftrightarrow>
      (\<exists>k \<in> set js. en_occupied (mg_entries m ! k) \<and> en_result (waited joins k (mg_entries m ! k)) \<noteq> 0)"
    using same by auto
  with ih w(2,3) Cons.prems show ?case by auto
qed

lemma manager_wait_result:
  assumes "manager_inv m" and "joins_lawful joins m" and "mg_started m"
    and "gw_channel_manager_wait joins m = (rc, m')"
  shows "manager_inv m' \<and> idle m' \<and> managed m' = managed m \<and> gw_channel_manager_is_finished m' \<and>
     rc = (if \<forall>k < GW_MAX_CHANNELS. en_occupied (mg_entries m' ! k) \<longrightarrow> en_result (mg_entries m' ! k) = 0 then 0 else 1)"
proof -
  let ?m = "m\<lparr>mg_result := 0\<rparr>"
  define m1 where "m1 = fold (wait_slot joins) [0..<GW_MAX_CHANNELS] ?m"
  have own: "own_snapshots (joins i) (mg_entries ?m ! i)" if "i < GW_MAX_CHANNELS" for i
    using assms(2) that by (simp add: joins_lawful_def)
  have inv: "manager_inv ?m" "mg_started ?m" using assms(1,3) by simp_all
  note a = wt.all_slots [where s = ?m and joins = joins, OF inv, folded m1_def]
  have inv1: "manager_inv m1" and st1: "mg_started m1" by (rule a(1), use own in simp) (rule a(2), use own in simp)
  have nth: "mg_entries m1 ! k = waited joins k (mg_entries m ! k)" if "k < GW_MAX_CHANNELS" for k
    using a(3) [OF _ that] own by simp
  have "\<forall>i \<in> set [0..<GW_MAX_CHANNELS]. own_snapshots (joins i) (mg_entries ?m ! i)" using own by simp
  from wait_result [OF distinct_upt _ inv this] have res: "mg_result m1 =
      (if \<exists>i < GW_MAX_CHANNELS. en_occupied (mg_entries m ! i) \<and> en_result (waited joins i (mg_entries m ! i)) \<noteq> 0 then 1 else 0)"
    unfolding m1_def by (auto simp: atLeast0LessThan)
  have "\<not> en_thread_started (mg_entries m1 ! k)" if "k < GW_MAX_CHANNELS" for k
    using inv_slot(1) [OF assms(1) that] nth [OF that] by (auto simp: waited_def entry_ok_def)
  then have idle: "idle m1" by (simp add: idle_nth [OF inv1])
  have m': "m' = m1\<lparr>mg_metrics_stop_requested := True, mg_metrics_thread_started := False\<rparr>" "rc = mg_result m1"
    using assms(3,4) by (simp_all add: gw_channel_manager_wait_def Let_def m1_def)
  have "managed m1 = managed m" by (rule same_channels_managed) (simp add: same_channels_def nth)
  with inv1 idle st1 idle_no_threads(1) [OF inv1 idle] res nth show ?thesis
    by (auto simp: m' gw_channel_manager_is_finished_def managed_def idle_def)
qed

text \<open>C30: waiting joins every channel. For a started manager the wait leaves no thread, in any slot;
  it returns 0 exactly if every managed channel's last run returned 0, and 1 otherwise; the manager
  is then finished. (A manager that was not started gives 2 and is not touched.)\<close>

theorem manager_wait_joins_all:
  assumes "manager_inv m" and "joins_lawful joins m" and "mg_started m"
    and "gw_channel_manager_wait joins m = (rc, m')"
  shows "manager_inv m' \<and> idle m' \<and> managed m' = managed m \<and> gw_channel_manager_is_finished m' \<and>
     rc = (if \<forall>k < GW_MAX_CHANNELS. en_occupied (mg_entries m' ! k) \<longrightarrow> en_result (mg_entries m' ! k) = 0 then 0 else 1)"
  by (rule manager_wait_result [OF assms])

section \<open>Reading the registry\<close>

definition visible :: "gw_channel_entry \<Rightarrow> gw_channel_snapshot" where
  "visible e = attach_worker_metrics e (en_snapshot e)"

lemma copy_snapshots_result:
  assumes "length done \<le> capacity"
  shows "copy_snapshots capacity es done =
    (let all = done @ map visible (filter en_occupied es) in (take capacity all, capacity < length all))"
  using assms
proof (induction es arbitrary: "done")
  case Nil
  then show ?case by simp
next
  case (Cons e es)
  show ?case
  proof (cases "en_occupied e \<and> length done < capacity")
    case True
    with Cons.IH [of "done @ [visible e]"] show ?thesis by (simp add: Let_def visible_def)
  next
    case False
    with Cons show ?thesis by (auto simp: Let_def)
  qed
qed

text \<open>The registry read by the control plane. The list holds, in slot order, the snapshot of every
  occupied slot and nothing else, and is refused exactly if the caller's array is too small; a single
  channel is found exactly if it is managed, and it is that channel's own snapshot; the attached
  metrics always carry the pid the snapshot names, never those of another process.\<close>

theorem registry_reads_exact:
  assumes "manager_inv m"
  shows "gw_channel_manager_list_snapshots m capacity err =
      (let all = map visible (filter en_occupied (mg_entries m)) in
       if length all \<le> capacity then (GW_OK, all, length all, gw_error_clear err)
       else (GW_ERR_OVERFLOW, take capacity all, 0,
             gw_error_set err GW_ERR_OVERFLOW ''snapshot array capacity is too small''))
    \<and> (\<forall>k < GW_MAX_CHANNELS. en_occupied (mg_entries m ! k) \<longrightarrow>
        gw_channel_manager_get_snapshot m (entry_id (mg_entries m ! k)) err =
          (GW_OK, Some (visible (mg_entries m ! k)), gw_error_clear err))
    \<and> ((\<forall>c \<in> managed m. ch_id c \<noteq> cid) \<longrightarrow> fst (gw_channel_manager_get_snapshot m cid err) = GW_ERR_NOT_FOUND)
    \<and> (\<forall>e. ms_pid (sn_worker_metrics (visible e)) = sn_process_pid (en_snapshot e))"
proof (intro conjI allI impI)
  show "gw_channel_manager_list_snapshots m capacity err =
      (let all = map visible (filter en_occupied (mg_entries m)) in
       if length all \<le> capacity then (GW_OK, all, length all, gw_error_clear err)
       else (GW_ERR_OVERFLOW, take capacity all, 0,
             gw_error_set err GW_ERR_OVERFLOW ''snapshot array capacity is too small''))"
    using copy_snapshots_result [of "[]" capacity "mg_entries m"]
    by (auto simp: gw_channel_manager_list_snapshots_def Let_def)
  have sid: "sn_channel_id (en_snapshot (mg_entries m ! k)) = entry_id (mg_entries m ! k)"
    if "k < GW_MAX_CHANNELS" "en_occupied (mg_entries m ! k)" for k
    using inv_slot(1) [OF assms that(1)] that(2) by (simp add: entry_ok_def entry_id_def)
  have len: "length (mg_entries m) = GW_MAX_CHANNELS" using assms by (simp add: manager_inv_def)
  show "gw_channel_manager_get_snapshot m (entry_id (mg_entries m ! k)) err =
      (GW_OK, Some (visible (mg_entries m ! k)), gw_error_clear err)"
    if k: "k < GW_MAX_CHANNELS" "en_occupied (mg_entries m ! k)" for k
  proof -
    have "List.find (\<lambda>e. en_occupied e \<and> sn_channel_id (en_snapshot e) = entry_id (mg_entries m ! k)) (mg_entries m)
        = Some (mg_entries m ! k)"
      unfolding find_Some_iff using k len sid assms
      by (intro exI [of _ k]) (auto simp: manager_inv_def)
    then show ?thesis by (simp add: gw_channel_manager_get_snapshot_def visible_def)
  qed
  show "fst (gw_channel_manager_get_snapshot m cid err) = GW_ERR_NOT_FOUND" if "\<forall>c \<in> managed m. ch_id c \<noteq> cid"
  proof -
    have "List.find (\<lambda>e. en_occupied e \<and> sn_channel_id (en_snapshot e) = cid) (mg_entries m) = None"
      unfolding find_None_iff using that sid len
      by (auto simp: managed_def entry_id_def in_set_conv_nth)
    then show ?thesis by (simp add: gw_channel_manager_get_snapshot_def)
  qed
  show "ms_pid (sn_worker_metrics (visible e)) = sn_process_pid (en_snapshot e)" for e
    by (simp add: visible_def attach_worker_metrics_def)
qed

section \<open>The manager as a transition system\<close>

text \<open>The states reachable by the operations, the steps of the channel threads and the passes of the
  metrics thread, in any order; \<open>target\<close> is whatever an earlier pass over the slots had read.\<close>

inductive reaches :: "gw_channel_manager \<Rightarrow> bool" where
  created: "gw_channel_manager_create a inet4 inet6 config options err = Some (GW_OK, Some m, e) \<Longrightarrow>
    config_bounded config \<Longrightarrow> reaches m"
| started: "reaches m \<Longrightarrow> joins_lawful joins m \<Longrightarrow>
    gw_channel_manager_start creates metrics joins m err = (st, m', e) \<Longrightarrow> reaches m'"
| published: "reaches m \<Longrightarrow> i < GW_MAX_CHANNELS \<Longrightarrow> en_thread_running (mg_entries m ! i) \<Longrightarrow>
    sn_channel_id sn = entry_id (mg_entries m ! i) \<Longrightarrow> reaches (manager_observe i sn m)"
| returned: "reaches m \<Longrightarrow> i < GW_MAX_CHANNELS \<Longrightarrow> en_thread_running (mg_entries m ! i) \<Longrightarrow>
    reaches (run_channel_return i rc m)"
| sampled: "reaches m \<Longrightarrow> i < GW_MAX_CHANNELS \<Longrightarrow> reaches (sample_entry fp rd t hz i target m)"
| reloaded_to: "reaches m \<Longrightarrow> joins_lawful joins m \<Longrightarrow> config_bounded cand \<Longrightarrow>
    gw_channel_manager_reload creates joins inet4 inet6 cand m err = (st, m', ch, e) \<Longrightarrow> reaches m'"
| commanded_start: "reaches m \<Longrightarrow> joins_lawful joins m \<Longrightarrow>
    gw_channel_manager_start_channel creates joins m cid err = (st, m', e) \<Longrightarrow> reaches m'"
| commanded_stop: "reaches m \<Longrightarrow> joins_lawful joins m \<Longrightarrow>
    gw_channel_manager_stop_channel joins m cid err = (st, m', e) \<Longrightarrow> reaches m'"
| commanded_restart: "reaches m \<Longrightarrow> joins_lawful joins m \<Longrightarrow>
    gw_channel_manager_restart_channel creates joins m cid err = (st, m', e) \<Longrightarrow> reaches m'"
| stop_requested: "reaches m \<Longrightarrow> reaches (gw_channel_manager_request_stop sig m)"
| waited_for: "reaches m \<Longrightarrow> joins_lawful joins m \<Longrightarrow> gw_channel_manager_wait joins m = (rc, m') \<Longrightarrow> reaches m'"

lemma observe_inv:
  assumes "manager_inv m" and "i < GW_MAX_CHANNELS" and "sn_channel_id sn = entry_id (mg_entries m ! i)"
  shows "only_slot i m (manager_observe i sn m)"
proof -
  let ?f = "\<lambda>e. e\<lparr>en_snapshot := sn\<lparr>sn_configuration_generation := en_generation e\<rparr>\<rparr>"
  have "manager_observe i sn m = put_slot i (?f (mg_entries m ! i)) m"
    unfolding manager_observe_def by (rule on_entry_put_slot) simp
  then show ?thesis
    using put_only_slot [OF assms(1,2), of "?f (mg_entries m ! i)"] inv_slot(1) [OF assms(1,2)] assms(3)
    by (simp add: entry_ok_def entry_channel_def entry_id_def)
qed

lemma return_inv:
  assumes "manager_inv m" and "i < GW_MAX_CHANNELS" and "en_thread_running (mg_entries m ! i)"
  shows "only_slot i m (run_channel_return i rc m)"
proof -
  let ?f = "\<lambda>e. e\<lparr>en_result := rc, en_thread_running := False\<rparr>"
  have "run_channel_return i rc m = put_slot i (?f (mg_entries m ! i)) m"
    using assms(3) inv_slot(2) [OF assms(1,2)] by (simp add: run_channel_return_def on_entry_def put_slot_def Let_def)
  then show ?thesis
    using put_only_slot [OF assms(1,2), of "?f (mg_entries m ! i)"] inv_slot(1) [OF assms(1,2)]
    by (simp add: entry_ok_def entry_channel_def)
qed

lemma sampled_slot_keeps:
  "en_thread_running (sampled_slot fp rd t hz target e) = en_thread_running e"
  "en_occupied (sampled_slot fp rd t hz target e) = en_occupied e"
  "entry_channel (sampled_slot fp rd t hz target e) = entry_channel e"
  "entry_ok (sampled_slot fp rd t hz target e) = entry_ok e"
  by (auto simp: sampled_slot_def entry_ok_def entry_channel_def Let_def split: prod.splits)

lemma sample_inv:
  assumes "manager_inv m" and "i < GW_MAX_CHANNELS"
  shows "only_slot i m (sample_entry fp rd t hz i target m)"
proof -
  have "sample_entry fp rd t hz i target m = put_slot i (sampled_slot fp rd t hz target (mg_entries m ! i)) m"
    unfolding sample_entry_def by (rule on_entry_put_slot) (rule sampled_slot_keeps)
  then show ?thesis
    using put_only_slot [OF assms, of "sampled_slot fp rd t hz target (mg_entries m ! i)"] inv_slot(1) [OF assms]
    by (simp add: sampled_slot_keeps)
qed

text \<open>Threads run only in a manager that was started.\<close>

definition manager_ok :: "gw_channel_manager \<Rightarrow> bool" where
  "manager_ok m \<longleftrightarrow> manager_inv m \<and> (\<not> mg_started m \<longrightarrow> idle m)"

lemma command_ok:
  assumes "manager_ok m" and "\<forall>k. find_entry m cid = Some k \<longrightarrow> only_slot k m m'" and "find_entry m cid = None \<longrightarrow> m' = m"
    and "\<not> mg_started m \<longrightarrow> m' = m"
  shows "manager_ok m'"
  using assms by (cases "find_entry m cid") (auto simp: manager_ok_def only_slot_def)

lemma with_command_unavailable:
  "with_command m cid err body = (st, m', e) \<Longrightarrow> \<not> mg_started m \<Longrightarrow> m' = m"
  by (auto simp: with_command_cases available_def split: if_splits)

lemma manager_start_ok:
  assumes "manager_ok m" and "joins_lawful joins m" and "gw_channel_manager_start creates metrics joins m err = (st, m', e)"
  shows "manager_ok m'"
proof (cases "mg_started m")
  case True
  with assms show ?thesis by (auto simp: gw_channel_manager_start_def)
next
  case False
  with manager_start_result [OF _ _ False assms(2,3)] assms(1) show ?thesis
    by (auto simp: manager_ok_def split: if_splits)
qed

lemma thread_step_ok:
  assumes "manager_ok m" and "i < GW_MAX_CHANNELS" and "en_thread_running (mg_entries m ! i)" and "only_slot i m m'"
  shows "manager_ok m'"
  using assms by (auto simp: manager_ok_def only_slot_def idle_nth manager_inv_def list_all_length entry_ok_def)

lemma sample_ok:
  assumes "manager_ok m" and "i < GW_MAX_CHANNELS"
  shows "manager_ok (sample_entry fp rd t hz i target m)"
proof -
  have inv: "manager_inv m" and os: "only_slot i m (sample_entry fp rd t hz i target m)"
    using assms by (auto simp: manager_ok_def sample_inv)
  have st: "en_thread_started (sampled_slot fp rd t hz target e) = en_thread_started e" for e
    by (simp add: sampled_slot_def Let_def split: prod.splits)
  have "idle (sample_entry fp rd t hz i target m)" if "idle m"
  proof -
    have "mg_entries m ! i \<in> set (mg_entries m)" using inv_slot(2) [OF inv assms(2)] by simp
    with that st show ?thesis using set_update_subset_insert [of "mg_entries m" i]
      by (fastforce simp: idle_def sample_entry_def on_entry_def)
  qed
  with os assms(1) show ?thesis by (auto simp: manager_ok_def only_slot_def)
qed

lemma reload_ok:
  assumes "manager_ok m" and "joins_lawful joins m" and "config_bounded cand"
    and "gw_channel_manager_reload creates joins inet4 inet6 cand m err = (st, m', ch, e)"
  shows "manager_ok m'"
proof (cases "mg_started m \<and> mg_stop_signal m = 0 \<and> valid_config (\<lambda>s. inet4 s \<or> inet6 s) cand")
  case True
  with reload_result [of m inet4 inet6 cand joins creates err st m' ch e] assms show ?thesis
    by (simp add: manager_ok_def joins_lawful_def)
next
  case False
  with assms validate_status [of inet4 inet6 cand err] show ?thesis
    by (auto simp: gw_channel_manager_reload_def split: if_splits prod.splits)
qed

lemma restart_ok:
  assumes "manager_ok m" and "joins_lawful joins m"
    and "gw_channel_manager_restart_channel creates joins m cid err = (st, m', e)"
  shows "manager_ok m'"
  using assms restart_channel_slot [OF _ assms(2,3)] with_command_unavailable
  unfolding manager_ok_def gw_channel_manager_restart_channel_def by metis

lemma wait_ok:
  assumes "manager_ok m" and "joins_lawful joins m" and "gw_channel_manager_wait joins m = (rc, m')"
  shows "manager_ok m'"
proof (cases "mg_started m")
  case True
  with assms manager_wait_result [OF _ assms(2) True assms(3)] show ?thesis by (simp add: manager_ok_def)
next
  case False
  with assms show ?thesis by (auto simp: gw_channel_manager_wait_def)
qed

lemma reaches_ok: "reaches m \<Longrightarrow> manager_ok m"
proof (induction rule: reaches.induct)
  case (created a inet4 inet6 config options err m e)
  from create_cases [OF created(2), of a inet4 inet6 options err] created(1)
  have "manager_inv m \<and> idle m" by (elim exE) simp
  then show ?case by (simp add: manager_ok_def)
next
  case (published m i sn)
  then have "manager_inv m" by (simp add: manager_ok_def)
  from thread_step_ok [OF published(5,2,3) observe_inv [OF this published(2,4)]] show ?case .
next
  case (returned m i rc)
  then have "manager_inv m" by (simp add: manager_ok_def)
  from thread_step_ok [OF returned(4,2,3) return_inv [OF this returned(2,3)]] show ?case .
next
  case (commanded_start m joins creates cid err st m' e)
  then have inv: "manager_inv m" by (simp add: manager_ok_def)
  have "\<not> mg_started m \<longrightarrow> m' = m"
    using commanded_start(3) with_command_unavailable unfolding gw_channel_manager_start_channel_def by blast
  from command_ok [OF commanded_start(4) _ _ this, of cid] start_channel_result [OF inv commanded_start(2,3)]
  show ?case by (elim conjE) simp
next
  case (commanded_stop m joins cid err st m' e)
  then have inv: "manager_inv m" by (simp add: manager_ok_def)
  have "\<not> mg_started m \<longrightarrow> m' = m"
    using commanded_stop(3) with_command_unavailable unfolding gw_channel_manager_stop_channel_def by blast
  from command_ok [OF commanded_stop(4) _ _ this, of cid] stop_channel_result [OF inv commanded_stop(2,3)]
  show ?case by (elim conjE) simp
next
  case (stop_requested m sig)
  moreover have "mg_started (gw_channel_manager_request_stop sig m) = mg_started m"
    by (simp add: gw_channel_manager_request_stop_def)
  ultimately show ?case by (simp add: manager_ok_def)
next
  case started
  show ?case by (rule manager_start_ok [OF started(4,2,3)])
next
  case sampled
  show ?case by (rule sample_ok [OF sampled(3,2)])
next
  case reloaded_to
  show ?case by (rule reload_ok [OF reloaded_to(5,2,3,4)])
next
  case commanded_restart
  show ?case by (rule restart_ok [OF commanded_restart(4,2,3)])
next
  case waited_for
  show ?case by (rule wait_ok [OF waited_for(4,2,3)])
qed

text \<open>C2: in every reachable state, whatever the order of operations, thread steps and metrics passes,
  the registry is consistent (distinct channels, a running thread only in an occupied slot, snapshots
  of the right channel and generation, the thread count exact), and the unlocked test for the end is
  exact: a started manager is finished if and only if no channel thread is running.\<close>

theorem reachable_manager_consistent:
  assumes "reaches m"
  shows "manager_inv m \<and>
     (gw_channel_manager_is_finished m \<longleftrightarrow> mg_started m \<and> (\<forall>k < GW_MAX_CHANNELS. \<not> en_thread_running (mg_entries m ! k)))"
proof -
  have inv: "manager_inv m" using reaches_ok [OF assms] by (simp add: manager_ok_def)
  let ?n = "length (filter en_thread_running (mg_entries m))"
  have len: "length (mg_entries m) = GW_MAX_CHANNELS" using inv by (simp add: manager_inv_def)
  have "?n \<le> 64" using len length_filter_le [of en_thread_running "mg_entries m"] by simp
  then have "mg_active_threads m = 0 \<longleftrightarrow> ?n = 0"
    using inv by (simp add: manager_inv_def word_of_nat_eq_0_iff) (auto dest: dvd_imp_le)
  also have "\<dots> \<longleftrightarrow> (\<forall>k < GW_MAX_CHANNELS. \<not> en_thread_running (mg_entries m ! k))"
    using len by (auto simp: filter_empty_conv all_set_conv_all_nth)
  finally show ?thesis using inv by (simp add: gw_channel_manager_is_finished_def)
qed

section \<open>A concrete manager\<close>

text \<open>The manager of the sample configuration, created and started, with threads that return 0 and
  publish nothing more when they are joined.\<close>

definition local_address :: addr_check where
  "local_address s \<longleftrightarrow> s = ''127.0.0.1''"

definition no_address :: addr_check where
  "no_address s \<longleftrightarrow> False"

definition quiet_joins :: "nat \<Rightarrow> join_answer" where
  "quiet_joins i = \<lparr>ja_snapshots = [], ja_result = 0\<rparr>"

lemma quiet_joins_lawful: "joins_lawful quiet_joins m"
  by (simp add: joins_lawful_def own_snapshots_def quiet_joins_def)

lemma camera_config_valid:
  "valid_config (\<lambda>s. local_address s \<or> no_address s) camera_config" "config_bounded camera_config"
proof -
  show "valid_config (\<lambda>s. local_address s \<or> no_address s) camera_config"
    by (simp add: valid_config_def camera_config_def sample_mediamtx_def sample_recording_def sample_channel_def
        valid_recording_def valid_defaults_def valid_channel_def valid_video_def safe_directory_def safe_segment_def
        default_policy_def local_address_def isalnum_def isalpha_def isdigit_def)
  show "config_bounded camera_config"
    by (simp add: bounded_defs camera_config_def sample_mediamtx_def sample_recording_def sample_channel_def
        default_policy_def is_int32_def)
qed

definition camera_creation :: "(gw_status \<times> gw_channel_manager option \<times> gw_error option) option" where
  "camera_creation = gw_channel_manager_create \<lparr>ca_alloc = True, ca_rwlock = None, ca_mutex = None\<rparr>
     local_address no_address camera_config gw_supervisor_options_init None"

definition camera_manager :: gw_channel_manager where
  "camera_manager = (case camera_creation of Some (st, Some m, e) \<Rightarrow> m
     | _ \<Rightarrow> empty_manager camera_config gw_supervisor_options_init)"

definition camera_start :: "gw_status \<times> gw_channel_manager \<times> gw_error option" where
  "camera_start = gw_channel_manager_start (\<lambda>i. None) None quiet_joins camera_manager None"

definition running_camera :: gw_channel_manager where
  "running_camera = fst (snd camera_start)"

lemma camera_enabled: "{c \<in> set (channels camera_config). ch_enabled c} = {sample_channel}"
  by (auto simp: camera_config_def sample_channel_def)

lemma camera_created:
  "\<exists>e. camera_creation = Some (GW_OK, Some camera_manager, e)" "manager_inv camera_manager" "idle camera_manager"
  "\<not> mg_started camera_manager" "mg_stop_signal camera_manager = 0" "mg_config camera_manager = camera_config"
  "managed camera_manager = {sample_channel}"
proof -
  from create_cases [OF camera_config_valid(2), of "\<lparr>ca_alloc = True, ca_rwlock = None, ca_mutex = None\<rparr>"
      local_address no_address gw_supervisor_options_init None, folded camera_creation_def, unfolded camera_enabled]
  obtain st mo e where c: "camera_creation = Some (st, mo, e)" "st = GW_OK \<longleftrightarrow> mo \<noteq> None"
    "\<And>m. mo = Some m \<Longrightarrow> manager_inv m \<and> idle m \<and> \<not> mg_started m \<and> mg_stop_signal m = 0 \<and>
      mg_config m = camera_config \<and> managed m = {sample_channel}" by blast
  obtain ve where v: "gw_config_validate local_address no_address camera_config None = (GW_OK, ve)"
    using validate_status [of local_address no_address camera_config None] camera_config_valid(1)
    by (cases "gw_config_validate local_address no_address camera_config None") simp
  have "st = GW_OK"
    using c(1) v by (auto simp: camera_creation_def gw_channel_manager_create_def gw_supervisor_options_init_def
        camera_config_def sample_channel_def split: option.splits)
  with c(2) obtain m where m: "mo = Some m" by auto
  then have eq: "camera_manager = m" by (simp add: camera_manager_def c(1))
  show "\<exists>e. camera_creation = Some (GW_OK, Some camera_manager, e)" using c(1) m \<open>st = GW_OK\<close> eq by blast
  show "manager_inv camera_manager" "idle camera_manager" "\<not> mg_started camera_manager" "mg_stop_signal camera_manager = 0"
    "mg_config camera_manager = camera_config" "managed camera_manager = {sample_channel}"
    using c(3) [OF m] eq by simp_all
qed

lemma camera_reached: "reaches camera_manager"
proof -
  from camera_created(1) obtain e where "camera_creation = Some (GW_OK, Some camera_manager, e)" by blast
  from reaches.created [OF this [unfolded camera_creation_def] camera_config_valid(2)] show ?thesis .
qed

lemma camera_started:
  "fst camera_start = GW_OK" "reaches running_camera" "manager_inv running_camera" "mg_started running_camera"
  "mg_stop_signal running_camera = 0" "mg_config running_camera = camera_config" "managed running_camera = {sample_channel}"
  "\<exists>k < GW_MAX_CHANNELS. find_entry running_camera ''cam01'' = Some k \<and> en_thread_running (mg_entries running_camera ! k)"
proof -
  obtain st m' e where s: "camera_start = (st, m', e)" by (metis prod_cases3)
  have r: "running_camera = m'" unfolding running_camera_def s by simp
  note start = s [unfolded camera_start_def]
  note res = manager_start_result [OF camera_created(2-4) quiet_joins_lawful start]
  then have st: "st = GW_OK" by (elim conjE) simp
  then show "fst camera_start = GW_OK" unfolding s by simp
  show "reaches running_camera" unfolding r by (rule reaches.started [OF camera_reached quiet_joins_lawful start])
  show "manager_inv running_camera" "mg_started running_camera" "mg_stop_signal running_camera = 0"
    "mg_config running_camera = camera_config" and mg: "managed running_camera = {sample_channel}"
    using res st camera_created(5-7) by (simp_all add: r)
  from mg obtain k where k: "k < GW_MAX_CHANNELS" "en_occupied (mg_entries m' ! k)" "entry_channel (mg_entries m' ! k) = sample_channel"
    by (auto simp: managed_def r)
  then have "entry_id (mg_entries m' ! k) = ''cam01''" by (simp add: entry_id_def sample_channel_def)
  with k res st show "\<exists>k < GW_MAX_CHANNELS. find_entry running_camera ''cam01'' = Some k \<and> en_thread_running (mg_entries running_camera ! k)"
    using find_entry_unique [of m' k] by (auto simp: r)
qed

theorem manager_start_all_or_nothing_witness:
  "fst camera_start = GW_OK \<and> manager_inv running_camera \<and> managed running_camera = {sample_channel}"
proof -
  obtain st m' e where s: "camera_start = (st, m', e)" by (metis prod_cases3)
  have "running_camera = m'" unfolding running_camera_def s by simp
  moreover have "fst camera_start = st" unfolding s by simp
  ultimately show ?thesis
    using manager_start_all_or_nothing [OF camera_created(2-4) quiet_joins_lawful s [unfolded camera_start_def]]
      camera_created(7) by (elim conjE) simp
qed

theorem stop_channel_exact_witness:
  "\<exists>m' e k. gw_channel_manager_stop_channel quiet_joins running_camera ''cam01'' None = (GW_OK, m', e) \<and>
     find_entry running_camera ''cam01'' = Some k \<and> \<not> en_thread_started (mg_entries m' ! k) \<and> only_slot k running_camera m'"
proof -
  obtain st m' e where s: "gw_channel_manager_stop_channel quiet_joins running_camera ''cam01'' None = (st, m', e)"
    by (metis prod_cases3)
  obtain k where k: "find_entry running_camera ''cam01'' = Some k" "en_thread_running (mg_entries running_camera ! k)"
    using camera_started(8) by blast
  have "available running_camera ''cam01''" using camera_started(4,5) by (simp add: available_def)
  with stop_channel_exact [OF camera_started(3) quiet_joins_lawful s] k s show ?thesis by auto
qed

text \<open>The camera's worker ends by itself: its thread publishes STOPPED and returns 0.\<close>

definition camera_slot :: nat where
  "camera_slot = the (find_entry running_camera ''cam01'')"

definition camera_stopped_snapshot :: gw_channel_snapshot where
  "camera_stopped_snapshot = (en_snapshot (mg_entries running_camera ! camera_slot))\<lparr>sn_state := GW_CHANNEL_STOPPED\<rparr>"

definition ended_camera :: gw_channel_manager where
  "ended_camera = run_channel_return camera_slot 0 (manager_observe camera_slot camera_stopped_snapshot running_camera)"

lemma camera_slot:
  "camera_slot < GW_MAX_CHANNELS" "find_entry running_camera ''cam01'' = Some camera_slot"
  "en_thread_running (mg_entries running_camera ! camera_slot)" "entry_id (mg_entries running_camera ! camera_slot) = ''cam01''"
  "en_occupied (mg_entries running_camera ! camera_slot)" "camera_slot < length (mg_entries running_camera)"
proof -
  obtain k where k: "k < GW_MAX_CHANNELS" "find_entry running_camera ''cam01'' = Some k" "en_thread_running (mg_entries running_camera ! k)"
    using camera_started(8) by blast
  then have "camera_slot = k" by (simp add: camera_slot_def)
  with k find_entry_SomeD [OF camera_started(3) k(2)] camera_started(3)
  show "camera_slot < GW_MAX_CHANNELS" "find_entry running_camera ''cam01'' = Some camera_slot"
    "en_thread_running (mg_entries running_camera ! camera_slot)" "entry_id (mg_entries running_camera ! camera_slot) = ''cam01''"
    "en_occupied (mg_entries running_camera ! camera_slot)" "camera_slot < length (mg_entries running_camera)"
    by (simp_all add: manager_inv_def)
qed

lemma camera_ended:
  "manager_inv ended_camera" "find_entry ended_camera ''cam01'' = Some camera_slot" "available ended_camera ''cam01''"
  "\<not> en_thread_running (mg_entries ended_camera ! camera_slot)"
  "sn_state (en_snapshot (mg_entries ended_camera ! camera_slot)) = GW_CHANNEL_STOPPED"
proof -
  have id: "sn_channel_id camera_stopped_snapshot = entry_id (mg_entries running_camera ! camera_slot)"
    using inv_slot(1) [OF camera_started(3) camera_slot(1)] camera_slot(5)
    by (simp add: camera_stopped_snapshot_def entry_ok_def entry_id_def)
  let ?m = "manager_observe camera_slot camera_stopped_snapshot running_camera"
  have run: "en_thread_running (mg_entries ?m ! camera_slot)"
    using camera_slot by (simp add: manager_observe_def on_entry_def)
  have o: "only_slot camera_slot running_camera ?m" by (rule observe_inv [OF camera_started(3) camera_slot(1) id])
  then have "only_slot camera_slot ?m ended_camera"
    unfolding ended_camera_def by (intro return_inv camera_slot(1) run) (simp add: only_slot_def)
  with o show inv: "manager_inv ended_camera" by (simp add: only_slot_def)
  have e: "mg_entries ended_camera ! camera_slot = (mg_entries running_camera ! camera_slot)
      \<lparr>en_snapshot := camera_stopped_snapshot\<lparr>sn_configuration_generation := en_generation (mg_entries running_camera ! camera_slot)\<rparr>,
       en_result := 0, en_thread_running := False\<rparr>"
    using camera_slot(6) by (simp add: ended_camera_def run_channel_return_def manager_observe_def on_entry_def Let_def)
  then show "\<not> en_thread_running (mg_entries ended_camera ! camera_slot)"
    "sn_state (en_snapshot (mg_entries ended_camera ! camera_slot)) = GW_CHANNEL_STOPPED"
    by (simp_all add: camera_stopped_snapshot_def)
  have "entry_id (mg_entries ended_camera ! camera_slot) = ''cam01''" "en_occupied (mg_entries ended_camera ! camera_slot)"
    using camera_slot(4,5) e by (simp_all add: entry_id_def entry_channel_def)
  with find_entry_unique [OF inv camera_slot(1)] show "find_entry ended_camera ''cam01'' = Some camera_slot" by simp
  show "available ended_camera ''cam01''" using camera_started(4,5)
    by (simp add: available_def ended_camera_def run_channel_return_def manager_observe_def on_entry_def Let_def)
qed

theorem start_channel_exact_witness:
  "\<exists>m' e. gw_channel_manager_start_channel (\<lambda>i. None) quiet_joins ended_camera ''cam01'' None = (GW_OK, m', e) \<and>
     en_thread_running (mg_entries m' ! camera_slot) \<and> only_slot camera_slot ended_camera m'"
proof -
  obtain st m' e where s: "gw_channel_manager_start_channel (\<lambda>i. None) quiet_joins ended_camera ''cam01'' None = (st, m', e)"
    by (metis prod_cases3)
  from start_channel_exact [OF camera_ended(1) quiet_joins_lawful s] camera_ended s show ?thesis by auto
qed

theorem manager_wait_joins_all_witness:
  "\<exists>rc m'. gw_channel_manager_wait quiet_joins running_camera = (rc, m') \<and> idle m' \<and>
     managed m' = {sample_channel} \<and> gw_channel_manager_is_finished m'"
proof -
  obtain rc m' where s: "gw_channel_manager_wait quiet_joins running_camera = (rc, m')" by fastforce
  from manager_wait_joins_all [OF camera_started(3) quiet_joins_lawful camera_started(4) s] camera_started(7) s
  show ?thesis by simp
qed

theorem registry_reads_exact_witness:
  "fst (gw_channel_manager_get_snapshot running_camera ''cam01'' None) = GW_OK \<and>
   fst (gw_channel_manager_get_snapshot running_camera ''cam02'' None) = GW_ERR_NOT_FOUND"
proof -
  have "\<forall>c \<in> managed running_camera. ch_id c \<noteq> ''cam02''" by (simp add: camera_started(7) sample_channel_def)
  with registry_reads_exact [OF camera_started(3), of 64 None "''cam02''"]
  have "fst (gw_channel_manager_get_snapshot running_camera ''cam02'' None) = GW_ERR_NOT_FOUND"
    and "\<forall>k < GW_MAX_CHANNELS. en_occupied (mg_entries running_camera ! k) \<longrightarrow>
        gw_channel_manager_get_snapshot running_camera (entry_id (mg_entries running_camera ! k)) None =
          (GW_OK, Some (visible (mg_entries running_camera ! k)), gw_error_clear None)" by blast+
  then show ?thesis using camera_slot(1,4,5) by auto
qed

theorem reachable_manager_consistent_witness:
  "manager_inv running_camera \<and> \<not> gw_channel_manager_is_finished running_camera"
  using reachable_manager_consistent [OF camera_started(2)] camera_slot(1,3) by blast

theorem reload_serves_candidate_witness:
  "\<exists>m' ch e. gw_channel_manager_reload (\<lambda>i. None) quiet_joins local_address no_address camera_config running_camera None
      = (GW_OK, m', ch, e) \<and> managed m' = {sample_channel} \<and>
     mg_entries m' ! camera_slot = mg_entries running_camera ! camera_slot \<and>
     rs_unchanged ch + rs_restarted ch + rs_added ch = 1"
proof -
  obtain st m' ch e where s: "gw_channel_manager_reload (\<lambda>i. None) quiet_joins local_address no_address camera_config
      running_camera None = (st, m', ch, e)" by (metis prod_cases4)
  note law = quiet_joins_lawful [of running_camera, unfolded joins_lawful_def]
  have "entry_channel (mg_entries running_camera ! camera_slot) \<in> managed running_camera"
    using camera_slot(1,5) by (auto simp: managed_def)
  then have "entry_channel (mg_entries running_camera ! camera_slot) \<in> set (channels camera_config)"
    using camera_started(7) camera_enabled by blast
  moreover have "worker_globals_equal (mg_config running_camera) camera_config"
    by (simp add: camera_started(6) worker_globals_equal_def camera_config_def retry_policy_equal_def)
  moreover have "length (filter ch_enabled (channels camera_config)) = 1" by (simp add: camera_config_def sample_channel_def)
  ultimately show ?thesis
    using reload_serves_candidate [OF camera_started(3,4,5) camera_config_valid law s] s camera_enabled camera_slot(1,5)
    by auto
qed

end
