(* ===== verification/Http_Route.thy ===== *)
theory Http_Route
  imports Json_Reader Manager_Control
begin

text \<open>
  The router of the control plane and the diagnostic page (middle part of
  \<^verbatim>\<open>src/api/http_server.c\<close>). What the kernel answers (file reads, \<^verbatim>\<open>readlink\<close>,
  \<^verbatim>\<open>statvfs\<close>, thread creation and joins) is collected in a record; the router takes the
  manager's state and returns the new one.
\<close>

abbreviation HTTP_TARGET_CAP :: nat where "HTTP_TARGET_CAP \<equiv> 2048"
abbreviation PATH_MAX :: nat where "PATH_MAX \<equiv> 4096"

section \<open>The diagnostic page\<close>

text \<open>The return code and, for 0, the bytes of the body.\<close>

definition load_page_file :: "file_answers \<Rightarrow> nat \<Rightarrow> int \<times> string" where
  "load_page_file f capacity =
     (if \<not> fa_open f then (-1, [])
      else case read_loop capacity [] (fa_reads f) of
        None \<Rightarrow> (-1, [])
      | Some (buffer, rest) \<Rightarrow>
          if length buffer + 1 = capacity \<and> probe_extra rest then (1, [])
          else if \<not> fa_close f then (-1, [])
          else (0, buffer))"

text \<open>\<open>exe\<close> is the target of the link \<^verbatim>\<open>/proc/self/exe\<close>, \<open>None\<close> if it cannot be read;
  \<^verbatim>\<open>readlink\<close> stores at most \<open>capacity - 1\<close> bytes of it.\<close>

definition build_executable_relative_path :: "string option \<Rightarrow> nat \<Rightarrow> string \<Rightarrow> string option" where
  "build_executable_relative_path exe capacity relative =
     (case exe of
        None \<Rightarrow> None
      | Some full \<Rightarrow>
          let path = take (capacity - 1) full in
          if path = [] then None
          else case strrchr path CHR ''/'' of
            None \<Rightarrow> None
          | Some separator \<Rightarrow>
              let directory_length = length path - length separator + 1 in
              if directory_length + length relative + 1 > capacity then None
              else Some (take directory_length path @ relative))"

record page_files =
  pf_exe :: "string option"
  pf_file :: "string \<Rightarrow> file_answers"

definition try_page :: "page_files \<Rightarrow> string \<Rightarrow> int \<times> string" where
  "try_page files relative =
     (case build_executable_relative_path (pf_exe files) PATH_MAX relative of
        None \<Rightarrow> (-1, [])
      | Some path \<Rightarrow> load_page_file (pf_file files path) GW_HTTP_BODY_CAP)"

definition gw_http_render_view_page :: "page_files \<Rightarrow> gw_error option \<Rightarrow> http_result" where
  "gw_http_render_view_page files error =
     (let first = try_page files ''web/diagnostic.html'';
          result = (if fst first < 0 then try_page files ''../share/rk-media-gateway/web/diagnostic.html'' else first)
      in if fst result > 0 then
           (GW_ERR_OVERFLOW, zero_response,
            gw_error_set error GW_ERR_OVERFLOW ''diagnostic page exceeds HTTP response capacity'')
         else if fst result < 0 then
           (GW_ERR_IO, zero_response, gw_error_set error GW_ERR_IO ''diagnostic page asset is unavailable'')
         else (GW_OK, zero_response\<lparr>hr_body := snd result, hr_status_code := 200, hr_content_type := GW_HTTP_CONTENT_HTML\<rparr>,
               gw_error_clear error))"

section \<open>Targets\<close>

definition CHANNELS :: string where
  "CHANNELS = ''/v1/channels/''"

text \<open>Channel id and action; \<open>None\<close> for the result \<^verbatim>\<open>false\<close>.\<close>

definition parse_action_target :: "string \<Rightarrow> nat \<Rightarrow> (string \<times> string) option" where
  "parse_action_target target channel_capacity =
     (if \<not> strncmp_eq target CHANNELS 13 then None
      else
        let remainder = drop 13 target in
        case strchr remainder CHR ''/'' of
          None \<Rightarrow> None
        | Some separator \<Rightarrow>
            let action = tl separator; id_length = length remainder - length separator in
            if id_length = 0 \<or> action = [] \<or> CHR ''/'' \<in> set action then None
            else if id_length \<ge> channel_capacity then None
            else if action = ''start'' \<or> action = ''stop'' \<or> action = ''restart'' then Some (take id_length remainder, action)
            else None)"

definition parse_channel_leaf :: "string \<Rightarrow> string \<Rightarrow> nat \<Rightarrow> string option" where
  "parse_channel_leaf target leaf channel_capacity =
     (if \<not> strncmp_eq target CHANNELS 13 then None
      else
        let remainder = drop 13 target in
        case strchr remainder CHR ''/'' of
          None \<Rightarrow> None
        | Some separator \<Rightarrow>
            let id_length = length remainder - length separator in
            if id_length = 0 \<or> tl separator \<noteq> leaf then None
            else if id_length \<ge> channel_capacity then None
            else Some (take id_length remainder))"

text \<open>The tests \<^verbatim>\<open>strncmp(target, prefix, n) == 0 && target[n] != 0 && strchr(target + n, '/') == NULL\<close>.\<close>

definition parse_last_segment :: "string \<Rightarrow> string \<Rightarrow> string option" where
  "parse_last_segment pre target =
     (if strncmp_eq target pre (length pre) \<and> drop (length pre) target \<noteq> [] \<and> CHR ''/'' \<notin> set (drop (length pre) target)
      then Some (drop (length pre) target) else None)"

section \<open>The router\<close>

record http_env =
  he_format :: format_double
  he_statvfs :: "statvfs option"
  he_page :: page_files
  he_creates :: thread_answers
  he_joins :: "nat \<Rightarrow> join_answer"

type_synonym route_result = "gw_status \<times> gw_channel_manager \<times> gw_http_response \<times> gw_error option"

definition answer :: "gw_channel_manager \<Rightarrow> http_result \<Rightarrow> route_result" where
  "answer m r = (case r of (st, response, e) \<Rightarrow> (st, m, response, e))"

definition ok_response :: gw_http_response where
  "ok_response = zero_response\<lparr>hr_status_code := 200\<rparr>"

definition method_not_allowed :: "gw_http_response \<Rightarrow> bool \<Rightarrow> bool \<Rightarrow> gw_error option \<Rightarrow> http_result" where
  "method_not_allowed response allow_get allow_post error =
     error_response (response\<lparr>hr_allow_get := allow_get, hr_allow_post := allow_post\<rparr>) 405
       ''method_not_allowed'' ''method is not allowed for this route'' error"

definition not_found :: "string \<Rightarrow> gw_error option \<Rightarrow> http_result" where
  "not_found message error = error_response ok_response 404 ''not_found'' message error"

definition health_pieces :: "gw_channel_snapshot list \<Rightarrow> gw_recording_snapshot \<Rightarrow> json_piece list" where
  "health_pieces snapshots r =
     (let running = length (filter (\<lambda>s. sn_state s = GW_CHANNEL_RUNNING) snapshots);
          failed = length (filter (\<lambda>s. sn_state s = GW_CHANNEL_FAILED) snapshots)
      in [Raw (q ''{`status`:`'' @
               (if failed = 0 \<and> rs_state r \<noteq> GW_RECORDING_LOW_SPACE \<and> rs_state r \<noteq> GW_RECORDING_UNAVAILABLE
                then ''ok'' else ''degraded'') @
               q ''`,`channel_count`:'' @ dec_nat (length snapshots) @
               q '',`running`:'' @ dec_nat running @ q '',`failed`:'' @ dec_nat failed @ q '',`recording`:''),
          Esc (gw_recording_state_string (rs_state r)), Raw (''}'' @ [LF])])"

definition route_health :: "http_env \<Rightarrow> gw_channel_manager \<Rightarrow> gw_recording_config \<Rightarrow> gw_error option \<Rightarrow> http_result" where
  "route_health env m rec error =
     (case gw_channel_manager_list_snapshots m GW_MAX_CHANNELS error of (st, snapshots, copied, e) \<Rightarrow>
        if st \<noteq> GW_OK then (st, ok_response, e)
        else case gw_recording_snapshot_read (he_statvfs env) rec e of (st', r, e') \<Rightarrow>
          if st' \<noteq> GW_OK then (st', ok_response, e')
          else finish_response ok_response (json_emit body_writer (health_pieces (take copied snapshots) r)) e')"

definition json_bool :: "bool \<Rightarrow> string" where
  "json_bool b = (if b then ''true'' else ''false'')"

definition recording_pieces :: "gw_recording_snapshot \<Rightarrow> json_piece list" where
  "recording_pieces r =
     [Raw (q ''{`enabled`:'' @ json_bool (rs_enabled r) @ q '',`status`:''), Esc (gw_recording_state_string (rs_state r)),
      Raw (q '',`filesystem_available`:'' @ json_bool (rs_filesystem_available r) @
           q '',`total_bytes`:'' @ dec_nat (unat (rs_total_bytes r)) @
           q '',`available_bytes`:'' @ dec_nat (unat (rs_available_bytes r)) @
           q '',`min_free_bytes`:'' @ dec_nat (unat (rs_min_free_bytes r)) @ ''}'' @ [LF])]"

definition route_recording :: "http_env \<Rightarrow> gw_recording_config \<Rightarrow> gw_error option \<Rightarrow> http_result" where
  "route_recording env rec error =
     (case gw_recording_snapshot_read (he_statvfs env) rec error of (st, r, e) \<Rightarrow>
        if st \<noteq> GW_OK then (st, ok_response, e)
        else finish_response ok_response (json_emit body_writer (recording_pieces r)) e)"

text \<open>The loop over the snapshots; a comma before every one but the first.\<close>

fun emit_channels :: "format_double \<Rightarrow> bool \<Rightarrow> gw_channel_snapshot list \<Rightarrow> json_writer \<Rightarrow> json_writer" where
  "emit_channels fmt is_first [] writer = writer"
| "emit_channels fmt is_first (s # ss) writer =
     emit_channels fmt False ss (json_snapshot fmt (if is_first then writer else json_append writer '','') s)"

definition route_channels :: "http_env \<Rightarrow> gw_channel_manager \<Rightarrow> gw_error option \<Rightarrow> http_result" where
  "route_channels env m error =
     (case gw_channel_manager_list_snapshots m GW_MAX_CHANNELS error of (st, snapshots, copied, e) \<Rightarrow>
        if st \<noteq> GW_OK then (st, ok_response, e)
        else finish_response ok_response
               (json_append
                  (emit_channels (he_format env) True (take copied snapshots) (json_append body_writer (q ''{`channels`:['')))
                  ('']}'' @ [LF])) e)"

definition route_view :: "http_env \<Rightarrow> gw_channel_manager \<Rightarrow> string \<Rightarrow> gw_error option \<Rightarrow> http_result" where
  "route_view env m cid error =
     (case gw_channel_manager_get_snapshot m cid error of
        (st, Some snapshot, e) \<Rightarrow> gw_http_render_view_page (he_page env) e
      | (st, None, e) \<Rightarrow> not_found ''channel was not found'' e)"

definition route_metrics :: "http_env \<Rightarrow> gw_channel_manager \<Rightarrow> string \<Rightarrow> gw_error option \<Rightarrow> http_result" where
  "route_metrics env m cid error =
     (case gw_channel_manager_get_snapshot m cid error of
        (st, Some snapshot, e) \<Rightarrow> gw_http_render_channel_metrics (he_format env) snapshot e
      | (st, None, e) \<Rightarrow> not_found ''channel was not found'' e)"

definition route_channel :: "http_env \<Rightarrow> gw_channel_manager \<Rightarrow> string \<Rightarrow> gw_error option \<Rightarrow> http_result" where
  "route_channel env m cid error =
     (case gw_channel_manager_get_snapshot m cid error of
        (st, Some snapshot, e) \<Rightarrow>
          finish_response ok_response (json_append (json_snapshot (he_format env) body_writer snapshot) [LF]) e
      | (st, None, e) \<Rightarrow> not_found ''channel was not found'' e)"

definition accepted_pieces :: "string \<Rightarrow> string \<Rightarrow> json_piece list" where
  "accepted_pieces cid action =
     [Raw (q ''{`status`:`accepted`,`channel_id`:''), Esc cid, Raw (q '',`action`:''), Esc action, Raw (''}'' @ [LF])]"

definition run_command :: "http_env \<Rightarrow> gw_channel_manager \<Rightarrow> string \<Rightarrow> string \<Rightarrow> gw_error option \<Rightarrow> command_result" where
  "run_command env m cid action error =
     (if action = ''start'' then gw_channel_manager_start_channel (he_creates env) (he_joins env) m cid error
      else if action = ''stop'' then gw_channel_manager_stop_channel (he_joins env) m cid error
      else gw_channel_manager_restart_channel (he_creates env) (he_joins env) m cid error)"

definition route_action :: "http_env \<Rightarrow> gw_channel_manager \<Rightarrow> string \<Rightarrow> string \<Rightarrow> gw_error option \<Rightarrow> route_result" where
  "route_action env m cid action error =
     (case run_command env m cid action error of (st, m', e) \<Rightarrow>
        answer m'
          (if st = GW_ERR_NOT_FOUND then not_found ''channel was not found'' e
           else if st = GW_ERR_CONFLICT then
             error_response ok_response 409 ''state_conflict'' ''channel command conflicts with current state'' e
           else if st \<noteq> GW_OK then (st, ok_response, e)
           else finish_response (ok_response\<lparr>hr_status_code := 202\<rparr>)
                  (json_emit body_writer (accepted_pieces cid action)) e))"

text \<open>A route that answers GET only.\<close>

definition get_only :: "string \<Rightarrow> gw_error option \<Rightarrow> http_result \<Rightarrow> http_result" where
  "get_only request_method error body =
     (if request_method \<noteq> ''GET'' then method_not_allowed ok_response True False error else body)"

definition route_path :: "http_env \<Rightarrow> gw_channel_manager \<Rightarrow> gw_recording_config \<Rightarrow> string \<Rightarrow> string \<Rightarrow> gw_error option \<Rightarrow> route_result" where
  "route_path env m rec request_method target error =
     (if target = ''/v1/health'' then answer m (get_only request_method error (route_health env m rec error))
      else if target = ''/v1/recording'' then answer m (get_only request_method error (route_recording env rec error))
      else if target = ''/v1/channels'' then answer m (get_only request_method error (route_channels env m error))
      else case parse_last_segment ''/view/'' target of
        Some cid \<Rightarrow> answer m (get_only request_method error (route_view env m cid error))
      | None \<Rightarrow>
      (case parse_channel_leaf target ''metrics'' GW_ID_CAP of
        Some cid \<Rightarrow> answer m (get_only request_method error (route_metrics env m cid error))
      | None \<Rightarrow>
      (case parse_last_segment CHANNELS target of
        Some cid \<Rightarrow> answer m (get_only request_method error (route_channel env m cid error))
      | None \<Rightarrow>
      (case parse_action_target target GW_ID_CAP of
        Some (cid, action) \<Rightarrow>
          if request_method \<noteq> ''POST'' then answer m (method_not_allowed ok_response False True error)
          else route_action env m cid action error
      | None \<Rightarrow> answer m (not_found ''route was not found'' error)))))"

definition gw_http_route ::
  "http_env \<Rightarrow> gw_channel_manager \<Rightarrow> gw_recording_config \<Rightarrow> string \<Rightarrow> string \<Rightarrow> gw_error option \<Rightarrow> route_result" where
  "gw_http_route env m rec request_method target error =
     (case strchr target CHR ''?'' of
        None \<Rightarrow> route_path env m rec request_method target error
      | Some query \<Rightarrow>
          let path_length = length target - length query in
          if path_length = 0 \<or> path_length \<ge> HTTP_TARGET_CAP
          then answer m (error_response ok_response 400 ''bad_request'' ''request target is invalid'' error)
          else route_path env m rec request_method (take path_length target) error)"

section \<open>Documents of the routes\<close>

definition health_json :: "gw_channel_snapshot list \<Rightarrow> gw_recording_snapshot \<Rightarrow> json" where
  "health_json snapshots r =
     (let failed = length (filter (\<lambda>s. sn_state s = GW_CHANNEL_FAILED) snapshots) in
      JObj [(''status'', JStr (if failed = 0 \<and> rs_state r \<notin> {GW_RECORDING_LOW_SPACE, GW_RECORDING_UNAVAILABLE}
                               then ''ok'' else ''degraded'')),
            (''channel_count'', jnat (length snapshots)),
            (''running'', jnat (length (filter (\<lambda>s. sn_state s = GW_CHANNEL_RUNNING) snapshots))),
            (''failed'', jnat failed), (''recording'', JStr (gw_recording_state_string (rs_state r)))])"

definition recording_json :: "gw_recording_snapshot \<Rightarrow> json" where
  "recording_json r = JObj
     [(''enabled'', JBool (rs_enabled r)), (''status'', JStr (gw_recording_state_string (rs_state r))),
      (''filesystem_available'', JBool (rs_filesystem_available r)),
      (''total_bytes'', jnat (unat (rs_total_bytes r))), (''available_bytes'', jnat (unat (rs_available_bytes r))),
      (''min_free_bytes'', jnat (unat (rs_min_free_bytes r)))]"

definition channels_json :: "format_double \<Rightarrow> gw_channel_snapshot list \<Rightarrow> json" where
  "channels_json fmt snapshots = JObj [(''channels'', JArr (map (snapshot_json fmt) snapshots))]"

definition accepted_json :: "string \<Rightarrow> string \<Rightarrow> json" where
  "accepted_json cid action = JObj [(''status'', JStr ''accepted''), (''channel_id'', JStr cid), (''action'', JStr action)]"

lemmas key_simps = q_def plain_literal plain_def

lemma health_text: "pieces_text (health_pieces ss r) = jprint (health_json ss r) @ [LF]"
  by (simp add: health_pieces_def health_json_def Let_def key_simps)

lemma recording_text: "pieces_text (recording_pieces r) = jprint (recording_json r) @ [LF]"
  by (simp add: recording_pieces_def recording_json_def json_bool_def key_simps)

lemma accepted_text: "pieces_text (accepted_pieces cid action) = jprint (accepted_json cid action) @ [LF]"
  by (simp add: accepted_pieces_def accepted_json_def key_simps)

fun channel_pieces :: "format_double \<Rightarrow> bool \<Rightarrow> gw_channel_snapshot list \<Rightarrow> json_piece list" where
  "channel_pieces fmt is_first [] = []"
| "channel_pieces fmt is_first (s # ss) =
     (if is_first then [] else [Raw '','']) @ snapshot_pieces fmt s @ channel_pieces fmt False ss"

lemma json_append_emit: "json_append w t = json_emit w [Raw t]"
  by (simp add: json_emit_def)

lemma emit_channels_pieces: "emit_channels fmt is_first ss w = json_emit w (channel_pieces fmt is_first ss)"
proof (induction ss arbitrary: is_first w)
  case Nil
  then show ?case by (simp add: json_emit_def)
next
  case (Cons s ss)
  then show ?case by (simp add: json_snapshot_def json_append_emit flip: json_emit_append)
qed

lemma channel_pieces_text:
  "pieces_text (channel_pieces fmt is_first ss) =
     (if ss = [] then [] else (if is_first then [] else '','') @ jprint_elems (map (snapshot_json fmt) ss))"
  by (induction ss arbitrary: is_first) (auto simp: snapshot_text)

lemma channels_text:
  "pieces_text (Raw (q ''{`channels`:['') # channel_pieces fmt True ss @ [Raw ('']}'' @ [LF])]) = jprint (channels_json fmt ss) @ [LF]"
  by (cases ss) (simp_all add: channel_pieces_text channels_json_def key_simps snapshot_text)

lemma channel_text:
  "pieces_text (snapshot_pieces fmt s @ [Raw [LF]]) = jprint (snapshot_json fmt s) @ [LF]"
  by (simp add: snapshot_text)

lemma jwf_route_documents:
  "jwf (health_json ss r)" "jwf (recording_json r)" "jwf (accepted_json cid action)"
  "prints_numbers fmt \<Longrightarrow> jwf (channels_json fmt ss)"
  by (simp_all add: health_json_def recording_json_def accepted_json_def channels_json_def Let_def list_all_iff jwf_documents)

section \<open>What a response is\<close>

text \<open>The result of a builder for the document \<open>j\<close>: the response with that document, or the overflow error.\<close>

definition delivers :: "gw_http_response \<Rightarrow> json \<Rightarrow> gw_error option \<Rightarrow> http_result" where
  "delivers r j e =
     (if length (jprint j) + 1 < GW_HTTP_BODY_CAP
      then (GW_OK, r\<lparr>hr_body := jprint j @ [LF]\<rparr>, gw_error_clear e)
      else (GW_ERR_OVERFLOW, r, gw_error_set e GW_ERR_OVERFLOW ''HTTP JSON response exceeds capacity''))"

lemma finish_delivers:
  "pieces_text ps = jprint j @ [LF] \<Longrightarrow> finish_response r (json_emit body_writer ps) e = delivers r j e"
  by (simp add: finish_pieces delivers_def)

lemma error_response_delivers:
  "error_response r code name message e = delivers (r\<lparr>hr_status_code := code\<rparr>) (error_json name message) e"
  unfolding error_response_def by (rule finish_delivers [OF error_text])

lemma metrics_delivers:
  "gw_http_render_channel_metrics fmt s e = delivers ok_response (metrics_json fmt s) e"
  unfolding gw_http_render_channel_metrics_def
  using finish_delivers [OF metrics_text, of ok_response fmt s e] by (simp add: ok_response_def zero_response_def)

lemma list_snapshots_all:
  assumes "manager_inv m"
  shows "gw_channel_manager_list_snapshots m GW_MAX_CHANNELS e =
    (let all = map visible (filter en_occupied (mg_entries m)) in (GW_OK, all, length all, gw_error_clear e))"
proof -
  have "length (filter en_occupied (mg_entries m)) \<le> GW_MAX_CHANNELS"
    by (rule order_trans [OF length_filter_le]) (use assms in \<open>simp add: manager_inv_def\<close>)
  then show ?thesis
    using copy_snapshots_result [of "[]" GW_MAX_CHANNELS "mg_entries m"]
    by (simp add: gw_channel_manager_list_snapshots_def Let_def)
qed

definition all_snapshots :: "gw_channel_manager \<Rightarrow> gw_channel_snapshot list" where
  "all_snapshots m = map visible (filter en_occupied (mg_entries m))"

lemma route_channels_delivers:
  assumes "manager_inv m"
  shows "route_channels env m e = delivers ok_response (channels_json (he_format env) (all_snapshots m)) (gw_error_clear e)"
proof -
  let ?ps = "Raw (q ''{`channels`:['') # channel_pieces (he_format env) True (all_snapshots m) @ [Raw ('']}'' @ [LF])]"
  have "json_append (emit_channels (he_format env) True (all_snapshots m) (json_append body_writer (q ''{`channels`:['')))
      ('']}'' @ [LF]) = json_emit body_writer ?ps"
    unfolding emit_channels_pieces json_append_emit by (simp flip: json_emit_append)
  then show ?thesis
    using finish_delivers [OF channels_text, of ok_response "he_format env" "all_snapshots m" "gw_error_clear e"]
    by (simp add: route_channels_def list_snapshots_all [OF assms] Let_def all_snapshots_def)
qed

lemma route_channel_delivers:
  "route_channel env m cid e =
     (case gw_channel_manager_get_snapshot m cid e of
        (st, Some s, e') \<Rightarrow> delivers ok_response (snapshot_json (he_format env) s) e'
      | (st, None, e') \<Rightarrow> not_found ''channel was not found'' e')"
proof -
  have "json_append (json_snapshot fmt body_writer s) [LF] = json_emit body_writer (snapshot_pieces fmt s @ [Raw [LF]])" for fmt s
    by (simp add: json_snapshot_def json_append_emit json_emit_append)
  then show ?thesis by (simp add: route_channel_def finish_delivers [OF channel_text] cong: option.case_cong)
qed

definition path_of :: "string \<Rightarrow> string" where
  "path_of target = takeWhile (\<lambda>c. c \<noteq> CHR ''?'') target"

lemma route_by_path:
  "gw_http_route env m rec mt target e =
     (if CHR ''?'' \<in> set target \<and> (path_of target = [] \<or> HTTP_TARGET_CAP \<le> length (path_of target))
      then answer m (error_response ok_response 400 ''bad_request'' ''request target is invalid'' e)
      else route_path env m rec mt (path_of target) e)"
proof (cases "CHR ''?'' \<in> set target")
  case True
  let ?d = "dropWhile (\<lambda>c. c \<noteq> CHR ''?'') target"
  have "length target = length (path_of target) + length ?d"
    unfolding path_of_def by (metis length_append takeWhile_dropWhile_id)
  then have l: "length target - length ?d = length (path_of target)" by simp
  have "take (length (path_of target)) target = path_of target"
    unfolding path_of_def by (metis append_eq_conv_conj takeWhile_dropWhile_id)
  with True l show ?thesis by (simp add: gw_http_route_def strchr_def Let_def)
next
  case False
  then have "path_of target = target" unfolding path_of_def by (auto simp: takeWhile_eq_all_conv)
  with False show ?thesis by (simp add: gw_http_route_def strchr_def)
qed

lemma strncmp_prefix: "strncmp_eq t p (length p) \<longleftrightarrow> (\<exists>r. t = p @ r)"
  by (auto simp: strncmp_eq_def) (metis append_take_drop_id)

lemma length_CHANNELS [simp]: "length CHANNELS = 13"
  by (simp add: CHANNELS_def)

lemma split_remainder:
  assumes "strchr r CHR ''/'' = Some sep"
  shows "r = take (length r - length sep) r @ CHR ''/'' # tl sep" and "CHR ''/'' \<notin> set (take (length r - length sep) r)"
proof -
  have sep: "sep = dropWhile (\<lambda>x. x \<noteq> CHR ''/'') r" "CHR ''/'' \<in> set r"
    using assms by (auto simp: strchr_def split: if_splits)
  then have "hd sep = CHR ''/''" "sep \<noteq> []"
    using hd_dropWhile [of "\<lambda>x. x \<noteq> CHR ''/''" r] by (auto simp: dropWhile_eq_Nil_conv)
  then have s: "sep = CHR ''/'' # tl sep" by (metis list.collapse)
  have "length r = length (takeWhile (\<lambda>x. x \<noteq> CHR ''/'') r) + length sep"
    unfolding sep(1) by (metis length_append takeWhile_dropWhile_id)
  then have t: "take (length r - length sep) r = takeWhile (\<lambda>x. x \<noteq> CHR ''/'') r"
    by (metis add_diff_cancel_right' append_eq_conv_conj takeWhile_dropWhile_id)
  show "r = take (length r - length sep) r @ CHR ''/'' # tl sep"
    unfolding t by (metis s sep(1) takeWhile_dropWhile_id)
  show "CHR ''/'' \<notin> set (take (length r - length sep) r)" unfolding t by (auto dest: set_takeWhileD)
qed

lemma parse_action_target_iff:
  "parse_action_target target cap = Some (cid, action) \<longleftrightarrow>
     target = CHANNELS @ cid @ CHR ''/'' # action \<and> CHR ''/'' \<notin> set cid \<and> cid \<noteq> [] \<and> length cid < cap \<and>
     action \<in> {''start'', ''stop'', ''restart''}"
proof
  assume p: "parse_action_target target cap = Some (cid, action)"
  then have "strncmp_eq target CHANNELS 13" by (simp add: parse_action_target_def split: if_splits)
  then obtain r where r: "target = CHANNELS @ r" using strncmp_prefix [of target CHANNELS] by auto
  with p obtain sep where sep: "strchr r CHR ''/'' = Some sep"
    by (auto simp: parse_action_target_def Let_def split: if_splits option.splits)
  note split = split_remainder [OF sep]
  have pa: "strncmp_eq (CHANNELS @ r) CHANNELS 13" by (simp add: strncmp_eq_def)
  have f: "cid = take (length r - length sep) r" "action = tl sep" "0 < length r - length sep" "length r - length sep < cap"
    "action \<in> {''start'', ''stop'', ''restart''}"
    using p unfolding r parse_action_target_def by (simp_all add: pa sep Let_def split: if_splits)
  then show "target = CHANNELS @ cid @ CHR ''/'' # action \<and> CHR ''/'' \<notin> set cid \<and> cid \<noteq> [] \<and> length cid < cap \<and>
      action \<in> {''start'', ''stop'', ''restart''}"
    using split r by (metis (no_types, lifting) diff_le_self length_greater_0_conv length_take min.absorb2)
next
  assume a: "target = CHANNELS @ cid @ CHR ''/'' # action \<and> CHR ''/'' \<notin> set cid \<and> cid \<noteq> [] \<and> length cid < cap \<and>
     action \<in> {''start'', ''stop'', ''restart''}"
  then show "parse_action_target target cap = Some (cid, action)"
    by (auto simp: parse_action_target_def strncmp_eq_def Let_def)
qed

section \<open>Every response\<close>

text \<open>A response as the client may rely on it: a known status code, an \<open>Allow\<close> list exactly with 405,
  and, for JSON, one complete document within the body.\<close>

definition json_body :: "gw_http_response \<Rightarrow> bool" where
  "json_body r \<longleftrightarrow> (\<exists>j. jwf j \<and> hr_body r = jprint j @ [LF])"

definition response_ok :: "gw_http_response \<Rightarrow> bool" where
  "response_ok r \<longleftrightarrow> hr_status_code r \<in> {200, 202, 400, 404, 405, 409} \<and>
     (hr_status_code r = 405 \<longleftrightarrow> hr_allow_get r \<or> hr_allow_post r) \<and> \<not> (hr_allow_get r \<and> hr_allow_post r) \<and>
     length (hr_body r) < GW_HTTP_BODY_CAP \<and> (hr_content_type r = GW_HTTP_CONTENT_JSON \<longrightarrow> json_body r)"

definition result_ok :: "http_result \<Rightarrow> bool" where
  "result_ok res \<longleftrightarrow> (fst res = GW_OK \<longrightarrow> response_ok (fst (snd res)))"

lemma delivers_ok:
  assumes "jwf j" and "hr_status_code r \<in> {200, 202, 400, 404, 405, 409}"
    and "hr_status_code r = 405 \<longleftrightarrow> hr_allow_get r \<or> hr_allow_post r" and "\<not> (hr_allow_get r \<and> hr_allow_post r)"
  shows "result_ok (delivers r j e)"
  using assms by (auto simp: result_ok_def response_ok_def json_body_def delivers_def)

lemma ok_response_simps [simp]:
  "hr_status_code ok_response = 200" "\<not> hr_allow_get ok_response" "\<not> hr_allow_post ok_response"
  "hr_content_type ok_response = GW_HTTP_CONTENT_JSON"
  by (simp_all add: ok_response_def zero_response_def)

lemma not_found_ok: "result_ok (not_found message e)"
  unfolding not_found_def error_response_delivers by (rule delivers_ok) (simp_all add: jwf_documents)

lemma method_not_allowed_ok: "g \<noteq> p \<Longrightarrow> result_ok (method_not_allowed ok_response g p e)"
  unfolding method_not_allowed_def error_response_delivers by (rule delivers_ok) (auto simp: jwf_documents)

lemma get_only_ok: "result_ok r \<Longrightarrow> result_ok (get_only mt e r)"
  by (simp add: get_only_def method_not_allowed_ok)

lemma failed_ok: "st \<noteq> GW_OK \<Longrightarrow> result_ok (st, r, e)"
  by (simp add: result_ok_def)

text \<open>The page files are read as the kernel reads files: up to the requested size at a time.\<close>

definition page_lawful :: "page_files \<Rightarrow> bool" where
  "page_lawful files \<longleftrightarrow>
     (\<forall>path. \<exists>rs. fa_reads (pf_file files path) = rs @ [Read_Eof] \<and> kernel_reads GW_HTTP_BODY_CAP 0 rs)"

text \<open>A page is delivered whole: the body is the contents of the file.\<close>

lemma load_page_whole:
  assumes "kernel_reads capacity 0 rs" and "2 \<le> capacity"
  shows "load_page_file \<lparr>fa_open = True, fa_reads = rs @ [Read_Eof], fa_close = True\<rparr> capacity =
    (if length (read_bytes rs) < capacity then (0, read_bytes rs) else (1, []))"
proof (cases "length (read_bytes rs) + 1 < capacity")
  case True
  with assms read_loop_kernel [of capacity "[]" rs] show ?thesis by (simp add: load_page_file_def)
next
  case False
  then obtain b rs' where b: "read_loop capacity [] (rs @ [Read_Eof]) = Some (b, rs' @ [Read_Eof])"
      "length b + 1 = capacity" "read_bytes rs = b @ read_bytes rs'" "kernel_reads capacity (length b) rs'"
    using read_loop_kernel [of capacity "[]" rs] assms by auto
  with probe_extra_kernel [OF b(4)] show ?thesis by (cases "read_bytes rs' = []") (auto simp: load_page_file_def)
qed

lemma try_page_bound: "page_lawful files \<Longrightarrow> length (snd (try_page files relative)) < GW_HTTP_BODY_CAP"
proof -
  assume lawful: "page_lawful files"
  have "length (snd (load_page_file (pf_file files path) GW_HTTP_BODY_CAP)) < GW_HTTP_BODY_CAP" for path
  proof -
    obtain rs where rs: "fa_reads (pf_file files path) = rs @ [Read_Eof]" "kernel_reads GW_HTTP_BODY_CAP 0 rs"
      using lawful unfolding page_lawful_def by blast
    show ?thesis
      using read_loop_kernel [of GW_HTTP_BODY_CAP "[]" rs] rs by (auto simp: load_page_file_def split: if_splits)
  qed
  then show ?thesis by (simp add: try_page_def split: option.splits)
qed

lemma page_ok: "page_lawful files \<Longrightarrow> result_ok (gw_http_render_view_page files e)"
  using try_page_bound by (simp add: gw_http_render_view_page_def result_ok_def response_ok_def zero_response_def Let_def)

lemma read_routes_ok:
  assumes "manager_inv m" and "prints_numbers (he_format env)" and "page_lawful (he_page env)"
  shows "result_ok (route_health env m rec e)" "result_ok (route_recording env rec e)" "result_ok (route_channels env m e)"
    "result_ok (route_view env m cid e)" "result_ok (route_metrics env m cid e)" "result_ok (route_channel env m cid e)"
proof -
  note d = delivers_ok [OF jwf_route_documents(1)] delivers_ok [OF jwf_route_documents(2)]
  show "result_ok (route_health env m rec e)"
    by (auto simp: route_health_def list_snapshots_all [OF assms(1)] Let_def finish_delivers [OF health_text]
        intro!: failed_ok d(1) split: prod.splits)
  show "result_ok (route_recording env rec e)"
    by (auto simp: route_recording_def finish_delivers [OF recording_text] intro!: failed_ok d(2) split: prod.splits)
  show "result_ok (route_channels env m e)"
    unfolding route_channels_delivers [OF assms(1)] by (rule delivers_ok) (simp_all add: jwf_route_documents assms(2))
  show "result_ok (route_view env m cid e)"
    by (auto simp: route_view_def intro!: page_ok [OF assms(3)] not_found_ok split: prod.splits option.splits)
  show "result_ok (route_metrics env m cid e)"
    by (auto simp: route_metrics_def metrics_delivers assms(2) jwf_documents intro!: delivers_ok not_found_ok split: prod.splits option.splits)
  show "result_ok (route_channel env m cid e)"
    by (auto simp: route_channel_delivers assms(2) jwf_documents intro!: delivers_ok not_found_ok split: prod.splits option.splits)
qed

text \<open>The response part of a router result.\<close>

definition without_manager :: "route_result \<Rightarrow> http_result" where
  "without_manager res = (case res of (st, m, r, e) \<Rightarrow> (st, r, e))"

lemma without_answer [simp]: "without_manager (answer m r) = r"
  by (simp add: without_manager_def answer_def split: prod.splits)

lemma route_action_ok: "result_ok (without_manager (route_action env m cid action e))"
proof -
  obtain st m' e' where c: "run_command env m cid action e = (st, m', e')" by (metis prod_cases3)
  have "result_ok (error_response ok_response 409 ''state_conflict'' ''channel command conflicts with current state'' e')"
    unfolding error_response_delivers by (rule delivers_ok) (simp_all add: jwf_documents)
  moreover have "result_ok (finish_response (ok_response\<lparr>hr_status_code := 202\<rparr>) (json_emit body_writer (accepted_pieces cid action)) e')"
    unfolding finish_delivers [OF accepted_text] by (rule delivers_ok) (simp_all add: jwf_route_documents)
  ultimately show ?thesis by (simp add: route_action_def c not_found_ok failed_ok)
qed

lemma route_path_ok:
  assumes "manager_inv m" and "prints_numbers (he_format env)" and "page_lawful (he_page env)"
  shows "result_ok (without_manager (route_path env m rec mt target e))"
  unfolding route_path_def
  by (auto intro!: get_only_ok read_routes_ok [OF assms] not_found_ok method_not_allowed_ok route_action_ok split: option.splits)

lemma route_ok:
  assumes "manager_inv m" and "prints_numbers (he_format env)" and "page_lawful (he_page env)"
  shows "result_ok (without_manager (gw_http_route env m rec mt target e))"
proof -
  have "result_ok (error_response ok_response 400 ''bad_request'' ''request target is invalid'' e)"
    unfolding error_response_delivers by (rule delivers_ok) (simp_all add: jwf_documents)
  then show ?thesis unfolding route_by_path by (simp add: route_path_ok [OF assms])
qed

text \<open>C12: every answer of the router that is sent to a client has one of six status codes, names the
  allowed method exactly with 405, fits the body, and, unless it is the HTML page, is one complete JSON
  document that a JSON reader accepts, never cut off at the end of the buffer.\<close>

theorem http_responses_wellformed:
  assumes "manager_inv m" and "prints_numbers (he_format env)" and "page_lawful (he_page env)"
    and "gw_http_route env m rec mt target e = (GW_OK, m', r, e')"
  shows "hr_status_code r \<in> {200, 202, 400, 404, 405, 409} \<and>
     (hr_status_code r = 405 \<longleftrightarrow> hr_allow_get r \<or> hr_allow_post r) \<and> \<not> (hr_allow_get r \<and> hr_allow_post r) \<and>
     length (hr_body r) < GW_HTTP_BODY_CAP \<and>
     (hr_content_type r = GW_HTTP_CONTENT_JSON \<longrightarrow> (\<exists>j. json_read (hr_body r) = Some j))"
proof -
  have "response_ok r"
    using route_ok [OF assms(1-3), of rec mt target e] assms(4) by (simp add: without_manager_def result_ok_def)
  then show ?thesis using json_read_jprint by (auto simp: response_ok_def json_body_def)
qed

section \<open>Only commands change the manager\<close>

lemma answer_manager [simp]: "fst (snd (answer m r)) = m"
  by (simp add: answer_def split: prod.splits)

lemma route_action_manager: "fst (snd (route_action env m cid action e)) = fst (snd (run_command env m cid action e))"
  by (simp add: route_action_def split: prod.splits)

lemma run_command_inv:
  assumes "manager_inv m" and "joins_lawful (he_joins env) m"
  shows "manager_inv (fst (snd (run_command env m cid action e)))"
proof -
  obtain st m' e' where c: "run_command env m cid action e = (st, m', e')" by (metis prod_cases3)
  have "manager_inv m'" if "gw_channel_manager_start_channel (he_creates env) (he_joins env) m cid e = (st, m', e')"
    using start_channel_result [OF assms that] assms(1) by (cases "find_entry m cid") (auto simp: only_slot_def)
  moreover have "manager_inv m'" if "gw_channel_manager_stop_channel (he_joins env) m cid e = (st, m', e')"
    using stop_channel_result [OF assms that] assms(1) by (cases "find_entry m cid") (auto simp: only_slot_def)
  moreover have "manager_inv m'" if "gw_channel_manager_restart_channel (he_creates env) (he_joins env) m cid e = (st, m', e')"
    using restart_channel_slot [OF assms that] by simp
  ultimately show ?thesis using c by (auto simp: run_command_def split: if_splits)
qed

lemma route_path_manager:
  "fst (snd (route_path env m rec mt target e)) =
     (case parse_action_target target GW_ID_CAP of
        Some (cid, action) \<Rightarrow> if mt = ''POST'' then fst (snd (run_command env m cid action e)) else m
      | None \<Rightarrow> m)"
proof (cases "parse_action_target target GW_ID_CAP")
  case None
  then show ?thesis by (auto simp: route_path_def split: option.splits)
next
  case (Some ca)
  obtain cid action where ca: "ca = (cid, action)" by fastforce
  with Some have t: "target = CHANNELS @ cid @ CHR ''/'' # action" "CHR ''/'' \<notin> set cid" "action \<in> {''start'', ''stop'', ''restart''}"
    by (simp_all add: parse_action_target_iff)
  have "parse_last_segment ''/view/'' target = None" "parse_channel_leaf target ''metrics'' GW_ID_CAP = None"
    "parse_last_segment CHANNELS target = None"
    using t by (auto simp: parse_last_segment_def parse_channel_leaf_def CHANNELS_def strncmp_eq_def Let_def)
  moreover have "target \<noteq> ''/v1/health''" "target \<noteq> ''/v1/recording''" "target \<noteq> ''/v1/channels''"
    using t(1) by (auto simp: CHANNELS_def)
  ultimately show ?thesis using Some ca by (auto simp: route_path_def route_action_manager)
qed

text \<open>C10: a request can change the manager only as a POST to one of the three command targets of one
  channel, with an id that fits its buffer; the new state is then exactly that of the named command. Every
  other request, whatever its method, target or query, leaves all channels as they are; and the registry
  stays consistent in any case.\<close>

theorem http_only_commands_change:
  assumes "manager_inv m" and "joins_lawful (he_joins env) m"
    and "gw_http_route env m rec mt target e = (st, m', r, e')"
  shows "manager_inv m' \<and>
     (m' = m \<or> mt = ''POST'' \<and>
       (\<exists>cid action. path_of target = CHANNELS @ cid @ CHR ''/'' # action \<and> action \<in> {''start'', ''stop'', ''restart''} \<and>
          CHR ''/'' \<notin> set cid \<and> cid \<noteq> [] \<and> length cid < GW_ID_CAP \<and> m' = fst (snd (run_command env m cid action e))))"
proof (cases "CHR ''?'' \<in> set target \<and> (path_of target = [] \<or> HTTP_TARGET_CAP \<le> length (path_of target))")
  case True
  have "fst (snd (gw_http_route env m rec mt target e)) = m" using True by (simp add: route_by_path)
  with assms show ?thesis by simp
next
  case False
  have m': "m' = fst (snd (route_path env m rec mt (path_of target) e))"
    using assms(3) False by (simp add: route_by_path)
  show ?thesis
  proof (cases "parse_action_target (path_of target) GW_ID_CAP")
    case None
    with m' assms(1) show ?thesis by (simp add: route_path_manager)
  next
    case (Some ca)
    obtain cid action where ca: "ca = (cid, action)" by fastforce
    note t = Some [unfolded ca parse_action_target_iff]
    have eq: "m' = (if mt = ''POST'' then fst (snd (run_command env m cid action e)) else m)"
      using m' Some ca by (simp add: route_path_manager)
    show ?thesis
    proof (cases "mt = ''POST''")
      case True
      then have "m' = fst (snd (run_command env m cid action e))" using eq by simp
      with True t run_command_inv [OF assms(1,2), of cid action e] show ?thesis by blast
    qed (use eq assms(1) in simp)
  qed
qed

section \<open>What the routes answer\<close>

lemma route_plain_path:
  "CHR ''?'' \<notin> set target \<Longrightarrow> gw_http_route env m rec mt target e = route_path env m rec mt target e"
  by (simp add: gw_http_route_def strchr_def)

text \<open>C11: the listing of all channels, read back. The answer to a GET of the channel list, with or without
  a query, is \<open>200\<close> with a document that reads back as exactly the snapshots of the occupied slots in slot
  order, if that document fits the body; otherwise the router reports the overflow and the manager is
  untouched.\<close>

theorem http_listing_read_back:
  assumes "manager_inv m" and "prints_numbers (he_format env)" and "path_of target = ''/v1/channels''"
  shows "let j = channels_json (he_format env) (all_snapshots m); res = gw_http_route env m rec ''GET'' target e in
     (if length (jprint j) + 1 < GW_HTTP_BODY_CAP
      then (\<exists>r e'. res = (GW_OK, m, r, e') \<and> hr_status_code r = 200 \<and> json_read (hr_body r) = Some j)
      else (\<exists>r e'. res = (GW_ERR_OVERFLOW, m, r, e')))"
proof -
  let ?j = "channels_json (he_format env) (all_snapshots m)"
  have "gw_http_route env m rec ''GET'' target e = answer m (delivers ok_response ?j (gw_error_clear e))"
    using assms(3) by (simp add: route_by_path route_path_def get_only_def route_channels_delivers [OF assms(1)])
  then show ?thesis
    using json_read_jprint [of ?j] jwf_route_documents(4) [OF assms(2), of "all_snapshots m"]
    by (simp add: Let_def delivers_def answer_def)
qed

lemma short_document:
  assumes "length (jprint j) < 2000"
  shows "delivers r j e = (GW_OK, r\<lparr>hr_body := jprint j @ [LF]\<rparr>, gw_error_clear e)"
  using assms by (simp add: delivers_def)

lemma length_json_escape: "length (json_escape c) \<le> 6"
  by (simp add: json_escape_def Let_def)

lemma length_json_literal: "length (json_literal v) \<le> 6 * length v + 2"
proof -
  have "length (concat (map json_escape v)) \<le> 6 * length v"
  proof (induction v)
    case (Cons c v)
    with length_json_escape [of c] show ?case by simp
  qed simp
  then show ?thesis by (simp add: json_literal_def)
qed

lemma accepted_short:
  assumes "length cid < GW_ID_CAP" and "action \<in> {''start'', ''stop'', ''restart''}"
  shows "length (jprint (accepted_json cid action)) < 2000"
  using assms length_json_literal [of cid] by (auto simp: accepted_json_def plain_literal plain_def)

definition status_of_command :: "gw_status \<Rightarrow> int option" where
  "status_of_command st =
     (case st of GW_OK \<Rightarrow> Some 202 | GW_ERR_NOT_FOUND \<Rightarrow> Some 404 | GW_ERR_CONFLICT \<Rightarrow> Some 409 | _ \<Rightarrow> None)"

lemma route_command:
  assumes "CHR ''/'' \<notin> set cid" "CHR ''?'' \<notin> set cid" "cid \<noteq> []" "length cid < GW_ID_CAP" "action \<in> {''start'', ''stop'', ''restart''}"
    and "run_command env m cid action e = (st, m', e1)"
  shows "\<exists>r e'. gw_http_route env m rec ''POST'' (CHANNELS @ cid @ CHR ''/'' # action) e =
      ((if status_of_command st = None then st else GW_OK), m', r, e') \<and>
      (\<forall>code. status_of_command st = Some code \<longrightarrow> hr_status_code r = code) \<and>
      (st = GW_OK \<longrightarrow> json_read (hr_body r) = Some (accepted_json cid action))"
proof -
  let ?t = "CHANNELS @ cid @ CHR ''/'' # action"
  have p: "parse_action_target ?t GW_ID_CAP = Some (cid, action)" using assms by (simp add: parse_action_target_iff)
  have "CHR ''?'' \<notin> set ?t" using assms(2,5) by (auto simp: CHANNELS_def)
  moreover have "route_path env m rec ''POST'' ?t e = route_action env m cid action e"
    using p assms(1,5) by (auto simp: route_path_def parse_last_segment_def parse_channel_leaf_def CHANNELS_def strncmp_eq_def Let_def)
  ultimately have r: "gw_http_route env m rec ''POST'' ?t e = route_action env m cid action e" by (simp add: route_plain_path)
  have short: "length (jprint (error_json a b)) < 2000" if "length a + length b < 300" for a b
    using that length_json_literal [of a] length_json_literal [of b] by (auto simp: error_json_def plain_literal plain_def)
  show ?thesis
    unfolding r route_action_def assms(6)
    using accepted_short [OF assms(4,5)] json_read_jprint [OF jwf_route_documents(3), of cid action]
    by (cases st) (simp_all add: answer_def not_found_def error_response_delivers finish_delivers [OF accepted_text]
        short_document short status_of_command_def)
qed

text \<open>C27: the stop command end to end. A POST to the stop target of a channel is answered with 202 exactly
  if the manager is available, the channel is managed and its thread is running; then the answer echoes
  channel and action and the thread has been joined. The other answers are 404, exactly if an available
  manager does not manage the channel, and 409; no other slot changes.\<close>

theorem http_stop_command_exact:
  assumes "manager_inv m" and "joins_lawful (he_joins env) m"
    and "CHR ''/'' \<notin> set cid" and "CHR ''?'' \<notin> set cid" and "cid \<noteq> []" and "length cid < GW_ID_CAP"
  shows "\<exists>m' r e'. gw_http_route env m rec ''POST'' (CHANNELS @ cid @ ''/stop'') e = (GW_OK, m', r, e') \<and>
     hr_status_code r \<in> {202, 404, 409} \<and>
     (hr_status_code r = 202 \<longleftrightarrow> available m cid \<and> (\<exists>k. find_entry m cid = Some k \<and> en_thread_running (mg_entries m ! k))) \<and>
     (hr_status_code r = 404 \<longleftrightarrow> available m cid \<and> find_entry m cid = None) \<and>
     (hr_status_code r = 202 \<longrightarrow> json_read (hr_body r) = Some (accepted_json cid ''stop'')) \<and>
     (\<forall>k. find_entry m cid = Some k \<longrightarrow> only_slot k m m' \<and> (available m cid \<longrightarrow> \<not> en_thread_started (mg_entries m' ! k)))"
proof -
  obtain st m' e1 where s: "gw_channel_manager_stop_channel (he_joins env) m cid e = (st, m', e1)" by (metis prod_cases3)
  then have "run_command env m cid ''stop'' e = (st, m', e1)" by (simp add: run_command_def)
  from route_command [OF assms(3-6) _ this, of rec] obtain r e' where r:
    "gw_http_route env m rec ''POST'' (CHANNELS @ cid @ ''/stop'') e = (if status_of_command st = None then st else GW_OK, m', r, e')"
    "\<forall>code. status_of_command st = Some code \<longrightarrow> hr_status_code r = code"
    "st = GW_OK \<longrightarrow> json_read (hr_body r) = Some (accepted_json cid ''stop'')" by auto
  have st: "st \<in> {GW_OK, GW_ERR_NOT_FOUND, GW_ERR_CONFLICT}" "st = GW_ERR_NOT_FOUND \<longleftrightarrow> available m cid \<and> find_entry m cid = None"
    using s assms(5) by (auto simp: gw_channel_manager_stop_channel_def with_command_def command_entry_def available_def Let_def
        split: if_splits option.splits)
  note c = stop_channel_result [OF assms(1,2) s]
  have code: "hr_status_code r = (if st = GW_OK then 202 else if st = GW_ERR_NOT_FOUND then 404 else 409)"
    using r(2) st(1) by (auto simp: status_of_command_def)
  show ?thesis
    by (rule exI [of _ m'], rule exI [of _ r], rule exI [of _ e']) (use r st c code in \<open>auto simp: status_of_command_def\<close>)
qed

section \<open>A concrete server\<close>

definition fixed_format :: format_double where
  "fixed_format d = ''25.000''"

lemma fixed_format_prints: "prints_numbers fixed_format"
  by (simp add: prints_numbers_def fixed_format_def number_token_def number_char_def isdigit_def)

definition camera_env :: http_env where
  "camera_env = \<lparr>he_format = fixed_format, he_statvfs = None,
     he_page = \<lparr>pf_exe = None, pf_file = (\<lambda>path. \<lparr>fa_open = False, fa_reads = [Read_Eof], fa_close = False\<rparr>)\<rparr>,
     he_creates = (\<lambda>i. None), he_joins = quiet_joins\<rparr>"

lemma camera_env_simps [simp]: "he_format camera_env = fixed_format" "he_joins camera_env = quiet_joins"
  by (simp_all add: camera_env_def)

lemma camera_page_lawful: "page_lawful (he_page camera_env)"
  by (simp add: page_lawful_def camera_env_def)

theorem http_responses_wellformed_witness:
  "\<exists>r e'. gw_http_route camera_env running_camera sample_recording ''GET'' ''/none'' None = (GW_OK, running_camera, r, e') \<and>
     hr_status_code r = 404 \<and> (\<exists>j. json_read (hr_body r) = Some j)"
proof -
  have "length (jprint (error_json ''not_found'' ''route was not found'')) < 2000"
    by (simp add: error_json_def plain_literal plain_def)
  then obtain r e' where r: "gw_http_route camera_env running_camera sample_recording ''GET'' ''/none'' None = (GW_OK, running_camera, r, e')"
    "hr_status_code r = 404" "hr_content_type r = GW_HTTP_CONTENT_JSON"
    by (simp add: route_plain_path route_path_def parse_last_segment_def parse_channel_leaf_def parse_action_target_def
        strncmp_eq_def CHANNELS_def not_found_def error_response_delivers short_document answer_def)
  from http_responses_wellformed [OF camera_started(3) _ camera_page_lawful r(1)] fixed_format_prints r show ?thesis by simp
qed

theorem http_only_commands_change_witness:
  "fst (snd (gw_http_route camera_env running_camera sample_recording ''DELETE'' ''/v1/channels/cam01/stop'' None)) = running_camera"
proof -
  obtain st m' r e' where s: "gw_http_route camera_env running_camera sample_recording ''DELETE'' ''/v1/channels/cam01/stop'' None
      = (st, m', r, e')" by (metis prod_cases4)
  from http_only_commands_change [OF camera_started(3) _ s] quiet_joins_lawful s show ?thesis by simp
qed

theorem http_listing_read_back_witness:
  "\<exists>r e'. gw_http_route camera_env (empty_manager camera_config gw_supervisor_options_init) sample_recording ''GET'' ''/v1/channels?pretty'' None
       = (GW_OK, empty_manager camera_config gw_supervisor_options_init, r, e') \<and>
     hr_status_code r = 200 \<and> json_read (hr_body r) = Some (JObj [(''channels'', JArr [])])"
proof -
  let ?m = "empty_manager camera_config gw_supervisor_options_init"
  have path: "path_of ''/v1/channels?pretty'' = ''/v1/channels''" by (simp add: path_of_def)
  have all: "all_snapshots ?m = []" by (simp add: all_snapshots_def empty_manager_def empty_entry_def filter_empty_conv)
  have "length (jprint (JObj [(''channels'', JArr [])])) + 1 < GW_HTTP_BODY_CAP" by (simp add: plain_literal plain_def)
  with http_listing_read_back [OF empty_manager_ok(1) _ path, of camera_env camera_config gw_supervisor_options_init sample_recording None]
    fixed_format_prints all
  show ?thesis by (simp add: Let_def channels_json_def)
qed

theorem http_stop_command_exact_witness:
  "\<exists>m' r e'. gw_http_route camera_env running_camera sample_recording ''POST'' ''/v1/channels/cam01/stop'' None = (GW_OK, m', r, e') \<and>
     hr_status_code r = 202 \<and> json_read (hr_body r) = Some (accepted_json ''cam01'' ''stop'')"
proof -
  have "available running_camera ''cam01''" using camera_started(4,5) by (simp add: available_def)
  then show ?thesis
    using http_stop_command_exact [OF camera_started(3), of camera_env "''cam01''" sample_recording None] quiet_joins_lawful camera_slot(2,3)
    by (auto simp: CHANNELS_def)
qed

end
