(* ===== verification/Http_Server.thy ===== *)
theory Http_Server
  imports Http_Route
begin

text \<open>
  The socket side of the HTTP server (last part of \<^verbatim>\<open>src/api/http_server.c\<close>): receiving a
  request, parsing its first line, sending the answer, the accept loop, and the life cycle of the
  listener. The answers of the socket calls are lists, consumed in order; a list that ends while the
  code still waits gives \<open>None\<close>. The two-second socket timeouts appear as failing calls.
\<close>

abbreviation HTTP_REQUEST_CAP :: nat where "HTTP_REQUEST_CAP \<equiv> 8192"

definition CRLF :: string where
  "CRLF = [CR, LF]"

section \<open>Sending\<close>

datatype send_answer = Send_Bytes nat | Send_Intr | Send_Fail

text \<open>The flag the function returns, the bytes accepted by the kernel, and the answers left.\<close>

fun send_all :: "string \<Rightarrow> send_answer list \<Rightarrow> (bool \<times> string \<times> send_answer list) option" where
  "send_all data [] = (if data = [] then Some (True, [], []) else None)"
| "send_all data (a # as) =
     (if data = [] then Some (True, [], a # as)
      else case a of
        Send_Intr \<Rightarrow> send_all data as
      | Send_Fail \<Rightarrow> Some (False, [], as)
      | Send_Bytes n \<Rightarrow>
          if n = 0 then Some (False, [], as)
          else map_option (\<lambda>(ok, sent, rest). (ok, take n data @ sent, rest)) (send_all (drop n data) as))"

definition reason_phrase :: "int \<Rightarrow> string" where
  "reason_phrase status_code =
     (if status_code = 200 then ''OK''
      else if status_code = 202 then ''Accepted''
      else if status_code = 400 then ''Bad Request''
      else if status_code = 404 then ''Not Found''
      else if status_code = 405 then ''Method Not Allowed''
      else if status_code = 409 then ''Conflict''
      else if status_code = 431 then ''Request Header Fields Too Large''
      else ''Internal Server Error'')"

definition apostrophed :: "string \<Rightarrow> string" where
  "apostrophed s = [CHR 0x27] @ s @ [CHR 0x27]"

definition security_policy :: string where
  "security_policy =
     ''Content-Security-Policy: default-src '' @ apostrophed ''none'' @ ''; style-src '' @ apostrophed ''unsafe-inline'' @
     ''; script-src '' @ apostrophed ''unsafe-inline'' @ ''; frame-src http:; connect-src '' @ apostrophed ''self'' @
     ''; base-uri '' @ apostrophed ''none'' @ ''; form-action '' @ apostrophed ''none'' @ ''; object-src '' @
     apostrophed ''none'' @ ''; frame-ancestors '' @ apostrophed ''none'' @ CRLF"

definition allow_header :: "gw_http_response \<Rightarrow> string" where
  "allow_header r =
     (if hr_allow_get r \<and> hr_allow_post r then ''Allow: GET, POST'' @ CRLF
      else if hr_allow_get r then ''Allow: GET'' @ CRLF else []) @
     (if \<not> hr_allow_get r \<and> hr_allow_post r then ''Allow: POST'' @ CRLF else [])"

definition response_headers :: "gw_http_response \<Rightarrow> string" where
  "response_headers r =
     ''HTTP/1.1 '' @ dec_int (hr_status_code r) @ '' '' @ reason_phrase (hr_status_code r) @ CRLF @
     ''Content-Type: '' @ (if hr_content_type r = GW_HTTP_CONTENT_HTML then ''text/html; charset=utf-8'' else ''application/json'') @ CRLF @
     ''Content-Length: '' @ dec_nat (length (hr_body r)) @ CRLF @
     ''Connection: close'' @ CRLF @
     ''Cache-Control: no-store'' @ CRLF @
     ''X-Content-Type-Options: nosniff'' @ CRLF @
     ''Referrer-Policy: no-referrer'' @ CRLF @
     (if hr_content_type r = GW_HTTP_CONTENT_HTML then security_policy else []) @ allow_header r @ CRLF"

definition send_response :: "gw_http_response \<Rightarrow> send_answer list \<Rightarrow> (string \<times> send_answer list) option" where
  "send_response r sends =
     (if \<not> length (response_headers r) < 1024 then Some ([], sends)
      else case send_all (response_headers r) sends of
        None \<Rightarrow> None
      | Some (ok, sent, rest) \<Rightarrow>
          if ok then map_option (\<lambda>(ok', sent', rest'). (sent @ sent', rest')) (send_all (hr_body r) rest)
          else Some (sent, rest))"

definition zero_error :: gw_error where
  "zero_error = \<lparr>err_code = GW_OK, err_message = []\<rparr>"

definition respond_error :: "int \<Rightarrow> string \<Rightarrow> string \<Rightarrow> send_answer list \<Rightarrow> (string \<times> send_answer list) option" where
  "respond_error status_code code message sends =
     (case error_response zero_response status_code code message (Some zero_error) of (st, r, e) \<Rightarrow>
        if st = GW_OK then send_response r sends else Some ([], sends))"

section \<open>Receiving\<close>

datatype recv_answer = Recv_Data string | Recv_Intr | Recv_End

text \<open>The receive loop: \<open>Some None\<close> when the peer ends before the request is complete.\<close>

fun recv_loop :: "string \<Rightarrow> recv_answer list \<Rightarrow> string option option" where
  "recv_loop request [] = (if length request < HTTP_REQUEST_CAP then None else Some (Some request))"
| "recv_loop request (a # as) =
     (if \<not> length request < HTTP_REQUEST_CAP then Some (Some request)
      else case a of
        Recv_Intr \<Rightarrow> recv_loop request as
      | Recv_End \<Rightarrow> Some None
      | Recv_Data d \<Rightarrow>
          if d = [] then Some None
          else if strstr (cstr (request @ d)) (CRLF @ CRLF) \<noteq> None then Some (Some (request @ d))
          else recv_loop (request @ d) as)"

definition first_line :: "string \<Rightarrow> string option" where
  "first_line request =
     (case strstr (cstr request) CRLF of
        None \<Rightarrow> None
      | Some line_end \<Rightarrow> Some (take (length (cstr request) - length line_end) (cstr request)))"

text \<open>One \<^verbatim>\<open>%Ns\<close> of \<^verbatim>\<open>sscanf\<close>: the word and the text after it.\<close>

definition scan_word :: "nat \<Rightarrow> string \<Rightarrow> (string \<times> string) option" where
  "scan_word n s =
     (let t = dropWhile isspace s; w = take n (takeWhile (\<lambda>c. \<not> isspace c) t)
      in if w = [] then None else Some (w, drop (length w) t))"

text \<open>\<^verbatim>\<open>sscanf(request, "%7s %2047s %15s %c", \<dots>) == 3\<close> and the check of the version.\<close>

definition parse_request_line :: "string \<Rightarrow> (string \<times> string) option" where
  "parse_request_line line =
     (case scan_word 7 line of
        None \<Rightarrow> None
      | Some (request_method, r1) \<Rightarrow>
      (case scan_word 2047 r1 of
        None \<Rightarrow> None
      | Some (target, r2) \<Rightarrow>
      (case scan_word 15 r2 of
        None \<Rightarrow> None
      | Some (version, r3) \<Rightarrow>
          if dropWhile isspace r3 \<noteq> [] \<or> (version \<noteq> ''HTTP/1.1'' \<and> version \<noteq> ''HTTP/1.0'') then None
          else Some (request_method, target))))"

section \<open>One connection\<close>

text \<open>The bytes sent and the manager afterwards.\<close>

definition sent_with :: "gw_channel_manager \<Rightarrow> (string \<times> send_answer list) option \<Rightarrow> (string \<times> gw_channel_manager) option" where
  "sent_with m s = map_option (\<lambda>(wire, rest). (wire, m)) s"

definition serve_request ::
  "http_env \<Rightarrow> gw_channel_manager \<Rightarrow> gw_recording_config \<Rightarrow> string \<Rightarrow> send_answer list \<Rightarrow> (string \<times> gw_channel_manager) option" where
  "serve_request env m rec request sends =
     (if length request = HTTP_REQUEST_CAP \<and> strstr (cstr request) (CRLF @ CRLF) = None then
        sent_with m (respond_error 431 ''headers_too_large'' ''HTTP headers exceed the limit'' sends)
      else case Option.bind (first_line request) parse_request_line of
        None \<Rightarrow> sent_with m (respond_error 400 ''bad_request'' ''invalid request line'' sends)
      | Some (request_method, target) \<Rightarrow>
          (case gw_http_route env m rec request_method target (Some zero_error) of (st, m', response, e) \<Rightarrow>
             if st \<noteq> GW_OK then sent_with m' (respond_error 500 ''internal_error'' ''cannot build HTTP response'' sends)
             else sent_with m' (send_response response sends)))"

definition handle_connection ::
  "http_env \<Rightarrow> gw_channel_manager \<Rightarrow> gw_recording_config \<Rightarrow> recv_answer list \<Rightarrow> send_answer list \<Rightarrow> (string \<times> gw_channel_manager) option" where
  "handle_connection env m rec recvs sends =
     (case recv_loop [] recvs of
        None \<Rightarrow> None
      | Some None \<Rightarrow> sent_with m (respond_error 400 ''bad_request'' ''incomplete HTTP request'' sends)
      | Some (Some request) \<Rightarrow> serve_request env m rec request sends)"

section \<open>The accept loop\<close>

text \<open>One pass: the value of the stop flag, then the outcome of \<^verbatim>\<open>poll\<close> and \<^verbatim>\<open>accept4\<close>. A
  client comes with what the environment and its socket will answer.\<close>

datatype poll_outcome = Poll_Failed | Poll_Quiet | Poll_Client http_env "recv_answer list" "send_answer list"

fun run_server :: "gw_recording_config \<Rightarrow> gw_channel_manager \<Rightarrow> (bool \<times> poll_outcome) list \<Rightarrow> (string list \<times> gw_channel_manager) option" where
  "run_server rec m [] = None"
| "run_server rec m ((stop_requested, outcome) # passes) =
     (if stop_requested then Some ([], m)
      else case outcome of
        Poll_Failed \<Rightarrow> Some ([], m)
      | Poll_Quiet \<Rightarrow> run_server rec m passes
      | Poll_Client env recvs sends \<Rightarrow>
          (case handle_connection env m rec recvs sends of
             None \<Rightarrow> None
           | Some (wire, m') \<Rightarrow> map_option (\<lambda>(wires, m''). (wire # wires, m'')) (run_server rec m' passes)))"

section \<open>The listener\<close>

text \<open>The server object, next to the set of open descriptors. The borrowed manager is not part of it.\<close>

record gw_http_server =
  sv_config :: gw_server_config
  sv_recording :: gw_recording_config
  sv_listen_fd :: int
  sv_bound_port :: u16
  sv_thread_started :: bool
  sv_stop_requested :: bool

definition gw_http_server_create ::
  "bool \<Rightarrow> gw_server_config \<Rightarrow> gw_recording_config \<Rightarrow> gw_error option \<Rightarrow> gw_status \<times> gw_http_server option \<times> gw_error option" where
  "gw_http_server_create alloc_ok config rec error =
     (if \<not> alloc_ok then (GW_ERR_NO_MEMORY, None, gw_error_set error GW_ERR_NO_MEMORY ''cannot allocate HTTP server'')
      else (GW_OK, Some \<lparr>sv_config = config, sv_recording = rec, sv_listen_fd = -1, sv_bound_port = 0,
              sv_thread_started = False, sv_stop_requested = False\<rparr>, gw_error_clear error))"

text \<open>What \<^verbatim>\<open>socket\<close>, \<^verbatim>\<open>bind\<close> and \<^verbatim>\<open>listen\<close> answer for one resolved address.\<close>

record address_answer =
  aa_socket :: int
  aa_bind :: bool
  aa_listen :: bool

fun bind_addresses :: "address_answer list \<Rightarrow> int \<Rightarrow> int set \<Rightarrow> int \<times> int set" where
  "bind_addresses [] listen_fd fds = (listen_fd, fds)"
| "bind_addresses (a # as) listen_fd fds =
     (if aa_socket a < 0 then bind_addresses as (aa_socket a) fds
      else let fds1 = insert (aa_socket a) fds in
        if aa_bind a \<and> aa_listen a then (aa_socket a, fds1)
        else bind_addresses as (-1) (fds1 - {aa_socket a}))"

record listen_answers =
  la_resolved :: "string + address_answer list"
  la_errno :: string
  la_sockname :: "string + nat"
  la_port :: u16
  la_thread :: "string option"

abbreviation AF_INET :: nat where "AF_INET \<equiv> 2"
abbreviation AF_INET6 :: nat where "AF_INET6 \<equiv> 10"

type_synonym server_result = "gw_status \<times> gw_http_server \<times> int set \<times> gw_error option"

definition bind_listener :: "listen_answers \<Rightarrow> gw_http_server \<Rightarrow> int set \<Rightarrow> gw_error option \<Rightarrow> server_result" where
  "bind_listener a srv fds error =
     (case la_resolved a of
        Inl reason \<Rightarrow>
          (GW_ERR_VALIDATION, srv, fds,
           gw_error_set error GW_ERR_VALIDATION
             (''cannot resolve server.listen '' @ apostrophed (srv_listen (sv_config srv)) @ '': '' @ reason))
      | Inr addresses \<Rightarrow>
          (case bind_addresses addresses (sv_listen_fd srv) fds of (fd, fds') \<Rightarrow>
             let srv1 = srv\<lparr>sv_listen_fd := fd\<rparr> in
             if fd < 0 then
               (GW_ERR_IO, srv1, fds',
                gw_error_set error GW_ERR_IO
                  (''cannot bind HTTP server on '' @ srv_listen (sv_config srv) @ '':'' @
                   dec_nat (unat (srv_port (sv_config srv))) @ '': '' @ la_errno a))
             else (GW_OK, srv1, fds', error)))"

definition discover_bound_port :: "listen_answers \<Rightarrow> gw_http_server \<Rightarrow> gw_error option \<Rightarrow> gw_status \<times> gw_http_server \<times> gw_error option" where
  "discover_bound_port a srv error =
     (case la_sockname a of
        Inl reason \<Rightarrow> (GW_ERR_IO, srv, gw_error_set error GW_ERR_IO (''cannot read HTTP listener address: '' @ reason))
      | Inr family \<Rightarrow>
          if family = AF_INET \<or> family = AF_INET6 then (GW_OK, srv\<lparr>sv_bound_port := la_port a\<rparr>, error)
          else (GW_ERR_IO, srv, gw_error_set error GW_ERR_IO ''HTTP listener has an unsupported address family''))"

definition close_listener :: "gw_http_server \<Rightarrow> int set \<Rightarrow> gw_http_server \<times> int set" where
  "close_listener srv fds = (srv\<lparr>sv_listen_fd := -1\<rparr>, fds - {sv_listen_fd srv})"

definition gw_http_server_start :: "listen_answers \<Rightarrow> gw_http_server \<Rightarrow> int set \<Rightarrow> gw_error option \<Rightarrow> server_result" where
  "gw_http_server_start a srv fds error =
     (if sv_thread_started srv \<or> sv_listen_fd srv \<ge> 0 then
        (GW_ERR_VALIDATION, srv, fds, gw_error_set error GW_ERR_VALIDATION ''HTTP server is already started'')
      else case bind_listener a srv fds error of (st1, s1, fds1, e1) \<Rightarrow>
        if st1 \<noteq> GW_OK then (st1, s1, fds1, e1)
        else case discover_bound_port a s1 e1 of (st2, s2, e2) \<Rightarrow>
          if st2 \<noteq> GW_OK then (case close_listener s2 fds1 of (s3, fds3) \<Rightarrow> (st2, s3, fds3, e2))
          else
            let s3 = s2\<lparr>sv_stop_requested := False\<rparr> in
            (case la_thread a of
               Some reason \<Rightarrow>
                 (case close_listener s3 fds1 of (s4, fds4) \<Rightarrow>
                    (GW_ERR_IO, s4, fds4, gw_error_set e2 GW_ERR_IO (''cannot start HTTP server thread: '' @ reason)))
             | None \<Rightarrow> (GW_OK, s3\<lparr>sv_thread_started := True\<rparr>, fds1, gw_error_clear e2)))"

definition gw_http_server_port :: "gw_http_server \<Rightarrow> u16" where
  "gw_http_server_port srv = sv_bound_port srv"

definition gw_http_server_stop :: "gw_http_server \<Rightarrow> int set \<Rightarrow> gw_http_server \<times> int set" where
  "gw_http_server_stop srv fds =
     (let s1 = (if sv_thread_started srv then srv\<lparr>sv_stop_requested := True, sv_thread_started := False\<rparr> else srv)
      in if sv_listen_fd s1 \<ge> 0 then close_listener s1 fds else (s1, fds))"

text \<open>\<open>gw_http_server_destroy\<close> up to the release of the memory.\<close>

definition gw_http_server_destroy :: "gw_http_server \<Rightarrow> int set \<Rightarrow> int set" where
  "gw_http_server_destroy srv fds = snd (gw_http_server_stop srv fds)"

section \<open>Sending is whole\<close>

definition response_text :: "gw_http_response \<Rightarrow> string" where
  "response_text r = response_headers r @ hr_body r"

lemma send_all_prefix:
  "send_all data as = Some (ok, sent, rest) \<Longrightarrow> prefix sent data \<and> (ok \<longrightarrow> sent = data)"
proof (induction data as arbitrary: sent rule: send_all.induct)
  case (1 data)
  then show ?case by (auto split: if_splits)
next
  case (2 data a as)
  show ?case
  proof (cases "data = []")
    case False
    show ?thesis
    proof (cases a)
      case (Send_Bytes n)
      show ?thesis
      proof (cases "n = 0")
        case n: False
        with 2(3) False Send_Bytes obtain sent' where s: "send_all (drop n data) as = Some (ok, sent', rest)" "sent = take n data @ sent'"
          by auto
        with 2(1) [OF False Send_Bytes n s(1)] show ?thesis
          by (metis append_take_drop_id same_prefix_prefix)
      qed (use 2(3) False Send_Bytes in auto)
    qed (use 2 False in auto)
  qed (use 2 in auto)
qed

text \<open>Answers without a failure; each accepts at least one byte.\<close>

definition never_fails :: "send_answer list \<Rightarrow> bool" where
  "never_fails as \<longleftrightarrow> Send_Fail \<notin> set as \<and> Send_Bytes 0 \<notin> set as"

definition accepting :: "send_answer list \<Rightarrow> nat" where
  "accepting as = length (filter (\<lambda>a. a \<noteq> Send_Intr) as)"

lemma send_all_enough:
  "never_fails as \<Longrightarrow> length data \<le> accepting as \<Longrightarrow>
   \<exists>rest. send_all data as = Some (True, data, rest) \<and> never_fails rest \<and> accepting as \<le> accepting rest + length data"
proof (induction data as rule: send_all.induct)
  case (1 data)
  then show ?case by (simp add: accepting_def)
next
  case (2 data a as)
  show ?case
  proof (cases "data = []")
    case True
    with 2 show ?thesis by simp
  next
    case False
    have nf: "never_fails as" using 2(3) by (simp add: never_fails_def)
    show ?thesis
    proof (cases a)
      case Send_Intr
      with 2(2) [OF False Send_Intr nf] 2(4) False show ?thesis by (simp add: accepting_def)
    next
      case Send_Fail
      with 2(3) show ?thesis by (simp add: never_fails_def)
    next
      case (Send_Bytes n)
      with 2(3) have n: "n \<noteq> 0" by (auto simp: never_fails_def)
      have acc: "accepting (a # as) = Suc (accepting as)" using Send_Bytes by (simp add: accepting_def)
      have "length (drop n data) \<le> accepting as" using 2(4) acc n by simp
      from 2(1) [OF False Send_Bytes n nf this] obtain rest where
        r: "send_all (drop n data) as = Some (True, drop n data, rest)" "never_fails rest" "accepting as \<le> accepting rest + length (drop n data)"
        by blast
      have "Suc (accepting as) \<le> accepting rest + length data" using r(3) n False by (cases data) auto
      with r False Send_Bytes n acc show ?thesis by simp
    qed
  qed
qed

lemma length_dec_nat_body: "n < 1000000 \<Longrightarrow> length (dec_nat n) \<le> 6"
  using length_dec_nat [of n 6] by simp

text \<open>The header block always fits its buffer, so no answer is dropped.\<close>

lemma headers_fit:
  assumes "is_int32 (hr_status_code r)" and "length (hr_body r) < 1000000"
  shows "length (response_headers r) < 1024"
proof -
  have "length (reason_phrase (hr_status_code r)) \<le> 31" by (simp add: reason_phrase_def)
  moreover have "length (allow_header r) \<le> 18" by (simp add: allow_header_def CRLF_def)
  ultimately show ?thesis
    using length_dec_int [OF assms(1)] length_dec_nat_body [OF assms(2)]
    by (simp add: response_headers_def CRLF_def security_policy_def apostrophed_def)
qed

lemma send_response_whole:
  assumes "length (response_headers r) < 1024" and "never_fails sends" and "length (response_text r) \<le> accepting sends"
  shows "\<exists>rest. send_response r sends = Some (response_text r, rest)"
proof -
  have "length (response_headers r) \<le> accepting sends" using assms(3) by (simp add: response_text_def)
  from send_all_enough [OF assms(2) this] obtain r1 where
    r1: "send_all (response_headers r) sends = Some (True, response_headers r, r1)" "never_fails r1" "length (hr_body r) \<le> accepting r1"
    using assms(3) by (auto simp: response_text_def)
  with send_all_enough [OF r1(2,3)] assms(1) show ?thesis by (auto simp: send_response_def response_text_def)
qed

lemma send_response_prefix:
  assumes "send_response r sends = Some (wire, rest)"
  shows "prefix wire (response_text r)"
proof (cases "length (response_headers r) < 1024")
  case True
  with assms obtain ok sent rest1 where s: "send_all (response_headers r) sends = Some (ok, sent, rest1)"
    by (auto simp: send_response_def split: option.splits)
  note h = send_all_prefix [OF s]
  show ?thesis
  proof (cases ok)
    case True
    with assms s \<open>length _ < 1024\<close> obtain ok' sent' where s': "send_all (hr_body r) rest1 = Some (ok', sent', rest)" "wire = sent @ sent'"
      by (auto simp: send_response_def)
    with send_all_prefix [OF s'(1)] h True show ?thesis by (simp add: response_text_def)
  next
    case False
    with assms s \<open>length _ < 1024\<close> h show ?thesis by (auto simp: send_response_def response_text_def)
  qed
qed (use assms in \<open>simp add: send_response_def\<close>)

section \<open>Receiving does not depend on the packets\<close>

lemma strstr_append: "strstr s pat = Some t \<Longrightarrow> strstr (s @ x) pat = Some (t @ x)"
proof (induction s pat rule: strstr.induct)
  case (1 pat)
  then show ?case by (cases x) (auto split: if_splits)
next
  case (2 c s pat)
  show ?case
  proof (cases "prefix pat (c # s)")
    case True
    then have "prefix pat (c # s @ x)" by (metis append_Cons prefix_prefix)
    moreover have "t = c # s" using 2(2) True by simp
    ultimately show ?thesis by simp
  next
    case False
    with 2(2) have st: "strstr s pat = Some t" by simp
    have "\<not> prefix pat (c # s @ x)"
    proof
      assume p: "prefix pat (c # s @ x)"
      obtain u where u: "s = u @ t" "prefix pat t" using strstr_SomeD [OF st] by blast
      then have "length pat \<le> length (c # s)" using prefix_length_le by fastforce
      moreover have "prefix (c # s) (c # s @ x)" by simp
      ultimately have "prefix pat (c # s)" using p prefix_length_prefix by blast
      with False show False by simp
    qed
    with False 2(1) [OF False st] show ?thesis by simp
  qed
qed

lemma cstr_append: "\<exists>y. cstr (a @ b) = cstr a @ y"
  unfolding cstr_def by (induction a) auto

lemma strstr_cstr_append: "strstr (cstr a) pat \<noteq> None \<Longrightarrow> strstr (cstr (a @ b)) pat \<noteq> None"
  using cstr_append [of a b] strstr_append by fastforce

lemma first_line_append: "first_line a = Some l \<Longrightarrow> first_line (a @ b) = Some l"
proof -
  assume f: "first_line a = Some l"
  then obtain t where t: "strstr (cstr a) CRLF = Some t" "l = take (length (cstr a) - length t) (cstr a)"
    by (auto simp: first_line_def split: option.splits)
  obtain y where y: "cstr (a @ b) = cstr a @ y" using cstr_append by blast
  have "length t \<le> length (cstr a)" using strstr_SomeD [OF t(1)] by fastforce
  with strstr_append [OF t(1), of y] t(2) y show ?thesis by (simp add: first_line_def)
qed

lemma strstr_twice: "strstr s (p @ p) \<noteq> None \<Longrightarrow> strstr s p \<noteq> None"
  by (induction s p rule: strstr.induct) (auto split: if_splits dest: append_prefixD)

definition complete :: "string \<Rightarrow> bool" where
  "complete bs \<longleftrightarrow> strstr (cstr bs) (CRLF @ CRLF) \<noteq> None"

lemma complete_append: "complete a \<Longrightarrow> complete (a @ b)"
  unfolding complete_def by (rule strstr_cstr_append)

lemma complete_line: "complete bs \<Longrightarrow> \<exists>line. first_line bs = Some line"
  using strstr_twice [of "cstr bs" CRLF] by (auto simp: complete_def first_line_def)

text \<open>What \<^verbatim>\<open>recv\<close> may answer before the end: interruptions, and between one and the requested number
  of bytes.\<close>

fun recv_lawful :: "nat \<Rightarrow> recv_answer list \<Rightarrow> bool" where
  "recv_lawful used [] = True"
| "recv_lawful used (Recv_Intr # as) = recv_lawful used as"
| "recv_lawful used (Recv_Data d # as) \<longleftrightarrow> d \<noteq> [] \<and> used + length d \<le> HTTP_REQUEST_CAP \<and> recv_lawful (used + length d) as"
| "recv_lawful used (Recv_End # as) = False"

fun recv_bytes :: "recv_answer list \<Rightarrow> string" where
  "recv_bytes [] = []"
| "recv_bytes (Recv_Data d # as) = d @ recv_bytes as"
| "recv_bytes (a # as) = recv_bytes as"

lemma recv_full: "recv_lawful HTTP_REQUEST_CAP as \<Longrightarrow> recv_bytes as = []"
  by (induction "HTTP_REQUEST_CAP" as rule: recv_lawful.induct) auto

lemma recv_loop_complete:
  assumes "\<not> complete request" and "recv_lawful (length request) as" and "complete (request @ recv_bytes as)"
    and "length request \<le> HTTP_REQUEST_CAP"
  shows "\<exists>r x. recv_loop request (as @ later) = Some (Some r) \<and> complete r \<and> request @ recv_bytes as = r @ x"
  using assms
proof (induction as arbitrary: request)
  case Nil
  then show ?case by simp
next
  case (Cons a as)
  have room: "length request < HTTP_REQUEST_CAP"
  proof (rule ccontr)
    assume "\<not> length request < HTTP_REQUEST_CAP"
    with Cons.prems(4) have "length request = HTTP_REQUEST_CAP" by simp
    with Cons.prems recv_full [of "a # as"] show False by simp
  qed
  show ?case
  proof (cases a)
    case Recv_Intr
    with Cons room show ?thesis by simp
  next
    case Recv_End
    with Cons.prems show ?thesis by simp
  next
    case (Recv_Data d)
    with Cons.prems have d: "d \<noteq> []" "recv_lawful (length (request @ d)) as" "complete ((request @ d) @ recv_bytes as)"
      "length (request @ d) \<le> HTTP_REQUEST_CAP" by simp_all
    show ?thesis
    proof (cases "complete (request @ d)")
      case True
      with Recv_Data d room show ?thesis by (auto simp: complete_def)
    next
      case False
      with Cons.IH [OF False d(2-4)] Recv_Data d(1) room show ?thesis by (auto simp: complete_def)
    qed
  qed
qed

lemma recv_loop_incomplete:
  assumes "\<not> complete (request @ recv_bytes as)" and "recv_lawful (length request) as" and "length request \<le> HTTP_REQUEST_CAP"
  shows "recv_loop request (as @ [Recv_End]) =
    (if length (request @ recv_bytes as) < HTTP_REQUEST_CAP then Some None else Some (Some (request @ recv_bytes as)))"
  using assms
proof (induction as arbitrary: request)
  case Nil
  then show ?case by simp
next
  case (Cons a as)
  show ?case
  proof (cases "length request < HTTP_REQUEST_CAP")
    case False
    with Cons.prems recv_full [of "a # as"] show ?thesis by simp
  next
    case True
    have "\<not> complete (request @ d)" if "a = Recv_Data d" for d
      using Cons.prems(1) complete_append [of "request @ d" "recv_bytes as"] that by auto
    with True Cons show ?thesis by (cases a) (auto simp: complete_def)
  qed
qed

section \<open>The request line\<close>

lemma scan_word_word:
  assumes "w \<noteq> []" and "length w \<le> n" and "list_all (\<lambda>c. \<not> isspace c) w" and "rest = [] \<or> isspace (hd rest)" and "list_all isspace blanks"
  shows "scan_word n (blanks @ w @ rest) = Some (w, rest)"
proof -
  have "dropWhile isspace (blanks @ w @ rest) = w @ rest"
    using assms(1,3,5) by (cases w) (auto simp: list_all_iff dropWhile_append)
  moreover have "takeWhile (\<lambda>c. \<not> isspace c) (w @ rest) = w"
    using assms(3,4) by (cases rest) (auto simp: list_all_iff)
  moreover have "0 < n" using assms(1,2) by (cases n) simp_all
  ultimately show ?thesis using assms(1,2) by (simp add: scan_word_def)
qed

lemma parse_request_line_words:
  assumes "mt \<noteq> []" "length mt \<le> 7" "list_all (\<lambda>c. \<not> isspace c) mt"
    and "target \<noteq> []" "length target \<le> 2047" "list_all (\<lambda>c. \<not> isspace c) target"
    and "version \<in> {''HTTP/1.1'', ''HTTP/1.0''}"
  shows "parse_request_line (mt @ '' '' @ target @ '' '' @ version) = Some (mt, target)"
proof -
  have sp: "isspace CHR '' ''" by (simp add: isspace_def)
  have v: "version \<noteq> []" "length version \<le> 15" "list_all (\<lambda>c. \<not> isspace c) version"
    using assms(7) by (auto simp: isspace_def)
  note s1 = scan_word_word [OF assms(1-3), of "'' '' @ target @ '' '' @ version" "[]"]
  note s2 = scan_word_word [OF assms(4-6), of "'' '' @ version" "'' ''"]
  note s3 = scan_word_word [OF v, of "[]" "'' ''"]
  show ?thesis using s1 s2 s3 sp assms(7) by (auto simp: parse_request_line_def)
qed

section \<open>A whole connection\<close>

definition error_page :: "int \<Rightarrow> string \<Rightarrow> string \<Rightarrow> gw_http_response" where
  "error_page code name message =
     zero_response\<lparr>hr_status_code := code, hr_body := jprint (error_json name message) @ [LF]\<rparr>"

lemma respond_error_page:
  assumes "length name + length message < 300"
  shows "respond_error code name message sends = send_response (error_page code name message) sends"
    and "length (hr_body (error_page code name message)) < 2000"
proof -
  have "length (jprint (error_json name message)) < 1900"
    using assms length_json_literal [of name] length_json_literal [of message] by (simp add: error_json_def plain_literal plain_def)
  then show "respond_error code name message sends = send_response (error_page code name message) sends"
    "length (hr_body (error_page code name message)) < 2000"
    by (simp_all add: respond_error_def error_response_delivers short_document error_page_def)
qed

text \<open>The answer to a request line, and the manager afterwards.\<close>

definition line_answer :: "http_env \<Rightarrow> gw_channel_manager \<Rightarrow> gw_recording_config \<Rightarrow> string \<Rightarrow> gw_http_response \<times> gw_channel_manager" where
  "line_answer env m rec line =
     (case parse_request_line line of
        None \<Rightarrow> (error_page 400 ''bad_request'' ''invalid request line'', m)
      | Some (mt, target) \<Rightarrow>
          (case gw_http_route env m rec mt target (Some zero_error) of (st, m', r, e) \<Rightarrow>
             ((if st = GW_OK then r else error_page 500 ''internal_error'' ''cannot build HTTP response''), m')))"

lemma serve_complete:
  assumes "complete request" and "first_line request = Some line"
  shows "serve_request env m rec request sends =
    (case line_answer env m rec line of (r, m') \<Rightarrow> sent_with m' (send_response r sends))"
  using assms
  by (auto simp: serve_request_def complete_def line_answer_def respond_error_page(1) split: option.splits prod.splits)

lemma line_answer_bounded:
  assumes "manager_inv m" and "prints_numbers (he_format env)" and "page_lawful (he_page env)"
  shows "is_int32 (hr_status_code (fst (line_answer env m rec line))) \<and> length (hr_body (fst (line_answer env m rec line))) < GW_HTTP_BODY_CAP"
proof -
  have page: "is_int32 code \<Longrightarrow> length name + length message < 300 \<Longrightarrow>
      is_int32 (hr_status_code (error_page code name message)) \<and> length (hr_body (error_page code name message)) < GW_HTTP_BODY_CAP"
    for code name message
    using respond_error_page(2) [of name message code] by (simp add: error_page_def)
  show ?thesis
  proof (cases "parse_request_line line")
    case None
    then show ?thesis by (simp add: line_answer_def) (rule page, simp_all add: is_int32_def)
  next
    case (Some mt)
    obtain st m' r e where rt: "gw_http_route env m rec (fst mt) (snd mt) (Some zero_error) = (st, m', r, e)" by (metis prod_cases4)
    have "st = GW_OK \<Longrightarrow> response_ok r"
      using route_ok [OF assms, of rec "fst mt" "snd mt" "Some zero_error"] rt by (simp add: without_manager_def result_ok_def)
    then have "st = GW_OK \<Longrightarrow> is_int32 (hr_status_code r) \<and> length (hr_body r) < GW_HTTP_BODY_CAP"
      by (auto simp: response_ok_def is_int32_def)
    with Some rt page [of 500 "''internal_error''" "''cannot build HTTP response''"] show ?thesis
      by (cases mt) (simp add: line_answer_def is_int32_def)
  qed
qed

text \<open>C9: one connection, end to end. However the bytes of a request arrive in packets and however often
  the calls are interrupted, the answer is decided by the first line alone: it is the routed response, or
  the 400 page for a malformed line, or the 500 page if the router failed. It is sent whole: status
  line, headers and body; the header block never exceeds its buffer.\<close>

theorem connection_answers_line:
  assumes "manager_inv m" and "prints_numbers (he_format env)" and "page_lawful (he_page env)"
    and "recv_lawful 0 recvs" and "complete (recv_bytes recvs)" and "first_line (recv_bytes recvs) = Some line"
    and "never_fails sends" and "GW_HTTP_BODY_CAP + 1024 \<le> accepting sends"
  shows "case line_answer env m rec line of (r, m') \<Rightarrow>
     handle_connection env m rec (recvs @ later) sends = Some (response_headers r @ hr_body r, m')"
proof -
  obtain r m' where la: "line_answer env m rec line = (r, m')" by fastforce
  have "\<not> complete []" by (simp add: complete_def cstr_def CRLF_def)
  from recv_loop_complete [OF this, of recvs later] assms(4,5) obtain req x where
    req: "recv_loop [] (recvs @ later) = Some (Some req)" "complete req" "recv_bytes recvs = req @ x" by auto
  obtain l where "first_line req = Some l" using complete_line [OF req(2)] by blast
  with first_line_append [OF this, of x] req(3) assms(6) have fl: "first_line req = Some line" by simp
  have b: "is_int32 (hr_status_code r)" "length (hr_body r) < GW_HTTP_BODY_CAP"
    using line_answer_bounded [OF assms(1-3), of rec line] la by simp_all
  have hd: "length (response_headers r) < 1024" by (rule headers_fit) (use b in simp_all)
  have "length (response_text r) \<le> accepting sends" using hd b(2) assms(8) by (simp add: response_text_def)
  from send_response_whole [OF hd assms(7) this] obtain rest where "send_response r sends = Some (response_text r, rest)" by blast
  with req(1) serve_complete [OF req(2) fl, of env m rec sends] la show ?thesis
    by (simp add: handle_connection_def sent_with_def response_text_def)
qed

text \<open>C40: a request that never becomes complete. If the peer ends, or times out, before the blank line, the
  answer is the 400 page; if 8192 bytes have come without it, the 431 page. The manager is untouched.\<close>

theorem connection_incomplete:
  assumes "recv_lawful 0 recvs" and "\<not> complete (recv_bytes recvs)"
    and "never_fails sends" and "GW_HTTP_BODY_CAP + 1024 \<le> accepting sends"
  shows "let page = (if length (recv_bytes recvs) < HTTP_REQUEST_CAP then error_page 400 ''bad_request'' ''incomplete HTTP request''
                    else error_page 431 ''headers_too_large'' ''HTTP headers exceed the limit'') in
     handle_connection env m rec (recvs @ [Recv_End]) sends = Some (response_headers page @ hr_body page, m)"
proof -
  have send: "\<exists>rest. send_response (error_page code name message) sends = Some (response_text (error_page code name message), rest)"
    if "is_int32 code" "length name + length message < 300" for code name message
  proof -
    let ?p = "error_page code name message"
    note b = respond_error_page(2) [OF that(2), of code]
    have hd: "length (response_headers ?p) < 1024" by (rule headers_fit) (use that(1) b in \<open>simp_all add: error_page_def\<close>)
    have "length (response_text ?p) \<le> accepting sends" using hd b assms(4) by (simp add: response_text_def)
    from send_response_whole [OF hd assms(3) this] show ?thesis .
  qed
  have loop: "recv_loop [] (recvs @ [Recv_End]) =
      (if length (recv_bytes recvs) < HTTP_REQUEST_CAP then Some None else Some (Some (recv_bytes recvs)))"
    using recv_loop_incomplete [of "[]" recvs] assms(1,2) by simp
  have cap: "length (recv_bytes recvs) \<le> HTTP_REQUEST_CAP - used" if "recv_lawful used recvs" "used \<le> HTTP_REQUEST_CAP" for used
    using that by (induction used recvs rule: recv_lawful.induct) auto
  show ?thesis
  proof (cases "length (recv_bytes recvs) < HTTP_REQUEST_CAP")
    case True
    with loop send [of 400 "''bad_request''" "''incomplete HTTP request''"] show ?thesis
      by (auto simp: handle_connection_def respond_error_page(1) sent_with_def response_text_def is_int32_def)
  next
    case False
    with cap [of 0] assms(1) have "length (recv_bytes recvs) = HTTP_REQUEST_CAP" by simp
    with False loop send [of 431 "''headers_too_large''" "''HTTP headers exceed the limit''"] assms(2) show ?thesis
      by (auto simp: handle_connection_def serve_request_def complete_def respond_error_page(1) sent_with_def response_text_def is_int32_def)
  qed
qed

text \<open>A socket that takes one byte at a time, and a request in two packets.\<close>

definition slow_socket :: "send_answer list" where
  "slow_socket = replicate 200000 (Send_Bytes 1)"

lemma slow_socket_accepts: "never_fails slow_socket" "accepting slow_socket = 200000"
  by (simp_all add: slow_socket_def never_fails_def accepting_def)

definition two_packets :: "recv_answer list" where
  "two_packets = [Recv_Data ''GET /no'', Recv_Intr, Recv_Data (''ne HTTP/1.1'' @ CRLF @ CRLF)]"

theorem connection_answers_line_witness:
  "case line_answer camera_env running_camera sample_recording ''GET /none HTTP/1.1'' of (r, m') \<Rightarrow>
     handle_connection camera_env running_camera sample_recording (two_packets @ [Recv_End]) slow_socket =
       Some (response_headers r @ hr_body r, m')"
proof (rule connection_answers_line)
  show "recv_lawful 0 two_packets" by (simp add: two_packets_def CRLF_def)
  show "complete (recv_bytes two_packets)" by (simp add: two_packets_def complete_def cstr_def CRLF_def)
  show "first_line (recv_bytes two_packets) = Some ''GET /none HTTP/1.1''" by (simp add: two_packets_def first_line_def cstr_def CRLF_def)
qed (simp_all add: camera_started(3) fixed_format_prints camera_page_lawful slow_socket_accepts)

theorem connection_incomplete_witness:
  "handle_connection camera_env running_camera sample_recording ([Recv_Data ''GET''] @ [Recv_End]) slow_socket =
     Some (response_headers (error_page 400 ''bad_request'' ''incomplete HTTP request'') @
           hr_body (error_page 400 ''bad_request'' ''incomplete HTTP request''), running_camera)"
proof -
  have "\<not> complete (recv_bytes [Recv_Data ''GET''])" by (simp add: complete_def cstr_def CRLF_def)
  from connection_incomplete [OF _ this slow_socket_accepts(1), of camera_env running_camera sample_recording]
  show ?thesis by (simp add: slow_socket_accepts(2) Let_def)
qed

section \<open>The accept loop\<close>

lemma send_all_ends:
  "length data \<le> accepting as \<Longrightarrow>
   \<exists>ok sent rest. send_all data as = Some (ok, sent, rest) \<and> (ok \<longrightarrow> accepting as \<le> accepting rest + length data)"
proof (induction data as rule: send_all.induct)
  case (1 data)
  then show ?case by (auto simp: accepting_def)
next
  case (2 data a as)
  show ?case
  proof (cases "data = []")
    case False
    show ?thesis
    proof (cases a)
      case Send_Intr
      with 2(2) [OF False Send_Intr] 2(3) False show ?thesis by (simp add: accepting_def)
    next
      case (Send_Bytes n)
      have acc: "accepting (a # as) = Suc (accepting as)" using Send_Bytes by (simp add: accepting_def)
      show ?thesis
      proof (cases "n = 0")
        case n: False
        have "length (drop n data) \<le> accepting as" using 2(3) acc n by simp
        from 2(1) [OF False Send_Bytes n this] obtain ok sent rest where
          r: "send_all (drop n data) as = Some (ok, sent, rest)" "ok \<longrightarrow> accepting as \<le> accepting rest + length (drop n data)" by blast
        moreover have "accepting as \<le> accepting rest + length (drop n data) \<Longrightarrow> Suc (accepting as) \<le> accepting rest + length data"
          using n False by (cases data) auto
        ultimately show ?thesis using False Send_Bytes n acc by simp
      qed (use False Send_Bytes in auto)
    qed (use False in auto)
  qed auto
qed

lemma send_response_ends:
  assumes "length (hr_body r) < GW_HTTP_BODY_CAP" and "GW_HTTP_BODY_CAP + 1024 \<le> accepting sends"
  shows "\<exists>wire rest. send_response r sends = Some (wire, rest)"
proof (cases "length (response_headers r) < 1024")
  case True
  then have "length (response_headers r) \<le> accepting sends" using assms(2) by simp
  from send_all_ends [OF this] obtain ok sent rest where
    s: "send_all (response_headers r) sends = Some (ok, sent, rest)" "ok \<longrightarrow> accepting sends \<le> accepting rest + length (response_headers r)"
    by blast
  show ?thesis
  proof (cases ok)
    case ok: True
    then have "length (hr_body r) \<le> accepting rest" using s(2) True assms by simp
    from send_all_ends [OF this] True ok s(1) show ?thesis by (auto simp: send_response_def)
  qed (use s True in \<open>simp add: send_response_def\<close>)
qed (simp add: send_response_def)

lemma recv_loop_ends: "Recv_End \<in> set as \<Longrightarrow> recv_loop request as \<noteq> None"
  by (induction request as rule: recv_loop.induct) (auto split: recv_answer.splits)

lemma run_command_reaches:
  assumes "reaches m" and "joins_lawful (he_joins env) m"
  shows "reaches (fst (snd (run_command env m cid action e)))"
proof -
  obtain st m' e' where c: "run_command env m cid action e = (st, m', e')" by (metis prod_cases3)
  then show ?thesis
    using reaches.commanded_start [OF assms] reaches.commanded_stop [OF assms] reaches.commanded_restart [OF assms]
    by (auto simp: run_command_def split: if_splits)
qed

lemma route_reaches:
  assumes "reaches m" and "joins_lawful (he_joins env) m"
  shows "reaches (fst (snd (gw_http_route env m rec mt target e)))"
  using assms run_command_reaches [OF assms] by (auto simp: route_by_path route_path_manager split: option.splits)

lemma sent_with_Some: "sent_with m x = Some (wire, m') \<Longrightarrow> m' = m"
  by (auto simp: sent_with_def)

lemma serve_request_reaches:
  assumes "reaches m" and "joins_lawful (he_joins env) m" and "serve_request env m rec request sends = Some (wire, m')"
  shows "reaches m'"
proof (cases "Option.bind (first_line request) parse_request_line")
  case None
  with assms(1,3) show ?thesis by (auto simp: serve_request_def dest: sent_with_Some split: if_splits)
next
  case (Some mt)
  obtain st m1 r e where rt: "gw_http_route env m rec (fst mt) (snd mt) (Some zero_error) = (st, m1, r, e)" by (metis prod_cases4)
  have "reaches m1" using route_reaches [OF assms(1,2), of rec "fst mt" "snd mt" "Some zero_error"] rt by simp
  with assms Some rt show ?thesis
    by (cases mt) (auto simp: serve_request_def dest: sent_with_Some split: if_splits)
qed

lemma serve_request_ends:
  assumes "manager_inv m" and "prints_numbers (he_format env)" and "page_lawful (he_page env)"
    and "GW_HTTP_BODY_CAP + 1024 \<le> accepting sends"
  shows "\<exists>wire m'. serve_request env m rec request sends = Some (wire, m')"
proof -
  have page: "\<exists>wire rest. respond_error code name message sends = Some (wire, rest)"
    if "length name + length message < 300" for code name message
    unfolding respond_error_page(1) [OF that]
    by (rule send_response_ends [OF _ assms(4)]) (use respond_error_page(2) [OF that, of code] in simp)
  note pages = page [of "''headers_too_large''" "''HTTP headers exceed the limit''" 431]
    page [of "''bad_request''" "''invalid request line''" 400] page [of "''internal_error''" "''cannot build HTTP response''" 500]
  have ok: "\<exists>wire rest. send_response r sends = Some (wire, rest)"
    if "gw_http_route env m rec mt target (Some zero_error) = (GW_OK, m', r, e)" for mt target m' r e
    using route_ok [OF assms(1-3), of rec mt target "Some zero_error"] that
    by (intro send_response_ends [OF _ assms(4)]) (simp add: without_manager_def result_ok_def response_ok_def)
  show ?thesis
    using pages ok by (auto simp: serve_request_def sent_with_def split: option.splits prod.splits)
qed

text \<open>Passes whose clients behave like sockets with timeouts: a connection is received to its end, every
  send gets an answer, and the joins a command needs are those of the slot's own thread.\<close>

fun passes_lawful :: "gw_recording_config \<Rightarrow> gw_channel_manager \<Rightarrow> (bool \<times> poll_outcome) list \<Rightarrow> bool" where
  "passes_lawful rec m [] = True"
| "passes_lawful rec m ((stop_requested, outcome) # passes) =
     (case outcome of
        Poll_Client env recvs sends \<Rightarrow>
          joins_lawful (he_joins env) m \<and> prints_numbers (he_format env) \<and> page_lawful (he_page env) \<and>
          Recv_End \<in> set recvs \<and> GW_HTTP_BODY_CAP + 1024 \<le> accepting sends \<and>
          (\<forall>wire m'. handle_connection env m rec recvs sends = Some (wire, m') \<longrightarrow> passes_lawful rec m' passes)
      | _ \<Rightarrow> passes_lawful rec m passes)"

lemma connection_step:
  assumes "reaches m" and "joins_lawful (he_joins env) m" and "prints_numbers (he_format env)" and "page_lawful (he_page env)"
    and "Recv_End \<in> set recvs" and "GW_HTTP_BODY_CAP + 1024 \<le> accepting sends"
  shows "\<exists>wire m'. handle_connection env m rec recvs sends = Some (wire, m') \<and> reaches m'"
proof -
  have inv: "manager_inv m" using reaches_ok [OF assms(1)] by (simp add: manager_ok_def)
  obtain x where x: "recv_loop [] recvs = Some x" using recv_loop_ends [OF assms(5), of "[]"] by blast
  show ?thesis
  proof (cases x)
    case None
    have "\<exists>wire rest. respond_error 400 ''bad_request'' ''incomplete HTTP request'' sends = Some (wire, rest)"
      unfolding respond_error_page(1) [of "''bad_request''" "''incomplete HTTP request''", simplified]
      by (rule send_response_ends [OF _ assms(6)])
        (use respond_error_page(2) [of "''bad_request''" "''incomplete HTTP request''" 400] in simp)
    with x None assms(1) show ?thesis by (auto simp: handle_connection_def sent_with_def)
  next
    case (Some request)
    from serve_request_ends [OF inv assms(3,4,6), of rec request] obtain wire m' where
      s: "serve_request env m rec request sends = Some (wire, m')" by blast
    with x Some serve_request_reaches [OF assms(1,2) s] show ?thesis by (auto simp: handle_connection_def)
  qed
qed

text \<open>C28: the server thread ends once it reads the stop flag, whatever clients came before, and every state
  it leaves the manager in is one that the manager's own operations reach, so the registry stays
  consistent under any sequence of requests.\<close>

theorem server_thread_stops:
  assumes "reaches m" and "passes_lawful rec m passes" and "\<exists>outcome. (True, outcome) \<in> set passes"
  shows "\<exists>wires m'. run_server rec m passes = Some (wires, m') \<and> reaches m'"
  using assms
proof (induction rec m passes rule: run_server.induct)
  case (1 rec m)
  then show ?case by simp
next
  case (2 rec m stop_requested outcome passes)
  show ?case
  proof (cases stop_requested)
    case True
    with 2(3) show ?thesis by simp
  next
    case False
    then have later: "\<exists>outcome. (True, outcome) \<in> set passes" using 2(5) by auto
    show ?thesis
    proof (cases outcome)
      case Poll_Failed
      with 2(3) False show ?thesis by simp
    next
      case Poll_Quiet
      with 2(1) [OF False Poll_Quiet 2(3) _ later] 2(4) False show ?thesis by simp
    next
      case (Poll_Client env recvs sends)
      with 2(4) have l: "joins_lawful (he_joins env) m" "prints_numbers (he_format env)" "page_lawful (he_page env)"
        "Recv_End \<in> set recvs" "GW_HTTP_BODY_CAP + 1024 \<le> accepting sends"
        "\<forall>wire m'. handle_connection env m rec recvs sends = Some (wire, m') \<longrightarrow> passes_lawful rec m' passes" by simp_all
      from connection_step [OF 2(3) l(1-5), of rec] obtain wire m' where
        h: "handle_connection env m rec recvs sends = Some (wire, m')" "reaches m'" by blast
      from 2(2) [OF False Poll_Client h(1) refl h(2) _ later] l(6) h False Poll_Client show ?thesis by auto
    qed
  qed
qed

theorem server_thread_stops_witness:
  "\<exists>wires m'. run_server sample_recording running_camera
     [(False, Poll_Quiet), (False, Poll_Client camera_env [Recv_End] slow_socket), (True, Poll_Quiet)] = Some (wires, m') \<and> reaches m'"
  by (rule server_thread_stops)
    (use camera_started(2) quiet_joins_lawful fixed_format_prints camera_page_lawful slow_socket_accepts(2) in auto)

section \<open>The life of the listener\<close>

definition server_inv :: "gw_http_server \<Rightarrow> int set \<Rightarrow> bool" where
  "server_inv srv fds \<longleftrightarrow> (sv_thread_started srv \<longrightarrow> sv_listen_fd srv \<ge> 0) \<and> (sv_listen_fd srv \<ge> 0 \<longrightarrow> sv_listen_fd srv \<in> fds)"

definition fresh_sockets :: "listen_answers \<Rightarrow> int set \<Rightarrow> bool" where
  "fresh_sockets a fds \<longleftrightarrow> (\<forall>as. la_resolved a = Inr as \<longrightarrow> (\<forall>x \<in> set as. aa_socket x \<notin> fds))"

lemma bind_addresses_result:
  "listen_fd < 0 \<Longrightarrow> \<forall>x \<in> set as. aa_socket x \<notin> fds \<Longrightarrow> bind_addresses as listen_fd fds = (fd, fds') \<Longrightarrow>
   (if fd < 0 then fds' = fds else fd \<notin> fds \<and> fds' = insert fd fds)"
proof (induction as arbitrary: listen_fd)
  case (Cons a as)
  show ?case
  proof (cases "aa_socket a < 0")
    case True
    with Cons.prems Cons.IH [of "aa_socket a"] show ?thesis by simp
  next
    case False
    with Cons.prems Cons.IH [of "-1"] show ?thesis by (auto simp: Let_def split: if_splits)
  qed
qed auto

lemma server_start_result:
  assumes "server_inv srv fds" and "\<not> sv_thread_started srv" and "sv_listen_fd srv < 0" and "fresh_sockets a fds"
    and "gw_http_server_start a srv fds err = (st, srv', fds', err')"
  shows "(if st = GW_OK then sv_thread_started srv' \<and> \<not> sv_stop_requested srv' \<and> sv_listen_fd srv' \<notin> fds \<and> fds' = insert (sv_listen_fd srv') fds
          else fds' = fds \<and> \<not> sv_thread_started srv' \<and> sv_listen_fd srv' < 0) \<and>
     server_inv srv' fds' \<and>
     (case gw_http_server_stop srv' fds' of (s, f) \<Rightarrow>
        f = fds \<and> \<not> sv_thread_started s \<and> sv_listen_fd s < 0 \<and> gw_http_server_stop s f = (s, f))"
proof (cases "la_resolved a")
  case (Inl reason)
  with assms show ?thesis
    by (auto simp: gw_http_server_start_def bind_listener_def gw_http_server_stop_def server_inv_def)
next
  case (Inr addresses)
  obtain fd fds1 where b: "bind_addresses addresses (sv_listen_fd srv) fds = (fd, fds1)" by fastforce
  have r: "if fd < 0 then fds1 = fds else fd \<notin> fds \<and> fds1 = insert fd fds"
    using bind_addresses_result [OF assms(3) _ b] assms(4) Inr by (simp add: fresh_sockets_def)
  show ?thesis
  proof (cases "fd < 0")
    case True
    with assms Inr b r show ?thesis
      by (auto simp: gw_http_server_start_def bind_listener_def gw_http_server_stop_def server_inv_def Let_def)
  next
    case False
    with assms Inr b r show ?thesis
      by (auto simp: gw_http_server_start_def bind_listener_def discover_bound_port_def close_listener_def gw_http_server_stop_def
          server_inv_def Let_def split: sum.splits if_splits option.splits)
  qed
qed

text \<open>The listener is opened all or nothing and closed exactly once. Starting a stopped server either
  leaves one new descriptor, the thread running and the invariant, or, whatever call failed, leaves
  the descriptors as they were and the server startable again; stopping afterwards restores the
  descriptors, and stopping twice is the same as once.\<close>

theorem server_start_stop:
  assumes "server_inv srv fds" and "\<not> sv_thread_started srv" and "sv_listen_fd srv < 0" and "fresh_sockets a fds"
    and "gw_http_server_start a srv fds err = (st, srv', fds', err')"
  shows "(if st = GW_OK then sv_thread_started srv' \<and> \<not> sv_stop_requested srv' \<and> sv_listen_fd srv' \<notin> fds \<and> fds' = insert (sv_listen_fd srv') fds
          else fds' = fds \<and> \<not> sv_thread_started srv' \<and> sv_listen_fd srv' < 0) \<and>
     server_inv srv' fds' \<and>
     (case gw_http_server_stop srv' fds' of (s, f) \<Rightarrow>
        f = fds \<and> \<not> sv_thread_started s \<and> sv_listen_fd s < 0 \<and> gw_http_server_stop s f = (s, f))"
  by (rule server_start_result [OF assms])

definition loopback_answers :: listen_answers where
  "loopback_answers = \<lparr>la_resolved = Inr [\<lparr>aa_socket = 5, aa_bind = False, aa_listen = True\<rparr>, \<lparr>aa_socket = 6, aa_bind = True, aa_listen = True\<rparr>],
     la_errno = [], la_sockname = Inr AF_INET, la_port = 8080, la_thread = None\<rparr>"

theorem server_start_stop_witness:
  "\<exists>srv' err'. gw_http_server_start loopback_answers
      \<lparr>sv_config = server camera_config, sv_recording = sample_recording, sv_listen_fd = -1, sv_bound_port = 0,
       sv_thread_started = False, sv_stop_requested = False\<rparr> {0, 1, 2} None = (GW_OK, srv', {0, 1, 2, 6}, err') \<and>
     snd (gw_http_server_stop srv' {0, 1, 2, 6}) = {0, 1, 2}"
proof -
  let ?s = "\<lparr>sv_config = server camera_config, sv_recording = sample_recording, sv_listen_fd = -1, sv_bound_port = 0,
       sv_thread_started = False, sv_stop_requested = False\<rparr>"
  obtain srv' err' where s: "gw_http_server_start loopback_answers ?s {0, 1, 2} None = (GW_OK, srv', {0, 1, 2, 6}, err')"
    by (auto simp: gw_http_server_start_def bind_listener_def discover_bound_port_def loopback_answers_def Let_def)
  have "fresh_sockets loopback_answers {0, 1, 2}" by (simp add: fresh_sockets_def loopback_answers_def)
  from server_start_stop [OF _ _ _ this s] s show ?thesis by (auto simp: server_inv_def split: prod.splits)
qed

end
