(* ===== verification/Mediamtx_Config.thy ===== *)
theory Mediamtx_Config
  imports Config_Validate
begin

text \<open>
  Rendering of the MediaMTX configuration (\<^verbatim>\<open>src/config/mediamtx_config.c\<close>). The writer is the
  struct with the bytes written so far instead of pointer and length; \<open>append\<close> gets the formatted
  text. It implements the bounded writer interface, so the rendered file is delivered whole or not
  at all.
\<close>

section \<open>The writer\<close>

record config_writer =
  cw_data :: string
  cw_capacity :: nat
  cw_failed :: bool

definition cw_append :: "config_writer \<Rightarrow> string \<Rightarrow> config_writer" where
  "cw_append writer text =
     (if cw_failed writer then writer
      else let available = cw_capacity writer - length (cw_data writer) in
        if \<not> length text < available then writer\<lparr>cw_failed := True\<rparr>
        else writer\<lparr>cw_data := cw_data writer @ text\<rparr>)"

interpretation cw: bounded_writer cw_append cw_data cw_capacity cw_failed
  by unfold_locales (simp_all add: cw_append_def Let_def)

section \<open>Rendering\<close>

definition yaml_bool :: "bool \<Rightarrow> string" where
  "yaml_bool b = (if b then ''true'' else ''false'')"

definition quoted :: "string \<Rightarrow> string" where
  "quoted s = [CHR 0x27] @ s @ [CHR 0x27]"

definition header_text :: "gw_recording_config \<Rightarrow> string" where
  "header_text r =
     ''# Generated by gatewayd; reload MediaMTX after replacing its config.'' @ [LF] @
     ''rtsp: true'' @ [LF] @
     ''rtspTransports: [tcp]'' @ [LF] @
     ''rtspAddress: '' @ quoted ''127.0.0.1:8554'' @ [LF] @
     ''rtmp: false'' @ [LF] @
     ''hls: false'' @ [LF] @
     ''webrtc: true'' @ [LF] @
     ''webrtcAddress: '' @ quoted '':8889'' @ [LF] @
     ''webrtcLocalUDPAddress: '' @ quoted '':8189'' @ [LF] @
     ''webrtcIPsFromInterfaces: true'' @ [LF] @
     ''srt: false'' @ [LF] @
     ''moq: false'' @ [LF] @
     ''playback: '' @ yaml_bool (rec_enabled r) @ [LF] @
     ''playbackAddress: '' @ quoted (playback_listen r @ '':'' @ dec_nat (unat (playback_port r))) @ [LF] @
     ''pathDefaults:'' @ [LF] @
     ''  source: publisher'' @ [LF] @
     ''  record: false'' @ [LF] @
     ''paths:'' @ [LF]"

definition path_text :: "gw_recording_config \<Rightarrow> gw_channel_config \<Rightarrow> string" where
  "path_text r c =
     ''  '' @ out_path (ch_output c) @ '':'' @ [LF] @
     ''    record: '' @ yaml_bool (rec_enabled r \<and> ch_enabled c) @ [LF] @
     ''    recordPath: '' @ quoted (rec_directory r @ ''/%path/%Y-%m-%d_%H-%M-%S-%f'') @ [LF] @
     ''    recordFormat: '' @ rec_format r @ [LF] @
     ''    recordPartDuration: '' @ dec_int (part_duration_sec r) @ ''s'' @ [LF] @
     ''    recordMaxPartSize: '' @ dec_int (max_part_size_mb r) @ ''M'' @ [LF] @
     ''    recordSegmentDuration: '' @ dec_int (segment_duration_sec r) @ ''s'' @ [LF] @
     ''    recordDeleteAfter: '' @ dec_int (delete_after_sec r) @ ''s'' @ [LF]"

fun append_paths :: "gw_recording_config \<Rightarrow> gw_channel_config list \<Rightarrow> config_writer \<Rightarrow> config_writer" where
  "append_paths r [] writer = writer"
| "append_paths r (c # cs) writer = append_paths r cs (cw_append writer (path_text r c))"

definition gw_mediamtx_render_config ::
  "addr_check \<Rightarrow> addr_check \<Rightarrow> gw_config \<Rightarrow> nat \<Rightarrow> gw_error option \<Rightarrow>
   gw_status \<times> string \<times> gw_error option" where
  "gw_mediamtx_render_config inet_pton4 inet_pton6 config capacity error =
     (if capacity = 0 then
        (GW_ERR_ARGUMENT, [],
         gw_error_set error GW_ERR_ARGUMENT ''configuration and output buffer are required'')
      else case gw_config_validate inet_pton4 inet_pton6 config error of (st, e) \<Rightarrow>
        if st \<noteq> GW_OK then (error_code_or e GW_ERR_VALIDATION, [], e)
        else
          let r = recording (mediamtx config);
              w0 = \<lparr>cw_data = [], cw_capacity = capacity, cw_failed = False\<rparr>;
              w = append_paths r (channels config) (cw_append w0 (header_text r))
          in if cw_failed w then
               (GW_ERR_OVERFLOW, [],
                gw_error_set e GW_ERR_OVERFLOW ''MediaMTX configuration exceeds output capacity'')
             else (GW_OK, cw_data w, gw_error_clear e))"

section \<open>Whole or nothing\<close>

lemma append_paths_fold:
  "append_paths r cs w = fold (\<lambda>s w. cw_append w s) (map (path_text r) cs) w"
  by (induction cs arbitrary: w) simp_all

text \<open>For a configuration that satisfies the policy, the rendered MediaMTX file is the header
  followed by one complete section per channel in order (each recording exactly when recording and
  the channel are both enabled), and it is delivered exactly when it fits the buffer; a buffer that
  is too small gives \<open>GW_ERR_OVERFLOW\<close> and an empty output, never a truncated file.\<close>

theorem mediamtx_render_whole_or_nothing:
  assumes "valid_config (\<lambda>s. inet_pton4 s \<or> inet_pton6 s) config" and "0 < capacity"
  shows "let text = header_text (recording (mediamtx config)) @
               concat (map (path_text (recording (mediamtx config))) (channels config)) in
         case gw_mediamtx_render_config inet_pton4 inet_pton6 config capacity err of
           (st, output, err') \<Rightarrow>
             (if length text < capacity then st = GW_OK \<and> output = text
              else st = GW_ERR_OVERFLOW \<and> output = [])"
proof -
  let ?r = "recording (mediamtx config)"
  let ?init = "\<lparr>cw_data = [], cw_capacity = capacity, cw_failed = False\<rparr>"
  let ?ss = "header_text ?r # map (path_text ?r) (channels config)"
  let ?w = "fold (\<lambda>s w. cw_append w s) ?ss ?init"
  obtain e where v: "gw_config_validate inet_pton4 inet_pton6 config err = (GW_OK, e)"
    using validate_status [of inet_pton4 inet_pton6 config err] assms(1)
    by (metis prod.collapse)
  have w: "append_paths ?r (channels config) (cw_append ?init (header_text ?r)) = ?w"
    by (simp add: append_paths_fold)
  have "\<not> cw_failed ?w \<longleftrightarrow> length (concat ?ss) < capacity"
    using cw.fold_append_ok_iff [of ?init ?ss] assms(2) by simp
  moreover have "\<not> cw_failed ?w \<Longrightarrow> cw_data ?w = concat ?ss"
    using cw.fold_append_written [of ?ss ?init] by simp
  ultimately show ?thesis
    using assms(2) by (auto simp: gw_mediamtx_render_config_def v w Let_def)
qed

definition one_path_config :: gw_config where
  "one_path_config =
     \<lparr>server = \<lparr>srv_enabled = True, srv_listen = ''::1'', srv_port = 9080\<rparr>,
      mediamtx = sample_mediamtx,
      defaults = default_policy, channels = [sample_channel]\<rparr>"

lemma one_path_config_valid: "valid_config (\<lambda>s. s = ''127.0.0.1'' \<or> s = ''::1'') one_path_config"
  by (simp add: valid_config_def valid_recording_def valid_defaults_def valid_channel_def valid_video_def
      safe_segment_def safe_directory_def isalnum_def isalpha_def isdigit_def one_path_config_def
      sample_mediamtx_def sample_recording_def sample_channel_def default_policy_def)

theorem mediamtx_render_whole_or_nothing_witness:
  "case gw_mediamtx_render_config (\<lambda>s. s = ''127.0.0.1'') (\<lambda>s. s = ''::1'') one_path_config 100 None of
     (st, output, err') \<Rightarrow> st = GW_ERR_OVERFLOW \<and> output = []"
  using mediamtx_render_whole_or_nothing [OF one_path_config_valid, of 100 None]
  by (simp add: header_text_def Let_def)

end
