(* ===== verification/Gateway_Main.thy ===== *)
theory Gateway_Main
  imports Http_Server Mediamtx_Config
begin

text \<open>
  The program (\<^verbatim>\<open>src/main.c\<close>): arguments, the control loop that serves signals and reloads,
  and the orderly end. What the signal descriptor, the configuration file and the other components'
  environment answer is given per pass of the loop; what the channel threads, the metrics thread
  and the HTTP thread do to the manager meanwhile is a function per pass. Messages on the standard
  streams are left out.
\<close>

abbreviation SIGHUP :: nat where "SIGHUP \<equiv> 1"
abbreviation SIGINT :: nat where "SIGINT \<equiv> 2"
abbreviation SIGTERM :: nat where "SIGTERM \<equiv> 15"
abbreviation GW_MEDIAMTX_CONFIG_CAP :: nat where "GW_MEDIAMTX_CONFIG_CAP \<equiv> 65536"

section \<open>Signals\<close>

datatype signal_answer = Signal nat | Signal_Intr | Signal_Again | Signal_Error

text \<open>The returned flag, the stop request and the reload request.\<close>

fun read_control_signals :: "signal_answer list \<Rightarrow> int \<Rightarrow> bool \<Rightarrow> (bool \<times> int \<times> bool) option" where
  "read_control_signals [] requested_stop requested_reload = None"
| "read_control_signals (Signal n # as) requested_stop requested_reload =
     (if n = SIGHUP then read_control_signals as requested_stop True
      else if n = SIGINT \<or> n = SIGTERM then read_control_signals as (int n) requested_reload
      else read_control_signals as requested_stop requested_reload)"
| "read_control_signals (Signal_Intr # as) requested_stop requested_reload =
     read_control_signals as requested_stop requested_reload"
| "read_control_signals (Signal_Again # as) requested_stop requested_reload =
     Some (True, requested_stop, requested_reload)"
| "read_control_signals (Signal_Error # as) requested_stop requested_reload =
     Some (False, requested_stop, requested_reload)"

definition recording_config_equal :: "gw_recording_config \<Rightarrow> gw_recording_config \<Rightarrow> bool" where
  "recording_config_equal a b \<longleftrightarrow>
     rec_enabled a = rec_enabled b \<and> rec_directory a = rec_directory b \<and> rec_format a = rec_format b \<and>
     part_duration_sec a = part_duration_sec b \<and> max_part_size_mb a = max_part_size_mb b \<and>
     segment_duration_sec a = segment_duration_sec b \<and> delete_after_sec a = delete_after_sec b \<and>
     min_free_mb a = min_free_mb b \<and> playback_listen a = playback_listen b \<and> playback_port a = playback_port b"

section \<open>One pass of the control loop\<close>

text \<open>What the address checks and the environment answer throughout.\<close>

record site =
  si_inet4 :: addr_check
  si_inet6 :: addr_check
  si_getenv :: env_fn
  si_creates :: thread_answers
  si_joins :: "gw_channel_manager \<Rightarrow> nat \<Rightarrow> join_answer"

record pass_input =
  ps_signals :: "signal_answer list"
  ps_file :: load_input
  ps_during :: "gw_channel_manager \<Rightarrow> gw_channel_manager"
  ps_sleep :: "gw_channel_manager \<Rightarrow> gw_channel_manager"

record control =
  ct_manager :: gw_channel_manager
  ct_stop :: int
  ct_reload :: bool
  ct_failed :: bool

definition reload_step :: "site \<Rightarrow> string \<Rightarrow> gw_config \<Rightarrow> load_input \<Rightarrow> gw_channel_manager \<Rightarrow> gw_channel_manager" where
  "reload_step si path config file m =
     (case gw_config_load_file (si_inet4 si) (si_inet6 si) (si_getenv si) file path (config, Some zero_error) of
        (st, candidate, e) \<Rightarrow>
          if st \<noteq> GW_OK then m
          else if srv_enabled (server candidate) \<noteq> srv_enabled (server config) \<or>
                  srv_listen (server candidate) \<noteq> srv_listen (server config) \<or>
                  srv_port (server candidate) \<noteq> srv_port (server config) then m
          else if \<not> recording_config_equal (recording (mediamtx candidate)) (recording (mediamtx config)) then m
          else fst (snd (gw_channel_manager_reload (si_creates si) (si_joins si m) (si_inet4 si) (si_inet6 si) candidate m e)))"

text \<open>Whether the loop is left, and the state.\<close>

definition control_pass :: "site \<Rightarrow> string \<Rightarrow> gw_config \<Rightarrow> bool \<Rightarrow> pass_input \<Rightarrow> control \<Rightarrow> (bool \<times> control) option" where
  "control_pass si path config exit_when_idle inp c =
     (let finished = gw_channel_manager_is_finished (ct_manager c);
          m = ps_during inp (ct_manager c)
      in case read_control_signals (ps_signals inp) (ct_stop c) (ct_reload c) of
        None \<Rightarrow> None
      | Some (ok, stop, reload) \<Rightarrow>
          let stop' = (if ok then stop else int SIGTERM);
              c' = c\<lparr>ct_stop := stop', ct_failed := (ct_failed c \<or> \<not> ok)\<rparr>
          in if stop' \<noteq> 0 then
               Some (finished, c'\<lparr>ct_reload := reload, ct_manager := gw_channel_manager_request_stop stop' m\<rparr>)
             else if reload then
               Some (False, c'\<lparr>ct_reload := False, ct_manager := reload_step si path config (ps_file inp) m\<rparr>)
             else Some (exit_when_idle \<and> finished, c'\<lparr>ct_reload := reload, ct_manager := m\<rparr>))"

fun control_loop :: "site \<Rightarrow> string \<Rightarrow> gw_config \<Rightarrow> bool \<Rightarrow> pass_input list \<Rightarrow> control \<Rightarrow> control option" where
  "control_loop si path config exit_when_idle [] c = None"
| "control_loop si path config exit_when_idle (p # ps) c =
     (case control_pass si path config exit_when_idle p c of
        None \<Rightarrow> None
      | Some (leave, c') \<Rightarrow>
          if leave then Some c'
          else control_loop si path config exit_when_idle ps (c'\<lparr>ct_manager := ps_sleep p (ct_manager c')\<rparr>))"

section \<open>A whole run\<close>

record run_input =
  rn_create :: create_answers
  rn_metrics :: "string option"
  rn_http_alloc :: bool
  rn_listen :: listen_answers
  rn_passes :: "pass_input list"
  rn_last :: "gw_channel_manager \<Rightarrow> gw_channel_manager"

definition stop_server :: "gw_http_server option \<Rightarrow> int set \<Rightarrow> gw_http_server option \<times> int set" where
  "stop_server srv fds =
     (case srv of None \<Rightarrow> (None, fds) | Some s \<Rightarrow> (case gw_http_server_stop s fds of (s', fds') \<Rightarrow> (Some s', fds')))"

definition destroy_manager :: "site \<Rightarrow> gw_channel_manager \<Rightarrow> gw_channel_manager" where
  "destroy_manager si m = gw_channel_manager_destroy (si_joins si m) m"

text \<open>Return code, the manager when it is freed, and the open descriptors.\<close>

definition control_phase ::
  "site \<Rightarrow> run_input \<Rightarrow> string \<Rightarrow> gw_config \<Rightarrow> bool \<Rightarrow> gw_channel_manager \<Rightarrow> gw_http_server option \<Rightarrow> int set \<Rightarrow>
   (int \<times> gw_channel_manager option \<times> int set) option" where
  "control_phase si rn path config exit_when_idle m srv fds =
     (case control_loop si path config exit_when_idle (rn_passes rn) \<lparr>ct_manager = m, ct_stop = 0, ct_reload = False, ct_failed = False\<rparr> of
        None \<Rightarrow> None
      | Some c \<Rightarrow>
          (case stop_server srv fds of (srv1, fds1) \<Rightarrow>
            let m1 = rn_last rn (ct_manager c) in
            case gw_channel_manager_wait (si_joins si m1) m1 of (rc, m2) \<Rightarrow>
              let result = (if ct_failed c then 1 else rc);
                  fds2 = snd (stop_server srv1 fds1)
              in Some (result, Some (destroy_manager si m2), fds2)))"

definition give_up :: "site \<Rightarrow> gw_channel_manager \<Rightarrow> int set \<Rightarrow> (int \<times> gw_channel_manager option \<times> int set) option" where
  "give_up si m fds =
     (let m1 = gw_channel_manager_request_stop (int SIGTERM) m;
          m2 = snd (gw_channel_manager_wait (si_joins si m1) m1)
      in Some (1, Some (destroy_manager si m2), fds))"

definition run_channels ::
  "site \<Rightarrow> run_input \<Rightarrow> string \<Rightarrow> gw_config \<Rightarrow> gw_supervisor_options \<Rightarrow> bool \<Rightarrow> int set \<Rightarrow>
   (int \<times> gw_channel_manager option \<times> int set) option" where
  "run_channels si rn path config options exit_when_idle fds =
     (case gw_channel_manager_create (rn_create rn) (si_inet4 si) (si_inet6 si) config options (Some zero_error) of
        None \<Rightarrow> None
      | Some (st, None, e) \<Rightarrow> Some (1, None, fds)
      | Some (st, Some m, e) \<Rightarrow>
          (case gw_channel_manager_start (si_creates si) (rn_metrics rn) (si_joins si m) m e of (st1, m1, e1) \<Rightarrow>
             if st1 \<noteq> GW_OK then Some (1, Some (destroy_manager si m1), fds)
             else if \<not> srv_enabled (server config) then control_phase si rn path config exit_when_idle m1 None fds
             else case gw_http_server_create (rn_http_alloc rn) (server config) (recording (mediamtx config)) e1 of
               (st2, None, e2) \<Rightarrow> give_up si m1 fds
             | (st2, Some srv, e2) \<Rightarrow>
                 (case gw_http_server_start (rn_listen rn) srv fds e2 of (st3, srv3, fds3, e3) \<Rightarrow>
                    if st3 \<noteq> GW_OK then give_up si m1 (gw_http_server_destroy srv3 fds3)
                    else control_phase si rn path config exit_when_idle m1 (Some srv3) fds3)))"

section \<open>Arguments\<close>

record cli =
  cl_config :: "string option"
  cl_check :: bool
  cl_print :: bool
  cl_idle :: bool
  cl_options :: gw_supervisor_options

definition cli_init :: cli where
  "cli_init = \<lparr>cl_config = None, cl_check = False, cl_print = False, cl_idle = False, cl_options = gw_supervisor_options_init\<rparr>"

text \<open>\<open>Inl\<close> is an early return code.\<close>

fun parse_arguments :: "string list \<Rightarrow> cli \<Rightarrow> int + cli" where
  "parse_arguments [] c = Inr c"
| "parse_arguments (a # as) c =
     (if a = ''--config'' \<and> as \<noteq> [] then parse_arguments (tl as) (c\<lparr>cl_config := Some (hd as)\<rparr>)
      else if a = ''--check-config'' then parse_arguments as (c\<lparr>cl_check := True\<rparr>)
      else if a = ''--print-mediamtx-config'' then parse_arguments as (c\<lparr>cl_print := True\<rparr>)
      else if a = ''--exit-when-idle'' then
        parse_arguments as (c\<lparr>cl_idle := True,
          cl_options := (cl_options c)\<lparr>so_stop_on_clean_exit := True, so_exit_on_retry_exhaustion := True\<rparr>\<rparr>)
      else if a = ''--ffmpeg-binary'' \<and> as \<noteq> [] then
        parse_arguments (tl as) (c\<lparr>cl_options := (cl_options c)\<lparr>so_ffmpeg_binary := hd as\<rparr>\<rparr>)
      else if a = ''--help'' \<or> a = ''-h'' then Inl 0
      else Inl 2)"

definition print_mediamtx_config :: "site \<Rightarrow> bool \<Rightarrow> gw_config \<Rightarrow> int \<times> string" where
  "print_mediamtx_config si fputs_ok config =
     (case gw_mediamtx_render_config (si_inet4 si) (si_inet6 si) config GW_MEDIAMTX_CONFIG_CAP (Some zero_error) of
        (st, rendered, e) \<Rightarrow> if st \<noteq> GW_OK then (1, []) else if \<not> fputs_ok then (1, []) else (0, rendered))"

record main_input =
  mn_file :: load_input
  mn_fputs :: bool
  mn_signal_fd :: "int option"
  mn_run :: run_input

text \<open>Return code, what goes to the standard output as configuration, the freed manager if one was
  created, and the open descriptors.\<close>

definition gateway_main ::
  "site \<Rightarrow> main_input \<Rightarrow> string list \<Rightarrow> int set \<Rightarrow> (int \<times> string \<times> gw_channel_manager option \<times> int set) option" where
  "gateway_main si inp argv fds =
     (case parse_arguments argv cli_init of
        Inl code \<Rightarrow> Some (code, [], None, fds)
      | Inr c \<Rightarrow>
          (case cl_config c of
             None \<Rightarrow> Some (2, [], None, fds)
           | Some path \<Rightarrow>
               if cl_check c \<and> cl_print c then Some (2, [], None, fds)
               else case gw_config_load_file (si_inet4 si) (si_inet6 si) (si_getenv si) (mn_file inp) path (gw_config_init, Some zero_error) of
                 (st, config, e) \<Rightarrow>
                   if st \<noteq> GW_OK then Some (1, [], None, fds)
                   else if cl_check c then Some (0, [], None, fds)
                   else if cl_print c then
                     (case print_mediamtx_config si (mn_fputs inp) config of (rc, printed) \<Rightarrow> Some (rc, printed, None, fds))
                   else (case mn_signal_fd inp of
                     None \<Rightarrow> Some (1, [], None, fds)
                   | Some fd \<Rightarrow>
                       map_option (\<lambda>(rc, m, fds'). (rc, [], m, fds' - {fd}))
                         (run_channels si (mn_run inp) path config (cl_options c) (cl_idle c) (insert fd fds)))))"

section \<open>The signal descriptor\<close>

definition stop_signals :: "signal_answer list \<Rightarrow> nat list" where
  "stop_signals as = concat (map (\<lambda>a. case a of Signal n \<Rightarrow> if n = SIGINT \<or> n = SIGTERM then [n] else [] | _ \<Rightarrow> []) as)"

text \<open>All pending signals are taken: the last one that asks for a stop counts, and one that asks for a reload is
  remembered.\<close>

lemma read_control_signals_drains:
  assumes "Signal_Again \<notin> set as" and "Signal_Error \<notin> set as" and "fin = Signal_Again \<or> fin = Signal_Error"
  shows "read_control_signals (as @ fin # later) stop reload =
    Some (fin = Signal_Again, (if stop_signals as = [] then stop else int (last (stop_signals as))), reload \<or> Signal SIGHUP \<in> set as)"
  using assms
proof (induction as arbitrary: stop reload)
  case Nil
  then show ?case by (auto simp: stop_signals_def)
next
  case (Cons a as)
  then show ?case by (cases a) (auto simp: stop_signals_def)
qed

lemma read_control_signals_stop:
  "read_control_signals as stop reload = Some (ok, stop', reload') \<Longrightarrow> stop \<noteq> 0 \<Longrightarrow> stop' \<noteq> 0"
  by (induction as stop reload rule: read_control_signals.induct) (auto split: if_splits)

section \<open>Reloading\<close>

definition site_lawful :: "site \<Rightarrow> bool" where
  "site_lawful si \<longleftrightarrow> (\<forall>m. joins_lawful (si_joins si m) m)"

lemma recording_config_equal_iff: "recording_config_equal a b \<longleftrightarrow> a = b"
  by (auto simp: recording_config_equal_def intro: gw_recording_config.equality)

lemma reload_step_result:
  assumes "manager_inv m" and "mg_started m" and "mg_stop_signal m = 0" and "site_lawful si"
    and "gw_config_load_file (si_inet4 si) (si_inet6 si) (si_getenv si) file path (config, Some zero_error) = (st, cand, e)"
  shows "let m' = reload_step si path config file m in
     (if st = GW_OK \<and> server cand = server config \<and> recording (mediamtx cand) = recording (mediamtx config)
      then manager_inv m' \<and> mg_started m' \<and> mg_config m' = cand \<and> managed m' = {c \<in> set (channels cand). ch_enabled c} \<and>
           config_bounded cand \<and> valid_config (\<lambda>s. si_inet4 si s \<or> si_inet6 si s) cand
      else m' = m)"
proof (cases "st = GW_OK \<and> server cand = server config \<and> recording (mediamtx cand) = recording (mediamtx config)")
  case False
  have "server cand = server config \<longleftrightarrow> srv_enabled (server cand) = srv_enabled (server config) \<and>
      srv_listen (server cand) = srv_listen (server config) \<and> srv_port (server cand) = srv_port (server config)"
    by (auto intro: gw_server_config.equality)
  with False assms(5) show ?thesis by (auto simp: reload_step_def recording_config_equal_iff)
next
  case True
  with assms(5) have ok: "gw_config_load_file (si_inet4 si) (si_inet6 si) (si_getenv si) file path (config, Some zero_error) = (GW_OK, cand, e)"
    by simp
  note v = load_file_valid [OF ok]
  obtain st1 m' ch e1 where r: "gw_channel_manager_reload (si_creates si) (si_joins si m) (si_inet4 si) (si_inet6 si) cand m e = (st1, m', ch, e1)"
    by (metis prod_cases4)
  have own: "\<forall>i < GW_MAX_CHANNELS. own_snapshots (si_joins si m i) (mg_entries m ! i)"
    using assms(4) by (simp add: site_lawful_def joins_lawful_def)
  have "reload_step si path config file m = m'"
    using True ok r by (simp add: reload_step_def recording_config_equal_iff)
  with True v reload_result [OF assms(1-3) v [THEN conjunct2] v [THEN conjunct1] own r] show ?thesis by (simp add: Let_def)
qed

text \<open>C29: a reload on SIGHUP. The new file takes effect exactly if it loads, is valid, and leaves the HTTP
  server and the recording settings alone; then the manager serves exactly its enabled channels. In every
  other case the manager is not touched at all.\<close>

theorem reload_step_exact:
  assumes "manager_inv m" and "mg_started m" and "mg_stop_signal m = 0" and "site_lawful si"
    and "gw_config_load_file (si_inet4 si) (si_inet6 si) (si_getenv si) file path (config, Some zero_error) = (st, cand, e)"
  shows "let m' = reload_step si path config file m in
     (if st = GW_OK \<and> server cand = server config \<and> recording (mediamtx cand) = recording (mediamtx config)
      then manager_inv m' \<and> mg_started m' \<and> mg_config m' = cand \<and> managed m' = {c \<in> set (channels cand). ch_enabled c} \<and>
           config_bounded cand \<and> valid_config (\<lambda>s. si_inet4 si s \<or> si_inet6 si s) cand
      else m' = m)"
  by (rule reload_step_result [OF assms])

lemma reload_step_reaches:
  assumes "reaches m" and "mg_started m" and "site_lawful si"
  shows "reaches (reload_step si path config file m) \<and> mg_started (reload_step si path config file m)"
proof (cases "mg_stop_signal m = 0")
  case False
  have "fst (snd (gw_channel_manager_reload a b i j cand m e)) = m" for a b i j cand e
    using False by (simp add: gw_channel_manager_reload_def)
  then have "reload_step si path config file m = m" by (simp add: reload_step_def split: prod.splits)
  with assms show ?thesis by simp
next
  case True
  obtain st cand e where l: "gw_config_load_file (si_inet4 si) (si_inet6 si) (si_getenv si) file path (config, Some zero_error) = (st, cand, e)"
    by (metis prod_cases3)
  have inv: "manager_inv m" using reaches_ok [OF assms(1)] by (simp add: manager_ok_def)
  obtain st1 m' ch e1 where r: "gw_channel_manager_reload (si_creates si) (si_joins si m) (si_inet4 si) (si_inet6 si) cand m e = (st1, m', ch, e1)"
    by (metis prod_cases4)
  have step: "reload_step si path config file m \<in> {m, m'}" "reload_step si path config file m = m' \<or> reload_step si path config file m = m"
    using l r by (simp_all add: reload_step_def)
  show ?thesis
  proof (cases "st = GW_OK")
    case ok: True
    with l have "config_bounded cand" using load_file_valid by blast
    from reaches.reloaded_to [OF assms(1) _ this r] assms(3) have "reaches m'" by (simp add: site_lawful_def)
    with step assms reload_step_result [OF inv assms(2) True assms(3) l] show ?thesis by (auto simp: Let_def split: if_splits)
  next
    case False
    with l assms show ?thesis by (simp add: reload_step_def)
  qed
qed

section \<open>The control loop\<close>

text \<open>The other threads act on the manager by steps of its own.\<close>

definition others_lawful :: "(gw_channel_manager \<Rightarrow> gw_channel_manager) \<Rightarrow> bool" where
  "others_lawful f \<longleftrightarrow> (\<forall>m. reaches m \<and> mg_started m \<longrightarrow> reaches (f m) \<and> mg_started (f m))"

definition pass_lawful :: "pass_input \<Rightarrow> bool" where
  "pass_lawful p \<longleftrightarrow> others_lawful (ps_during p) \<and> others_lawful (ps_sleep p)"

definition live :: "gw_channel_manager \<Rightarrow> bool" where
  "live m \<longleftrightarrow> reaches m \<and> mg_started m"

lemma request_stop_live: "live m \<Longrightarrow> live (gw_channel_manager_request_stop sig m)"
  using reaches.stop_requested by (simp add: live_def gw_channel_manager_request_stop_def)

lemma control_pass_live:
  assumes "live (ct_manager c)" and "pass_lawful p" and "site_lawful si"
    and "control_pass si path config idle_exit p c = Some (leave, c')"
  shows "live (ct_manager c')"
proof -
  let ?m = "ps_during p (ct_manager c)"
  have m: "live ?m" using assms(1,2) by (simp add: live_def pass_lawful_def others_lawful_def)
  then have "live (reload_step si path config (ps_file p) ?m)"
    using reload_step_reaches assms(3) by (simp add: live_def)
  with m request_stop_live assms(4) show ?thesis
    by (auto simp: control_pass_def Let_def split: option.splits prod.splits if_splits)
qed

lemma control_loop_live:
  "live (ct_manager c) \<Longrightarrow> \<forall>p \<in> set ps. pass_lawful p \<Longrightarrow> site_lawful si \<Longrightarrow>
   control_loop si path config idle_exit ps c = Some c' \<Longrightarrow> live (ct_manager c')"
proof (induction ps arbitrary: c)
  case (Cons p ps)
  from Cons.prems(4) obtain leave c1 where p: "control_pass si path config idle_exit p c = Some (leave, c1)"
    by (auto split: option.splits)
  have l: "live (ct_manager c1)" using control_pass_live [OF Cons.prems(1) _ Cons.prems(3) p] Cons.prems(2) by simp
  show ?case
  proof (cases leave)
    case True
    with Cons.prems(4) p l show ?thesis by simp
  next
    case False
    have "live (ps_sleep p (ct_manager c1))" using l Cons.prems(2) by (simp add: live_def pass_lawful_def others_lawful_def)
    with False Cons.prems p Cons.IH [of "c1\<lparr>ct_manager := ps_sleep p (ct_manager c1)\<rparr>"] show ?thesis by simp
  qed
qed simp

definition answered :: "pass_input \<Rightarrow> bool" where
  "answered p \<longleftrightarrow> (\<forall>stop reload. read_control_signals (ps_signals p) stop reload \<noteq> None)"

definition orders_stop :: "pass_input \<Rightarrow> bool" where
  "orders_stop p \<longleftrightarrow> (\<forall>stop reload. \<exists>ok stop' reload'.
     read_control_signals (ps_signals p) stop reload = Some (ok, stop', reload') \<and> (stop' \<noteq> 0 \<or> \<not> ok))"

text \<open>During the sleep of this pass every channel thread returns, given that a stop was requested.\<close>

definition drains :: "pass_input \<Rightarrow> bool" where
  "drains p \<longleftrightarrow> (\<forall>m. mg_stop_signal m \<noteq> 0 \<longrightarrow> gw_channel_manager_is_finished (ps_sleep p m))"

text \<open>A pass that finds a stop request, old or new, passes it on and leaves the loop exactly if the manager was
  finished when the pass began.\<close>

lemma stop_pass:
  assumes "answered p" and "ct_stop c \<noteq> 0 \<or> orders_stop p"
  obtains c' where "control_pass si path config idle_exit p c = Some (gw_channel_manager_is_finished (ct_manager c), c')"
    "ct_stop c' \<noteq> 0" "mg_stop_signal (ct_manager c') \<noteq> 0"
proof -
  obtain ok stop reload where rs: "read_control_signals (ps_signals p) (ct_stop c) (ct_reload c) = Some (ok, stop, reload)"
    using assms(1) unfolding answered_def by (metis not_None_eq prod_cases3)
  have "stop \<noteq> 0 \<or> \<not> ok"
    using assms(2) read_control_signals_stop [OF rs] rs unfolding orders_stop_def by (metis old.prod.inject option.inject)
  then obtain s where s: "(if ok then stop else int SIGTERM) = s" "s \<noteq> 0" by auto
  let ?c = "c\<lparr>ct_stop := s, ct_failed := (ct_failed c \<or> \<not> ok), ct_reload := reload,
      ct_manager := gw_channel_manager_request_stop s (ps_during p (ct_manager c))\<rparr>"
  have "control_pass si path config idle_exit p c = Some (gw_channel_manager_is_finished (ct_manager c), ?c)"
    using s by (simp add: control_pass_def rs Let_def)
  then show ?thesis by (rule that) (use s(2) in \<open>simp_all add: gw_channel_manager_request_stop_def\<close>)
qed

definition drains_on :: "(gw_channel_manager \<Rightarrow> bool) \<Rightarrow> pass_input \<Rightarrow> bool" where
  "drains_on P p \<longleftrightarrow> (\<forall>m. P m \<longrightarrow> mg_stop_signal m \<noteq> 0 \<longrightarrow> gw_channel_manager_is_finished (ps_sleep p m))"

lemma pending_ends:
  assumes "\<forall>x \<in> set (xs @ d # p # ys). answered x" and "drains_on P d" and "ct_stop c \<noteq> 0 \<or> orders_stop (hd (xs @ [d]))"
    and "P (ct_manager c)"
    and keeps: "\<And>x c leave c'. x \<in> set (xs @ d # p # ys) \<Longrightarrow> P (ct_manager c) \<Longrightarrow>
      control_pass si path config idle_exit x c = Some (leave, c') \<Longrightarrow> P (ct_manager c') \<and> P (ps_sleep x (ct_manager c'))"
  shows "\<exists>c'. control_loop si path config idle_exit (xs @ d # p # ys) c = Some c'"
  using assms
proof (induction xs arbitrary: c)
  case Nil
  then have a: "answered d" "answered p" "ct_stop c \<noteq> 0 \<or> orders_stop d" by simp_all
  obtain c1 where c1: "control_pass si path config idle_exit d c = Some (gw_channel_manager_is_finished (ct_manager c), c1)"
    "ct_stop c1 \<noteq> 0" "mg_stop_signal (ct_manager c1) \<noteq> 0" by (rule stop_pass [OF a(1,3)])
  let ?c = "c1\<lparr>ct_manager := ps_sleep d (ct_manager c1)\<rparr>"
  have "P (ct_manager c1)" using Nil.prems(5) [OF _ Nil.prems(4) c1(1)] by simp
  then have fin: "gw_channel_manager_is_finished (ct_manager ?c)" using c1(3) Nil.prems(2) by (simp add: drains_on_def)
  have "ct_stop ?c \<noteq> 0 \<or> orders_stop p" using c1(2) by simp
  from stop_pass [OF a(2) this] fin obtain c2 where "control_pass si path config idle_exit p ?c = Some (True, c2)" by metis
  with c1(1) show ?case by simp
next
  case (Cons x xs)
  then have a: "answered x" "ct_stop c \<noteq> 0 \<or> orders_stop x" by simp_all
  obtain c1 where c1: "control_pass si path config idle_exit x c = Some (gw_channel_manager_is_finished (ct_manager c), c1)"
    "ct_stop c1 \<noteq> 0" by (rule stop_pass [OF a])
  let ?c = "c1\<lparr>ct_manager := ps_sleep x (ct_manager c1)\<rparr>"
  have "P (ct_manager ?c)" using Cons.prems(5) [OF _ Cons.prems(4) c1(1)] by simp
  then have "\<exists>c'. control_loop si path config idle_exit (xs @ d # p # ys) ?c = Some c'"
    by (intro Cons.IH) (use c1(2) Cons.prems in auto)
  with c1(1) show ?case by simp
qed

lemma control_pass_answered: "answered p \<Longrightarrow> \<exists>leave c'. control_pass si path config idle_exit p c = Some (leave, c')"
  by (auto simp: answered_def control_pass_def Let_def split: option.splits prod.splits)

text \<open>Whatever passes come first: they leave the loop or go on.\<close>

lemma earlier_passes_end:
  assumes "\<forall>x \<in> set pre. answered x" and "P (ct_manager c)"
    and "\<And>x c leave c'. x \<in> set pre \<Longrightarrow> P (ct_manager c) \<Longrightarrow>
      control_pass si path config idle_exit x c = Some (leave, c') \<Longrightarrow> P (ps_sleep x (ct_manager c'))"
    and "\<And>c. P (ct_manager c) \<Longrightarrow> \<exists>c'. control_loop si path config idle_exit ps c = Some c'"
  shows "\<exists>c'. control_loop si path config idle_exit (pre @ ps) c = Some c'"
  using assms(1-3)
proof (induction pre arbitrary: c)
  case Nil
  with assms(4) show ?case by simp
next
  case (Cons x xs)
  then obtain leave c1 where c1: "control_pass si path config idle_exit x c = Some (leave, c1)"
    using control_pass_answered by (metis list.set_intros(1))
  let ?c = "c1\<lparr>ct_manager := ps_sleep x (ct_manager c1)\<rparr>"
  have "P (ct_manager ?c)" using Cons.prems(3) [OF _ Cons.prems(2) c1] by simp
  then have "\<exists>c'. control_loop si path config idle_exit (xs @ ps) ?c = Some c'"
    by (intro Cons.IH) (use Cons.prems in auto)
  with c1 show ?case by simp
qed

text \<open>C13: a termination signal ends the program. Once a pass reads SIGINT or SIGTERM, or cannot read its signal
  descriptor, and the channel threads return during the sleep of that pass or of any later one, the
  control loop is left, whatever other signals, reloads and requests come in between.\<close>

theorem stop_signal_ends_loop:
  assumes "\<forall>x \<in> set (xs @ d # p # ys). answered x" and "orders_stop (hd (xs @ [d]))" and "drains d"
  shows "\<exists>c'. control_loop si path config idle_exit (xs @ d # p # ys) c = Some c'"
  using pending_ends [OF assms(1), of "\<lambda>m. True"] assms(2,3) by (simp add: drains_def drains_on_def)

section \<open>The end of a run\<close>

lemma idle_flags: "idle m \<Longrightarrow> manager_inv m \<Longrightarrow> manager_inv m \<and> idle m \<and> mg_active_threads m = 0"
  using idle_no_threads(1) by simp

lemma request_stop_started: "mg_started (gw_channel_manager_request_stop sig m) = mg_started m"
  by (simp add: gw_channel_manager_request_stop_def)

lemma destroy_clean:
  assumes "manager_inv m" and "site_lawful si" and "mg_started m \<or> idle m"
  shows "manager_inv (destroy_manager si m) \<and> idle (destroy_manager si m) \<and> mg_active_threads (destroy_manager si m) = 0"
proof (cases "mg_started m")
  case False
  with assms show ?thesis using idle_flags
    by (simp add: destroy_manager_def gw_channel_manager_destroy_def gw_channel_manager_is_finished_def Let_def)
next
  case True
  let ?j = "si_joins si m"
  define m1 where "m1 = (if \<not> gw_channel_manager_is_finished m then gw_channel_manager_request_stop SIGTERM_NUMBER m else m)"
  obtain rc m2 where w: "gw_channel_manager_wait ?j m1 = (rc, m2)" by fastforce
  have m1: "manager_inv m1" "joins_lawful ?j m1" "mg_started m1"
    using assms(1,2) True request_stop_started by (simp_all add: m1_def site_lawful_def)
  have "destroy_manager si m = m2"
    using True m1(3) w by (simp add: destroy_manager_def gw_channel_manager_destroy_def m1_def Let_def)
  with manager_wait_result [OF m1 w] idle_flags show ?thesis by simp
qed

lemma stop_server_twice:
  assumes "stop_server srv fds = (srv1, fds1)"
  shows "snd (stop_server srv1 fds1) = fds1"
  using assms by (auto simp: stop_server_def gw_http_server_stop_def close_listener_def Let_def split: option.splits if_splits)

lemma control_phase_clean:
  assumes "live m" and "\<forall>p \<in> set (rn_passes rn). pass_lawful p" and "others_lawful (rn_last rn)" and "site_lawful si"
    and "control_phase si rn path config idle_exit m srv fds = Some (rc, mo, fds')"
  shows "rc \<in> {0, 1} \<and> fds' = snd (stop_server srv fds) \<and>
     (\<exists>m'. mo = Some m' \<and> manager_inv m' \<and> idle m' \<and> mg_active_threads m' = 0)"
proof -
  obtain c where c: "control_loop si path config idle_exit (rn_passes rn) \<lparr>ct_manager = m, ct_stop = 0, ct_reload = False, ct_failed = False\<rparr> = Some c"
    using assms(5) by (auto simp: control_phase_def split: option.splits)
  have "live (ct_manager c)" by (rule control_loop_live [OF _ assms(2,4) c]) (use assms(1) in simp)
  then have l: "live (rn_last rn (ct_manager c))" using assms(3) by (simp add: live_def others_lawful_def)
  let ?m = "rn_last rn (ct_manager c)"
  obtain rc1 m2 where w: "gw_channel_manager_wait (si_joins si ?m) ?m = (rc1, m2)" by fastforce
  have inv: "manager_inv ?m" using l reaches_ok by (auto simp: live_def manager_ok_def)
  have law: "joins_lawful (si_joins si ?m) ?m" using assms(4) by (simp add: site_lawful_def)
  note wr = manager_wait_result [OF inv law _ w]
  have m2: "manager_inv m2" "idle m2" "rc1 \<in> {0, 1}" using wr l by (simp_all add: live_def split: if_splits)
  obtain srv1 fds1 where ss: "stop_server srv fds = (srv1, fds1)" by fastforce
  have "rc = (if ct_failed c then 1 else rc1)" "mo = Some (destroy_manager si m2)" "fds' = snd (stop_server srv1 fds1)"
    using assms(5) c w ss by (simp_all add: control_phase_def Let_def)
  with m2 ss stop_server_twice [OF ss] destroy_clean [OF m2(1) assms(4)] show ?thesis by simp
qed

lemma give_up_clean:
  assumes "live m" and "site_lawful si" and "give_up si m fds = Some (rc, mo, fds')"
  shows "rc = 1 \<and> fds' = fds \<and> (\<exists>m'. mo = Some m' \<and> manager_inv m' \<and> idle m' \<and> mg_active_threads m' = 0)"
proof -
  let ?m = "gw_channel_manager_request_stop (int SIGTERM) m"
  obtain rc1 m2 where w: "gw_channel_manager_wait (si_joins si ?m) ?m = (rc1, m2)" by fastforce
  have l: "live ?m" by (rule request_stop_live [OF assms(1)])
  have inv: "manager_inv ?m" using l reaches_ok [of ?m] by (auto simp: live_def manager_ok_def)
  have law: "joins_lawful (si_joins si ?m) ?m" using assms(2) unfolding site_lawful_def by blast
  have "manager_inv m2" "idle m2" using manager_wait_result [OF inv law _ w] l by (simp_all add: live_def)
  with assms(3) w destroy_clean [OF _ assms(2), of m2] show ?thesis by (auto simp: give_up_def Let_def)
qed

lemma stop_fresh_server: "sv_listen_fd s < 0 \<Longrightarrow> \<not> sv_thread_started s \<Longrightarrow> gw_http_server_stop s fds = (s, fds)"
  by (simp add: gw_http_server_stop_def)

text \<open>A run of the program on a loaded configuration.\<close>

definition run_lawful :: "site \<Rightarrow> run_input \<Rightarrow> int set \<Rightarrow> bool" where
  "run_lawful si rn fds \<longleftrightarrow> site_lawful si \<and> (\<forall>p \<in> set (rn_passes rn). pass_lawful p) \<and> others_lawful (rn_last rn) \<and>
     fresh_sockets (rn_listen rn) fds"

lemma started_run:
  assumes "config_bounded config" and "run_lawful si rn fds"
    and "gw_channel_manager_create (rn_create rn) (si_inet4 si) (si_inet6 si) config options (Some zero_error) = Some (st, Some m, e)"
    and "gw_channel_manager_start (si_creates si) (rn_metrics rn) (si_joins si m) m e = (st1, m1, e1)"
  shows "manager_inv m1" and "st1 = GW_OK \<Longrightarrow> live m1" and "st1 \<noteq> GW_OK \<Longrightarrow> idle m1"
proof -
  have law: "joins_lawful (si_joins si m) m" using assms(2) by (simp add: run_lawful_def site_lawful_def)
  from create_cases [OF assms(1), of "rn_create rn" "si_inet4 si" "si_inet6 si" options "Some zero_error"] assms(3)
  have m: "st = GW_OK" "manager_inv m" "idle m" "\<not> mg_started m" by auto
  have "reaches m" by (rule reaches.created [OF assms(3) [unfolded m(1)] assms(1)])
  from reaches.started [OF this law assms(4)] have r: "reaches m1" .
  note s = manager_start_result [OF m(2-4) law assms(4)]
  show "manager_inv m1" using s by simp
  show "st1 = GW_OK \<Longrightarrow> live m1" using s r by (simp add: live_def)
  show "st1 \<noteq> GW_OK \<Longrightarrow> idle m1" using s by simp
qed

lemma served_run:
  assumes law: "run_lawful si rn fds" and m: "live m"
    and run: "(case gw_http_server_create (rn_http_alloc rn) (server config) (recording (mediamtx config)) e of
        (st2, None, e2) \<Rightarrow> give_up si m fds
      | (st2, Some srv, e2) \<Rightarrow>
          (case gw_http_server_start (rn_listen rn) srv fds e2 of (st3, srv3, fds3, e3) \<Rightarrow>
             if st3 \<noteq> GW_OK then give_up si m (gw_http_server_destroy srv3 fds3)
             else control_phase si rn path config idle_exit m (Some srv3) fds3)) = Some (rc, mo, fds')"
  shows "rc \<in> {0, 1} \<and> fds' = fds \<and> (\<exists>m'. mo = Some m' \<and> manager_inv m' \<and> idle m' \<and> mg_active_threads m' = 0)"
proof -
  let ?srv = "\<lparr>sv_config = server config, sv_recording = recording (mediamtx config), sv_listen_fd = -1, sv_bound_port = 0,
      sv_thread_started = False, sv_stop_requested = False\<rparr>"
  have l: "site_lawful si" "\<forall>p \<in> set (rn_passes rn). pass_lawful p" "others_lawful (rn_last rn)" "fresh_sockets (rn_listen rn) fds"
    using law by (simp_all add: run_lawful_def)
  show ?thesis
  proof (cases "rn_http_alloc rn")
    case False
    with run have "give_up si m fds = Some (rc, mo, fds')" by (simp add: gw_http_server_create_def)
    from give_up_clean [OF m l(1) this] show ?thesis by auto
  next
    case True
    let ?e = "gw_error_clear e"
    obtain st3 srv3 fds3 e3 where h: "gw_http_server_start (rn_listen rn) ?srv fds ?e = (st3, srv3, fds3, e3)" by (metis prod_cases4)
    have inv: "server_inv ?srv fds" by (simp add: server_inv_def)
    note hs = server_start_result [OF inv _ _ l(4) h, simplified]
    show ?thesis
    proof (cases "st3 = GW_OK")
      case ok: True
      with True run h have "control_phase si rn path config idle_exit m (Some srv3) fds3 = Some (rc, mo, fds')"
        by (simp add: gw_http_server_create_def)
      from control_phase_clean [OF m l(2,3,1) this] hs show ?thesis by (auto simp: stop_server_def split: prod.splits)
    next
      case ng: False
      with True run h have "give_up si m (gw_http_server_destroy srv3 fds3) = Some (rc, mo, fds')"
        by (simp add: gw_http_server_create_def)
      from give_up_clean [OF m l(1) this] hs show ?thesis by (auto simp: gw_http_server_destroy_def split: prod.splits)
    qed
  qed
qed

lemma run_channels_clean:
  assumes "config_bounded config" and law: "run_lawful si rn fds"
    and run: "run_channels si rn path config options idle_exit fds = Some (rc, mo, fds')"
  shows "rc \<in> {0, 1} \<and> fds' = fds \<and> (\<forall>m. mo = Some m \<longrightarrow> manager_inv m \<and> idle m \<and> mg_active_threads m = 0)"
proof -
  have l: "site_lawful si" "\<forall>p \<in> set (rn_passes rn). pass_lawful p" "others_lawful (rn_last rn)" "fresh_sockets (rn_listen rn) fds"
    using law by (simp_all add: run_lawful_def)
  from run obtain st mo1 e where c: "gw_channel_manager_create (rn_create rn) (si_inet4 si) (si_inet6 si) config options (Some zero_error) = Some (st, mo1, e)"
    by (auto simp: run_channels_def split: option.splits)
  show ?thesis
  proof (cases mo1)
    case None
    with run c show ?thesis by (auto simp: run_channels_def)
  next
    case (Some m)
    obtain st1 m1 e1 where s: "gw_channel_manager_start (si_creates si) (rn_metrics rn) (si_joins si m) m e = (st1, m1, e1)" by (metis prod_cases3)
    note sr = started_run [OF assms(1) law c [unfolded Some] s]
    note body = run [unfolded run_channels_def c Some option.case prod.case s]
    consider "st1 \<noteq> GW_OK" | "st1 = GW_OK" "\<not> srv_enabled (server config)" | "st1 = GW_OK" "srv_enabled (server config)" by blast
    then show ?thesis
    proof cases
      case 1
      with body destroy_clean [OF sr(1) l(1)] sr(3) show ?thesis by auto
    next
      case 2
      with body have "control_phase si rn path config idle_exit m1 None fds = Some (rc, mo, fds')" by simp
      from control_phase_clean [OF sr(2) [OF 2(1)] l(2,3,1) this] show ?thesis by (auto simp: stop_server_def)
    next
      case 3
      from served_run [OF law sr(2) [OF 3(1)], where config = config and e = e1 and path = path and idle_exit = idle_exit
          and rc = rc and mo = mo and fds' = fds'] body 3 show ?thesis
        by (simp only: simp_thms if_False) auto
    qed
  qed
qed

section \<open>The program as a whole\<close>

text \<open>Arguments the program can work with.\<close>

definition usable :: "string list \<Rightarrow> bool" where
  "usable argv \<longleftrightarrow>
     (case parse_arguments argv cli_init of
        Inl code \<Rightarrow> code \<noteq> 2
      | Inr c \<Rightarrow> cl_config c \<noteq> None \<and> \<not> (cl_check c \<and> cl_print c))"

definition main_lawful :: "site \<Rightarrow> main_input \<Rightarrow> int set \<Rightarrow> bool" where
  "main_lawful si inp fds \<longleftrightarrow>
     (\<forall>fd. mn_signal_fd inp = Some fd \<longrightarrow> fd \<notin> fds \<and> run_lawful si (mn_run inp) (insert fd fds))"

lemma print_mediamtx_code: "fst (print_mediamtx_config si ok config) \<in> {0, 1}"
  by (simp add: print_mediamtx_config_def split: prod.splits)

lemma parse_arguments_code: "parse_arguments argv c = Inl code \<Longrightarrow> code \<in> {0, 2}"
  by (induction argv c rule: parse_arguments.induct) (auto split: if_splits)

lemma program_result:
  assumes "main_lawful si inp fds" and "gateway_main si inp argv fds = Some (rc, printed, mo, fds')"
  shows "rc \<in> {0, 1, 2} \<and> (rc = 2 \<longleftrightarrow> \<not> usable argv) \<and> fds' = fds \<and>
     (\<forall>m. mo = Some m \<longrightarrow> manager_inv m \<and> idle m \<and> mg_active_threads m = 0) \<and>
     (\<forall>c. parse_arguments argv cli_init = Inr c \<longrightarrow> cl_check c \<or> cl_print c \<longrightarrow> mo = None)"
proof (cases "parse_arguments argv cli_init")
  case (Inl code)
  with assms(2) parse_arguments_code [OF Inl] show ?thesis by (auto simp: gateway_main_def usable_def)
next
  case (Inr c)
  show ?thesis
  proof (cases "cl_config c = None \<or> cl_check c \<and> cl_print c")
    case True
    with Inr assms(2) show ?thesis by (cases "cl_config c") (auto simp: gateway_main_def usable_def)
  next
    case False
    then obtain path where path: "cl_config c = Some path" and one: "\<not> (cl_check c \<and> cl_print c)" by auto
    obtain st config e where l: "gw_config_load_file (si_inet4 si) (si_inet6 si) (si_getenv si) (mn_file inp) path (gw_config_init, Some zero_error)
        = (st, config, e)" by (metis prod_cases3)
    have us: "usable argv" using Inr path one by (simp add: usable_def)
    note body = assms(2) [unfolded gateway_main_def Inr sum.case path option.case l prod.case]
    show ?thesis
    proof (cases "st \<noteq> GW_OK \<or> cl_check c \<or> cl_print c \<or> mn_signal_fd inp = None")
      case True
      with body us one Inr print_mediamtx_code [of si "mn_fputs inp" config] show ?thesis
        by (auto split: if_splits prod.splits)
    next
      case False
      then obtain fd where fd: "mn_signal_fd inp = Some fd" and st: "st = GW_OK" "\<not> cl_check c" "\<not> cl_print c" by auto
      with body obtain fds1 where run: "run_channels si (mn_run inp) path config (cl_options c) (cl_idle c) (insert fd fds) = Some (rc, mo, fds1)"
        "fds' = fds1 - {fd}" by auto
      have "config_bounded config" using load_file_valid l st(1) by blast
      moreover have "run_lawful si (mn_run inp) (insert fd fds)" "fd \<notin> fds" using assms(1) fd by (simp_all add: main_lawful_def)
      ultimately show ?thesis using run_channels_clean [OF _ _ run(1)] run(2) us Inr st by auto
    qed
  qed
qed

text \<open>Some pass reads a termination signal (or cannot read its descriptor), and the channel threads return during the
  sleep of that pass or a later one; every other pass only has to be answered.\<close>

definition stop_comes :: "run_input \<Rightarrow> bool" where
  "stop_comes rn \<longleftrightarrow> (\<exists>pre xs d p ys. rn_passes rn = pre @ xs @ d # p # ys \<and> (\<forall>x \<in> set (rn_passes rn). answered x) \<and>
     orders_stop (hd (xs @ [d])) \<and> drains_on live d)"

lemma control_loop_ends:
  assumes "stop_comes rn" and "\<forall>p \<in> set (rn_passes rn). pass_lawful p" and "site_lawful si" and "live (ct_manager c)"
  shows "\<exists>c'. control_loop si path config idle_exit (rn_passes rn) c = Some c'"
proof -
  from assms(1) obtain pre xs d p ys where ps: "rn_passes rn = pre @ xs @ d # p # ys" "\<forall>x \<in> set (rn_passes rn). answered x"
    "orders_stop (hd (xs @ [d]))" "drains_on live d" by (auto simp: stop_comes_def)
  have keeps: "live (ct_manager c') \<and> live (ps_sleep x (ct_manager c'))"
    if "x \<in> set (rn_passes rn)" "live (ct_manager c)" "control_pass si path config idle_exit x c = Some (leave, c')" for x c leave c'
    using control_pass_live [OF that(2) _ assms(3) that(3)] assms(2) that(1)
    by (auto simp: live_def pass_lawful_def others_lawful_def)
  have later: "\<exists>c'. control_loop si path config idle_exit (xs @ d # p # ys) c = Some c'" if "live (ct_manager c)" for c
    by (rule pending_ends [of _ _ _ _ live]) (use ps keeps that in auto)
  show ?thesis unfolding ps(1)
  proof (rule earlier_passes_end [of _ live])
    show "\<forall>x \<in> set pre. answered x" using ps(1,2) by simp
    show "live (ps_sleep x (ct_manager c'))"
      if "x \<in> set pre" "live (ct_manager c)" "control_pass si path config idle_exit x c = Some (leave, c')" for x c leave c'
      using keeps that ps(1) by simp
  qed (use assms(4) later in blast)+
qed

lemma control_phase_ends:
  "stop_comes rn \<Longrightarrow> \<forall>p \<in> set (rn_passes rn). pass_lawful p \<Longrightarrow> site_lawful si \<Longrightarrow> live m \<Longrightarrow>
   \<exists>rc m' fds'. control_phase si rn path config idle_exit m srv fds = Some (rc, Some m', fds')"
  using control_loop_ends [of rn si "\<lparr>ct_manager = m, ct_stop = 0, ct_reload = False, ct_failed = False\<rparr>" path config idle_exit]
  by (auto simp: control_phase_def Let_def split: prod.splits)

lemma give_up_ends: "\<exists>rc m' fds'. give_up si m fds = Some (rc, Some m', fds')"
  by (simp add: give_up_def Let_def)

text \<open>A created manager is destroyed at the end of every run.\<close>

lemma run_channels_ends:
  assumes "config_bounded config" and "stop_comes rn" and law: "run_lawful si rn fds"
    and c: "gw_channel_manager_create (rn_create rn) (si_inet4 si) (si_inet6 si) config options (Some zero_error) = Some (st, mo, e)"
  shows "\<exists>rc mo' fds'. run_channels si rn path config options idle_exit fds = Some (rc, mo', fds') \<and> (mo' = None \<longleftrightarrow> mo = None)"
proof (cases mo)
  case None
  with c show ?thesis by (simp add: run_channels_def)
next
  case (Some m)
  have l: "site_lawful si" "\<forall>p \<in> set (rn_passes rn). pass_lawful p" using law by (simp_all add: run_lawful_def)
  obtain st1 m1 e1 where s: "gw_channel_manager_start (si_creates si) (rn_metrics rn) (si_joins si m) m e = (st1, m1, e1)" by (metis prod_cases3)
  have "live m1" if "st1 = GW_OK" using started_run(2) [OF assms(1) law c [unfolded Some] s that] .
  note phase = control_phase_ends [OF assms(2) l(2,1) this]
  have "\<exists>rc m' fds'. run_channels si rn path config options idle_exit fds = Some (rc, Some m', fds')"
    unfolding run_channels_def c Some option.case prod.case s
    using phase give_up_ends by (auto split: prod.splits option.splits)
  with Some show ?thesis by auto
qed

lemma gateway_main_returns:
  assumes "\<And>c path config e fd. parse_arguments argv cli_init = Inr c \<Longrightarrow>
      gw_config_load_file (si_inet4 si) (si_inet6 si) (si_getenv si) (mn_file inp) path (gw_config_init, Some zero_error)
        = (GW_OK, config, e) \<Longrightarrow> mn_signal_fd inp = Some fd \<Longrightarrow>
      run_channels si (mn_run inp) path config (cl_options c) (cl_idle c) (insert fd fds) \<noteq> None"
  shows "gateway_main si inp argv fds \<noteq> None"
proof (cases "parse_arguments argv cli_init")
  case Inl
  then show ?thesis by (simp add: gateway_main_def)
next
  case (Inr c)
  show ?thesis
  proof (cases "cl_config c")
    case None
    with Inr show ?thesis by (simp add: gateway_main_def)
  next
    case (Some path)
    obtain st config e where l:
      "gw_config_load_file (si_inet4 si) (si_inet6 si) (si_getenv si) (mn_file inp) path (gw_config_init, Some zero_error)
        = (st, config, e)" by (metis prod_cases3)
    show ?thesis
      unfolding gateway_main_def Inr Some l sum.case option.case prod.case
      using assms [OF Inr l [THEN trans]] by (cases "mn_signal_fd inp") (simp_all split: prod.split)
  qed
qed

lemma program_returns:
  assumes "main_lawful si inp fds" and "stop_comes (mn_run inp)"
  shows "gateway_main si inp argv fds \<noteq> None"
proof (rule gateway_main_returns)
  fix c path config e fd
  assume l: "gw_config_load_file (si_inet4 si) (si_inet6 si) (si_getenv si) (mn_file inp) path (gw_config_init, Some zero_error)
      = (GW_OK, config, e)" and fd: "mn_signal_fd inp = Some fd"
  have b: "config_bounded config" using load_file_valid l by blast
  have law: "run_lawful si (mn_run inp) (insert fd fds)" using assms(1) fd by (simp add: main_lawful_def)
  from create_cases [OF b] obtain st mo err where
    "gw_channel_manager_create (rn_create (mn_run inp)) (si_inet4 si) (si_inet6 si) config (cl_options c) (Some zero_error)
      = Some (st, mo, err)" by blast
  from run_channels_ends [OF b assms(2) law this]
  show "run_channels si (mn_run inp) path config (cl_options c) (cl_idle c) (insert fd fds) \<noteq> None" by fastforce
qed

text \<open>C1: the program leaves nothing behind. Whatever the arguments and whatever fails on the way, if the program returns,
  it returns 0, 1 or 2, the manager it created has no thread left when it is freed, and of the descriptors it opens itself,
  the signal descriptor and the listening socket of the HTTP server, none is left open (the pipes of the workers
  are those of \<open>attempt_gives_back\<close>). The code 2 means unusable arguments and nothing else; then, and when a
  configuration is only checked or printed, no manager is ever created. And it does return once a termination signal
  is read and the channel threads end after it. That \<^verbatim>\<open>pthread_join\<close> returns is an assumption of the model; a
  channel thread need not end by itself (\<open>draining_ignores_stop\<close>).\<close>

theorem program_leaves_nothing:
  assumes "main_lawful si inp fds"
  shows "(\<forall>rc printed mo fds'. gateway_main si inp argv fds = Some (rc, printed, mo, fds') \<longrightarrow>
       rc \<in> {0, 1, 2} \<and> (rc = 2 \<longleftrightarrow> \<not> usable argv) \<and> fds' = fds \<and>
       (\<forall>m. mo = Some m \<longrightarrow> manager_inv m \<and> idle m \<and> mg_active_threads m = 0) \<and>
       (\<forall>c. parse_arguments argv cli_init = Inr c \<longrightarrow> cl_check c \<or> cl_print c \<longrightarrow> mo = None)) \<and>
     (stop_comes (mn_run inp) \<longrightarrow> gateway_main si inp argv fds \<noteq> None)"
  using program_result [OF assms] program_returns [OF assms] by metis

section \<open>A concrete run\<close>

definition quiet_site :: site where
  "quiet_site = \<lparr>si_inet4 = local_address, si_inet6 = no_address, si_getenv = (\<lambda>n. None), si_creates = (\<lambda>i. None),
     si_joins = (\<lambda>m. quiet_joins)\<rparr>"

lemma quiet_site_lawful: "site_lawful quiet_site"
  by (simp add: site_lawful_def quiet_site_def quiet_joins_lawful)

definition missing_file :: load_input where
  "missing_file = \<lparr>li_open = Some ''No such file or directory'', li_parser_ok = True, li_document = Inl (0, None)\<rparr>"

text \<open>A pass in which every thread returns during the sleep.\<close>

definition term_pass :: pass_input where
  "term_pass = \<lparr>ps_signals = [Signal SIGHUP, Signal SIGTERM, Signal_Again], ps_file = missing_file, ps_during = (\<lambda>m. m),
     ps_sleep = (\<lambda>m. m\<lparr>mg_started := True, mg_active_threads := 0\<rparr>)\<rparr>"

theorem stop_signal_ends_loop_witness:
  "\<exists>c'. control_loop quiet_site ''gateway.yaml'' camera_config False ([] @ term_pass # term_pass # [])
     \<lparr>ct_manager = running_camera, ct_stop = 0, ct_reload = False, ct_failed = False\<rparr> = Some c'"
  by (rule stop_signal_ends_loop)
    (auto simp: answered_def orders_stop_def drains_def term_pass_def gw_channel_manager_is_finished_def)

theorem reload_step_exact_witness:
  "reload_step quiet_site ''gateway.yaml'' camera_config missing_file running_camera = running_camera"
proof -
  obtain st cand e where l: "gw_config_load_file (si_inet4 quiet_site) (si_inet6 quiet_site) (si_getenv quiet_site) missing_file
      ''gateway.yaml'' (camera_config, Some zero_error) = (st, cand, e)" "st \<noteq> GW_OK"
    by (simp add: gw_config_load_file_def missing_file_def Let_def)
  from reload_step_exact [OF camera_started(3-5) quiet_site_lawful l(1)] l(2) show ?thesis by (simp add: Let_def)
qed

text \<open>The threads of the first \<open>k\<close> slots return.\<close>

fun return_threads :: "nat \<Rightarrow> gw_channel_manager \<Rightarrow> gw_channel_manager" where
  "return_threads 0 m = m"
| "return_threads (Suc k) m =
     (let m1 = return_threads k m in if en_thread_running (mg_entries m1 ! k) then run_channel_return k 0 m1 else m1)"

lemma return_threads_live:
  "live m \<Longrightarrow> k \<le> GW_MAX_CHANNELS \<Longrightarrow>
   live (return_threads k m) \<and> (\<forall>i < k. \<not> en_thread_running (mg_entries (return_threads k m) ! i))"
proof (induction k)
  case (Suc k)
  let ?m = "return_threads k m"
  from Suc have IH: "live ?m" "\<forall>i < k. \<not> en_thread_running (mg_entries ?m ! i)" by simp_all
  show ?case
  proof (cases "en_thread_running (mg_entries ?m ! k)")
    case False
    with IH show ?thesis by (simp add: less_Suc_eq)
  next
    case True
    have inv: "manager_inv ?m" using IH(1) reaches_ok by (auto simp: live_def manager_ok_def)
    have k: "k < GW_MAX_CHANNELS" using Suc.prems(2) by simp
    have o: "only_slot k ?m (run_channel_return k 0 ?m)" by (rule return_inv [OF inv k True])
    have "\<not> en_thread_running (mg_entries (run_channel_return k 0 ?m) ! k)"
      using k inv by (simp add: run_channel_return_def on_entry_def manager_inv_def Let_def)
    with o IH True reaches.returned [OF _ k True, of 0] show ?thesis
      by (auto simp: live_def only_slot_def less_Suc_eq Let_def)
  qed
qed simp

lemma return_all_finished:
  assumes "live m"
  shows "live (return_threads GW_MAX_CHANNELS m)" "gw_channel_manager_is_finished (return_threads GW_MAX_CHANNELS m)"
proof -
  let ?m = "return_threads GW_MAX_CHANNELS m"
  note r = return_threads_live [OF assms order_refl]
  then show l: "live ?m" by blast
  then have "manager_inv ?m" using reaches_ok by (auto simp: live_def manager_ok_def)
  moreover from this have "filter en_thread_running (mg_entries ?m) = []"
    using r by (auto simp: manager_inv_def filter_empty_conv in_set_conv_nth simp del: return_threads.simps)
  ultimately have "mg_active_threads ?m = 0" by (simp add: manager_inv_def del: return_threads.simps)
  with l show "gw_channel_manager_is_finished ?m" by (simp add: gw_channel_manager_is_finished_def live_def)
qed

text \<open>The program is started with a configuration of one camera and gets SIGTERM, after which its threads return.\<close>

definition camera_site :: site where
  "camera_site = quiet_site\<lparr>si_inet4 := (\<lambda>s. s = ''127.0.0.1''), si_inet6 := (\<lambda>s. False), si_getenv := [''HOST'' \<mapsto> ''cam'']\<rparr>"

definition last_pass :: pass_input where
  "last_pass = term_pass\<lparr>ps_sleep := return_threads GW_MAX_CHANNELS\<rparr>"

definition camera_run :: run_input where
  "camera_run = \<lparr>rn_create = \<lparr>ca_alloc = True, ca_rwlock = None, ca_mutex = None\<rparr>, rn_metrics = None, rn_http_alloc = True,
     rn_listen = loopback_answers, rn_passes = [last_pass, last_pass], rn_last = (\<lambda>m. m)\<rparr>"

definition camera_main :: main_input where
  "camera_main = \<lparr>mn_file = \<lparr>li_open = None, li_parser_ok = True, li_document = Inr sample_document\<rparr>, mn_fputs = True,
     mn_signal_fd = Some 3, mn_run = camera_run\<rparr>"

lemma camera_main_lawful: "main_lawful camera_site camera_main {0, 1, 2}"
  using quiet_site_lawful return_all_finished(1)
  by (simp add: main_lawful_def camera_main_def run_lawful_def camera_run_def site_lawful_def camera_site_def pass_lawful_def
      last_pass_def term_pass_def others_lawful_def fresh_sockets_def loopback_answers_def live_def del: return_threads.simps)

lemma camera_stop_comes: "stop_comes camera_run"
proof -
  have "\<forall>x \<in> set [last_pass, last_pass]. answered x" "orders_stop last_pass" "drains_on live last_pass"
    using return_all_finished(2) by (auto simp: last_pass_def term_pass_def answered_def orders_stop_def drains_on_def)
  then have "rn_passes camera_run = [] @ [] @ last_pass # last_pass # [] \<and> (\<forall>x \<in> set (rn_passes camera_run). answered x) \<and>
      orders_stop (hd ([] @ [last_pass])) \<and> drains_on live last_pass" by (simp add: camera_run_def)
  then show ?thesis unfolding stop_comes_def by blast
qed

lemma camera_load:
  "\<exists>e. gw_config_load_file (si_inet4 camera_site) (si_inet6 camera_site) (si_getenv camera_site) (mn_file camera_main) ''gateway.yaml''
     (gw_config_init, Some zero_error) = (GW_OK, sample_config, e)"
  using sample_load [of "Some zero_error"]
  by (simp add: camera_site_def quiet_site_def camera_main_def gw_error_clear_def zero_error_def)

lemma camera_creates:
  "\<exists>m e. gw_channel_manager_create (rn_create camera_run) (si_inet4 camera_site) (si_inet6 camera_site) sample_config
     gw_supervisor_options_init (Some zero_error) = Some (GW_OK, Some m, e)"
proof -
  from camera_load obtain e where l: "gw_config_load_file (si_inet4 camera_site) (si_inet6 camera_site) (si_getenv camera_site)
      (mn_file camera_main) ''gateway.yaml'' (gw_config_init, Some zero_error) = (GW_OK, sample_config, e)" by blast
  note v = load_file_valid [OF l]
  obtain ve where vd: "gw_config_validate (si_inet4 camera_site) (si_inet6 camera_site) sample_config (Some zero_error) = (GW_OK, ve)"
    using validate_status [of "si_inet4 camera_site" "si_inet6 camera_site" sample_config "Some zero_error"] v
    by (cases "gw_config_validate (si_inet4 camera_site) (si_inet6 camera_site) sample_config (Some zero_error)") simp
  from create_cases [OF v [THEN conjunct1], of "rn_create camera_run" "si_inet4 camera_site" "si_inet6 camera_site"
      gw_supervisor_options_init "Some zero_error"]
  obtain st mo err where c: "gw_channel_manager_create (rn_create camera_run) (si_inet4 camera_site) (si_inet6 camera_site)
      sample_config gw_supervisor_options_init (Some zero_error) = Some (st, mo, err)" "st = GW_OK \<longleftrightarrow> mo \<noteq> None" by blast
  have "st = GW_OK"
    using c(1) vd by (auto simp: gw_channel_manager_create_def gw_supervisor_options_init_def camera_run_def
        sample_config_def channel_init_def split: option.splits)
  with c show ?thesis by auto
qed

theorem program_leaves_nothing_witness:
  "\<exists>rc m. gateway_main camera_site camera_main [''--config'', ''gateway.yaml''] {0, 1, 2} = Some (rc, [], Some m, {0, 1, 2})
     \<and> rc \<in> {0, 1, 2} \<and> idle m \<and> mg_active_threads m = 0"
proof -
  let ?a = "[''--config'', ''gateway.yaml'']"
  note C1 = program_leaves_nothing [OF camera_main_lawful, of ?a]
  have run: "mn_run camera_main = camera_run" by (simp add: camera_main_def)
  have "gateway_main camera_site camera_main ?a {0, 1, 2} \<noteq> None" using C1 camera_stop_comes unfolding run by blast
  then obtain rc printed mo fds' where g: "gateway_main camera_site camera_main ?a {0, 1, 2} = Some (rc, printed, mo, fds')"
    by (metis not_None_eq prod_cases4)
  from camera_load obtain e where l: "gw_config_load_file (si_inet4 camera_site) (si_inet6 camera_site) (si_getenv camera_site)
      (mn_file camera_main) ''gateway.yaml'' (gw_config_init, Some zero_error) = (GW_OK, sample_config, e)" by blast
  from camera_creates obtain m0 e0 where c: "gw_channel_manager_create (rn_create camera_run) (si_inet4 camera_site)
      (si_inet6 camera_site) sample_config gw_supervisor_options_init (Some zero_error) = Some (GW_OK, Some m0, e0)" by blast
  have "run_lawful camera_site camera_run (insert 3 {0, 1, 2})"
    using camera_main_lawful unfolding main_lawful_def run by (simp add: camera_main_def)
  from run_channels_ends [OF load_file_valid [OF l, THEN conjunct1] camera_stop_comes this c, of "''gateway.yaml''" False]
  have "printed = [] \<and> mo \<noteq> None"
    using g l run by (auto simp: gateway_main_def cli_init_def camera_main_def)
  with C1 g show ?thesis by fastforce
qed

end
