(* ===== verification/Metrics_Tool.thy ===== *)
theory Metrics_Tool
  imports Process_Manager Process_Metrics
begin

text \<open>
  The sampling tool \<^verbatim>\<open>gateway-metrics\<close> (\<^verbatim>\<open>src/tools/gateway_metrics.c\<close>): options, one sample of
  one process, the sampling loop and the summary. Floating point operations and \<^verbatim>\<open>%.2f\<close> are a
  parameter; the answers of the clock, of the sleeps and of the streams are arguments per pass.
\<close>

abbreviation GW_METRICS_MAX_TARGETS :: nat where "GW_METRICS_MAX_TARGETS \<equiv> 16"
abbreviation GW_METRICS_LABEL_CAPACITY :: nat where "GW_METRICS_LABEL_CAPACITY \<equiv> 32"
abbreviation COMMA :: char where "COMMA \<equiv> CHR '',''"

section \<open>Options\<close>

record metrics_target =
  tg_label :: string
  tg_pid :: int
  tg_previous_valid :: bool
  tg_previous_ticks :: u64
  tg_available :: nat
  tg_unavailable :: nat
  tg_cpu_samples :: nat
  tg_cpu_sum :: c_double
  tg_cpu_peak :: c_double
  tg_rss_sum :: c_double
  tg_rss_peak :: int
  tg_fd_min :: nat
  tg_fd_max :: nat
  tg_stats_valid :: bool

record metrics_options =
  op_targets :: "metrics_target list"
  op_duration_sec :: int
  op_interval_ms :: int
  op_summary_path :: "string option"

definition parse_long :: "string \<Rightarrow> int \<Rightarrow> int \<Rightarrow> int option" where
  "parse_long text minimum maximum =
     (let r = strtol text in
      if conv_erange r \<or> conv_none r \<or> conv_end r \<noteq> [] \<or> conv_value r < minimum \<or> conv_value r > maximum then None
      else Some (conv_value r))"

definition label_char :: "char \<Rightarrow> bool" where
  "label_char c \<longleftrightarrow> isalnum c \<or> c = CHR ''_'' \<or> c = CHR ''-'' \<or> c = CHR ''.''"

definition label_is_safe :: "string \<Rightarrow> bool" where
  "label_is_safe label \<longleftrightarrow> label \<noteq> [] \<and> length label < GW_METRICS_LABEL_CAPACITY \<and> list_all label_char label"

definition new_target :: "string \<Rightarrow> int \<Rightarrow> metrics_target" where
  "new_target label pid = \<lparr>tg_label = label, tg_pid = pid, tg_previous_valid = False, tg_previous_ticks = 0, tg_available = 0,
     tg_unavailable = 0, tg_cpu_samples = 0, tg_cpu_sum = 0, tg_cpu_peak = 0, tg_rss_sum = 0, tg_rss_peak = 0,
     tg_fd_min = 0, tg_fd_max = 0, tg_stats_valid = False\<rparr>"

definition add_target :: "int \<Rightarrow> metrics_options \<Rightarrow> string \<Rightarrow> metrics_options option" where
  "add_target self_pid options argument =
     (case strchr argument CHR ''='' of
        None \<Rightarrow> None
      | Some separator \<Rightarrow>
          let value = tl separator; label = take (length argument - length separator) argument in
          if CHR ''='' \<in> set value \<or> length (op_targets options) \<ge> GW_METRICS_MAX_TARGETS then None
          else if \<not> label_is_safe label then None
          else if \<exists>t \<in> set (op_targets options). tg_label t = label then None
          else
            (case (if value = ''self'' then Some self_pid else parse_long value 1 2147483647) of
               None \<Rightarrow> None
             | Some pid \<Rightarrow> Some (options\<lparr>op_targets := op_targets options @ [new_target label pid]\<rparr>)))"

datatype parse_result = Help | Bad | Parsed metrics_options

definition options_init :: metrics_options where
  "options_init = \<lparr>op_targets = [], op_duration_sec = 5, op_interval_ms = 1000, op_summary_path = None\<rparr>"

fun parse_options :: "int \<Rightarrow> string list \<Rightarrow> metrics_options \<Rightarrow> parse_result" where
  "parse_options self_pid [] options = (if op_targets options = [] then Bad else Parsed options)"
| "parse_options self_pid (a # as) options =
     (if a = ''--help'' then Help
      else case as of
        [] \<Rightarrow> Bad
      | value # rest \<Rightarrow>
          if a = ''--target'' then
            (case add_target self_pid options value of None \<Rightarrow> Bad | Some o' \<Rightarrow> parse_options self_pid rest o')
          else if a = ''--duration-sec'' then
            (case parse_long value 1 86400 of None \<Rightarrow> Bad | Some v \<Rightarrow> parse_options self_pid rest (options\<lparr>op_duration_sec := v\<rparr>))
          else if a = ''--interval-ms'' then
            (case parse_long value 100 60000 of None \<Rightarrow> Bad | Some v \<Rightarrow> parse_options self_pid rest (options\<lparr>op_interval_ms := v\<rparr>))
          else if a = ''--summary-output'' then
            if op_summary_path options \<noteq> None \<or> value = [] then Bad
            else parse_options self_pid rest (options\<lparr>op_summary_path := Some value\<rparr>)
          else Bad)"

section \<open>Time\<close>

definition elapsed_milliseconds :: "timespec \<Rightarrow> timespec \<Rightarrow> int" where
  "elapsed_milliseconds start now =
     (let seconds = tv_sec now - tv_sec start; nanoseconds = tv_nsec now - tv_nsec start
      in seconds * 1000 + c_div nanoseconds 1000000)"

definition add_milliseconds :: "timespec \<Rightarrow> int \<Rightarrow> timespec" where
  "add_milliseconds time milliseconds =
     (let sec = tv_sec time + c_div milliseconds 1000; nsec = tv_nsec time + c_mod milliseconds 1000 * 1000000
      in if nsec \<ge> 1000000000 then \<lparr>tv_sec = sec + 1, tv_nsec = nsec - 1000000000\<rparr>
         else \<lparr>tv_sec = sec, tv_nsec = nsec\<rparr>)"

abbreviation EINTR_CODE :: int where "EINTR_CODE \<equiv> 4"

text \<open>The results of \<^verbatim>\<open>clock_nanosleep\<close>, until one is not an interruption.\<close>

fun sleep_until :: "int list \<Rightarrow> int option" where
  "sleep_until [] = None"
| "sleep_until (r # rs) = (if r = EINTR_CODE then sleep_until rs else Some r)"

section \<open>One sample\<close>

record tool_fp = fp_ops +
  tf_add :: "c_double \<Rightarrow> c_double \<Rightarrow> c_double"
  tf_greater :: "c_double \<Rightarrow> c_double \<Rightarrow> bool"
  tf_print :: "c_double \<Rightarrow> string"

definition cpu_percent_of :: "tool_fp \<Rightarrow> u64 \<Rightarrow> int \<Rightarrow> int \<Rightarrow> c_double" where
  "cpu_percent_of fp delta_ticks ticks_per_second sample_delta_ms =
     fp_div fp (fp_mul fp (fp_of_u64 fp delta_ticks) 0x40F86A0000000000)
       (fp_mul fp (fp_of_i64 fp ticks_per_second) (fp_of_i64 fp sample_delta_ms))"

definition update_stats :: "tool_fp \<Rightarrow> gw_process_metrics \<Rightarrow> metrics_target \<Rightarrow> metrics_target" where
  "update_stats fp m t =
     (let t1 = t\<lparr>tg_available := tg_available t + 1, tg_rss_sum := tf_add fp (tg_rss_sum t) (fp_of_i64 fp (pm_rss_kib m))\<rparr>
      in if \<not> tg_stats_valid t1 then
           t1\<lparr>tg_rss_peak := pm_rss_kib m, tg_fd_min := pm_fd_count m, tg_fd_max := pm_fd_count m, tg_stats_valid := True\<rparr>
         else
           t1\<lparr>tg_rss_peak := (if pm_rss_kib m > tg_rss_peak t1 then pm_rss_kib m else tg_rss_peak t1),
              tg_fd_min := (if pm_fd_count m < tg_fd_min t1 then pm_fd_count m else tg_fd_min t1),
              tg_fd_max := (if pm_fd_count m > tg_fd_max t1 then pm_fd_count m else tg_fd_max t1)\<rparr>)"

definition line_start :: "int \<Rightarrow> metrics_target \<Rightarrow> string" where
  "line_start elapsed_ms t = dec_int elapsed_ms @ '','' @ tg_label t @ '','' @ dec_int (tg_pid t) @ '',''"

text \<open>Whether the process was available, the new record, and the printed line.\<close>

definition sample_target ::
  "tool_fp \<Rightarrow> gw_process_metrics option \<Rightarrow> int \<Rightarrow> int \<Rightarrow> int \<Rightarrow> metrics_target \<Rightarrow> bool \<times> metrics_target \<times> string" where
  "sample_target fp answer elapsed_ms sample_delta_ms ticks_per_second t =
     (case answer of
        None \<Rightarrow> (False, t\<lparr>tg_previous_valid := False, tg_unavailable := tg_unavailable t + 1\<rparr>,
                 line_start elapsed_ms t @ ''unavailable,,,'')
      | Some m \<Rightarrow>
          let t1 = update_stats fp m t;
              resources = dec_int (pm_rss_kib m) @ '','' @ dec_nat (pm_fd_count m);
              finish = (\<lambda>t. t\<lparr>tg_previous_ticks := pm_cpu_ticks m, tg_previous_valid := True\<rparr>)
          in if tg_previous_valid t \<and> pm_cpu_ticks m \<ge> tg_previous_ticks t \<and> sample_delta_ms > 0 then
               let cpu = cpu_percent_of fp (pm_cpu_ticks m - tg_previous_ticks t) ticks_per_second sample_delta_ms;
                   t2 = t1\<lparr>tg_cpu_samples := tg_cpu_samples t1 + 1, tg_cpu_sum := tf_add fp (tg_cpu_sum t1) cpu\<rparr>;
                   t3 = (if tg_cpu_samples t2 = 1 \<or> tf_greater fp cpu (tg_cpu_peak t2) then t2\<lparr>tg_cpu_peak := cpu\<rparr> else t2)
               in (True, finish t3, line_start elapsed_ms t @ ''ok,'' @ tf_print fp cpu @ '','' @ resources)
             else (True, finish t1, line_start elapsed_ms t @ ''ok,,'' @ resources))"

section \<open>The summary\<close>

definition summary_header :: string where
  "summary_header = ''target,pid,available_samples,unavailable_samples,cpu_samples,cpu_avg_percent,cpu_peak_percent,rss_avg_kib,rss_peak_kib,fd_min,fd_max''"

text \<open>The texts of the calls of \<^verbatim>\<open>fprintf\<close> for one target.\<close>

definition summary_row :: "tool_fp \<Rightarrow> metrics_target \<Rightarrow> string list" where
  "summary_row fp t =
     [tg_label t @ '','' @ dec_int (tg_pid t) @ '','' @ dec_nat (tg_available t) @ '','' @ dec_nat (tg_unavailable t) @ '','' @
        dec_nat (tg_cpu_samples t) @ '','',
      (if tg_cpu_samples t > 0
       then tf_print fp (fp_div fp (tg_cpu_sum t) (fp_of_u64 fp (of_nat (tg_cpu_samples t)))) @ '','' @ tf_print fp (tg_cpu_peak t) @ '',''
       else '',,''),
      (if tg_stats_valid t
       then tf_print fp (fp_div fp (tg_rss_sum t) (fp_of_u64 fp (of_nat (tg_available t)))) @ '','' @ dec_int (tg_rss_peak t) @ '','' @
            dec_nat (tg_fd_min t) @ '','' @ dec_nat (tg_fd_max t) @ [LF]
       else '',,,,'' @ [LF])]"

text \<open>Writing stops at the first call that fails; \<open>answers\<close> are the outcomes of the calls, and a list that is too
  short counts as a failing call.\<close>

fun write_texts :: "string list \<Rightarrow> bool list \<Rightarrow> (string \<times> bool list) option" where
  "write_texts [] answers = Some ([], answers)"
| "write_texts (t # ts) [] = None"
| "write_texts (t # ts) (ok # answers) =
     (if ok then map_option (\<lambda>(s, rest). (t @ s, rest)) (write_texts ts answers) else None)"

text \<open>\<open>None\<close> stands for the return value -1; otherwise the file's contents.\<close>

definition write_summaries :: "tool_fp \<Rightarrow> bool list \<Rightarrow> metrics_options \<Rightarrow> string option" where
  "write_summaries fp answers options =
     (case write_texts ((summary_header @ [LF]) # concat (map (summary_row fp) (op_targets options))) answers of
        Some (s, flush # rest) \<Rightarrow> if flush then Some s else None
      | _ \<Rightarrow> None)"

section \<open>The sampling loop\<close>

record pass_answers =
  pa_clock :: "timespec option"
  pa_metrics :: "int \<Rightarrow> gw_process_metrics option"
  pa_flush :: bool
  pa_sleep :: "int list"

fun sample_all ::
  "tool_fp \<Rightarrow> (int \<Rightarrow> gw_process_metrics option) \<Rightarrow> int \<Rightarrow> int \<Rightarrow> int \<Rightarrow> metrics_target list \<Rightarrow> bool \<times> metrics_target list \<times> string list" where
  "sample_all fp answers elapsed delta hz [] = (True, [], [])"
| "sample_all fp answers elapsed delta hz (t # ts) =
     (case sample_target fp (answers (tg_pid t)) elapsed delta hz t of (ok, t', line) \<Rightarrow>
      (case sample_all fp answers elapsed delta hz ts of (oks, ts', lines) \<Rightarrow> (ok \<and> oks, t' # ts', line # lines)))"

datatype collect_result = Still_Running | Failed | Collected bool metrics_options

text \<open>The result and the lines printed.\<close>

fun collect_loop ::
  "tool_fp \<Rightarrow> timespec \<Rightarrow> int \<Rightarrow> pass_answers list \<Rightarrow> int \<Rightarrow> bool \<Rightarrow> metrics_options \<Rightarrow> collect_result \<times> string list" where
  "collect_loop fp start hz [] previous all_available options = (Still_Running, [])"
| "collect_loop fp start hz (p # ps) previous all_available options =
     (case pa_clock p of
        None \<Rightarrow> (Failed, [])
      | Some now \<Rightarrow>
          let elapsed = elapsed_milliseconds start now; delta = elapsed - previous in
          (case sample_all fp (pa_metrics p) elapsed delta hz (op_targets options) of (ok, ts, lines) \<Rightarrow>
            let options' = options\<lparr>op_targets := ts\<rparr>; all' = (all_available \<and> ok) in
            if \<not> pa_flush p then (Failed, lines)
            else if elapsed \<ge> op_duration_sec options * 1000 then (Collected all' options', lines)
            else case sleep_until (pa_sleep p) of
              None \<Rightarrow> (Still_Running, lines)
            | Some r \<Rightarrow>
                if r \<noteq> 0 then (Failed, lines)
                else (case collect_loop fp start hz ps elapsed all' options' of (res, later) \<Rightarrow> (res, lines @ later))))"

text \<open>The deadlines the loop sleeps until, one per pass.\<close>

fun deadlines :: "timespec \<Rightarrow> int \<Rightarrow> nat \<Rightarrow> timespec list" where
  "deadlines deadline interval_ms 0 = []"
| "deadlines deadline interval_ms (Suc n) =
     (let d = add_milliseconds deadline interval_ms in d # deadlines d interval_ms n)"

definition sample_header :: string where
  "sample_header = ''elapsed_ms,target,pid,status,cpu_percent,rss_kib,fd_count''"

record tool_answers =
  ta_hz :: int
  ta_start :: "timespec option"
  ta_passes :: "pass_answers list"
  ta_create :: bool
  ta_writes :: "bool list"
  ta_close :: bool

text \<open>The return value of \<^verbatim>\<open>collect_metrics\<close>, the printed lines and the summary file.\<close>

definition collect_metrics :: "tool_fp \<Rightarrow> tool_answers \<Rightarrow> metrics_options \<Rightarrow> (int \<times> string list \<times> string) option" where
  "collect_metrics fp a options =
     (if ta_hz a \<le> 0 then Some (-1, [], [])
      else case ta_start a of
        None \<Rightarrow> Some (-1, [], [])
      | Some start \<Rightarrow>
          (case collect_loop fp start (ta_hz a) (ta_passes a) 0 True options of
             (Still_Running, lines) \<Rightarrow> None
           | (Failed, lines) \<Rightarrow> Some (-1, sample_header # lines, [])
           | (Collected all_available options', lines) \<Rightarrow>
               (case (if op_summary_path options = None then Some [] else write_summaries fp (ta_writes a) options') of
                  None \<Rightarrow> Some (-1, sample_header # lines, [])
                | Some summary \<Rightarrow> Some (if all_available then 0 else 2, sample_header # lines, summary))))"

definition tool_main :: "tool_fp \<Rightarrow> int \<Rightarrow> tool_answers \<Rightarrow> string list \<Rightarrow> (int \<times> string list \<times> string) option" where
  "tool_main fp self_pid a argv =
     (case parse_options self_pid argv options_init of
        Help \<Rightarrow> Some (0, [], [])
      | Bad \<Rightarrow> Some (1, [], [])
      | Parsed options \<Rightarrow>
          if op_summary_path options \<noteq> None \<and> \<not> ta_create a then Some (1, [], [])
          else (case collect_metrics fp a options of
             None \<Rightarrow> None
           | Some (result, lines, summary) \<Rightarrow>
               let result' = (if op_summary_path options \<noteq> None \<and> \<not> ta_close a \<and> result \<ge> 0 then -1 else result)
               in Some (if result' < 0 then 1 else result', lines, summary)))"

section \<open>Accepted options are in range\<close>

definition target_ok :: "metrics_target \<Rightarrow> bool" where
  "target_ok t \<longleftrightarrow> label_is_safe (tg_label t) \<and> 1 \<le> tg_pid t \<and> tg_pid t \<le> 2147483647"

definition options_ok :: "metrics_options \<Rightarrow> bool" where
  "options_ok options \<longleftrightarrow> length (op_targets options) \<le> GW_METRICS_MAX_TARGETS \<and> list_all target_ok (op_targets options) \<and>
     distinct (map tg_label (op_targets options)) \<and>
     1 \<le> op_duration_sec options \<and> op_duration_sec options \<le> 86400 \<and>
     100 \<le> op_interval_ms options \<and> op_interval_ms options \<le> 60000 \<and> op_summary_path options \<noteq> Some []"

lemma parse_long_range: "parse_long t lo hi = Some v \<Longrightarrow> lo \<le> v \<and> v \<le> hi"
  by (auto simp: parse_long_def Let_def split: if_splits)

lemma add_target_ok:
  assumes "options_ok options" and "1 \<le> self_pid" "self_pid \<le> 2147483647" and "add_target self_pid options argument = Some o'"
  shows "options_ok o' \<and> op_targets o' \<noteq> []"
proof -
  obtain sep where sep: "strchr argument CHR ''='' = Some sep" using assms(4) by (auto simp: add_target_def split: option.splits)
  let ?label = "take (length argument - length sep) argument"
  have f: "length (op_targets options) < GW_METRICS_MAX_TARGETS" "label_is_safe ?label" "\<forall>t \<in> set (op_targets options). tg_label t \<noteq> ?label"
    using assms(4) sep by (auto simp: add_target_def Let_def split: if_splits)
  obtain pid where pid: "(if tl sep = ''self'' then Some self_pid else parse_long (tl sep) 1 2147483647) = Some pid"
      "o' = options\<lparr>op_targets := op_targets options @ [new_target ?label pid]\<rparr>"
    using assms(4) sep by (auto simp: add_target_def Let_def split: if_splits option.splits)
  have "1 \<le> pid \<and> pid \<le> 2147483647"
    using pid(1) assms(2,3) parse_long_range [of "tl sep" 1 2147483647 pid] by (auto split: if_splits)
  with f pid(2) assms(1) show ?thesis by (auto simp: options_ok_def target_ok_def new_target_def)
qed

lemma parse_options_ok:
  "parse_options self_pid argv options = Parsed o' \<Longrightarrow> 1 \<le> self_pid \<Longrightarrow> self_pid \<le> 2147483647 \<Longrightarrow> options_ok options \<Longrightarrow>
   options_ok o' \<and> op_targets o' \<noteq> []"
proof (induction self_pid argv options rule: parse_options.induct)
  case (1 self_pid options)
  then show ?case by (simp split: if_splits)
next
  case (2 self_pid a as options)
  note IH = 2(1-4) and parsed = 2(5) and pid = 2(6,7) and ok = 2(8)
  from parsed obtain v rest where as: "as = v # rest" and nh: "a \<noteq> ''--help''" by (auto split: if_splits list.splits)
  consider "a = ''--target''" | "a = ''--duration-sec''" | "a = ''--interval-ms''" | "a = ''--summary-output''"
    using parsed as nh by (auto split: if_splits)
  then show ?case
  proof cases
    case 1
    with parsed as obtain o1 where o1: "add_target self_pid options v = Some o1" "parse_options self_pid rest o1 = Parsed o'"
      by (auto split: option.splits)
    from IH(1) [OF nh as 1 o1(1) o1(2) pid] add_target_ok [OF ok pid o1(1)] show ?thesis by simp
  next
    case 2
    with parsed as obtain d where d: "parse_long v 1 86400 = Some d" "parse_options self_pid rest (options\<lparr>op_duration_sec := d\<rparr>) = Parsed o'"
      by (auto split: option.splits)
    have "options_ok (options\<lparr>op_duration_sec := d\<rparr>)" using ok parse_long_range [OF d(1)] by (simp add: options_ok_def)
    with IH(2) [OF nh as _ 2 d(1) d(2) pid] 2 show ?thesis by simp
  next
    case 3
    with parsed as obtain d where d: "parse_long v 100 60000 = Some d" "parse_options self_pid rest (options\<lparr>op_interval_ms := d\<rparr>) = Parsed o'"
      by (auto split: option.splits)
    have "options_ok (options\<lparr>op_interval_ms := d\<rparr>)" using ok parse_long_range [OF d(1)] by (simp add: options_ok_def)
    with IH(3) [OF nh as _ _ 3 d(1) d(2) pid] 3 show ?thesis by simp
  next
    case 4
    with parsed as have d: "\<not> (op_summary_path options \<noteq> None \<or> v = [])" "parse_options self_pid rest (options\<lparr>op_summary_path := Some v\<rparr>) = Parsed o'"
      by (auto split: if_splits)
    have "options_ok (options\<lparr>op_summary_path := Some v\<rparr>)" using ok d(1) by (simp add: options_ok_def)
    with IH(4) [OF nh as _ _ _ 4 d(1) d(2) pid] 4 show ?thesis by simp
  qed
qed

section \<open>Statistics\<close>

text \<open>The samples one target receives, with the time and interval of each.\<close>

definition run_samples :: "tool_fp \<Rightarrow> int \<Rightarrow> (int \<times> int \<times> gw_process_metrics option) list \<Rightarrow> metrics_target \<Rightarrow> metrics_target" where
  "run_samples fp hz samples t = fold (\<lambda>(elapsed, delta, answer) t. fst (snd (sample_target fp answer elapsed delta hz t))) samples t"

definition stats_of :: "gw_process_metrics list \<Rightarrow> metrics_target \<Rightarrow> bool" where
  "stats_of ms t \<longleftrightarrow> tg_available t = length ms \<and> tg_cpu_samples t \<le> length ms \<and> tg_stats_valid t = (ms \<noteq> []) \<and>
     (ms \<noteq> [] \<longrightarrow> tg_rss_peak t = Max (pm_rss_kib ` set ms) \<and> tg_fd_min t = Min (pm_fd_count ` set ms) \<and>
                 tg_fd_max t = Max (pm_fd_count ` set ms))"

lemma sample_target_frame:
  "tg_label (fst (snd (sample_target fp a el d hz t))) = tg_label t" "tg_pid (fst (snd (sample_target fp a el d hz t))) = tg_pid t"
  by (simp_all add: sample_target_def update_stats_def Let_def split: option.splits)

lemma update_stats_simps:
  "tg_available (update_stats fp m t) = tg_available t + 1" "tg_unavailable (update_stats fp m t) = tg_unavailable t"
  "tg_cpu_samples (update_stats fp m t) = tg_cpu_samples t" "tg_stats_valid (update_stats fp m t)"
  "tg_rss_peak (update_stats fp m t) = (if tg_stats_valid t then max (tg_rss_peak t) (pm_rss_kib m) else pm_rss_kib m)"
  "tg_fd_min (update_stats fp m t) = (if tg_stats_valid t then min (tg_fd_min t) (pm_fd_count m) else pm_fd_count m)"
  "tg_fd_max (update_stats fp m t) = (if tg_stats_valid t then max (tg_fd_max t) (pm_fd_count m) else pm_fd_count m)"
  by (simp_all add: update_stats_def Let_def)

lemma sample_target_stats:
  assumes "sample_target fp (Some m) el d hz t = (ok, t', line)"
  shows "tg_available t' = tg_available t + 1 \<and> tg_unavailable t' = tg_unavailable t \<and> tg_cpu_samples t' \<le> tg_cpu_samples t + 1 \<and> tg_stats_valid t' \<and>
     tg_rss_peak t' = tg_rss_peak (update_stats fp m t) \<and> tg_fd_min t' = tg_fd_min (update_stats fp m t) \<and>
     tg_fd_max t' = tg_fd_max (update_stats fp m t)"
proof -
  have t': "t' = fst (snd (sample_target fp (Some m) el d hz t))" by (simp add: assms)
  show ?thesis unfolding t' by (simp add: sample_target_def update_stats_simps(1-4) Let_def)
qed

lemma run_samples_stats:
  assumes "stats_of ms t"
  shows "stats_of (ms @ List.map_filter (\<lambda>(el, d, a). a) samples) (run_samples fp hz samples t) \<and>
     tg_unavailable (run_samples fp hz samples t) = tg_unavailable t + length (filter (\<lambda>(el, d, a). a = None) samples)"
  using assms
proof (induction samples arbitrary: ms t)
  case Nil
  then show ?case by (simp add: run_samples_def map_filter_def)
next
  case (Cons x samples)
  obtain el d a where x: "x = (el, d, a)" by (metis prod_cases3)
  obtain ok t' line where s: "sample_target fp a el d hz t = (ok, t', line)" by (metis prod_cases3)
  have run: "run_samples fp hz (x # samples) t = run_samples fp hz samples t'" by (simp add: run_samples_def x s)
  show ?case
  proof (cases a)
    case None
    with s have t': "t' = t\<lparr>tg_previous_valid := False, tg_unavailable := tg_unavailable t + 1\<rparr>" by (simp add: sample_target_def)
    have "stats_of ms t'" using Cons.prems by (simp add: t' stats_of_def)
    from Cons.IH [OF this] show ?thesis unfolding run by (simp add: x None t' List.map_filter_simps)
  next
    case (Some m)
    note st = sample_target_stats [OF s [unfolded Some]]
    have "stats_of (ms @ [m]) t'"
      using st Cons.prems by (cases "ms = []") (simp_all add: stats_of_def update_stats_simps max.commute min.commute)
    from Cons.IH [OF this] show ?thesis unfolding run using st by (simp add: x Some List.map_filter_simps)
  qed
qed

text \<open>The statistics of a target. After any sequence of samples, available or not, the counters add up to
  the number of samples, the peak and the descriptor bounds are the exact maximum and minimum over the
  available samples, and no more CPU values than available samples were averaged.\<close>

theorem tool_statistics_exact:
  "let t = run_samples fp hz samples (new_target label pid); ms = List.map_filter (\<lambda>(el, d, a). a) samples in
     tg_available t + tg_unavailable t = length samples \<and> tg_cpu_samples t \<le> tg_available t \<and>
     tg_available t = length ms \<and>
     (ms \<noteq> [] \<longrightarrow> tg_rss_peak t = Max (pm_rss_kib ` set ms) \<and> tg_fd_min t = Min (pm_fd_count ` set ms) \<and>
                 tg_fd_max t = Max (pm_fd_count ` set ms))"
proof -
  have "stats_of [] (new_target label pid)" by (simp add: stats_of_def new_target_def)
  note r = run_samples_stats [OF this, of samples fp hz, simplified]
  have "length (List.map_filter (\<lambda>(el, d, a). a) samples) + length (filter (\<lambda>(el, d, a). a = None) samples) = length samples"
    by (induction samples) (auto simp: List.map_filter_simps)
  with r show ?thesis by (auto simp: stats_of_def Let_def new_target_def)
qed

lemma tool_options_in_range:
  assumes "parse_options self_pid argv options_init = Parsed options" and "1 \<le> self_pid" and "self_pid \<le> 2147483647"
  shows "options_ok options \<and> op_targets options \<noteq> []"
  by (rule parse_options_ok [OF assms]) (simp add: options_ok_def options_init_def)

section \<open>Columns\<close>

definition columns :: "string \<Rightarrow> nat" where
  "columns s = length (filter (\<lambda>c. c = COMMA) s)"

lemma columns_simps [simp]:
  "columns [] = 0" "columns (c # s) = (if c = COMMA then 1 else 0) + columns s" "columns (a @ b) = columns a + columns b"
  by (simp_all add: columns_def)

lemma columns_none: "COMMA \<notin> set s \<Longrightarrow> columns s = 0"
  by (auto simp: columns_def filter_empty_conv)

lemma columns_dec [simp]: "columns (dec_nat n) = 0" "columns (dec_int i) = 0"
proof -
  have "COMMA \<notin> set (dec_nat k)" for k
  proof
    assume "COMMA \<in> set (dec_nat k)"
    with dec_nat_digits [of k] have "isdigit COMMA" by blast
    then show False by (simp add: isdigit_def)
  qed
  then show "columns (dec_nat n) = 0" "columns (dec_int i) = 0" by (simp_all add: dec_int_def columns_none)
qed

definition prints_no_comma :: "tool_fp \<Rightarrow> bool" where
  "prints_no_comma fp \<longleftrightarrow> (\<forall>d. COMMA \<notin> set (tf_print fp d))"

lemma columns_parts:
  assumes "prints_no_comma fp" and "label_is_safe (tg_label t)"
  shows "columns (tf_print fp d) = 0" "columns (tg_label t) = 0"
proof -
  show "columns (tf_print fp d) = 0" using assms(1) by (simp add: prints_no_comma_def columns_none)
  have "\<not> label_char COMMA" by (simp add: label_char_def isalnum_def isalpha_def isdigit_def)
  with assms(2) have "COMMA \<notin> set (tg_label t)" by (auto simp: label_is_safe_def list_all_iff)
  then show "columns (tg_label t) = 0" by (rule columns_none)
qed

text \<open>Every sample line has the columns of its header.\<close>

lemma sample_line_columns:
  assumes "prints_no_comma fp" and "label_is_safe (tg_label t)"
  shows "columns (snd (snd (sample_target fp a el d hz t))) = columns sample_header"
  using columns_parts [OF assms]
  by (simp add: sample_target_def line_start_def sample_header_def Let_def split: option.splits)

text \<open>A summary row has the columns of its header exactly if the target was available at least once; a
  target that never was gets a row with one column too many.\<close>

theorem summary_row_columns:
  assumes "prints_no_comma fp" and "label_is_safe (tg_label t)"
  shows "columns (concat (summary_row fp t)) = columns summary_header + (if tg_stats_valid t then 0 else 1)"
  using columns_parts [OF assms] by (simp add: summary_row_def summary_header_def)

definition plain_fp :: tool_fp where
  "plain_fp = \<lparr>fp_of_u64 = (\<lambda>n. n), fp_of_i64 = of_int, fp_mul = (\<lambda>a b. a), fp_div = (\<lambda>a b. a), tf_add = (+),
     tf_greater = (\<lambda>a b. False), tf_print = (\<lambda>d. ''0.00'')\<rparr>"

definition one_sample :: gw_process_metrics where
  "one_sample = \<lparr>pm_cpu_ticks = 1, pm_rss_kib = 300, pm_fd_count = 4\<rparr>"

theorem tool_statistics_exact_witness:
  "tg_rss_peak (run_samples plain_fp 100 [(0, 0, Some one_sample), (1, 1, None)] (new_target ''cam'' 7)) = 300"
  using tool_statistics_exact [of plain_fp 100 "[(0, 0, Some one_sample), (1, 1, None)]" "''cam''" 7]
  by (simp add: Let_def List.map_filter_simps one_sample_def [THEN arg_cong, of pm_rss_kib])

theorem summary_row_columns_witness:
  "columns (concat (summary_row plain_fp (new_target ''cam'' 7))) = columns summary_header + 1"
proof -
  have "prints_no_comma plain_fp" by (simp add: prints_no_comma_def plain_fp_def)
  moreover have "label_is_safe (tg_label (new_target ''cam'' 7))"
    by (simp add: label_is_safe_def new_target_def label_char_def isalnum_def isalpha_def)
  ultimately show ?thesis using summary_row_columns [of plain_fp "new_target ''cam'' 7"] by (simp add: new_target_def)
qed

section \<open>Deadlines\<close>

definition time_ns :: "timespec \<Rightarrow> int" where
  "time_ns t = tv_sec t * 1000000000 + tv_nsec t"

definition valid_time :: "timespec \<Rightarrow> bool" where
  "valid_time t \<longleftrightarrow> 0 \<le> tv_nsec t \<and> tv_nsec t < 1000000000"

lemma add_milliseconds_exact:
  assumes "valid_time t" and "0 \<le> ms"
  shows "valid_time (add_milliseconds t ms)" and "time_ns (add_milliseconds t ms) = time_ns t + ms * 1000000"
proof -
  have "ms div 1000 * 1000000000 + ms mod 1000 * 1000000 = ms * 1000000" using div_mult_mod_eq [of ms 1000] by linarith
  moreover have "0 \<le> ms mod 1000" "ms mod 1000 < 1000" by simp_all
  ultimately show "valid_time (add_milliseconds t ms)" "time_ns (add_milliseconds t ms) = time_ns t + ms * 1000000"
    using assms by (auto simp: add_milliseconds_def time_ns_def valid_time_def Let_def c_div_nonneg c_mod_nonneg)
qed

text \<open>The deadlines do not drift: the n-th one is exactly n intervals after the start.\<close>

lemma deadlines_exact:
  assumes "valid_time t" and "0 \<le> ms" and "k < n"
  shows "time_ns (deadlines t ms n ! k) = time_ns t + (int k + 1) * ms * 1000000"
  using assms
proof (induction n arbitrary: t k)
  case (Suc n)
  note a = add_milliseconds_exact [OF Suc.prems(1,2)]
  show ?case
  proof (cases k)
    case 0
    with a show ?thesis by (simp add: Let_def)
  next
    case (Suc j)
    with Suc.IH [OF a(1) \<open>0 \<le> ms\<close>, of j] Suc.prems(3) a(2) show ?thesis by (simp add: Let_def algebra_simps)
  qed
qed simp

text \<open>The elapsed time is off by less than one millisecond.\<close>

lemma elapsed_close:
  assumes "valid_time start" and "valid_time now"
  shows "\<bar>elapsed_milliseconds start now * 1000000 - (time_ns now - time_ns start)\<bar> < 1000000"
proof -
  let ?n = "tv_nsec now - tv_nsec start"
  have "\<bar>c_div ?n 1000000 * 1000000 - ?n\<bar> < 1000000"
    by (auto simp: c_div_def sgn_if abs_if)
  then show ?thesis by (simp add: elapsed_milliseconds_def time_ns_def Let_def algebra_simps)
qed

end
