(* ===== verification/Token_Bucket.thy ===== *)
theory Token_Bucket
  imports C_Prelude
begin

text \<open>
  The two token bucket libraries (\<^verbatim>\<open>apue/para/signal/mytbf/mytbf.c\<close>, refilled by SIGALRM, and
  \<^verbatim>\<open>apue/para/thread/posix/mytbf_mt/mytbf.c\<close>, refilled by a thread). A bucket lives in its slot of
  the table; the pointer a client holds is that slot's number. Signed overflow is undefined in C and
  is the result \<open>None\<close> here. Waiting for tokens consumes refills: their number is an argument. In the
  threaded version every access is under the bucket's mutex, so that the operations are atomic; the
  signal version assumes that no signal arrives inside a single update.
\<close>

abbreviation MYTBF_MAX :: nat where "MYTBF_MAX \<equiv> 1024"
abbreviation EINVAL :: int where "EINVAL \<equiv> 22"

section \<open>Data\<close>

record mytbf_st =
  bk_cps :: int
  bk_burst :: int
  bk_token :: int
  bk_pos :: nat

type_synonym job_table = "mytbf_st option list"

section \<open>Refilling\<close>

definition refill :: "mytbf_st \<Rightarrow> mytbf_st option" where
  "refill b =
     (let t = bk_token b + bk_cps b in
      if \<not> is_int32 t then None
      else Some (b\<lparr>bk_token := (if t > bk_burst b then bk_burst b else t)\<rparr>))"

text \<open>The loop over the table in the signal handler; the same loop is the body of the refill thread.\<close>

fun alrm_handler :: "job_table \<Rightarrow> job_table option" where
  "alrm_handler [] = Some []"
| "alrm_handler (None # js) = map_option (\<lambda>r. None # r) (alrm_handler js)"
| "alrm_handler (Some b # js) =
     (case refill b of
        None \<Rightarrow> None
      | Some b' \<Rightarrow> map_option (\<lambda>r. Some b' # r) (alrm_handler js))"

definition pthread_handler_pass :: "job_table \<Rightarrow> job_table option" where
  "pthread_handler_pass job = alrm_handler job"

section \<open>Creation and destruction\<close>

definition get_free_pos :: "job_table \<Rightarrow> nat option" where
  "get_free_pos job = scan_free (\<lambda>j. j = None) job"

interpretation buckets: slot_table get_free_pos "\<lambda>j. j = None"
  unfolding get_free_pos_def by (rule scan_free_slot_table)

definition new_bucket :: "int \<Rightarrow> int \<Rightarrow> nat \<Rightarrow> mytbf_st" where
  "new_bucket cps burst pos = \<lparr>bk_cps = cps, bk_burst = burst, bk_token = 0, bk_pos = pos\<rparr>"

text \<open>\<open>alloc_ok\<close>: whether \<^verbatim>\<open>malloc\<close> succeeds. \<open>None\<close> as the first component is the NULL pointer.\<close>

definition mytbf_init :: "bool \<Rightarrow> int \<Rightarrow> int \<Rightarrow> job_table \<Rightarrow> nat option \<times> job_table" where
  "mytbf_init alloc_ok cps burst job =
     (case get_free_pos job of
        None \<Rightarrow> (None, job)
      | Some pos \<Rightarrow>
          if \<not> alloc_ok then (None, job)
          else (Some pos, job[pos := Some (new_bucket cps burst pos)]))"

text \<open>The threaded version allocates first. Its state is the table and the number of blocks allocated by it
  and not yet freed; the last component tells whether a mutex was unlocked that is not locked.\<close>

definition mt_mytbf_init :: "bool \<Rightarrow> int \<Rightarrow> int \<Rightarrow> job_table \<times> nat \<Rightarrow> nat option \<times> (job_table \<times> nat) \<times> bool" where
  "mt_mytbf_init alloc_ok cps burst s =
     (case s of (job, blocks) \<Rightarrow>
        if \<not> alloc_ok then (None, (job, blocks), False)
        else case get_free_pos job of
          None \<Rightarrow> (None, (job, blocks), True)
        | Some pos \<Rightarrow> (Some pos, (job[pos := Some (new_bucket cps burst pos)], blocks + 1), False))"

definition mytbf_destroy :: "nat \<Rightarrow> job_table \<Rightarrow> job_table" where
  "mytbf_destroy pos job = job[pos := None]"

definition mt_mytbf_destroy :: "nat \<Rightarrow> job_table \<times> nat \<Rightarrow> job_table \<times> nat" where
  "mt_mytbf_destroy pos s = (case s of (job, blocks) \<Rightarrow> (job[pos := None], blocks - 1))"

text \<open>\<open>module_unload\<close> of the threaded version destroys every bucket left.\<close>

fun mt_module_unload :: "nat list \<Rightarrow> job_table \<times> nat \<Rightarrow> job_table \<times> nat" where
  "mt_module_unload [] s = s"
| "mt_module_unload (i # is) s =
     mt_module_unload is (if fst s ! i \<noteq> None then mt_mytbf_destroy i s else s)"

section \<open>Tokens\<close>

datatype fetch_result = Fetched int job_table nat | Waiting job_table | Undefined

text \<open>\<^verbatim>\<open>while (me->token <= 0) pause();\<close> with the refills that will come, then the fetch.\<close>

fun fetch_loop :: "nat \<Rightarrow> nat \<Rightarrow> int \<Rightarrow> job_table \<Rightarrow> fetch_result" where
  "fetch_loop refills pos amount job =
     (case job ! pos of
        None \<Rightarrow> Undefined
      | Some b \<Rightarrow>
          if bk_token b \<le> 0 then
            (case refills of
               0 \<Rightarrow> Waiting job
             | Suc m \<Rightarrow>
                 (case alrm_handler job of
                    None \<Rightarrow> Undefined
                  | Some job' \<Rightarrow> fetch_loop m pos amount job'))
          else
            let n = (if bk_token b < amount then bk_token b else amount)
            in Fetched n (job[pos := Some (b\<lparr>bk_token := bk_token b - n\<rparr>)]) refills)"

declare fetch_loop.simps [simp del]

definition mytbf_fetchtoken :: "nat \<Rightarrow> nat \<Rightarrow> int \<Rightarrow> job_table \<Rightarrow> fetch_result" where
  "mytbf_fetchtoken refills pos amount job =
     (if amount \<le> 0 then Fetched (- EINVAL) job refills else fetch_loop refills pos amount job)"

definition mytbf_returntoken :: "nat \<Rightarrow> int \<Rightarrow> job_table \<Rightarrow> (int \<times> job_table) option" where
  "mytbf_returntoken pos amount job =
     (if amount \<le> 0 then Some (- EINVAL, job)
      else case job ! pos of
        None \<Rightarrow> None
      | Some b \<Rightarrow>
          let t = bk_token b + amount in
          if \<not> is_int32 t then None
          else Some (amount, job[pos := Some (b\<lparr>bk_token := (if t > bk_burst b then bk_burst b else t)\<rparr>)]))"

text \<open>The threaded versions hold the bucket's mutex; \<^verbatim>\<open>pthread_cond_wait\<close> releases it until the broadcast
  that follows a refill or a return.\<close>

definition mt_mytbf_fetchtoken :: "nat \<Rightarrow> nat \<Rightarrow> int \<Rightarrow> job_table \<times> nat \<Rightarrow> fetch_result" where
  "mt_mytbf_fetchtoken refills pos amount s = mytbf_fetchtoken refills pos amount (fst s)"

definition mt_mytbf_returntoken :: "nat \<Rightarrow> int \<Rightarrow> job_table \<times> nat \<Rightarrow> (int \<times> job_table \<times> nat) option" where
  "mt_mytbf_returntoken pos amount s =
     map_option (\<lambda>(n, job'). (n, job', snd s)) (mytbf_returntoken pos amount (fst s))"

section \<open>Interleavings\<close>

text \<open>
  What happens to the table is a sequence of atomic operations of the refill and of the clients. A
  fetch that finds no tokens waits and tries again later, as its loop does.
\<close>

datatype tb_op = Alarm | Init bool int int | Fetch nat int | Return nat int | Destroy nat

fun tb_step :: "tb_op \<Rightarrow> job_table \<Rightarrow> (int option \<times> job_table) option" where
  "tb_step Alarm job = map_option (Pair None) (alrm_handler job)"
| "tb_step (Init ok cps burst) job = Some (map_option int (fst (mytbf_init ok cps burst job)), snd (mytbf_init ok cps burst job))"
| "tb_step (Fetch pos amount) job =
     (case mytbf_fetchtoken 0 pos amount job of
        Fetched n job' _ \<Rightarrow> Some (Some n, job')
      | Waiting job' \<Rightarrow> Some (None, job')
      | Undefined \<Rightarrow> None)"
| "tb_step (Return pos amount) job = map_option (\<lambda>(n, job'). (Some n, job')) (mytbf_returntoken pos amount job)"
| "tb_step (Destroy pos) job = (if job ! pos = None then None else Some (Some 0, mytbf_destroy pos job))"

fun tb_run :: "tb_op list \<Rightarrow> job_table \<Rightarrow> ((tb_op \<times> int option) list \<times> job_table) option" where
  "tb_run [] job = Some ([], job)"
| "tb_run (opn # ops) job =
     (case tb_step opn job of
        None \<Rightarrow> None
      | Some (r, job') \<Rightarrow> map_option (\<lambda>(rs, job''). ((opn, r) # rs, job'')) (tb_run ops job'))"

text \<open>The tokens a slot's clients were granted, those they gave back, and the refills.\<close>

fun granted :: "nat \<Rightarrow> (tb_op \<times> int option) list \<Rightarrow> int" where
  "granted pos [] = 0"
| "granted pos ((Fetch p amount, Some n) # rs) = (if p = pos \<and> 0 < n then n else 0) + granted pos rs"
| "granted pos (r # rs) = granted pos rs"

fun given_back :: "nat \<Rightarrow> tb_op list \<Rightarrow> int" where
  "given_back pos [] = 0"
| "given_back pos (Return p amount # ops) = (if p = pos \<and> 0 < amount then amount else 0) + given_back pos ops"
| "given_back pos (_ # ops) = given_back pos ops"

definition refills_in :: "tb_op list \<Rightarrow> int" where
  "refills_in ops = int (length (filter (\<lambda>x. x = Alarm) ops))"

definition sound_bucket :: "nat \<Rightarrow> mytbf_st \<Rightarrow> bool" where
  "sound_bucket i b \<longleftrightarrow> bk_pos b = i \<and> 0 \<le> bk_cps b \<and> 0 \<le> bk_token b \<and> bk_token b \<le> bk_burst b
     \<and> bk_burst b + bk_cps b \<le> INT_MAX"

definition sound_table :: "job_table \<Rightarrow> bool" where
  "sound_table job \<longleftrightarrow> (\<forall>i < length job. \<forall>b. job ! i = Some b \<longrightarrow> sound_bucket i b)"

text \<open>Proper use: live buckets, sensible parameters, returns that do not overflow.\<close>

fun proper_op :: "job_table \<Rightarrow> tb_op \<Rightarrow> bool" where
  "proper_op job Alarm = True"
| "proper_op job (Init ok cps burst) = (0 \<le> cps \<and> 0 \<le> burst \<and> burst + cps \<le> INT_MAX)"
| "proper_op job (Fetch pos amount) = (pos < length job \<and> job ! pos \<noteq> None)"
| "proper_op job (Return pos amount) =
     (pos < length job \<and> (case job ! pos of None \<Rightarrow> False | Some b \<Rightarrow> bk_burst b + amount \<le> INT_MAX))"
| "proper_op job (Destroy pos) = (pos < length job \<and> job ! pos \<noteq> None)"

fun proper_ops :: "job_table \<Rightarrow> tb_op list \<Rightarrow> bool" where
  "proper_ops job [] = True"
| "proper_ops job (opn # ops) =
     (proper_op job opn \<and> (case tb_step opn job of None \<Rightarrow> False | Some (_, job') \<Rightarrow> proper_ops job' ops))"

section \<open>Lemmas\<close>

lemma length_alrm_handler: "alrm_handler job = Some job' \<Longrightarrow> length job' = length job"
  by (induction job arbitrary: job' rule: alrm_handler.induct) (auto split: option.splits)

lemma alrm_handler_nth:
  "alrm_handler job = Some job' \<Longrightarrow> i < length job \<Longrightarrow>
   job' ! i = (case job ! i of None \<Rightarrow> None | Some b \<Rightarrow> refill b)"
proof (induction job arbitrary: job' i rule: alrm_handler.induct)
  case (2 js)
  then show ?case by (cases i) auto
next
  case (3 b js)
  then show ?case by (cases i) (auto split: option.splits)
qed simp

lemma refill_Some:
  "sound_bucket i b \<Longrightarrow> refill b = Some (b\<lparr>bk_token := min (bk_burst b) (bk_token b + bk_cps b)\<rparr>)"
  by (auto simp: refill_def sound_bucket_def is_int32_def Let_def min_def)

lemma alrm_handler_defined:
  "\<forall>i < length job. \<forall>b. job ! i = Some b \<longrightarrow> (\<exists>k. sound_bucket k b) \<Longrightarrow> \<exists>job'. alrm_handler job = Some job'"
proof (induction job rule: alrm_handler.induct)
  case (2 js)
  from 2(2) have "\<forall>i < length js. \<forall>b. js ! i = Some b \<longrightarrow> (\<exists>k. sound_bucket k b)" by fastforce
  from 2(1) [OF this] show ?case by auto
next
  case (3 b js)
  from 3(2) obtain k where "sound_bucket k b" by fastforce
  then obtain b' where b': "refill b = Some b'" by (auto simp: refill_Some)
  from 3(2) have "\<forall>i < length js. \<forall>b. js ! i = Some b \<longrightarrow> (\<exists>k. sound_bucket k b)" by fastforce
  from 3(1) [OF b' this] b' show ?case by auto
qed simp

lemma sound_refilled:
  "sound_bucket i b \<Longrightarrow> sound_bucket i (b\<lparr>bk_token := min (bk_burst b) (bk_token b + bk_cps b)\<rparr>)"
  by (auto simp: sound_bucket_def)

lemma refill_sound: "sound_bucket i b \<Longrightarrow> refill b = Some b' \<Longrightarrow> sound_bucket i b'"
  by (auto simp: refill_Some sound_refilled)

lemma alrm_handler_sound:
  assumes "sound_table job"
  shows "\<exists>job'. alrm_handler job = Some job' \<and> sound_table job'"
proof -
  from assms alrm_handler_defined [of job] obtain job' where job': "alrm_handler job = Some job'"
    unfolding sound_table_def by blast
  have "sound_table job'"
    using assms alrm_handler_nth [OF job'] length_alrm_handler [OF job']
    by (auto simp: sound_table_def refill_sound split: option.splits)
  with job' show ?thesis by blast
qed

lemma sound_table_update:
  "sound_table job \<Longrightarrow> (\<And>b. x = Some b \<Longrightarrow> sound_bucket i b) \<Longrightarrow> sound_table (job[i := x])"
  by (cases "i < length job") (auto simp: sound_table_def nth_list_update split: if_splits)

lemma sound_tableD: "sound_table job \<Longrightarrow> i < length job \<Longrightarrow> job ! i = Some b \<Longrightarrow> sound_bucket i b"
  by (simp add: sound_table_def)

lemma mytbf_init_cases:
  obtains "mytbf_init ok cps burst job = (None, job)"
  | pos where "pos < length job" "job ! pos = None"
      "mytbf_init ok cps burst job = (Some pos, job[pos := Some (new_bucket cps burst pos)])"
  using buckets.free_pos_SomeD [of job] by (cases "get_free_pos job"; cases ok) (auto simp: mytbf_init_def)

lemma fetch_now:
  assumes "job ! pos = Some b" "0 < amount"
  shows "mytbf_fetchtoken k pos amount job =
    (if 0 < bk_token b then Fetched (min (bk_token b) amount) (job[pos := Some (b\<lparr>bk_token := bk_token b - min (bk_token b) amount\<rparr>)]) k
     else case k of 0 \<Rightarrow> Waiting job | Suc m \<Rightarrow>
       (case alrm_handler job of None \<Rightarrow> Undefined | Some job' \<Rightarrow> fetch_loop m pos amount job'))"
  using assms by (auto simp: mytbf_fetchtoken_def fetch_loop.simps [of k] Let_def min_def)

lemma return_now:
  assumes "job ! pos = Some b" "0 < amount" "bk_burst b + amount \<le> INT_MAX" "sound_bucket i b"
  shows "mytbf_returntoken pos amount job =
    Some (amount, job[pos := Some (b\<lparr>bk_token := min (bk_burst b) (bk_token b + amount)\<rparr>)])"
  using assms by (auto simp: mytbf_returntoken_def Let_def min_def is_int32_def sound_bucket_def)

text \<open>A proper operation is defined and keeps the table sound; a bucket's account is never overdrawn.\<close>

lemma tb_step_sound:
  assumes "sound_table job" "proper_op job opn"
  shows "\<exists>r job'. tb_step opn job = Some (r, job') \<and> sound_table job' \<and> length job' = length job"
proof (cases opn)
  case Alarm
  with alrm_handler_sound [OF assms(1)] length_alrm_handler show ?thesis by fastforce
next
  case (Init ok cps burst)
  with assms show ?thesis
    by (rule_tac ok = ok and cps = cps and burst = burst and job = job in mytbf_init_cases)
      (auto intro!: sound_table_update simp: sound_bucket_def new_bucket_def)
next
  case (Fetch pos amount)
  with assms obtain b where b: "job ! pos = Some b" "pos < length job" by auto
  with assms(1) have "sound_bucket pos b" by (simp add: sound_tableD)
  with Fetch b assms(1) show ?thesis
    by (cases "0 < amount")
      (auto simp: fetch_now, auto simp: mytbf_fetchtoken_def sound_bucket_def intro!: sound_table_update)
next
  case (Return pos amount)
  with assms obtain b where b: "job ! pos = Some b" "pos < length job" "bk_burst b + amount \<le> INT_MAX"
    by (auto split: option.splits)
  with assms(1) have "sound_bucket pos b" by (simp add: sound_tableD)
  with Return b assms(1) show ?thesis
    by (cases "0 < amount")
      (auto simp: return_now, auto simp: mytbf_returntoken_def sound_bucket_def intro!: sound_table_update)
next
  case (Destroy pos)
  with assms show ?thesis by (auto simp: mytbf_destroy_def intro!: sound_table_update)
qed

definition within_account :: "mytbf_st \<Rightarrow> int \<Rightarrow> mytbf_st \<Rightarrow> bool" where
  "within_account b allowance b' \<longleftrightarrow> bk_cps b' = bk_cps b \<and> bk_burst b' = bk_burst b \<and> bk_token b' \<le> bk_token b + allowance"

lemma within_account_trans:
  "within_account b x b' \<Longrightarrow> within_account b' y b'' \<Longrightarrow> within_account b (x + y) b''"
  by (auto simp: within_account_def)

definition allowance :: "nat \<Rightarrow> int \<Rightarrow> tb_op list \<Rightarrow> (tb_op \<times> int option) list \<Rightarrow> int" where
  "allowance pos cps ops rs = cps * refills_in ops + given_back pos ops - granted pos rs"

lemma allowance_Cons:
  "allowance pos cps (opn # ops) ((opn, r) # rs) = allowance pos cps [opn] [(opn, r)] + allowance pos cps ops rs"
  by (cases opn; cases r) (auto simp: allowance_def refills_in_def algebra_simps)

lemma tb_step_account:
  assumes "sound_table job" "proper_op job opn" "pos < length job" "job ! pos = Some b" "opn \<noteq> Destroy pos"
    and step: "tb_step opn job = Some (r, job')"
  shows "\<exists>b'. job' ! pos = Some b' \<and> within_account b (allowance pos (bk_cps b) [opn] [(opn, r)]) b'"
proof (cases opn)
  case Alarm
  with step have "alrm_handler job = Some job'" "r = None" by auto
  moreover from assms have "sound_bucket pos b" by (simp add: sound_tableD)
  ultimately show ?thesis using alrm_handler_nth [of job job' pos] assms Alarm
    by (simp add: refill_Some within_account_def allowance_def refills_in_def)
next
  case (Init ok cps burst)
  with assms show ?thesis
    by (rule_tac ok = ok and cps = cps and burst = burst and job = job in mytbf_init_cases)
      (auto simp: nth_list_update within_account_def allowance_def refills_in_def)
next
  case (Fetch p amount)
  with assms obtain c where c: "job ! p = Some c" "p < length job" by auto
  with assms(1) have "sound_bucket p c" by (simp add: sound_tableD)
  with Fetch c assms show ?thesis
    by (cases "0 < amount")
      (auto simp: fetch_now nth_list_update within_account_def allowance_def refills_in_def split: if_splits,
       auto simp: mytbf_fetchtoken_def)
next
  case (Return p amount)
  with assms obtain c where c: "job ! p = Some c" "p < length job" "bk_burst c + amount \<le> INT_MAX"
    by (auto split: option.splits)
  with assms(1) have "sound_bucket p c" by (simp add: sound_tableD)
  with Return c assms show ?thesis
    by (cases "0 < amount")
      (auto simp: return_now nth_list_update within_account_def allowance_def refills_in_def split: if_splits,
       auto simp: mytbf_returntoken_def)
next
  case (Destroy p)
  with assms show ?thesis
    by (auto simp: mytbf_destroy_def within_account_def allowance_def refills_in_def split: if_splits)
qed

section \<open>The rate limit\<close>

lemma tb_run_account:
  assumes "sound_table job" "proper_ops job ops" "pos < length job" "job ! pos = Some b" "Destroy pos \<notin> set ops"
  shows "\<exists>rs job' b'. tb_run ops job = Some (rs, job') \<and> sound_table job' \<and> length job' = length job \<and> job' ! pos = Some b'
    \<and> within_account b (allowance pos (bk_cps b) ops rs) b'"
  using assms
proof (induction ops arbitrary: job b)
  case Nil
  then show ?case by (simp add: within_account_def allowance_def refills_in_def)
next
  case (Cons opn ops)
  then have proper: "proper_op job opn" by simp
  from tb_step_sound [OF Cons.prems(1) proper] obtain r job1 where
    step: "tb_step opn job = Some (r, job1)" and sound: "sound_table job1" and len: "length job1 = length job" by blast
  from Cons.prems(5) have other: "opn \<noteq> Destroy pos" "Destroy pos \<notin> set ops" by auto
  from tb_step_account [OF Cons.prems(1) proper Cons.prems(3,4) other(1) step] obtain b1 where
    b1: "job1 ! pos = Some b1" and acc1: "within_account b (allowance pos (bk_cps b) [opn] [(opn, r)]) b1"
    by blast
  from Cons.prems(2) step have rest: "proper_ops job1 ops" by simp
  from Cons.prems(3) len have "pos < length job1" by simp
  from Cons.IH [OF sound rest this b1 other(2)] obtain rs job' b' where
    run: "tb_run ops job1 = Some (rs, job')" "sound_table job'" "length job' = length job1" "job' ! pos = Some b'"
    and acc2: "within_account b1 (allowance pos (bk_cps b1) ops rs) b'" by blast
  from acc1 have "bk_cps b1 = bk_cps b" by (simp add: within_account_def)
  with within_account_trans [OF acc1 acc2]
  have "within_account b (allowance pos (bk_cps b) (opn # ops) ((opn, r) # rs)) b'"
    using allowance_Cons [of pos "bk_cps b" opn ops r rs] by simp
  with run step len show ?case by simp
qed

text \<open>C21: The token bucket law. However refills and the operations of any number of clients of any buckets
  are interleaved, as long as they use live buckets, no overflow occurs, every bucket keeps between 0 and
  \<open>burst\<close> tokens, and what a bucket's clients were granted is at most the tokens it had, \<open>cps\<close> tokens per
  refill, and what they gave back.\<close>
theorem token_bucket_rate:
  assumes "sound_table job" "proper_ops job ops" "pos < length job" "job ! pos = Some b" "Destroy pos \<notin> set ops"
  shows "\<exists>rs job' b'. tb_run ops job = Some (rs, job') \<and> sound_table job' \<and> job' ! pos = Some b'
    \<and> 0 \<le> bk_token b' \<and> bk_token b' \<le> bk_burst b
    \<and> granted pos rs + bk_token b' \<le> bk_token b + bk_cps b * refills_in ops + given_back pos ops"
proof -
  from tb_run_account [OF assms] obtain rs job' b' where
    run: "tb_run ops job = Some (rs, job')" "sound_table job'" "length job' = length job" "job' ! pos = Some b'"
    and acc: "within_account b (allowance pos (bk_cps b) ops rs) b'" by blast
  with assms(3) have "sound_bucket pos b'" by (simp add: sound_tableD)
  with run acc show ?thesis by (auto simp: within_account_def allowance_def sound_bucket_def)
qed

definition example_table :: job_table where
  "example_table = [Some (new_bucket 10 100 0), None]"

definition example_ops :: "tb_op list" where
  "example_ops = [Fetch 0 5, Alarm, Fetch 0 4, Return 0 1, Init True 3 6, Alarm, Fetch 1 9, Fetch 0 50, Destroy 1]"

lemmas example_eval = example_table_def example_ops_def new_bucket_def mytbf_fetchtoken_def fetch_loop.simps [of 0]
  mytbf_returntoken_def mytbf_init_def mytbf_destroy_def get_free_pos_def refill_def Let_def is_int32_def

theorem token_bucket_rate_witness:
  "\<exists>rs job' b'. tb_run example_ops example_table = Some (rs, job') \<and> sound_table job' \<and> job' ! 0 = Some b'
    \<and> 0 \<le> bk_token b' \<and> bk_token b' \<le> 100
    \<and> granted 0 rs + bk_token b' \<le> 0 + 10 * refills_in example_ops + given_back 0 example_ops"
proof -
  have "sound_table example_table"
    by (auto simp: example_eval sound_table_def sound_bucket_def nth_Cons split: nat.splits)
  moreover have "proper_ops example_table example_ops"
    by code_simp
  moreover have "Destroy 0 \<notin> set example_ops" by (simp add: example_ops_def)
  ultimately show ?thesis
    using token_bucket_rate [of example_table example_ops 0 "new_bucket 10 100 0"]
    by (simp add: example_table_def) (simp add: new_bucket_def)
qed

text \<open>A fetch never waits for more than the next refill of a bucket that is refilled at all.\<close>

lemma mytbf_fetchtoken_returns:
  assumes "sound_table job" "pos < length job" "job ! pos = Some b" "0 < bk_cps b" "0 < bk_burst b" "0 < amount"
  shows "\<exists>n job' k. mytbf_fetchtoken 1 pos amount job = Fetched n job' k \<and> 0 < n \<and> n \<le> amount"
proof (cases "0 < bk_token b")
  case True
  with assms show ?thesis by (simp add: fetch_now)
next
  case False
  from alrm_handler_sound [OF assms(1)] obtain job' where job': "alrm_handler job = Some job'" by blast
  from assms have sound: "sound_bucket pos b" by (simp add: sound_tableD)
  with alrm_handler_nth [OF job' assms(2)] assms(3)
  have "job' ! pos = Some (b\<lparr>bk_token := min (bk_burst b) (bk_token b + bk_cps b)\<rparr>)" by (simp add: refill_Some)
  moreover have "0 < min (bk_burst b) (bk_token b + bk_cps b)" using assms sound by (auto simp: sound_bucket_def)
  ultimately have "\<exists>n job'' k. fetch_loop 0 pos amount job' = Fetched n job'' k \<and> 0 < n \<and> n \<le> amount"
    using assms(6) by (auto simp: fetch_loop.simps Let_def)
  with assms False job' show ?thesis by (simp add: fetch_now)
qed

section \<open>The table and the allocated blocks of the threaded version\<close>

definition live_buckets :: "job_table \<Rightarrow> nat" where
  "live_buckets job = length (filter (\<lambda>j. \<not> j = None) job)"

lemma mt_mytbf_init_balanced:
  assumes "mt_mytbf_init ok cps burst (job, blocks) = (p, (job', blocks'), misuse)" "blocks = live_buckets job"
  shows "blocks' = live_buckets job' \<and> (p = None \<longrightarrow> job' = job) \<and> (misuse \<longleftrightarrow> ok \<and> live_buckets job = length job)"
  using assms buckets.count_store [of job] buckets.free_pos_SomeD [of job] buckets.free_pos_ex_iff [of job]
  by (cases "get_free_pos job")
    (auto simp: mt_mytbf_init_def live_buckets_def split: if_splits
      intro!: le_antisym [OF length_filter_le])

lemma live_buckets_free:
  "pos < length job \<Longrightarrow> job ! pos \<noteq> None \<Longrightarrow> live_buckets job = Suc (live_buckets (job[pos := None]))"
proof (induction job arbitrary: pos)
  case (Cons j job)
  then show ?case by (cases pos) (auto simp: live_buckets_def)
qed simp

lemma mt_module_unload_balanced:
  "blocks = live_buckets job \<Longrightarrow> set is \<subseteq> {..< length job} \<Longrightarrow> mt_module_unload is (job, blocks) = (job', blocks') \<Longrightarrow>
   blocks' = live_buckets job' \<and> length job' = length job \<and> (\<forall>k < length job. job' ! k = (if k \<in> set is then None else job ! k))"
proof (induction "is" arbitrary: job blocks)
  case (Cons i "is")
  show ?case
  proof (cases "job ! i = None")
    case True
    with Cons show ?thesis by auto
  next
    case False
    with Cons.prems live_buckets_free [of i job] have
      "blocks - 1 = live_buckets (job[i := None])" "set is \<subseteq> {..< length (job[i := None])}"
      "mt_module_unload is (job[i := None], blocks - 1) = (job', blocks')"
      by (auto simp: mt_mytbf_destroy_def)
    from Cons.IH [OF this] Cons.prems show ?thesis by (auto simp: nth_list_update)
  qed
qed simp

text \<open>Unloading the threaded library frees every bucket that is left, exactly once.\<close>

lemma mt_module_unload_frees_all:
  "mt_module_unload [0 ..< length job] (job, live_buckets job) = (replicate (length job) None, 0)"
proof -
  obtain job' blocks' where run: "mt_module_unload [0 ..< length job] (job, live_buckets job) = (job', blocks')"
    by (cases "mt_module_unload [0 ..< length job] (job, live_buckets job)")
  have "set [0 ..< length job] \<subseteq> {..< length job}" by (simp add: atLeast0LessThan)
  from mt_module_unload_balanced [OF refl this run]
  have "blocks' = live_buckets job'" "length job' = length job" "\<forall>k < length job. job' ! k = None" by auto
  moreover from this have "job' = replicate (length job) None" by (auto intro: nth_equalityI)
  ultimately show ?thesis using run by (simp add: live_buckets_def)
qed

end
