(* ===== verification/Copy_Loops.thy ===== *)
theory Copy_Loops
  imports Token_Bucket
begin

text \<open>
  The copying programs of the exercises: \<^verbatim>\<open>sys/mycpy.c\<close>, \<^verbatim>\<open>para/signal/mycat.c\<close>, \<^verbatim>\<open>slowcat.c\<close>,
  \<^verbatim>\<open>slowcat2.c\<close>, and the rate-limited \<^verbatim>\<open>mytbf/main.c\<close> on top of the token bucket (\<^verbatim>\<open>mytbf_mt/main.c\<close> is
  the same program). The answers of \<^verbatim>\<open>read\<close> and \<^verbatim>\<open>write\<close> are lists; a program whose answers are used up
  is still running.
\<close>

section \<open>Writing a buffer\<close>

datatype rd = Rd string | Rd_eintr | Rd_fail
datatype wr = Wr nat | Wr_eintr | Wr_fail
datatype write_end = W_all | W_failed | W_blocked

text \<open>\<^verbatim>\<open>while (len > 0) ret = write(dfd, buf + pos, len) ...\<close>: how it ended, the bytes written, the answers left.\<close>

fun write_loop :: "wr list \<Rightarrow> string \<Rightarrow> nat \<Rightarrow> nat \<Rightarrow> write_end \<times> string \<times> wr list" where
  "write_loop ws buf pos len =
     (if len = 0 then (W_all, [], ws)
      else case ws of
        [] \<Rightarrow> (W_blocked, [], [])
      | Wr_eintr # r \<Rightarrow> write_loop r buf pos len
      | Wr_fail # r \<Rightarrow> (W_failed, [], r)
      | Wr n # r \<Rightarrow>
          let k = min n len; (e, out, r') = write_loop r buf (pos + k) (len - k)
          in (e, take k (drop pos buf) @ out, r'))"

declare write_loop.simps [simp del]

text \<open>The loop of \<^verbatim>\<open>mycpy.c\<close>, which always writes from the beginning of the buffer.\<close>

fun mycpy_write :: "wr list \<Rightarrow> string \<Rightarrow> nat \<Rightarrow> write_end \<times> string \<times> wr list" where
  "mycpy_write ws buf len =
     (if len = 0 then (W_all, [], ws)
      else case ws of
        [] \<Rightarrow> (W_blocked, [], [])
      | Wr_eintr # r \<Rightarrow> (W_failed, [], r)
      | Wr_fail # r \<Rightarrow> (W_failed, [], r)
      | Wr n # r \<Rightarrow>
          let k = min n len; (e, out, r') = mycpy_write r buf (len - k)
          in (e, take k buf @ out, r'))"

declare mycpy_write.simps [simp del]

section \<open>The programs\<close>

datatype cat_end = Cat_end | Cat_running | Cat_exit

abbreviation CAT_BUFSIZE :: nat where "CAT_BUFSIZE \<equiv> 1024"
abbreviation CAT_CPS :: nat where "CAT_CPS \<equiv> 10"

text \<open>A write error ends the inner loop only: the program goes on reading.\<close>

fun mycat :: "rd list \<Rightarrow> wr list \<Rightarrow> cat_end \<times> string" where
  "mycat [] ws = (Cat_running, [])"
| "mycat (Rd_eintr # rs) ws = mycat rs ws"
| "mycat (Rd_fail # rs) ws = (Cat_end, [])"
| "mycat (Rd bs # rs) ws =
     (let buf = take CAT_BUFSIZE bs in
      if buf = [] then (Cat_end, [])
      else case write_loop ws buf 0 (length buf) of
        (e, out, r) \<Rightarrow>
          if e = W_blocked then (Cat_running, out)
          else let (e', out') = mycat rs r in (e', out @ out'))"

fun mycpy :: "rd list \<Rightarrow> wr list \<Rightarrow> cat_end \<times> string" where
  "mycpy [] ws = (Cat_running, [])"
| "mycpy (Rd_eintr # rs) ws = (Cat_end, [])"
| "mycpy (Rd_fail # rs) ws = (Cat_end, [])"
| "mycpy (Rd bs # rs) ws =
     (let buf = take CAT_BUFSIZE bs in
      if buf = [] then (Cat_end, [])
      else case mycpy_write ws buf (length buf) of
        (e, out, r) \<Rightarrow>
          if e = W_blocked then (Cat_running, out)
          else let (e', out') = mycpy rs r in (e', out @ out'))"

text \<open>\<^verbatim>\<open>while ((len = read(...)) < 0)\<close>: \<open>None\<close> while it blocks, \<open>Some None\<close> after an error.\<close>

fun sized_read :: "nat \<Rightarrow> rd list \<Rightarrow> (string option \<times> rd list) option" where
  "sized_read n [] = None"
| "sized_read n (Rd_eintr # rs) = sized_read n rs"
| "sized_read n (Rd_fail # rs) = Some (None, rs)"
| "sized_read n (Rd bs # rs) = Some (Some (take n bs), rs)"

text \<open>\<^verbatim>\<open>slowcat\<close>: every round waits for the flag that an alarm sets; the first argument is the alarms that come.\<close>

fun slowcat :: "nat \<Rightarrow> rd list \<Rightarrow> wr list \<Rightarrow> cat_end \<times> string" where
  "slowcat 0 rs ws = (Cat_running, [])"
| "slowcat (Suc alarms) rs ws =
     (case sized_read CAT_CPS rs of
        None \<Rightarrow> (Cat_running, [])
      | Some (None, rs') \<Rightarrow> slowcat alarms rs' ws
      | Some (Some buf, rs') \<Rightarrow>
          if buf = [] then (Cat_end, [])
          else case write_loop ws buf 0 (length buf) of
            (e, out, r) \<Rightarrow>
              if e = W_blocked then (Cat_running, out)
              else if e = W_failed then (Cat_exit, out)
              else let (e', out') = slowcat alarms rs' r in (e', out @ out'))"

text \<open>\<^verbatim>\<open>slowcat2\<close>: \<^verbatim>\<open>len = read(sfd,buf,BUFSIZE) < 0\<close> assigns the comparison to \<^verbatim>\<open>len\<close>. The buffer is an argument, as
  it is uninitialized at first.\<close>

fun slowcat2 :: "nat \<Rightarrow> string \<Rightarrow> rd list \<Rightarrow> wr list \<Rightarrow> cat_end \<times> string" where
  "slowcat2 0 buf rs ws = (Cat_running, [])"
| "slowcat2 (Suc tokens) buf rs ws =
     (case sized_read CAT_CPS rs of
        None \<Rightarrow> (Cat_running, [])
      | Some (Some b, rs') \<Rightarrow> (Cat_end, [])
      | Some (None, rs') \<Rightarrow>
          (case write_loop ws buf 0 1 of
            (e, out, r) \<Rightarrow>
              if e = W_blocked then (Cat_running, out)
              else if e = W_failed then (Cat_exit, out)
              else let (e', out') = slowcat2 tokens buf rs' r in (e', out @ out')))"

fun alarms_pass :: "nat \<Rightarrow> job_table \<Rightarrow> job_table option" where
  "alarms_pass 0 job = Some job"
| "alarms_pass (Suc n) job = (case alrm_handler job of None \<Rightarrow> None | Some job' \<Rightarrow> alarms_pass n job')"

text \<open>The loop of \<^verbatim>\<open>mytbf/main.c\<close>. Each round is given the refills that may come while it waits for tokens and
  those that come before it gives tokens back. Returned besides the output: the number of failed reads, after
  which \<^verbatim>\<open>len\<close> is -1 and \<^verbatim>\<open>size - len\<close> is one token more than was fetched.\<close>

fun tbf_cat :: "(nat \<times> nat) list \<Rightarrow> rd list \<Rightarrow> wr list \<Rightarrow> nat \<Rightarrow> job_table \<Rightarrow> (cat_end \<times> string \<times> nat) option" where
  "tbf_cat [] rs ws pos job = Some (Cat_running, [], 0)"
| "tbf_cat ((k, j) # rounds) rs ws pos job =
     (case mytbf_fetchtoken k pos (int CAT_BUFSIZE) job of
        Undefined \<Rightarrow> None
      | Waiting job1 \<Rightarrow> Some (Cat_running, [], 0)
      | Fetched n job1 left \<Rightarrow>
          (case sized_read (nat n) rs of
             None \<Rightarrow> Some (Cat_running, [], 0)
           | Some (b, rs') \<Rightarrow>
               if b = Some [] then Some (Cat_end, [], 0)
               else case alarms_pass j job1 of
                 None \<Rightarrow> None
               | Some job2 \<Rightarrow>
                   let len = (case b of None \<Rightarrow> - 1 | Some buf \<Rightarrow> int (length buf)) in
                   (case (if n - len > 0 then mytbf_returntoken pos (n - len) job2 else Some (0, job2)) of
                      None \<Rightarrow> None
                    | Some (_, job3) \<Rightarrow>
                        (case b of
                           None \<Rightarrow> map_option (\<lambda>(e, out, errs). (e, out, Suc errs)) (tbf_cat rounds rs' ws pos job3)
                         | Some buf \<Rightarrow>
                             (case write_loop ws buf 0 (length buf) of (e, out, r) \<Rightarrow>
                                if e = W_blocked then Some (Cat_running, out, 0)
                                else if e = W_failed then Some (Cat_exit, out, 0)
                                else map_option (\<lambda>(e', out', errs). (e', out @ out', errs)) (tbf_cat rounds rs' r pos job3))))))"

section \<open>Faithful copies\<close>

text \<open>The bytes that are written are the first of the window, all of them if the loop ended well.\<close>

lemma write_loop_prefix:
  "write_loop ws buf pos len = (e, out, r) \<Longrightarrow> pos + len \<le> length buf \<Longrightarrow>
   out = take (length out) (take len (drop pos buf)) \<and> (e = W_all \<longrightarrow> out = take len (drop pos buf))"
proof (induction ws arbitrary: pos len e out r)
  case Nil
  then show ?case by (auto simp: write_loop.simps split: if_splits)
next
  case (Cons w ws)
  show ?case
  proof (cases "len = 0")
    case True
    with Cons.prems show ?thesis by (simp add: write_loop.simps)
  next
    case False
    show ?thesis
    proof (cases w)
      case (Wr n)
      define k where "k = min n len"
      obtain e' out' r' where rest: "write_loop ws buf (pos + k) (len - k) = (e', out', r')"
        by (cases "write_loop ws buf (pos + k) (len - k)")
      with Cons.prems False Wr have out: "e = e'" "out = take k (drop pos buf) @ out'"
        by (auto simp: write_loop.simps [of "Wr n # ws"] Let_def k_def [symmetric])
      have k: "k \<le> len" by (simp add: k_def)
      with Cons.IH [OF rest] Cons.prems(2)
      have ih: "out' = take (length out') (take (len - k) (drop (pos + k) buf))" "e' = W_all \<longrightarrow> out' = take (len - k) (drop (pos + k) buf)"
        by auto
      have split: "take len (drop pos buf) = take k (drop pos buf) @ take (len - k) (drop (pos + k) buf)"
        using k by (metis add.commute drop_drop le_add_diff_inverse take_add)
      have "length (take k (drop pos buf)) = k" using k Cons.prems(2) by simp
      with out ih split show ?thesis by (simp add: take_add)
    qed (use Cons False in \<open>auto simp: write_loop.simps [of "_ # ws"]\<close>)
  qed
qed

lemma write_loop_length: "write_loop ws buf pos len = (e, out, r) \<Longrightarrow> pos + len \<le> length buf \<Longrightarrow> length out \<le> len"
  using write_loop_prefix [of ws buf pos len e out r] by (metis length_take min.cobounded1 min.cobounded2 order_trans)

lemma write_loop_no_fail:
  "write_loop ws buf pos len = (e, out, r) \<Longrightarrow> Wr_fail \<notin> set ws \<Longrightarrow> e \<noteq> W_failed \<and> Wr_fail \<notin> set r"
proof (induction ws arbitrary: pos len out)
  case Nil
  then show ?case by (auto simp: write_loop.simps split: if_splits)
next
  case (Cons w ws)
  then show ?case
    by (subst (asm) write_loop.simps) (auto simp: Let_def split: if_splits wr.splits prod.splits)
qed

text \<open>The bytes the reads deliver before the end of the file or an error.\<close>

fun delivered :: "rd list \<Rightarrow> string" where
  "delivered [] = []"
| "delivered (Rd_eintr # rs) = delivered rs"
| "delivered (Rd_fail # rs) = []"
| "delivered (Rd bs # rs) = (if bs = [] then [] else take CAT_BUFSIZE bs @ delivered rs)"

text \<open>Without write errors \<^verbatim>\<open>mycat\<close> writes what it reads, in order and once, however short the writes.\<close>

lemma mycat_copies:
  "mycat rs ws = (e, out) \<Longrightarrow> Wr_fail \<notin> set ws \<Longrightarrow>
   out = take (length out) (delivered rs) \<and> (e = Cat_end \<longrightarrow> out = delivered rs)"
proof (induction rs ws arbitrary: e out rule: mycat.induct)
  case (4 bs rs ws)
  define buf where "buf = take CAT_BUFSIZE bs"
  have empty: "buf = [] \<longleftrightarrow> bs = []" by (simp add: buf_def)
  show ?case
  proof (cases "bs = []")
    case True
    with 4 show ?thesis by simp
  next
    case False
    obtain e1 out1 r where w: "write_loop ws buf 0 (length buf) = (e1, out1, r)" by (cases "write_loop ws buf 0 (length buf)")
    from write_loop_prefix [OF w] have out1: "out1 = take (length out1) buf" "e1 = W_all \<longrightarrow> out1 = buf" by auto
    from write_loop_no_fail [OF w 4(3)] have e1: "e1 = W_all \<or> e1 = W_blocked" and r: "Wr_fail \<notin> set r"
      by (cases e1, auto)
    show ?thesis
    proof (cases "e1 = W_blocked")
      case True
      with 4(2) w False have "e = Cat_running" "out = out1" by (auto simp: Let_def buf_def [symmetric] empty)
      moreover have "length out1 \<le> length buf" using write_loop_length [OF w] by simp
      ultimately show ?thesis using out1(1) False by (simp add: buf_def [symmetric])
    next
      case False2: False
      with e1 out1 have "out1 = buf" by simp
      obtain e' out' where m: "mycat rs r = (e', out')" by (cases "mycat rs r")
      with 4(2) w False False2 have "e = e'" "out = out1 @ out'" by (auto simp: Let_def buf_def [symmetric] empty)
      with 4(1) [OF buf_def _ w [symmetric] refl False2 m r] empty \<open>out1 = buf\<close> False show ?thesis by (auto simp: buf_def [symmetric])
    qed
  qed
qed simp_all

text \<open>\<^verbatim>\<open>mycpy\<close> agrees with \<^verbatim>\<open>mycat\<close> as long as every write takes the whole buffer, and repeats the beginning of the
  buffer after a short one.\<close>

lemma mycpy_short_write: "mycpy [Rd ''ab'', Rd []] [Wr 1, Wr 1] = (Cat_end, ''aa'')"
  by (simp add: mycpy_write.simps)

text \<open>\<^verbatim>\<open>slowcat\<close> writes at most ten bytes per alarm.\<close>

lemma sized_read_length: "sized_read n rs = Some (Some buf, rs') \<Longrightarrow> length buf \<le> n"
  by (induction n rs rule: sized_read.induct) auto

lemma slowcat_rate: "length (snd (slowcat alarms rs ws)) \<le> CAT_CPS * alarms"
proof (induction alarms arbitrary: rs ws)
  case (Suc alarms)
  show ?case
  proof (cases "sized_read CAT_CPS rs")
    case (Some x)
    obtain b rs' where x: "x = (b, rs')" by (cases x)
    show ?thesis
    proof (cases b)
      case None
      with Some x Suc.IH [of rs' ws] show ?thesis by simp
    next
      case (Some buf)
      obtain e out r where w: "write_loop ws buf 0 (length buf) = (e, out, r)" by (cases "write_loop ws buf 0 (length buf)")
      from write_loop_length [OF w] sized_read_length [of CAT_CPS rs buf rs'] \<open>sized_read CAT_CPS rs = Some x\<close> x Some
      have "length out \<le> CAT_CPS" by simp
      with Suc.IH [of rs' r] \<open>sized_read CAT_CPS rs = Some x\<close> x Some w show ?thesis by (auto split: prod.splits)
    qed
  qed simp
qed simp

text \<open>\<^verbatim>\<open>slowcat2\<close> never copies a byte of its file: a read that succeeds ends it.\<close>

lemma sized_read_fail: "sized_read n rs = Some (None, rs') \<Longrightarrow> Rd_fail \<in> set rs"
  by (induction n rs rule: sized_read.induct) auto

lemma slowcat2_copies_nothing: "Rd_fail \<notin> set rs \<Longrightarrow> snd (slowcat2 tokens buf rs ws) = []"
  by (cases tokens) (auto split: option.splits dest: sized_read_fail)

section \<open>The rate of the copy on a token bucket\<close>

text \<open>Slot \<open>pos\<close> holds a bucket of ten tokens per refill and a burst of a hundred with at most \<open>t\<close> tokens.\<close>

definition slot_ok :: "job_table \<Rightarrow> nat \<Rightarrow> int \<Rightarrow> bool" where
  "slot_ok job pos t \<longleftrightarrow> sound_table job \<and> pos < length job
     \<and> (\<exists>b. job ! pos = Some b \<and> bk_cps b = 10 \<and> bk_burst b = 100 \<and> bk_token b \<le> t)"

lemma slot_ok_step:
  assumes "slot_ok job pos t" "proper_op job opn" "opn \<noteq> Destroy pos"
  shows "\<exists>r job'. tb_step opn job = Some (r, job') \<and> slot_ok job' pos (t + allowance pos 10 [opn] [(opn, r)])"
proof -
  from assms(1) obtain b where b: "sound_table job" "pos < length job" "job ! pos = Some b" "bk_cps b = 10" "bk_burst b = 100"
    "bk_token b \<le> t" unfolding slot_ok_def by blast
  from tb_step_sound [OF b(1) assms(2)] obtain r job' where
    step: "tb_step opn job = Some (r, job')" "sound_table job'" "length job' = length job" by blast
  from tb_step_account [OF b(1) assms(2) b(2,3) assms(3) step(1)] obtain b' where
    "job' ! pos = Some b'" "within_account b (allowance pos (bk_cps b) [opn] [(opn, r)]) b'" by blast
  with b step show ?thesis unfolding slot_ok_def within_account_def by auto
qed

lemma slot_ok_alarm: "slot_ok job pos t \<Longrightarrow> \<exists>job'. alrm_handler job = Some job' \<and> slot_ok job' pos (t + 10)"
  using slot_ok_step [of job pos t Alarm] by (auto simp: allowance_def refills_in_def)

lemma slot_ok_alarms: "slot_ok job pos t \<Longrightarrow> \<exists>job'. alarms_pass n job = Some job' \<and> slot_ok job' pos (t + 10 * int n)"
proof (induction n arbitrary: job t)
  case (Suc n)
  from slot_ok_alarm [OF Suc.prems] obtain job1 where "alrm_handler job = Some job1" "slot_ok job1 pos (t + 10)" by blast
  with Suc.IH [of job1 "t + 10"] show ?case by (simp add: algebra_simps)
qed simp

definition fetch_ok :: "nat \<Rightarrow> int \<Rightarrow> int \<Rightarrow> fetch_result \<Rightarrow> bool" where
  "fetch_ok pos amount t r = (case r of
     Undefined \<Rightarrow> False
   | Waiting _ \<Rightarrow> True
   | Fetched n job' left \<Rightarrow> 0 < n \<and> n \<le> amount \<and> slot_ok job' pos (t - n))"

lemma slot_ok_mono: "slot_ok job pos t \<Longrightarrow> t \<le> t' \<Longrightarrow> slot_ok job pos t'"
  unfolding slot_ok_def by force

lemma slot_ok_take:
  assumes "slot_ok job pos t" "job ! pos = Some b" "0 < bk_token b" "0 < amount"
  shows "slot_ok (job[pos := Some (b\<lparr>bk_token := bk_token b - min (bk_token b) amount\<rparr>)]) pos (t - min (bk_token b) amount)"
proof -
  have "proper_op job (Fetch pos amount)" using assms(1,2) by (auto simp: slot_ok_def)
  from slot_ok_step [OF assms(1) this] fetch_now [OF assms(2,4), of 0] assms(3,4) show ?thesis
    by (auto simp: allowance_def refills_in_def)
qed

lemma slot_ok_fetch: "slot_ok job pos t \<Longrightarrow> 0 < amount \<Longrightarrow> fetch_ok pos amount (t + 10 * int k) (fetch_loop k pos amount job)"
proof (induction k arbitrary: job t)
  case 0
  then obtain b where b: "job ! pos = Some b" unfolding slot_ok_def by blast
  with 0 slot_ok_take [OF 0(1) b] fetch_now [OF b 0(2), of 0] show ?case
    by (cases "0 < bk_token b") (simp_all add: fetch_ok_def mytbf_fetchtoken_def)
next
  case (Suc k)
  then obtain b where b: "job ! pos = Some b" unfolding slot_ok_def by blast
  from slot_ok_alarm [OF Suc.prems(1)] obtain job1 where job1: "alrm_handler job = Some job1" "slot_ok job1 pos (t + 10)" by blast
  from fetch_now [OF b Suc.prems(2), of "Suc k"] Suc.prems(2) job1(1)
  have loop: "fetch_loop (Suc k) pos amount job =
    (if 0 < bk_token b then Fetched (min (bk_token b) amount) (job[pos := Some (b\<lparr>bk_token := bk_token b - min (bk_token b) amount\<rparr>)]) (Suc k)
     else fetch_loop k pos amount job1)" by (simp add: mytbf_fetchtoken_def)
  show ?case
  proof (cases "0 < bk_token b")
    case True
    from slot_ok_mono [OF slot_ok_take [OF Suc.prems(1) b True Suc.prems(2)]] have
      "slot_ok (job[pos := Some (b\<lparr>bk_token := bk_token b - min (bk_token b) amount\<rparr>)]) pos (t + 10 * int (Suc k) - min (bk_token b) amount)"
      by simp
    with True Suc.prems(2) show ?thesis unfolding loop fetch_ok_def by simp
  next
    case False
    with Suc.IH [OF job1(2) Suc.prems(2)] show ?thesis unfolding loop by (simp add: algebra_simps)
  qed
qed

lemma slot_ok_return:
  assumes "slot_ok job pos t" "0 < amount" "amount \<le> 2000"
  shows "\<exists>job'. mytbf_returntoken pos amount job = Some (amount, job') \<and> slot_ok job' pos (t + amount)"
proof -
  from assms have "proper_op job (Return pos amount)" by (auto simp: slot_ok_def)
  from slot_ok_step [OF assms(1) this] assms(2) show ?thesis
    by (auto simp: allowance_def refills_in_def mytbf_returntoken_def Let_def split: option.splits if_splits)
qed

lemma slot_ok_nonneg: "slot_ok job pos t \<Longrightarrow> 0 \<le> t"
  unfolding slot_ok_def sound_table_def sound_bucket_def by fastforce

definition alarms_of :: "(nat \<times> nat) list \<Rightarrow> nat" where
  "alarms_of rounds = sum_list (map (\<lambda>(k, j). k + j) rounds)"

definition cat_bound :: "int \<Rightarrow> (cat_end \<times> string \<times> nat) option \<Rightarrow> bool" where
  "cat_bound t r \<longleftrightarrow> (\<exists>e out errs. r = Some (e, out, errs) \<and> int (length out) \<le> t + int errs)"

lemma tbf_round_return:
  assumes "slot_ok job pos t" "0 < n" "n \<le> 1024" "- 1 \<le> len" "len \<le> n"
  shows "\<exists>x job'. (if n - len > 0 then mytbf_returntoken pos (n - len) job else Some (0, job)) = Some (x, job')
    \<and> slot_ok job' pos (t + (n - len))"
proof (cases "n - len > 0")
  case True
  with slot_ok_return [OF assms(1), of "n - len"] assms show ?thesis by auto
next
  case False
  with assms show ?thesis by auto
qed

lemma cat_bound_write:
  assumes w: "write_loop ws buf 0 (length buf) = (e, out, r)" and "int (length buf) \<le> T"
    and rest: "cat_bound (T - int (length buf)) res"
  shows "cat_bound T (if e = W_blocked then Some (Cat_running, out, 0) else if e = W_failed then Some (Cat_exit, out, 0)
    else map_option (\<lambda>(e', out', errs). (e', out @ out', errs)) res)"
proof -
  from write_loop_length [OF w] have "int (length out) \<le> int (length buf)" by simp
  with assms show ?thesis by (auto simp: cat_bound_def)
qed

text \<open>What a round does with what it read, and the rounds after it.\<close>

lemma tbf_tail_bound:
  assumes len: "len = (case b of None \<Rightarrow> - 1 | Some buf \<Rightarrow> int (length buf))" "len \<le> T" "0 \<le> T"
    and rest: "\<And>rs r. cat_bound (T - len) (tbf_cat rounds rs r pos job)"
  shows "cat_bound T (if b = Some [] then Some (Cat_end, [], 0) else
    (case b of
       None \<Rightarrow> map_option (\<lambda>(e, out, errs). (e, out, Suc errs)) (tbf_cat rounds rs ws pos job)
     | Some buf \<Rightarrow>
         (case write_loop ws buf 0 (length buf) of (e, out, r) \<Rightarrow>
            if e = W_blocked then Some (Cat_running, out, 0)
            else if e = W_failed then Some (Cat_exit, out, 0)
            else map_option (\<lambda>(e', out', errs). (e', out @ out', errs)) (tbf_cat rounds rs r pos job))))"
proof (cases b)
  case None
  with rest [of rs ws] len(1) show ?thesis by (auto simp: cat_bound_def)
next
  case b: (Some buf)
  obtain e out r where w: "write_loop ws buf 0 (length buf) = (e, out, r)" by (cases "write_loop ws buf 0 (length buf)")
  from b len(1) have l: "len = int (length buf)" by simp
  from rest have "cat_bound (T - int (length buf)) (tbf_cat rounds rs r pos job)" by (simp only: l)
  from cat_bound_write [OF w _ this] l len(2,3) b show ?thesis by (simp add: w cat_bound_def)
qed

lemma tbf_cat_bound: "slot_ok job pos t \<Longrightarrow> cat_bound (t + 10 * int (alarms_of rounds)) (tbf_cat rounds rs ws pos job)"
proof (induction rounds arbitrary: rs ws job t)
  case Nil
  from slot_ok_nonneg [OF this] show ?case by (simp add: cat_bound_def alarms_of_def)
next
  case (Cons x rounds)
  obtain k j where x: "x = (k, j)" by (cases x)
  let ?T = "t + 10 * int (alarms_of (x # rounds))"
  have T: "?T = t + 10 * int k + 10 * int j + 10 * int (alarms_of rounds)" by (simp add: x alarms_of_def)
  have t: "0 \<le> t" by (rule slot_ok_nonneg [OF Cons.prems])
  have idle: "cat_bound ?T (Some (e, [], 0))" for e using t by (simp add: cat_bound_def)
  have f: "fetch_ok pos 1024 (t + 10 * int k) (mytbf_fetchtoken k pos (int CAT_BUFSIZE) job)"
    using slot_ok_fetch [OF Cons.prems, of 1024 k] by (simp add: mytbf_fetchtoken_def)
  show ?case
  proof (cases "mytbf_fetchtoken k pos (int CAT_BUFSIZE) job")
    case (Fetched n job1 left)
    with f have n: "0 < n" "n \<le> 1024" and job1: "slot_ok job1 pos (t + 10 * int k - n)" by (auto simp: fetch_ok_def)
    have n_le: "n \<le> ?T" using slot_ok_nonneg [OF job1] by (simp add: T)
    show ?thesis
    proof (cases "sized_read (nat n) rs")
      case None
      with Fetched x idle show ?thesis by simp
    next
      case (Some y)
      obtain b rs' where y: "y = (b, rs')" by (cases y)
      define len where "len = (case b of None \<Rightarrow> - 1 | Some buf \<Rightarrow> int (length buf))"
      have len: "- 1 \<le> len" "len \<le> n"
        using n sized_read_length [of "nat n" rs _ rs'] Some y by (auto simp: len_def split: option.splits)
      from slot_ok_alarms [OF job1, of j] obtain job2 where job2: "alarms_pass j job1 = Some job2"
        "slot_ok job2 pos (t + 10 * int k - n + 10 * int j)" by blast
      from tbf_round_return [OF job2(2) n len] obtain z job3 where
        ret: "(if n - len > 0 then mytbf_returntoken pos (n - len) job2 else Some (0, job2)) = Some (z, job3)"
        and job3: "slot_ok job3 pos (t + 10 * int k + 10 * int j - len)" by (auto simp: algebra_simps)
      have body: "tbf_cat (x # rounds) rs ws pos job = (if b = Some [] then Some (Cat_end, [], 0) else
          (case b of
             None \<Rightarrow> map_option (\<lambda>(e, out, errs). (e, out, Suc errs)) (tbf_cat rounds rs' ws pos job3)
           | Some buf \<Rightarrow>
               (case write_loop ws buf 0 (length buf) of (e, out, r) \<Rightarrow>
                  if e = W_blocked then Some (Cat_running, out, 0)
                  else if e = W_failed then Some (Cat_exit, out, 0)
                  else map_option (\<lambda>(e', out', errs). (e', out @ out', errs)) (tbf_cat rounds rs' r pos job3))))"
        using Fetched Some x y job2(1) ret by (simp add: Let_def len_def [symmetric])
      have "?T - len = t + 10 * int k + 10 * int j - len + 10 * int (alarms_of rounds)" using T by linarith
      with Cons.IH [OF job3] have "cat_bound (?T - len) (tbf_cat rounds rs r pos job3)" for rs r by (simp only:)
      from tbf_tail_bound [OF len_def _ _ this] len(2) n n_le show ?thesis unfolding body by simp
    qed
  qed (use f x idle in \<open>simp_all add: fetch_ok_def\<close>)
qed

definition tbf_start :: job_table where
  "tbf_start = snd (mytbf_init True 10 100 (replicate MYTBF_MAX None))"

text \<open>The bucket the program makes is in slot 0 of the fresh table.\<close>

lemma mytbf_init_fresh: "mytbf_init True cps burst (replicate (Suc n) None) = (Some 0, Some (new_bucket cps burst 0) # replicate n None)"
  by (simp add: mytbf_init_def get_free_pos_def)

lemma tbf_start_slot: "tbf_start = Some (new_bucket 10 100 0) # replicate 1023 None"
proof -
  have "MYTBF_MAX = Suc 1023" by simp
  then show ?thesis unfolding tbf_start_def by (metis mytbf_init_fresh snd_conv)
qed

lemma tbf_start_ok: "slot_ok tbf_start 0 0"
proof -
  have "sound_table tbf_start"
    unfolding tbf_start_slot sound_table_def
    by (auto simp: nth_Cons sound_bucket_def new_bucket_def split: nat.splits)
  then show ?thesis by (simp add: slot_ok_def tbf_start_slot new_bucket_def)
qed

text \<open>C22: The rate of the copy on a token bucket. Whatever the system answers, the program has no undefined behaviour
  and has written at most ten bytes per refill, plus one for every read that failed, after which it gives back
  one token more than it fetched.\<close>
theorem tbf_cat_rate:
  "\<exists>e out errs. tbf_cat rounds rs ws 0 tbf_start = Some (e, out, errs) \<and> length out \<le> 10 * alarms_of rounds + errs"
proof -
  from tbf_cat_bound [OF tbf_start_ok, of rounds rs ws] obtain e out errs where
    "tbf_cat rounds rs ws 0 tbf_start = Some (e, out, errs)" "int (length out) \<le> 10 * int (alarms_of rounds) + int errs"
    by (auto simp: cat_bound_def)
  then show ?thesis by auto
qed

end
