(* ===== verification/Copy_Main.thy ===== *)
theory Copy_Main
  imports Copy_Loops
begin

text \<open>
  The copying programs from their first line: the arguments, the timers, opening the files again and again while a
  signal interrupts it, and then the loops of \<open>Copy_Loops\<close>.
\<close>

section \<open>Opening the source\<close>

datatype open_answer = Op_ok | Op_eintr | Op_fail

text \<open>\<^verbatim>\<open>do ... while (sfd < 0)\<close>: \<open>None\<close> while it is still trying, otherwise whether the file is open.\<close>

fun open_retry :: "open_answer list \<Rightarrow> bool option" where
  "open_retry [] = None"
| "open_retry (Op_ok # opens) = Some True"
| "open_retry (Op_eintr # opens) = open_retry opens"
| "open_retry (Op_fail # opens) = Some False"

lemma open_retry_replicate: "open_retry (replicate n Op_eintr @ opens) = open_retry opens"
  by (induction n) auto

definition cat_start :: "nat \<Rightarrow> open_answer list \<Rightarrow> cat_end \<times> string \<Rightarrow> cat_end \<times> string" where
  "cat_start argc opens body =
     (if argc < 2 then (Cat_exit, [])
      else case open_retry opens of
        None \<Rightarrow> (Cat_running, [])
      | Some ok \<Rightarrow> if \<not> ok then (Cat_exit, []) else body)"

section \<open>The programs\<close>

definition mycat_main :: "nat \<Rightarrow> open_answer list \<Rightarrow> rd list \<Rightarrow> wr list \<Rightarrow> cat_end \<times> string" where
  "mycat_main argc opens rs ws = cat_start argc opens (mycat rs ws)"

definition mycpy_main :: "nat \<Rightarrow> bool \<Rightarrow> bool \<Rightarrow> rd list \<Rightarrow> wr list \<Rightarrow> cat_end \<times> string" where
  "mycpy_main argc open1 open2 rs ws =
     (if argc < 3 then (Cat_exit, [])
      else if \<not> open1 then (Cat_exit, [])
      else if \<not> open2 then (Cat_exit, [])
      else mycpy rs ws)"

text \<open>\<^verbatim>\<open>slowcat\<close> arms its interval timer before it opens the file.\<close>

definition slowcat_main :: "nat \<Rightarrow> bool \<Rightarrow> open_answer list \<Rightarrow> nat \<Rightarrow> rd list \<Rightarrow> wr list \<Rightarrow> cat_end \<times> string" where
  "slowcat_main argc timer_ok opens alarms rs ws =
     (if argc < 2 then (Cat_exit, [])
      else if \<not> timer_ok then (Cat_exit, [])
      else cat_start argc opens (slowcat alarms rs ws))"

text \<open>The handler of \<^verbatim>\<open>slowcat2\<close>.\<close>

abbreviation TOKEN_BURST :: int where "TOKEN_BURST \<equiv> 100"

definition token_alrm :: "int \<Rightarrow> int" where
  "token_alrm token = (if token + 1 > TOKEN_BURST then TOKEN_BURST else token + 1)"

definition slowcat2_main :: "nat \<Rightarrow> open_answer list \<Rightarrow> nat \<Rightarrow> string \<Rightarrow> rd list \<Rightarrow> wr list \<Rightarrow> cat_end \<times> string" where
  "slowcat2_main argc opens tokens buf rs ws = cat_start argc opens (slowcat2 tokens buf rs ws)"

text \<open>The bucket is made before the file is opened, and destroyed when the loop ends.\<close>

definition tbf_main :: "nat \<Rightarrow> bool \<Rightarrow> open_answer list \<Rightarrow> (nat \<times> nat) list \<Rightarrow> rd list \<Rightarrow> wr list
    \<Rightarrow> (cat_end \<times> string \<times> nat) option" where
  "tbf_main argc alloc_ok opens rounds rs ws =
     (if argc < 2 then Some (Cat_exit, [], 0)
      else case mytbf_init alloc_ok 10 100 (replicate MYTBF_MAX None) of
        (None, job) \<Rightarrow> Some (Cat_exit, [], 0)
      | (Some pos, job) \<Rightarrow>
          (case open_retry opens of
             None \<Rightarrow> Some (Cat_running, [], 0)
           | Some ok \<Rightarrow> if \<not> ok then Some (Cat_exit, [], 0) else tbf_cat rounds rs ws pos job))"

section \<open>Results\<close>

text \<open>\<^verbatim>\<open>mycat\<close> writes the beginning of its file at any time, and all of it when it ends.\<close>

lemma mycat_main_copies:
  assumes "mycat_main argc opens rs ws = (e, out)" "Wr_fail \<notin> set ws"
  shows "out = take (length out) (delivered rs) \<and> (e = Cat_end \<longrightarrow> out = delivered rs)"
  using assms mycat_copies [of rs ws e out]
  by (auto simp: mycat_main_def cat_start_def split: if_splits option.splits)

lemma mycat_main_interrupted:
  "2 \<le> argc \<Longrightarrow> mycat_main argc (replicate n Op_eintr @ Op_ok # opens) rs ws = mycat rs ws"
  by (simp add: mycat_main_def cat_start_def open_retry_replicate)

lemma slowcat_main_rate: "length (snd (slowcat_main argc timer_ok opens alarms rs ws)) \<le> CAT_CPS * alarms"
  using slowcat_rate [of alarms rs ws] by (auto simp: slowcat_main_def cat_start_def split: option.splits)

lemma token_alrm_range: "0 \<le> token \<Longrightarrow> token \<le> TOKEN_BURST \<Longrightarrow> 0 < token_alrm token \<and> token_alrm token \<le> TOKEN_BURST"
  by (simp add: token_alrm_def)

lemma slowcat2_main_copies_nothing: "Rd_fail \<notin> set rs \<Longrightarrow> snd (slowcat2_main argc opens tokens buf rs ws) = []"
  using slowcat2_copies_nothing [of rs tokens buf ws] by (auto simp: slowcat2_main_def cat_start_def split: option.splits)

text \<open>The rate of the token bucket, for the whole program and whatever fails.\<close>

lemma tbf_main_rate:
  "\<exists>e out errs. tbf_main argc alloc_ok opens rounds rs ws = Some (e, out, errs)
     \<and> int (length out) \<le> 10 * int (alarms_of rounds) + int errs"
proof (cases "mytbf_init alloc_ok 10 100 (replicate MYTBF_MAX None)")
  case (Pair p job)
  have "p = Some 0 \<and> job = tbf_start" if "p \<noteq> None"
  proof -
    from that Pair have "alloc_ok" by (auto simp: mytbf_init_def split: if_splits option.splits)
    moreover have "MYTBF_MAX = Suc 1023" by simp
    ultimately show ?thesis using Pair tbf_start_slot mytbf_init_fresh [of 10 100 1023] by (metis prod.inject)
  qed
  with Pair tbf_cat_bound [OF tbf_start_ok, of rounds rs ws] show ?thesis
    by (cases p) (auto simp: tbf_main_def cat_bound_def split: option.splits)
qed

end
