(* ===== verification/Any_Timer.thy ===== *)
theory Any_Timer
  imports C_Prelude
begin

text \<open>
  The timer library driven by SIGALRM (\<^verbatim>\<open>apue/para/signal/anytimer/anytimer.c\<close>) and the data it shares with
  the threaded one (\<^verbatim>\<open>anytimer_mt\<close>, in the theory \<open>Any_Timer_Mt\<close>). A timer lives in its slot of the table.
  Callbacks are values of a type parameter; calling one is recorded in a log together with the number of the
  allocation (\<open>tm_block\<close>, the identity of the \<^verbatim>\<open>struct timer_st\<close>). An execution is a sequence of atomic
  operations: an alarm does not interrupt a client operation in its middle, callbacks do not call the library
  back, and a timer is waited for once at a time. The state \<open>Executing\<close> occurs in the threaded version only.
\<close>

abbreviation JOB_MAX :: nat where "JOB_MAX \<equiv> 1024"
abbreviation AT_EINVAL :: int where "AT_EINVAL \<equiv> 22"
abbreviation AT_ENOSPC :: int where "AT_ENOSPC \<equiv> 28"
abbreviation AT_ENOMEM :: int where "AT_ENOMEM \<equiv> 12"
abbreviation AT_ECANCELED :: int where "AT_ECANCELED \<equiv> 125"
abbreviation AT_EBUSY :: int where "AT_EBUSY \<equiv> 16"

section \<open>Data\<close>

datatype timer_state = Running | Executing | Over | Canceled

record 'f timer_st =
  tm_sec :: int
  tm_func :: 'f
  tm_flag :: timer_state
  tm_block :: nat

type_synonym 'f timer_table = "'f timer_st option list"

record 'f timer_lib =
  at_job :: "'f timer_table"
  at_next :: nat
  at_log :: "(nat \<times> 'f) list"

section \<open>The signal handler\<close>

fun alrm_pass :: "'f timer_table \<Rightarrow> 'f timer_table \<times> (nat \<times> 'f) list" where
  "alrm_pass [] = ([], [])"
| "alrm_pass (None # js) = (let (js', l) = alrm_pass js in (None # js', l))"
| "alrm_pass (Some t # js) =
     (let (js', l) = alrm_pass js in
      if tm_flag t \<noteq> Running then (Some t # js', l)
      else let t' = t\<lparr>tm_sec := tm_sec t - 1\<rparr> in
        if tm_sec t' \<le> 0 then (Some (t'\<lparr>tm_flag := Over\<rparr>) # js', (tm_block t, tm_func t) # l)
        else (Some t' # js', l))"

definition at_alarm :: "'f timer_lib \<Rightarrow> 'f timer_lib" where
  "at_alarm s = (let (js, l) = alrm_pass (at_job s) in s\<lparr>at_job := js, at_log := at_log s @ l\<rparr>)"

section \<open>The clients' operations\<close>

definition at_free_pos :: "'f timer_table \<Rightarrow> nat option" where
  "at_free_pos job = scan_free (\<lambda>j. j = None) job"

interpretation timers: slot_table at_free_pos "\<lambda>j. j = None"
  unfolding at_free_pos_def by (rule scan_free_slot_table)

definition new_timer :: "int \<Rightarrow> 'f \<Rightarrow> nat \<Rightarrow> 'f timer_st" where
  "new_timer sec f n = \<lparr>tm_sec = sec, tm_func = f, tm_flag = Running, tm_block = n\<rparr>"

text \<open>\<open>alloc_ok\<close>: whether \<^verbatim>\<open>malloc\<close> succeeds; \<open>func = None\<close> is the NULL pointer.\<close>

definition at_addtimer :: "bool \<Rightarrow> int \<Rightarrow> 'f option \<Rightarrow> 'f timer_lib \<Rightarrow> int \<times> 'f timer_lib" where
  "at_addtimer alloc_ok sec func s =
     (case func of
        None \<Rightarrow> (- AT_EINVAL, s)
      | Some f \<Rightarrow>
          if sec < 0 then (- AT_EINVAL, s)
          else case at_free_pos (at_job s) of
            None \<Rightarrow> (- AT_ENOSPC, s)
          | Some pos \<Rightarrow>
              if \<not> alloc_ok then (- AT_ENOMEM, s)
              else (int pos, s\<lparr>at_job := (at_job s)[pos := Some (new_timer sec f (at_next s))], at_next := at_next s + 1\<rparr>))"

definition timer_at :: "int \<Rightarrow> 'f timer_lib \<Rightarrow> 'f timer_st option" where
  "timer_at i s = (if i < 0 \<or> i \<ge> int (length (at_job s)) then None else at_job s ! nat i)"

definition at_canceltimer :: "int \<Rightarrow> 'f timer_lib \<Rightarrow> int \<times> 'f timer_lib" where
  "at_canceltimer i s =
     (case timer_at i s of
        None \<Rightarrow> (- AT_EINVAL, s)
      | Some t \<Rightarrow>
          if tm_flag t = Canceled then (- AT_ECANCELED, s)
          else if tm_flag t = Over then (- AT_EBUSY, s)
          else (0, s\<lparr>at_job := (at_job s)[nat i := Some (t\<lparr>tm_flag := Canceled\<rparr>)]\<rparr>))"

text \<open>The first component is \<open>None\<close> while the wait is not over after the given number of alarms.\<close>

fun at_waitttimer_loop :: "nat \<Rightarrow> int \<Rightarrow> 'f timer_lib \<Rightarrow> int option \<times> 'f timer_lib" where
  "at_waitttimer_loop k i s =
     (case timer_at i s of
        None \<Rightarrow> (None, s)
      | Some t \<Rightarrow>
          if tm_flag t = Running then
            (case k of 0 \<Rightarrow> (None, s) | Suc m \<Rightarrow> at_waitttimer_loop m i (at_alarm s))
          else (Some 0, s\<lparr>at_job := (at_job s)[nat i := None]\<rparr>))"

declare at_waitttimer_loop.simps [simp del]

definition at_waitttimer :: "nat \<Rightarrow> int \<Rightarrow> 'f timer_lib \<Rightarrow> int option \<times> 'f timer_lib" where
  "at_waitttimer k i s = (if timer_at i s = None then (Some (- AT_EINVAL), s) else at_waitttimer_loop k i s)"

section \<open>Interleavings of the signal version\<close>

datatype 'f at_op = AtAlarm | AtAdd bool int "'f option" | AtCancel int | AtWait int

fun at_step :: "'f at_op \<Rightarrow> 'f timer_lib \<Rightarrow> 'f timer_lib" where
  "at_step AtAlarm s = at_alarm s"
| "at_step (AtAdd ok sec f) s = snd (at_addtimer ok sec f s)"
| "at_step (AtCancel i) s = snd (at_canceltimer i s)"
| "at_step (AtWait i) s = snd (at_waitttimer 0 i s)"

fun at_run :: "'f at_op list \<Rightarrow> 'f timer_lib \<Rightarrow> 'f timer_lib" where
  "at_run [] s = s"
| "at_run (x # xs) s = at_run xs (at_step x s)"

definition alarms_in :: "'f at_op list \<Rightarrow> nat" where
  "alarms_in ops = length (filter (\<lambda>x. x = AtAlarm) ops)"

text \<open>What a timer of \<open>sec\<close> seconds is after \<open>k\<close> alarms, and how often it was called.\<close>

definition after_alarms :: "nat \<Rightarrow> 'f timer_st \<Rightarrow> 'f timer_st" where
  "after_alarms k t =
     (if int k < max 1 (tm_sec t) then t\<lparr>tm_sec := tm_sec t - int k\<rparr>
      else t\<lparr>tm_sec := min (tm_sec t - 1) 0, tm_flag := Over\<rparr>)"

definition calls_of :: "nat \<Rightarrow> 'f timer_lib \<Rightarrow> (nat \<times> 'f) list" where
  "calls_of n s = filter (\<lambda>c. fst c = n) (at_log s)"

definition block_at :: "'f timer_lib \<Rightarrow> nat \<Rightarrow> nat option" where
  "block_at s i = (if i < length (at_job s) then map_option tm_block (at_job s ! i) else None)"

definition distinct_timers :: "'f timer_lib \<Rightarrow> bool" where
  "distinct_timers s \<longleftrightarrow>
     (\<forall>i j n. block_at s i = Some n \<longrightarrow> block_at s j = Some n \<longrightarrow> i = j)
     \<and> (\<forall>i n. block_at s i = Some n \<longrightarrow> n < at_next s)
     \<and> (\<forall>c \<in> set (at_log s). fst c < at_next s)"

lemma length_alrm_pass [simp]: "length (fst (alrm_pass job)) = length job"
  by (induction job rule: alrm_pass.induct) (auto simp: Let_def split: prod.splits)

definition tick_timer :: "'f timer_st \<Rightarrow> 'f timer_st" where
  "tick_timer t = (if tm_flag t = Running then after_alarms 1 t else t)"

definition fires :: "'f timer_st \<Rightarrow> bool" where
  "fires t \<longleftrightarrow> tm_flag t = Running \<and> tm_sec t \<le> 1"

lemma alrm_pass_table: "fst (alrm_pass job) = map (map_option tick_timer) job"
  by (induction job rule: alrm_pass.induct)
    (auto simp: Let_def tick_timer_def after_alarms_def max_def min_def split: prod.splits)

lemma alrm_pass_log:
  "snd (alrm_pass job) = concat (map (\<lambda>j. case j of None \<Rightarrow> [] | Some t \<Rightarrow> if fires t then [(tm_block t, tm_func t)] else []) job)"
  by (induction job rule: alrm_pass.induct) (auto simp: Let_def fires_def split: prod.splits)

lemma filter_concat_single:
  "i < length xs \<Longrightarrow> (\<And>k. k < length xs \<Longrightarrow> k \<noteq> i \<Longrightarrow> filter P (g (xs ! k)) = []) \<Longrightarrow>
   filter P (concat (map g xs)) = filter P (g (xs ! i))"
proof (induction xs arbitrary: i)
  case (Cons x xs)
  show ?case
  proof (cases i)
    case 0
    have "filter P (g y) = []" if "y \<in> set xs" for y
    proof -
      from that obtain k where "k < length xs" "y = xs ! k" by (auto simp: in_set_conv_nth)
      with Cons.prems(2) [of "Suc k"] 0 show ?thesis by simp
    qed
    then have "filter P (concat (map g xs)) = []" by (auto simp: filter_empty_conv)
    with 0 show ?thesis by simp
  next
    case (Suc j)
    with Cons.prems(2) [of 0] have "filter P (g x) = []" by simp
    moreover have "filter P (concat (map g xs)) = filter P (g (xs ! j))"
      using Cons.IH [of j] Cons.prems(1) Cons.prems(2) [of "Suc k" for k] Suc by auto
    ultimately show ?thesis using Suc by simp
  qed
qed simp

section \<open>The timing of the signal version\<close>

lemma tm_block_tick [simp]: "tm_block (tick_timer t) = tm_block t" "tm_func (tick_timer t) = tm_func t"
  by (simp_all add: tick_timer_def after_alarms_def)

lemma at_alarm_sel:
  "at_job (at_alarm s) = map (map_option tick_timer) (at_job s)"
  "at_next (at_alarm s) = at_next s"
  "at_log (at_alarm s) = at_log s @ snd (alrm_pass (at_job s))"
  by (simp_all add: at_alarm_def case_prod_unfold Let_def alrm_pass_table)

lemma alrm_pass_log_blocks:
  "c \<in> set (snd (alrm_pass job)) \<Longrightarrow> \<exists>i t. i < length job \<and> job ! i = Some t \<and> fires t \<and> c = (tm_block t, tm_func t)"
  by (auto simp: alrm_pass_log in_set_conv_nth split: option.splits if_splits) fastforce

lemma block_atI: "i < length (at_job s) \<Longrightarrow> at_job s ! i = Some t \<Longrightarrow> block_at s i = Some (tm_block t)"
  by (simp add: block_at_def)

lemma at_alarm_calls:
  assumes "distinct_timers s" "i < length (at_job s)" "at_job s ! i = Some t"
  shows "calls_of (tm_block t) (at_alarm s) = calls_of (tm_block t) s @ (if fires t then [(tm_block t, tm_func t)] else [])"
proof -
  have other: "tm_block u \<noteq> tm_block t" if "k < length (at_job s)" "k \<noteq> i" "at_job s ! k = Some u" for k u
    using assms that block_atI unfolding distinct_timers_def by metis
  have "filter (\<lambda>c. fst c = tm_block t) (snd (alrm_pass (at_job s))) = (if fires t then [(tm_block t, tm_func t)] else [])"
    unfolding alrm_pass_log using assms other
    by (subst filter_concat_single [where i = i]) (auto split: option.splits)
  then show ?thesis by (simp add: calls_of_def at_alarm_sel)
qed

text \<open>Freeing slots and keeping timers in their slots keeps the identities apart.\<close>

lemma distinct_timers_shrink:
  assumes "distinct_timers s" "\<And>k n. block_at s' k = Some n \<Longrightarrow> block_at s k = Some n"
    and "at_next s' = at_next s" "\<And>c. c \<in> set (at_log s') \<Longrightarrow> c \<in> set (at_log s) \<or> (\<exists>k. block_at s k = Some (fst c))"
  shows "distinct_timers s'"
proof -
  have "fst c < at_next s'" if "c \<in> set (at_log s')" for c
    using assms(1) assms(4) [OF that] unfolding distinct_timers_def assms(3) by blast
  with assms(1,2,3) show ?thesis unfolding distinct_timers_def by metis
qed

lemma block_at_alarm [simp]: "block_at (at_alarm s) k = block_at s k"
  by (auto simp: block_at_def at_alarm_sel option.map_comp comp_def intro: option.map_cong0)

lemma distinct_timers_alarm:
  assumes "distinct_timers s"
  shows "distinct_timers (at_alarm s)"
proof (rule distinct_timers_shrink [OF assms])
  fix c
  assume "c \<in> set (at_log (at_alarm s))"
  then show "c \<in> set (at_log s) \<or> (\<exists>k. block_at s k = Some (fst c))"
    using alrm_pass_log_blocks [of c "at_job s"] block_atI by (fastforce simp: at_alarm_sel)
qed (simp_all add: at_alarm_sel)

lemma block_at_update:
  "block_at (s\<lparr>at_job := (at_job s)[i := x]\<rparr>) k =
     (if k = i \<and> i < length (at_job s) then map_option tm_block x else block_at s k)"
  by (auto simp: block_at_def nth_list_update)

lemma distinct_timers_update:
  assumes "distinct_timers s" "\<And>t. x = Some t \<Longrightarrow> block_at s i = Some (tm_block t)"
  shows "distinct_timers (s\<lparr>at_job := (at_job s)[i := x]\<rparr>)"
  using assms(2) by (intro distinct_timers_shrink [OF assms(1)]) (auto simp: block_at_update split: if_splits)

lemma distinct_timers_new:
  assumes "distinct_timers s" "tm_block t = at_next s"
  shows "distinct_timers (s\<lparr>at_job := (at_job s)[i := Some t], at_next := Suc (at_next s)\<rparr>)"
proof -
  let ?s = "s\<lparr>at_job := (at_job s)[i := Some t], at_next := Suc (at_next s)\<rparr>"
  have b: "block_at ?s k = (if k = i \<and> i < length (at_job s) then Some (at_next s) else block_at s k)" for k
    using assms(2) by (auto simp: block_at_def nth_list_update)
  have "k = j" if "block_at ?s k = Some n" "block_at ?s j = Some n" for k j n
    using that assms(1) unfolding b distinct_timers_def by (metis less_irrefl option.inject)
  moreover have "n < at_next ?s" if "block_at ?s k = Some n" for k n
    using that assms(1) unfolding b distinct_timers_def by (auto simp: less_Suc_eq split: if_splits)
  moreover have "\<forall>c \<in> set (at_log ?s). fst c < at_next ?s"
    using assms(1) by (auto simp: distinct_timers_def less_Suc_eq)
  ultimately show ?thesis unfolding distinct_timers_def by blast
qed

lemma at_addtimer_cases:
  obtains code where "at_addtimer ok sec f s = (code, s)" "code < 0"
  | pos g where "pos < length (at_job s)" "at_job s ! pos = None" "f = Some g" "0 \<le> sec"
      "at_addtimer ok sec f s = (int pos, s\<lparr>at_job := (at_job s)[pos := Some (new_timer sec g (at_next s))], at_next := Suc (at_next s)\<rparr>)"
  using timers.free_pos_SomeD [of "at_job s"]
  by (cases f; cases "at_free_pos (at_job s)"; cases ok; cases "sec < 0") (auto simp: at_addtimer_def)

lemma at_canceltimer_cases:
  obtains code where "at_canceltimer i s = (code, s)" "code < 0"
  | t where "timer_at i s = Some t" "tm_flag t \<noteq> Canceled" "tm_flag t \<noteq> Over"
      "at_canceltimer i s = (0, s\<lparr>at_job := (at_job s)[nat i := Some (t\<lparr>tm_flag := Canceled\<rparr>)]\<rparr>)"
proof (cases "timer_at i s")
  case (Some t)
  then show thesis using that by (cases "tm_flag t") (auto simp: at_canceltimer_def)
qed (use that in \<open>auto simp: at_canceltimer_def\<close>)

lemma at_wait_now:
  "at_waitttimer 0 i s =
     (case timer_at i s of
        None \<Rightarrow> (Some (- AT_EINVAL), s)
      | Some t \<Rightarrow> if tm_flag t = Running then (None, s) else (Some 0, s\<lparr>at_job := (at_job s)[nat i := None]\<rparr>))"
  by (auto simp: at_waitttimer_def at_waitttimer_loop.simps [of 0] split: option.splits)

lemma timer_at_SomeD: "timer_at i s = Some t \<Longrightarrow> 0 \<le> i \<and> nat i < length (at_job s) \<and> at_job s ! nat i = Some t"
  by (auto simp: timer_at_def split: if_splits)

lemma distinct_timers_step:
  assumes "distinct_timers s"
  shows "distinct_timers (at_step x s)"
proof (cases x)
  case AtAlarm
  with assms show ?thesis by (simp add: distinct_timers_alarm)
next
  case (AtAdd ok sec f)
  with assms show ?thesis
    by (cases rule: at_addtimer_cases [of ok sec f s]) (auto simp: distinct_timers_new new_timer_def)
next
  case (AtCancel i)
  with assms show ?thesis
    by (cases rule: at_canceltimer_cases [of i s])
      (auto dest!: timer_at_SomeD intro!: distinct_timers_update simp: block_atI)
next
  case (AtWait i)
  with assms show ?thesis
    by (auto simp: at_wait_now intro!: distinct_timers_update split: option.splits)
qed

text \<open>Operations on other slots leave a timer and its log alone.\<close>

lemma at_step_other:
  assumes "i < length (at_job s)" "at_job s ! i = Some t" "x \<noteq> AtAlarm" "x \<noteq> AtCancel (int i)" "x \<noteq> AtWait (int i)"
  shows "at_job (at_step x s) ! i = Some t" "at_log (at_step x s) = at_log s"
    "length (at_job (at_step x s)) = length (at_job s)"
proof -
  have "at_job (at_step x s) ! i = Some t \<and> at_log (at_step x s) = at_log s \<and> length (at_job (at_step x s)) = length (at_job s)"
  proof (cases x)
    case (AtAdd ok sec f)
    with assms show ?thesis
      by (cases rule: at_addtimer_cases [of ok sec f s]) (auto simp: nth_list_update)
  next
    case (AtCancel k)
    with assms show ?thesis
      by (cases rule: at_canceltimer_cases [of k s]) (auto dest!: timer_at_SomeD simp: nth_list_update)
  next
    case (AtWait k)
    with assms show ?thesis
      by (auto simp: at_wait_now nth_list_update dest!: timer_at_SomeD split: option.splits)
  qed (use assms in simp)
  then show "at_job (at_step x s) ! i = Some t" "at_log (at_step x s) = at_log s"
    "length (at_job (at_step x s)) = length (at_job s)" by simp_all
qed

lemma after_alarms_Suc: "tm_flag t = Running \<Longrightarrow> after_alarms (Suc k) t = tick_timer (after_alarms k t)"
  by (cases t) (auto simp: after_alarms_def tick_timer_def max_def min_def)

lemma fires_after: "tm_flag t = Running \<Longrightarrow> fires (after_alarms k t) \<longleftrightarrow> Suc k = nat (max 1 (tm_sec t))"
  by (cases t) (auto simp: after_alarms_def fires_def max_def)

definition called_after :: "nat \<Rightarrow> 'f timer_st \<Rightarrow> (nat \<times> 'f) list" where
  "called_after k t = (if max 1 (tm_sec t) \<le> int k then [(tm_block t, tm_func t)] else [])"

lemma after_alarms_sel [simp]: "tm_block (after_alarms k t) = tm_block t" "tm_func (after_alarms k t) = tm_func t"
  by (simp_all add: after_alarms_def)

lemma at_step_timer:
  assumes "distinct_timers s" "i < length (at_job s)" "tm_flag t = Running"
    and at: "at_job s ! i = Some (after_alarms k t)" and calls: "calls_of (tm_block t) s = called_after k t"
    and "x \<noteq> AtCancel (int i)" "x \<noteq> AtWait (int i)"
  shows "at_job (at_step x s) ! i = Some (after_alarms (alarms_in [x] + k) t)
    \<and> calls_of (tm_block t) (at_step x s) = called_after (alarms_in [x] + k) t \<and> i < length (at_job (at_step x s))"
proof (cases "x = AtAlarm")
  case True
  have "calls_of (tm_block t) (at_alarm s) = called_after (Suc k) t"
    using at_alarm_calls [OF assms(1,2) at] calls fires_after [OF assms(3), of k]
    by (auto simp: called_after_def)
  with True assms show ?thesis by (simp add: at_alarm_sel after_alarms_Suc alarms_in_def)
next
  case False
  from at_step_other [OF assms(2) at False assms(6,7)] False assms(2) calls show ?thesis
    by (simp add: calls_of_def alarms_in_def)
qed

lemma at_run_timer:
  assumes "distinct_timers s" "i < length (at_job s)" "tm_flag t = Running"
    and "at_job s ! i = Some (after_alarms k t)" "calls_of (tm_block t) s = called_after k t"
    and "AtCancel (int i) \<notin> set ops" "AtWait (int i) \<notin> set ops"
  shows "at_job (at_run ops s) ! i = Some (after_alarms (alarms_in ops + k) t)
    \<and> calls_of (tm_block t) (at_run ops s) = called_after (alarms_in ops + k) t"
  using assms
proof (induction ops arbitrary: s k)
  case (Cons x ops)
  have "alarms_in (x # ops) = alarms_in ops + alarms_in [x]" by (simp add: alarms_in_def)
  moreover from Cons.prems(6,7) have other: "x \<noteq> AtCancel (int i)" "x \<noteq> AtWait (int i)"
    "AtCancel (int i) \<notin> set ops" "AtWait (int i) \<notin> set ops" by auto
  note step = at_step_timer [OF Cons.prems(1-5) other(1,2)]
  moreover from Cons.IH [OF distinct_timers_step [OF Cons.prems(1)] _ Cons.prems(3) _ _ other(3,4)] step
  have "at_job (at_run ops (at_step x s)) ! i = Some (after_alarms (alarms_in ops + (alarms_in [x] + k)) t)
    \<and> calls_of (tm_block t) (at_run ops (at_step x s)) = called_after (alarms_in ops + (alarms_in [x] + k)) t"
    by blast
  ultimately show ?case by (simp add: add.assoc)
qed (simp add: alarms_in_def)

text \<open>C18: A timer fires exactly once, at the right alarm. Starting from a running timer that has not been
  called, and whatever other timers are added, canceled or waited for in between, its callback has been called
  exactly once if at least \<open>max 1 sec\<close> alarms have come, and not at all before; the timer is then over.\<close>
theorem timer_fires_exactly_once:
  assumes "distinct_timers s" "i < length (at_job s)" "at_job s ! i = Some t" "tm_flag t = Running"
    and "calls_of (tm_block t) s = []" "AtCancel (int i) \<notin> set ops" "AtWait (int i) \<notin> set ops"
  shows "calls_of (tm_block t) (at_run ops s) = (if max 1 (tm_sec t) \<le> int (alarms_in ops) then [(tm_block t, tm_func t)] else [])
    \<and> (\<exists>t'. at_job (at_run ops s) ! i = Some t' \<and> tm_flag t' = (if max 1 (tm_sec t) \<le> int (alarms_in ops) then Over else Running))"
proof -
  have "after_alarms 0 t = t" "called_after 0 t = []" by (simp_all add: after_alarms_def called_after_def)
  with at_run_timer [OF assms(1,2,4), of 0 ops] assms(3,5,6,7)
  have "at_job (at_run ops s) ! i = Some (after_alarms (alarms_in ops) t)"
    "calls_of (tm_block t) (at_run ops s) = called_after (alarms_in ops) t" by simp_all
  with assms(4) show ?thesis by (auto simp: called_after_def after_alarms_def)
qed

definition example_lib :: "string timer_lib" where
  "example_lib = \<lparr>at_job = [None, Some (new_timer 2 ''f1'' 0), None], at_next = 1, at_log = []\<rparr>"

theorem timer_fires_exactly_once_witness:
  "calls_of 0 (at_run [AtAdd True 1 (Some ''f2''), AtAlarm, AtCancel 0, AtAlarm, AtAlarm] example_lib) = [(0, ''f1'')]"
proof -
  have b: "block_at example_lib i = (if i = 1 then Some 0 else None)" for i
    by (auto simp: block_at_def example_lib_def new_timer_def nth_Cons' numeral_2_eq_2 numeral_3_eq_3 less_Suc_eq)
  have "distinct_timers example_lib"
    unfolding distinct_timers_def b by (auto simp: example_lib_def split: if_splits)
  from timer_fires_exactly_once [OF this, of 1 "new_timer 2 ''f1'' 0"
      "[AtAdd True 1 (Some ''f2''), AtAlarm, AtCancel 0, AtAlarm, AtAlarm]"]
  show ?thesis by (simp add: example_lib_def new_timer_def calls_of_def alarms_in_def)
qed

text \<open>A timer that is not running is never called again.\<close>

lemma canceled_never_called:
  assumes "distinct_timers s" "i < length (at_job s)" "at_job s ! i = Some t" "tm_flag t \<noteq> Running"
    and "AtWait (int i) \<notin> set ops"
  shows "calls_of (tm_block t) (at_run ops s) = calls_of (tm_block t) s"
  using assms
proof (induction ops arbitrary: s t)
  case (Cons x ops)
  have "\<exists>u. at_job (at_step x s) ! i = Some u \<and> tm_flag u \<noteq> Running \<and> tm_block u = tm_block t
    \<and> i < length (at_job (at_step x s)) \<and> calls_of (tm_block t) (at_step x s) = calls_of (tm_block t) s"
  proof (cases "x = AtAlarm \<or> x = AtCancel (int i)")
    case True
    with Cons.prems at_alarm_calls [OF Cons.prems(1-3)] show ?thesis
      by (cases rule: at_canceltimer_cases [of "int i" s])
        (auto simp: at_alarm_sel tick_timer_def fires_def calls_of_def dest!: timer_at_SomeD)
  next
    case False
    with at_step_other [OF Cons.prems(2,3), of x] Cons.prems show ?thesis by (auto simp: calls_of_def)
  qed
  with Cons.IH [OF distinct_timers_step [OF Cons.prems(1)]] Cons.prems(5) show ?case by fastforce
qed simp

text \<open>A wait returns after at most \<open>max 1 sec\<close> alarms and frees the slot.\<close>

lemma at_waitttimer_loop_returns:
  assumes "i < length (at_job s)" "at_job s ! i = Some t" "tm_flag t \<noteq> Executing" "nat (max 1 (tm_sec t)) \<le> k"
  shows "\<exists>s'. at_waitttimer_loop k (int i) s = (Some 0, s') \<and> at_job s' ! i = None"
  using assms
proof (induction k arbitrary: s t)
  case (Suc k)
  show ?case
  proof (cases "tm_flag t = Running")
    case False
    with Suc.prems show ?thesis by (simp add: at_waitttimer_loop.simps [of "Suc k"] timer_at_def)
  next
    case True
    have next_slot: "i < length (at_job (at_alarm s))" "at_job (at_alarm s) ! i = Some (tick_timer t)"
      using Suc.prems by (simp_all add: at_alarm_sel)
    show ?thesis
    proof (cases "tm_sec t \<le> 1")
      case over: True
      with True have "tm_flag (tick_timer t) = Over" by (simp add: tick_timer_def after_alarms_def)
      with next_slot True Suc.prems show ?thesis
        by (simp add: at_waitttimer_loop.simps [of "Suc k"] at_waitttimer_loop.simps [of k] timer_at_def)
    next
      case False
      with True Suc.prems have "tm_flag (tick_timer t) \<noteq> Executing" "nat (max 1 (tm_sec (tick_timer t))) \<le> k"
        by (auto simp: tick_timer_def after_alarms_def max_def)
      from Suc.IH [OF next_slot this] True Suc.prems show ?thesis
        by (simp add: at_waitttimer_loop.simps [of "Suc k"] timer_at_def)
    qed
  qed
qed simp

end
