(* ===== verification/Any_Timer_Mt.thy ===== *)
theory Any_Timer_Mt
  imports Any_Timer
begin

text \<open>
  The threaded timer library (\<^verbatim>\<open>apue/para/thread/posix/anytimer_mt/anytimer.c\<close>). The handler thread is a
  program counter: asleep, about to visit a slot, or in the callback of a slot's timer with every lock
  released. One step of it is a section between two lock operations; a client operation is atomic under
  \<^verbatim>\<open>mut_job\<close>, except the wait, which gives all locks back between its loop and the release of the timer
  (\<open>mt_pending\<close> are the slots and timers of the waits between the two). The locks exclude some of the interleavings allowed here (clients between two visits), so
  that what holds in all of these sequences holds in the program. \<open>None\<close> is the dereference of a freed timer.
\<close>

section \<open>State and handler thread\<close>

datatype handler_pc = Sleeping | Visit nat | Calling nat nat

record 'f mt_lib = "'f timer_lib" +
  mt_pc :: handler_pc
  mt_pending :: "(nat \<times> nat) list"

definition mt_lib_init :: "nat \<Rightarrow> 'f mt_lib" where
  "mt_lib_init n = \<lparr>at_job = replicate n None, at_next = 0, at_log = [], mt_pc = Sleeping, mt_pending = []\<rparr>"

definition put_timer :: "nat \<Rightarrow> 'f timer_st option \<Rightarrow> 'f mt_lib \<Rightarrow> 'f mt_lib" where
  "put_timer i x s = s\<lparr>at_job := (at_job s)[i := x]\<rparr>"

definition thr_visit :: "nat \<Rightarrow> 'f mt_lib \<Rightarrow> 'f mt_lib" where
  "thr_visit i s =
     (case at_job s ! i of
        None \<Rightarrow> s\<lparr>mt_pc := Visit (Suc i)\<rparr>
      | Some me \<Rightarrow>
          if tm_flag me \<noteq> Running then s\<lparr>mt_pc := Visit (Suc i)\<rparr>
          else let me' = me\<lparr>tm_sec := tm_sec me - 1\<rparr> in
            if tm_sec me' \<le> 0 then
              (put_timer i (Some (me'\<lparr>tm_flag := Executing\<rparr>)) s)
                \<lparr>at_log := at_log s @ [(tm_block me, tm_func me)], mt_pc := Calling i (tm_block me)\<rparr>
            else (put_timer i (Some me') s)\<lparr>mt_pc := Visit (Suc i)\<rparr>)"

definition thr_resume :: "nat \<Rightarrow> nat \<Rightarrow> 'f mt_lib \<Rightarrow> 'f mt_lib option" where
  "thr_resume i me s =
     (case at_job s ! i of
        None \<Rightarrow> None
      | Some t \<Rightarrow>
          if tm_block t \<noteq> me then None
          else Some ((put_timer i (Some (t\<lparr>tm_flag := Over\<rparr>)) s)\<lparr>mt_pc := Visit (Suc i)\<rparr>))"

definition thr_handler :: "'f mt_lib \<Rightarrow> 'f mt_lib option" where
  "thr_handler s =
     (case mt_pc s of
        Sleeping \<Rightarrow> Some (s\<lparr>mt_pc := Visit 0\<rparr>)
      | Visit i \<Rightarrow> Some (if i < length (at_job s) then thr_visit i s else s\<lparr>mt_pc := Sleeping\<rparr>)
      | Calling i me \<Rightarrow> thr_resume i me s)"

section \<open>Clients\<close>

text \<open>The answers of \<^verbatim>\<open>malloc\<close>, \<^verbatim>\<open>pthread_mutex_init\<close> and \<^verbatim>\<open>pthread_cond_init\<close> are arguments.\<close>

definition mt_addtimer :: "bool \<Rightarrow> int \<Rightarrow> int \<Rightarrow> int \<Rightarrow> 'f option \<Rightarrow> 'f mt_lib \<Rightarrow> int \<times> 'f mt_lib" where
  "mt_addtimer alloc_ok mutex_err cond_err sec func s =
     (case func of
        None \<Rightarrow> (- AT_EINVAL, s)
      | Some f \<Rightarrow>
          if sec < 0 then (- AT_EINVAL, s)
          else if \<not> alloc_ok then (- AT_ENOMEM, s)
          else case at_free_pos (at_job s) of
            None \<Rightarrow> (- AT_ENOSPC, s)
          | Some pos \<Rightarrow>
              if mutex_err \<noteq> 0 then (- mutex_err, s)
              else if cond_err \<noteq> 0 then (- cond_err, s)
              else (int pos, (put_timer pos (Some (new_timer sec f (at_next s))) s)\<lparr>at_next := at_next s + 1\<rparr>))"

definition mt_timer_at :: "int \<Rightarrow> 'f mt_lib \<Rightarrow> 'f timer_st option" where
  "mt_timer_at i s = (if i < 0 \<or> i \<ge> int (length (at_job s)) then None else at_job s ! nat i)"

definition mt_canceltimer :: "int \<Rightarrow> 'f mt_lib \<Rightarrow> int \<times> 'f mt_lib" where
  "mt_canceltimer i s =
     (case mt_timer_at i s of
        None \<Rightarrow> (- AT_EINVAL, s)
      | Some me \<Rightarrow>
          if tm_flag me = Canceled then (- AT_ECANCELED, s)
          else if tm_flag me = Over \<or> tm_flag me = Executing then (- AT_EBUSY, s)
          else (0, put_timer (nat i) (Some (me\<lparr>tm_flag := Canceled\<rparr>)) s))"

text \<open>The wait looks at the flag whenever the condition is signalled; \<open>None\<close> is that it goes on waiting. Once it has seen
  another flag it releases its locks, and takes them again to clear the slot and free the timer; \<open>None\<close> there is that
  the timer was freed already.\<close>

definition mt_waittimer :: "int \<Rightarrow> 'f mt_lib \<Rightarrow> int option \<times> 'f mt_lib" where
  "mt_waittimer i s =
     (case mt_timer_at i s of
        None \<Rightarrow> (Some (- AT_EINVAL), s)
      | Some me \<Rightarrow>
          if tm_flag me = Running \<or> tm_flag me = Executing then (None, s)
          else (Some 0, s\<lparr>mt_pending := mt_pending s @ [(nat i, tm_block me)]\<rparr>))"

definition mt_waitfree :: "nat \<Rightarrow> 'f mt_lib \<Rightarrow> 'f mt_lib option" where
  "mt_waitfree k s =
     (if k \<ge> length (mt_pending s) then Some s
      else case mt_pending s ! k of
        (i, me) \<Rightarrow>
          (case at_job s ! i of
             None \<Rightarrow> None
           | Some t \<Rightarrow>
               if tm_block t \<noteq> me then None
               else Some ((put_timer i None s)\<lparr>mt_pending := take k (mt_pending s) @ drop (Suc k) (mt_pending s)\<rparr>)))"

text \<open>The cancellation state is disabled during a pass, so that the handler is joined while it sleeps.\<close>

definition mt_unload :: "'f mt_lib \<Rightarrow> 'f mt_lib option" where
  "mt_unload s = (if mt_pc s = Sleeping then Some (s\<lparr>at_job := map (\<lambda>j. None) (at_job s)\<rparr>) else None)"

datatype 'f mt_op = Handler | MtAdd bool int int int "'f option" | MtCancel int | MtWait int | MtFree nat

fun mt_step :: "'f mt_op \<Rightarrow> 'f mt_lib \<Rightarrow> 'f mt_lib option" where
  "mt_step Handler s = thr_handler s"
| "mt_step (MtAdd ok e1 e2 sec f) s = Some (snd (mt_addtimer ok e1 e2 sec f s))"
| "mt_step (MtCancel i) s = Some (snd (mt_canceltimer i s))"
| "mt_step (MtWait i) s = Some (snd (mt_waittimer i s))"
| "mt_step (MtFree k) s = mt_waitfree k s"

fun mt_run :: "'f mt_op list \<Rightarrow> 'f mt_lib \<Rightarrow> 'f mt_lib option" where
  "mt_run [] s = Some s"
| "mt_run (x # xs) s = (case mt_step x s of None \<Rightarrow> None | Some s' \<Rightarrow> mt_run xs s')"

text \<open>The discipline of the clients: nobody waits for a timer that another thread is about to free.\<close>

fun single_waiter :: "'f mt_op list \<Rightarrow> 'f mt_lib \<Rightarrow> bool" where
  "single_waiter [] s = True"
| "single_waiter (x # xs) s =
     ((case x of MtWait i \<Rightarrow> nat i \<notin> fst ` set (mt_pending s) | _ \<Rightarrow> True)
      \<and> (case mt_step x s of None \<Rightarrow> True | Some s' \<Rightarrow> single_waiter xs s'))"

section \<open>Invariant\<close>

definition slot_timer :: "'f mt_lib \<Rightarrow> nat \<Rightarrow> 'f timer_st option" where
  "slot_timer s i = (if i < length (at_job s) then at_job s ! i else None)"

text \<open>Identities are unique and fresh; a timer has been called exactly if it is executing or over, never twice;
  it is executing exactly while the handler is in its callback.\<close>

definition timers_ok :: "(nat \<Rightarrow> 'f timer_st option) \<Rightarrow> nat \<Rightarrow> nat list \<Rightarrow> handler_pc \<Rightarrow> bool" where
  "timers_ok f n calls pc \<longleftrightarrow>
     (\<forall>i j t u. f i = Some t \<longrightarrow> f j = Some u \<longrightarrow> tm_block t = tm_block u \<longrightarrow> i = j)
     \<and> (\<forall>i t. f i = Some t \<longrightarrow> tm_block t < n)
     \<and> set calls \<subseteq> {..< n}
     \<and> distinct calls
     \<and> (\<forall>i t. f i = Some t \<longrightarrow> (tm_block t \<in> set calls \<longleftrightarrow> tm_flag t = Executing \<or> tm_flag t = Over))
     \<and> (\<forall>i b. pc = Calling i b \<longleftrightarrow> (\<exists>t. f i = Some t \<and> tm_flag t = Executing \<and> tm_block t = b))"

text \<open>The waits that are about to free their timers: each has its own slot, whose timer nobody touches any more.\<close>

definition pending_ok :: "(nat \<Rightarrow> 'f timer_st option) \<Rightarrow> (nat \<times> nat) list \<Rightarrow> bool" where
  "pending_ok f p \<longleftrightarrow> distinct (map fst p)
     \<and> (\<forall>(i, b) \<in> set p. \<exists>t. f i = Some t \<and> tm_block t = b \<and> tm_flag t \<in> {Canceled, Over})"

definition mt_inv :: "'f mt_lib \<Rightarrow> bool" where
  "mt_inv s \<longleftrightarrow> timers_ok (slot_timer s) (at_next s) (map fst (at_log s)) (mt_pc s) \<and> pending_ok (slot_timer s) (mt_pending s)"

lemma slot_timer_put [simp]: "i < length (at_job s) \<Longrightarrow> slot_timer (put_timer i x s) = (slot_timer s)(i := x)"
  by (auto simp: slot_timer_def put_timer_def nth_list_update fun_eq_iff)

lemma put_timer_sel [simp]:
  "at_next (put_timer i x s) = at_next s" "at_log (put_timer i x s) = at_log s" "mt_pc (put_timer i x s) = mt_pc s"
  "mt_pending (put_timer i x s) = mt_pending s"
  "length (at_job (put_timer i x s)) = length (at_job s)"
  by (simp_all add: put_timer_def)

lemma slot_timer_upd [simp]:
  "slot_timer (s\<lparr>at_next := n\<rparr>) = slot_timer s" "slot_timer (s\<lparr>at_log := l\<rparr>) = slot_timer s"
  "slot_timer (s\<lparr>mt_pc := p\<rparr>) = slot_timer s" "slot_timer (s\<lparr>mt_pending := ps\<rparr>) = slot_timer s"
  by (auto simp: slot_timer_def fun_eq_iff)

lemma mt_timer_at_SomeD: "mt_timer_at i s = Some t \<Longrightarrow> slot_timer s (nat i) = Some t \<and> nat i < length (at_job s)"
  by (auto simp: mt_timer_at_def slot_timer_def split: if_splits)

lemma slot_timer_lt: "slot_timer s i = Some t \<Longrightarrow> i < length (at_job s)"
  by (simp add: slot_timer_def split: if_splits)

lemma mt_inv_init: "mt_inv (mt_lib_init n)"
  by (simp add: mt_inv_def timers_ok_def pending_ok_def mt_lib_init_def slot_timer_def)

text \<open>The state changes of the library, as changes of one slot, of the log and of the program counter.\<close>

lemma timers_ok_move:
  "timers_ok f n calls pc \<Longrightarrow> (\<And>i b. pc \<noteq> Calling i b) \<Longrightarrow> (\<And>i b. pc' \<noteq> Calling i b) \<Longrightarrow> timers_ok f n calls pc'"
  unfolding timers_ok_def by auto

lemma timers_ok_replace:
  assumes "timers_ok f n calls pc" "f i = Some t" "tm_block t' = tm_block t"
    and "tm_flag t \<noteq> Executing" "tm_flag t' \<noteq> Executing" "tm_flag t' = Over \<longleftrightarrow> tm_flag t = Over"
  shows "timers_ok (f(i := Some t')) n calls pc"
  using assms unfolding timers_ok_def by (auto split: if_splits)

lemma timers_ok_free:
  assumes "timers_ok f n calls pc" "f i = Some t" "tm_flag t \<noteq> Executing"
  shows "timers_ok (f(i := None)) n calls pc"
  using assms unfolding timers_ok_def by (auto split: if_splits)

lemma timers_ok_new:
  assumes "timers_ok f n calls pc" "f i = None" "tm_block t = n" "tm_flag t = Running"
  shows "timers_ok (f(i := Some t)) (Suc n) calls pc"
proof -
  from assms(1) have fresh: "n \<notin> set calls" and "\<And>k u. f k = Some u \<Longrightarrow> tm_block u \<noteq> n"
    unfolding timers_ok_def by fastforce+
  with assms show ?thesis unfolding timers_ok_def by (auto split: if_splits simp: less_Suc_eq) blast
qed

lemma timers_ok_call:
  assumes "timers_ok f n calls pc" "f i = Some t" "tm_flag t = Running" "\<And>i b. pc \<noteq> Calling i b"
    and "tm_block t' = tm_block t" "tm_flag t' = Executing"
  shows "timers_ok (f(i := Some t')) n (calls @ [tm_block t]) (Calling i (tm_block t))"
  using assms unfolding timers_ok_def by (auto split: if_splits)

lemma timers_ok_return:
  assumes "timers_ok f n calls (Calling i b)" "f i = Some t" "\<And>i b. pc' \<noteq> Calling i b"
    and "tm_block t' = tm_block t" "tm_flag t' = Over"
  shows "timers_ok (f(i := Some t')) n calls pc'"
proof -
  from assms(1) have old: "\<And>k u. f k = Some u \<Longrightarrow> tm_flag u = Executing \<longleftrightarrow> k = i \<and> tm_block u = b"
    unfolding timers_ok_def by (metis handler_pc.inject(2) option.inject)
  moreover from assms(1,2) have "tm_flag t = Executing" unfolding timers_ok_def by (metis option.inject)
  ultimately show ?thesis using assms unfolding timers_ok_def by (simp split: if_splits) metis
qed

lemma pending_ok_other:
  assumes "pending_ok f p" "\<And>t. f i = Some t \<Longrightarrow> tm_flag t \<notin> {Canceled, Over}"
  shows "pending_ok (f(i := x)) p"
  using assms unfolding pending_ok_def by fastforce

lemma pending_slot:
  "pending_ok f p \<Longrightarrow> (i, b) \<in> set p \<Longrightarrow> \<exists>t. f i = Some t \<and> tm_block t = b \<and> tm_flag t \<in> {Canceled, Over}"
  by (auto simp: pending_ok_def)

lemma pending_ok_add:
  "pending_ok f p \<Longrightarrow> f i = Some t \<Longrightarrow> tm_flag t \<in> {Canceled, Over} \<Longrightarrow> i \<notin> fst ` set p \<Longrightarrow> pending_ok f (p @ [(i, tm_block t)])"
  unfolding pending_ok_def by auto

lemma pending_ok_done:
  assumes "pending_ok f p" "k < length p" "p ! k = (i, b)"
  shows "pending_ok (f(i := None)) (take k p @ drop (Suc k) p)"
proof -
  have p: "p = take k p @ (i, b) # drop (Suc k) p" using assms(2,3) by (metis id_take_nth_drop)
  with assms(1) have "distinct (map fst (take k p @ (i, b) # drop (Suc k) p))" by (simp add: pending_ok_def)
  then have d: "distinct (map fst (take k p @ drop (Suc k) p))" "i \<notin> fst ` set (take k p @ drop (Suc k) p)" by auto
  have "\<exists>t. (f(i := None)) j = Some t \<and> tm_block t = c \<and> tm_flag t \<in> {Canceled, Over}"
    if jc: "(j, c) \<in> set (take k p @ drop (Suc k) p)" for j c
  proof -
    from jc have "j \<in> fst ` set (take k p @ drop (Suc k) p)" by (metis fst_conv image_eqI)
    with d(2) have "j \<noteq> i" by blast
    moreover from jc have "(j, c) \<in> set p" by (auto dest: in_set_takeD in_set_dropD)
    ultimately show ?thesis using assms(1) by (auto simp: pending_ok_def)
  qed
  with d(1) show ?thesis unfolding pending_ok_def by blast
qed

section \<open>Every interleaving keeps the invariant\<close>

lemma thr_visit_inv:
  assumes "mt_inv s" "mt_pc s = Visit i" "i < length (at_job s)"
  shows "mt_inv (thr_visit i s)"
proof (cases "at_job s ! i")
  case None
  with assms show ?thesis unfolding mt_inv_def thr_visit_def by (auto elim: timers_ok_move)
next
  case (Some me)
  with assms(3) have slot: "slot_timer s i = Some me" by (simp add: slot_timer_def)
  let ?me = "me\<lparr>tm_sec := tm_sec me - 1\<rparr>"
  have ok: "timers_ok (slot_timer s) (at_next s) (map fst (at_log s)) (Visit k)" for k
    using assms(1,2) timers_ok_move unfolding mt_inv_def by fastforce
  have pend: "pending_ok (slot_timer s) (mt_pending s)" using assms(1) by (simp add: mt_inv_def)
  have touch: "pending_ok ((slot_timer s)(i := x)) (mt_pending s)" if "tm_flag me = Running" for x
    by (rule pending_ok_other [OF pend]) (use slot that in simp)
  consider "tm_flag me \<noteq> Running" | "tm_flag me = Running" "tm_sec me \<le> 1" | "tm_flag me = Running" "1 < tm_sec me"
    by linarith
  then show ?thesis
  proof cases
    case 1
    with Some ok pend show ?thesis by (simp add: mt_inv_def thr_visit_def)
  next
    case 2
    with Some assms(3) timers_ok_call [OF ok slot, where t' = "?me\<lparr>tm_flag := Executing\<rparr>"] touch show ?thesis
      by (simp add: mt_inv_def thr_visit_def Let_def)
  next
    case 3
    with Some assms(3) timers_ok_replace [OF ok slot, where t' = ?me] touch show ?thesis
      by (simp add: mt_inv_def thr_visit_def Let_def)
  qed
qed

lemma thr_handler_inv:
  assumes "mt_inv s"
  shows "\<exists>s'. thr_handler s = Some s' \<and> mt_inv s'"
proof (cases "mt_pc s")
  case Sleeping
  with assms show ?thesis unfolding mt_inv_def thr_handler_def by (auto elim: timers_ok_move)
next
  case (Visit i)
  with assms thr_visit_inv [of s i] show ?thesis
    by (cases "i < length (at_job s)") (auto simp: thr_handler_def mt_inv_def elim: timers_ok_move)
next
  case (Calling i b)
  with assms have ok: "timers_ok (slot_timer s) (at_next s) (map fst (at_log s)) (Calling i b)"
    and pend: "pending_ok (slot_timer s) (mt_pending s)" by (simp_all add: mt_inv_def)
  from ok obtain t where t: "slot_timer s i = Some t" "tm_block t = b" "tm_flag t = Executing" unfolding timers_ok_def by blast
  then have "at_job s ! i = Some t" and "i < length (at_job s)" by (auto simp: slot_timer_def split: if_splits)
  moreover have "pending_ok ((slot_timer s)(i := Some (t\<lparr>tm_flag := Over\<rparr>))) (mt_pending s)"
    by (rule pending_ok_other [OF pend]) (use t in simp)
  ultimately show ?thesis using Calling t timers_ok_return [OF ok t(1), of "Visit (Suc i)" "t\<lparr>tm_flag := Over\<rparr>"]
    by (simp add: thr_handler_def thr_resume_def mt_inv_def)
qed

lemma mt_addtimer_inv:
  assumes "mt_inv s"
  shows "mt_inv (snd (mt_addtimer ok e1 e2 sec f s))"
proof (cases "at_free_pos (at_job s)")
  case None
  with assms show ?thesis by (auto simp: mt_addtimer_def split: option.splits)
next
  case (Some pos)
  from timers.free_pos_SomeD [OF Some] have pos: "pos < length (at_job s)" "slot_timer s pos = None"
    by (auto simp: slot_timer_def)
  then have "pending_ok ((slot_timer s)(pos := x)) (mt_pending s)" for x
    using assms pending_ok_other [of "slot_timer s" "mt_pending s" pos] by (simp add: mt_inv_def)
  with pos assms Some timers_ok_new [of "slot_timer s" "at_next s" "map fst (at_log s)" "mt_pc s" pos "new_timer sec g (at_next s)" for g]
  show ?thesis by (auto simp: mt_addtimer_def mt_inv_def new_timer_def split: option.splits)
qed

lemma mt_canceltimer_inv:
  assumes "mt_inv s"
  shows "mt_inv (snd (mt_canceltimer i s))"
proof (cases "mt_timer_at i s")
  case (Some t)
  from mt_timer_at_SomeD [OF Some] assms Some show ?thesis
    by (cases "tm_flag t") (auto simp: mt_canceltimer_def mt_inv_def intro!: timers_ok_replace pending_ok_other)
qed (use assms in \<open>simp add: mt_canceltimer_def\<close>)

lemma mt_waittimer_inv:
  assumes "mt_inv s" "nat i \<notin> fst ` set (mt_pending s)"
  shows "mt_inv (snd (mt_waittimer i s))"
proof (cases "mt_timer_at i s")
  case (Some t)
  from mt_timer_at_SomeD [OF Some] assms Some show ?thesis
    by (cases "tm_flag t") (auto simp: mt_waittimer_def mt_inv_def intro!: pending_ok_add)
qed (use assms in \<open>simp add: mt_waittimer_def\<close>)

lemma mt_waitfree_inv:
  assumes "mt_inv s"
  shows "\<exists>s'. mt_waitfree k s = Some s' \<and> mt_inv s'"
proof (cases "k < length (mt_pending s)")
  case True
  obtain i b where p: "mt_pending s ! k = (i, b)" by (cases "mt_pending s ! k")
  have ok: "timers_ok (slot_timer s) (at_next s) (map fst (at_log s)) (mt_pc s)"
    and pend: "pending_ok (slot_timer s) (mt_pending s)" using assms by (simp_all add: mt_inv_def)
  from True p have "(i, b) \<in> set (mt_pending s)" by (metis nth_mem)
  with pend obtain t where t: "slot_timer s i = Some t" "tm_block t = b" "tm_flag t \<in> {Canceled, Over}"
    using pending_slot by blast
  then have "tm_flag t \<noteq> Executing" by auto
  note freed = timers_ok_free [OF ok t(1) this] pending_ok_done [OF pend True p]
  have lt: "i < length (at_job s)" by (rule slot_timer_lt [OF t(1)])
  with t(1) have "at_job s ! i = Some t" by (simp add: slot_timer_def)
  with True p t(2) have "mt_waitfree k s
      = Some ((put_timer i None s)\<lparr>mt_pending := take k (mt_pending s) @ drop (Suc k) (mt_pending s)\<rparr>)"
    by (simp add: mt_waitfree_def)
  moreover have "mt_inv ((put_timer i None s)\<lparr>mt_pending := take k (mt_pending s) @ drop (Suc k) (mt_pending s)\<rparr>)"
    using freed unfolding mt_inv_def slot_timer_upd slot_timer_put [OF lt] by simp
  ultimately show ?thesis by blast
qed (use assms in \<open>simp add: mt_waitfree_def\<close>)

lemma mt_step_inv:
  "mt_inv s \<Longrightarrow> (\<And>i. x = MtWait i \<Longrightarrow> nat i \<notin> fst ` set (mt_pending s)) \<Longrightarrow> \<exists>s'. mt_step x s = Some s' \<and> mt_inv s'"
  by (cases x) (simp_all add: thr_handler_inv mt_addtimer_inv mt_canceltimer_inv mt_waittimer_inv mt_waitfree_inv)

lemma mt_run_inv: "mt_inv s \<Longrightarrow> single_waiter xs s \<Longrightarrow> \<exists>s'. mt_run xs s = Some s' \<and> mt_inv s'"
proof (induction xs arbitrary: s)
  case (Cons x xs)
  from Cons.prems(2) have "x = MtWait i \<Longrightarrow> nat i \<notin> fst ` set (mt_pending s)" for i by simp
  from mt_step_inv [OF Cons.prems(1), of x] this obtain s1 where "mt_step x s = Some s1" "mt_inv s1" by blast
  with Cons.IH [of s1] Cons.prems(2) show ?case by simp
qed simp

section \<open>Canceled timers\<close>

definition called_blocks :: "'f mt_lib \<Rightarrow> nat list" where
  "called_blocks s = map fst (at_log s)"

text \<open>The timer will never be called: it was not, and no slot has it running.\<close>

definition never_called :: "nat \<Rightarrow> 'f mt_lib \<Rightarrow> bool" where
  "never_called b s \<longleftrightarrow> b \<notin> set (called_blocks s) \<and> b < at_next s
     \<and> (\<forall>i t. slot_timer s i = Some t \<longrightarrow> tm_block t = b \<longrightarrow> tm_flag t \<noteq> Running)"

text \<open>A change of one slot that does not set a timer running again.\<close>

lemma never_called_put:
  assumes "never_called b s" "i < length (at_job s)" "\<And>t. x = Some t \<Longrightarrow> tm_block t = b \<Longrightarrow> tm_flag t \<noteq> Running"
  shows "never_called b (put_timer i x s)"
  using assms by (auto simp: never_called_def called_blocks_def split: if_splits)

lemma never_called_pc [simp]: "never_called b (s\<lparr>mt_pc := p\<rparr>) = never_called b s"
  "never_called b (s\<lparr>mt_pending := ps\<rparr>) = never_called b s"
  by (simp_all add: never_called_def called_blocks_def)

lemma never_called_visit:
  assumes "never_called b s" "i < length (at_job s)"
  shows "never_called b (thr_visit i s)"
proof (cases "at_job s ! i")
  case (Some me)
  with assms(2) have slot: "slot_timer s i = Some me" by (simp add: slot_timer_def)
  show ?thesis
  proof (cases "tm_flag me = Running")
    case True
    with assms(1) slot have "tm_block me \<noteq> b" by (auto simp: never_called_def)
    with Some True assms show ?thesis
      by (auto simp: thr_visit_def Let_def never_called_def called_blocks_def split: if_splits)
  qed (use Some assms in \<open>simp add: thr_visit_def\<close>)
qed (use assms in \<open>simp add: thr_visit_def\<close>)

lemma slot_some_lt: "i < length (at_job s) \<Longrightarrow> at_job s ! i = Some t \<Longrightarrow> slot_timer s i = Some t"
  by (simp add: slot_timer_def)

lemma never_called_step:
  assumes "never_called b s" "mt_inv s" "mt_step x s = Some s'"
  shows "never_called b s'"
proof (cases x)
  case Handler
  show ?thesis
  proof (cases "mt_pc s")
    case (Calling i me)
    with assms(2) obtain t where "slot_timer s i = Some t" unfolding mt_inv_def timers_ok_def by blast
    then have "i < length (at_job s)" by (rule slot_timer_lt)
    with Calling Handler assms(1,3) show ?thesis
      by (auto simp: thr_handler_def thr_resume_def intro!: never_called_put split: option.splits if_splits)
  qed (use Handler assms never_called_visit in \<open>auto simp: thr_handler_def split: if_splits\<close>)
next
  case (MtAdd ok e1 e2 sec f)
  have "never_called b ((put_timer pos (Some (new_timer sec g (at_next s))) s)\<lparr>at_next := at_next s + 1\<rparr>)"
    if "at_free_pos (at_job s) = Some pos" for pos g
  proof -
    from timers.free_pos_SomeD [OF that] have "pos < length (at_job s)" by simp
    moreover have "b < at_next s" using assms(1) by (simp add: never_called_def)
    ultimately show ?thesis using assms(1) by (auto simp: never_called_def called_blocks_def new_timer_def split: if_splits)
  qed
  with MtAdd assms(1,3) show ?thesis by (auto simp: mt_addtimer_def split: option.splits)
next
  case (MtCancel i)
  with assms(1,3) show ?thesis
    by (auto simp: mt_canceltimer_def intro!: never_called_put dest: mt_timer_at_SomeD split: option.splits)
next
  case (MtWait i)
  with assms(1,3) show ?thesis by (auto simp: mt_waittimer_def split: option.splits)
next
  case (MtFree k)
  show ?thesis
  proof (cases "k < length (mt_pending s)")
    case True
    obtain i b' where p: "mt_pending s ! k = (i, b')" by (cases "mt_pending s ! k")
    from True p have "(i, b') \<in> set (mt_pending s)" by (metis nth_mem)
    with assms(2) obtain t where "slot_timer s i = Some t" by (auto simp: mt_inv_def pending_ok_def)
    then have "i < length (at_job s)" by (rule slot_timer_lt)
    with MtFree True p assms(1,3) show ?thesis
      by (auto simp: mt_waitfree_def intro!: never_called_put split: option.splits if_splits)
  qed (use MtFree assms in \<open>simp add: mt_waitfree_def\<close>)
qed

lemma never_called_run:
  "never_called b s \<Longrightarrow> mt_inv s \<Longrightarrow> single_waiter xs s \<Longrightarrow> mt_run xs s = Some s' \<Longrightarrow> never_called b s'"
proof (induction xs arbitrary: s)
  case (Cons x xs)
  from Cons.prems(3) have "x = MtWait i \<Longrightarrow> nat i \<notin> fst ` set (mt_pending s)" for i by simp
  from mt_step_inv [OF Cons.prems(2), of x] this obtain s1 where s1: "mt_step x s = Some s1" "mt_inv s1" by blast
  from never_called_step [OF Cons.prems(1,2) s1(1)] Cons.IH [of s1] Cons.prems s1 show ?case by simp
qed simp

lemma cancel_never_called:
  assumes "mt_inv s" "mt_timer_at i s = Some t" "fst (mt_canceltimer i s) = 0"
  shows "never_called (tm_block t) (snd (mt_canceltimer i s))"
proof -
  from mt_timer_at_SomeD [OF assms(2)] have slot: "slot_timer s (nat i) = Some t" "nat i < length (at_job s)" by auto
  from assms(2,3) have flag: "tm_flag t = Running"
    by (cases "tm_flag t") (auto simp: mt_canceltimer_def)
  from assms(1) slot(1) have uniq: "j = nat i" if "slot_timer s j = Some u" "tm_block u = tm_block t" for j u
    using that unfolding mt_inv_def timers_ok_def by blast
  from assms(1) slot(1) flag have fresh: "tm_block t < at_next s" "tm_block t \<notin> set (called_blocks s)"
    unfolding mt_inv_def timers_ok_def called_blocks_def by auto
  let ?s = "put_timer (nat i) (Some (t\<lparr>tm_flag := Canceled\<rparr>)) s"
  have "tm_flag u \<noteq> Running" if "slot_timer ?s j = Some u" "tm_block u = tm_block t" for j u
    using that uniq [of j u] slot(2) by (cases "j = nat i") auto
  then have "never_called (tm_block t) ?s" using fresh by (simp add: never_called_def called_blocks_def)
  then show ?thesis using assms(2) flag by (simp add: mt_canceltimer_def)
qed

lemma run_split: "mt_run (xs @ ys) s = (case mt_run xs s of None \<Rightarrow> None | Some s' \<Rightarrow> mt_run ys s')"
  by (induction xs arbitrary: s) (auto split: option.splits)

lemma single_waiter_split:
  "mt_run xs s = Some s' \<Longrightarrow> single_waiter (xs @ ys) s \<longleftrightarrow> single_waiter xs s \<and> single_waiter ys s'"
  by (induction xs arbitrary: s) (auto split: option.splits)

lemma mt_canceled_never_called:
  assumes "single_waiter (xs @ MtCancel i # ys) (mt_lib_init n)" "mt_run (xs @ MtCancel i # ys) (mt_lib_init n) = Some s"
    and "mt_run xs (mt_lib_init n) = Some s0" "mt_timer_at i s0 = Some t" "fst (mt_canceltimer i s0) = 0"
  shows "tm_block t \<notin> set (called_blocks s)"
proof -
  from single_waiter_split [OF assms(3)] assms(1) have w: "single_waiter xs (mt_lib_init n)" "single_waiter (MtCancel i # ys) s0"
    by auto
  from mt_run_inv [OF mt_inv_init w(1)] assms(3) have inv: "mt_inv s0" by simp
  have "never_called (tm_block t) (snd (mt_canceltimer i s0))" by (rule cancel_never_called [OF inv assms(4,5)])
  moreover have "mt_run ys (snd (mt_canceltimer i s0)) = Some s" using assms(2,3) by (simp add: run_split)
  ultimately have "never_called (tm_block t) s"
    using never_called_run [OF _ mt_canceltimer_inv [OF inv], of "tm_block t" i ys s] w(2) by simp
  then show ?thesis by (simp add: never_called_def)
qed

text \<open>C17: The threaded timer library. Whatever the interleaving of the handler thread with clients of which no two
  wait for the same timer, and which may run while a callback does, the handler and the waits never use a timer
  that was freed; no timer's callback is called twice; a timer whose cancellation succeeded is not called, at any
  time before or after; a timer in the table has been called exactly if it is executing or over; and a timer is
  executing exactly while the handler is in its callback, so that unloading, which waits for the sleeping
  handler, frees no timer whose callback runs.\<close>
theorem mt_timers_called_once:
  assumes "single_waiter ops (mt_lib_init n)"
  shows "\<exists>s. mt_run ops (mt_lib_init n) = Some s \<and> distinct (called_blocks s)
     \<and> (\<forall>i t. slot_timer s i = Some t \<longrightarrow>
          (tm_block t \<in> set (called_blocks s) \<longleftrightarrow> tm_flag t \<in> {Executing, Over})
          \<and> (tm_flag t = Executing \<longleftrightarrow> mt_pc s = Calling i (tm_block t)))
     \<and> (\<forall>xs i ys s0 t. ops = xs @ MtCancel i # ys \<longrightarrow> mt_run xs (mt_lib_init n) = Some s0 \<longrightarrow> mt_timer_at i s0 = Some t \<longrightarrow>
          fst (mt_canceltimer i s0) = 0 \<longrightarrow> tm_block t \<notin> set (called_blocks s))"
proof -
  from mt_run_inv [OF mt_inv_init assms] obtain s where s: "mt_run ops (mt_lib_init n) = Some s" "mt_inv s" by blast
  then have exec: "tm_flag t = Executing \<longleftrightarrow> mt_pc s = Calling i (tm_block t)" if "slot_timer s i = Some t" for i t
    using that unfolding mt_inv_def timers_ok_def by auto
  have canceled: "tm_block t \<notin> set (called_blocks s)"
    if "ops = xs @ MtCancel i # ys" "mt_run xs (mt_lib_init n) = Some s0" "mt_timer_at i s0 = Some t" "fst (mt_canceltimer i s0) = 0"
    for xs i ys s0 t
    using mt_canceled_never_called [of xs i ys n s s0 t] that assms s(1) by simp
  from s(2) have "distinct (called_blocks s)"
    "\<And>i t. slot_timer s i = Some t \<Longrightarrow> tm_block t \<in> set (called_blocks s) \<longleftrightarrow> tm_flag t \<in> {Executing, Over}"
    by (auto simp: mt_inv_def timers_ok_def called_blocks_def)
  with s(1) exec canceled show ?thesis by blast
qed

definition example_mt_ops :: "string mt_op list" where
  "example_mt_ops = [MtAdd True 0 0 1 (Some ''f0''), MtAdd True 0 0 1 (Some ''f1''), MtCancel 0, MtWait 0, Handler, Handler,
     MtFree 0, Handler, MtCancel 1]"

definition example_mt_lib :: "string mt_lib" where
  "example_mt_lib = \<lparr>at_job = [None, Some \<lparr>tm_sec = 0, tm_func = ''f1'', tm_flag = Executing, tm_block = 1\<rparr>],
     at_next = 2, at_log = [(1, ''f1'')], mt_pc = Calling 1 1, mt_pending = []\<rparr>"

lemmas mt_eval = mt_lib_init_def mt_addtimer_def mt_canceltimer_def mt_waittimer_def mt_waitfree_def mt_timer_at_def
  thr_handler_def thr_visit_def put_timer_def at_free_pos_def new_timer_def Let_def numeral_2_eq_2

theorem mt_timers_called_once_witness:
  "mt_run example_mt_ops (mt_lib_init 2) = Some example_mt_lib \<and> single_waiter example_mt_ops (mt_lib_init 2)
   \<and> called_blocks example_mt_lib = [1] \<and> 0 \<notin> set (called_blocks example_mt_lib)"
proof -
  have run: "mt_run example_mt_ops (mt_lib_init 2) = Some example_mt_lib"
    by (simp add: example_mt_ops_def example_mt_lib_def mt_eval)
  have single: "single_waiter example_mt_ops (mt_lib_init 2)"
    by (simp add: example_mt_ops_def mt_eval)
  have called: "called_blocks example_mt_lib = [1]" by (simp add: example_mt_lib_def called_blocks_def)
  let ?xs = "[MtAdd True 0 0 1 (Some ''f0''), MtAdd True 0 0 1 (Some ''f1'')]"
  let ?s0 = "the (mt_run ?xs (mt_lib_init 2))"
  have ops: "example_mt_ops = ?xs @ MtCancel 0 # drop 3 example_mt_ops" by (simp add: example_mt_ops_def)
  have pre: "mt_run ?xs (mt_lib_init 2) = Some ?s0" "mt_timer_at 0 ?s0 = Some (new_timer 1 ''f0'' 0)" "fst (mt_canceltimer 0 ?s0) = 0"
    by (simp_all add: mt_eval)
  from mt_timers_called_once [OF single] run obtain s where "s = example_mt_lib" and
    "\<forall>xs i ys s0 t. example_mt_ops = xs @ MtCancel i # ys \<longrightarrow> mt_run xs (mt_lib_init 2) = Some s0 \<longrightarrow> mt_timer_at i s0 = Some t \<longrightarrow>
       fst (mt_canceltimer i s0) = 0 \<longrightarrow> tm_block t \<notin> set (called_blocks s)" by auto
  with ops pre have "tm_block (new_timer 1 ''f0'' 0) \<notin> set (called_blocks example_mt_lib)" by blast
  with run single called show ?thesis by (simp add: new_timer_def)
qed

text \<open>Two threads that wait for the same timer free it twice.\<close>

lemma double_wait_undefined:
  "mt_run [MtAdd True 0 0 1 (Some f), MtCancel 0, MtWait 0, MtWait 0, MtFree 0, MtFree 0] (mt_lib_init 2) = None"
  by (simp add: mt_eval)

end
