(* ===== verification/Module_Life.thy ===== *)
theory Module_Life
  imports Token_Bucket Any_Timer_Mt
begin

text \<open>
  How the token bucket and timer libraries install and remove themselves. The signal versions take over SIGALRM
  at the first use and give it back at exit; the threaded versions create their thread once
  (\<^verbatim>\<open>pthread_once\<close>) and join it at exit. The table of the library is a field of the state here.
\<close>

section \<open>Libraries on SIGALRM\<close>

datatype sig_action = Sig_default | Sig_ignore | Sig_user nat | Sig_library

record 'a sig_lib =
  sl_inited :: bool
  sl_saved :: sig_action
  sl_action :: sig_action
  sl_alarm :: bool
  sl_atexit :: nat
  sl_table :: 'a

definition sig_fresh :: "sig_action \<Rightarrow> 'a \<Rightarrow> 'a sig_lib" where
  "sig_fresh action tbl = \<lparr>sl_inited = False, sl_saved = Sig_default, sl_action = action, sl_alarm = False, sl_atexit = 0, sl_table = tbl\<rparr>"

definition module_load :: "'a sig_lib \<Rightarrow> 'a sig_lib" where
  "module_load s = s\<lparr>sl_saved := sl_action s, sl_action := Sig_library, sl_alarm := True, sl_atexit := Suc (sl_atexit s)\<rparr>"

text \<open>Giving the signal back and freeing what the table points to; the process is about to end.\<close>

definition module_unload :: "'a sig_lib \<Rightarrow> 'a sig_lib" where
  "module_unload s = s\<lparr>sl_action := sl_saved s, sl_alarm := False\<rparr>"

definition ensure_loaded :: "'a sig_lib \<Rightarrow> 'a sig_lib" where
  "ensure_loaded s = (if \<not> sl_inited s then (module_load s)\<lparr>sl_inited := True\<rparr> else s)"

text \<open>\<^verbatim>\<open>atexit\<close>: the handler runs as often as it was registered.\<close>

definition at_exit :: "'a sig_lib \<Rightarrow> 'a sig_lib" where
  "at_exit s = (module_unload ^^ sl_atexit s) s"

text \<open>What every operation does to the signal, whatever it does to the table.\<close>

locale sig_library =
  fixes operate :: "'op \<Rightarrow> 'a sig_lib \<Rightarrow> 'a sig_lib option"
    and loads :: "'op \<Rightarrow> bool"
  assumes operate_signal: "operate opn s = Some s' \<Longrightarrow>
    (\<exists>tbl. s' = (if loads opn then ensure_loaded s else s)\<lparr>sl_table := tbl\<rparr>)"
begin

fun operate_all :: "'op list \<Rightarrow> 'a sig_lib \<Rightarrow> 'a sig_lib option" where
  "operate_all [] s = Some s"
| "operate_all (x # xs) s = (case operate x s of None \<Rightarrow> None | Some s' \<Rightarrow> operate_all xs s')"

definition installed :: "sig_action \<Rightarrow> 'a sig_lib \<Rightarrow> bool" where
  "installed action s \<longleftrightarrow>
     (if sl_inited s then sl_saved s = action \<and> sl_action s = Sig_library \<and> sl_alarm s \<and> sl_atexit s = 1
      else sl_action s = action \<and> \<not> sl_alarm s \<and> sl_atexit s = 0)"

lemma installed_step: "operate opn s = Some s' \<Longrightarrow> installed action s \<Longrightarrow> installed action s'"
  by (drule operate_signal) (auto simp: installed_def ensure_loaded_def module_load_def split: if_splits)

lemma installed_all: "operate_all xs s = Some s' \<Longrightarrow> installed action s \<Longrightarrow> installed action s'"
proof (induction xs arbitrary: s)
  case (Cons x xs)
  then show ?case by (auto split: option.splits dest: installed_step)
qed simp

text \<open>At exit the signal is as the program left it before the library's first use, and no alarm is pending.\<close>

lemma signal_restored:
  assumes "operate_all xs (sig_fresh action tbl) = Some s"
  shows "sl_action (at_exit s) = action \<and> \<not> sl_alarm (at_exit s)"
proof -
  have "installed action (sig_fresh action tbl)" by (simp add: installed_def sig_fresh_def)
  from installed_all [OF assms this] show ?thesis
    by (auto simp: installed_def at_exit_def module_unload_def split: if_splits)
qed

end

text \<open>The token bucket: \<^verbatim>\<open>mytbf_init\<close> loads, and an alarm that arrives without the library ends the process.\<close>

definition mytbf_loads :: "tb_op \<Rightarrow> bool" where
  "mytbf_loads opn = (case opn of Init _ _ _ \<Rightarrow> True | _ \<Rightarrow> False)"

definition mytbf_operate :: "tb_op \<Rightarrow> job_table sig_lib \<Rightarrow> job_table sig_lib option" where
  "mytbf_operate opn s =
     (let s1 = (if mytbf_loads opn then ensure_loaded s else s) in
      if opn = Alarm \<and> sl_action s1 \<noteq> Sig_library then None
      else map_option (\<lambda>(r, job). s1\<lparr>sl_table := job\<rparr>) (tb_step opn (sl_table s1)))"

interpretation tbf_life: sig_library mytbf_operate mytbf_loads
  by unfold_locales (auto simp: mytbf_operate_def Let_def split: if_splits)

text \<open>The timers: \<^verbatim>\<open>at_addtimer\<close> loads before it looks at its arguments.\<close>

definition anytimer_loads :: "'f at_op \<Rightarrow> bool" where
  "anytimer_loads opn = (case opn of AtAdd _ _ _ \<Rightarrow> True | _ \<Rightarrow> False)"

definition anytimer_operate :: "'f at_op \<Rightarrow> 'f timer_lib sig_lib \<Rightarrow> 'f timer_lib sig_lib option" where
  "anytimer_operate opn s =
     (let s1 = (if anytimer_loads opn then ensure_loaded s else s) in
      if opn = AtAlarm \<and> sl_action s1 \<noteq> Sig_library then None
      else Some (s1\<lparr>sl_table := at_step opn (sl_table s1)\<rparr>))"

interpretation at_life: sig_library anytimer_operate anytimer_loads
  by unfold_locales (auto simp: anytimer_operate_def Let_def split: if_splits)

section \<open>Libraries with a thread\<close>

record 'a thr_lib =
  tl_loaded :: bool
  tl_running :: bool
  tl_atexit :: nat
  tl_table :: 'a

definition thr_fresh :: "'a \<Rightarrow> 'a thr_lib" where
  "thr_fresh tbl = \<lparr>tl_loaded = False, tl_running = False, tl_atexit = 0, tl_table = tbl\<rparr>"

text \<open>\<^verbatim>\<open>pthread_once(&once, module_load)\<close>; the error of \<^verbatim>\<open>pthread_create\<close> ends the process (\<open>None\<close>).\<close>

definition load_once :: "int \<Rightarrow> 'a thr_lib \<Rightarrow> 'a thr_lib option" where
  "load_once create_err s =
     (if tl_loaded s then Some s
      else if create_err \<noteq> 0 then None
      else Some (s\<lparr>tl_loaded := True, tl_running := True, tl_atexit := Suc (tl_atexit s)\<rparr>))"

definition mt_mytbf_operate_init :: "int \<Rightarrow> bool \<Rightarrow> int \<Rightarrow> int \<Rightarrow> (job_table \<times> nat) thr_lib \<Rightarrow> (nat option \<times> (job_table \<times> nat) thr_lib) option" where
  "mt_mytbf_operate_init create_err alloc_ok cps burst s =
     (case load_once create_err s of
        None \<Rightarrow> None
      | Some s1 \<Rightarrow> (case mt_mytbf_init alloc_ok cps burst (tl_table s1) of (p, t, misuse) \<Rightarrow> Some (p, s1\<lparr>tl_table := t\<rparr>)))"

definition mt_mytbf_unload :: "(job_table \<times> nat) thr_lib \<Rightarrow> (job_table \<times> nat) thr_lib" where
  "mt_mytbf_unload s =
     s\<lparr>tl_running := False, tl_table := mt_module_unload [0 ..< length (fst (tl_table s))] (tl_table s)\<rparr>"

definition mt_anytimer_operate_add ::
  "int \<Rightarrow> bool \<Rightarrow> int \<Rightarrow> int \<Rightarrow> int \<Rightarrow> 'f option \<Rightarrow> 'f mt_lib thr_lib \<Rightarrow> (int \<times> 'f mt_lib thr_lib) option" where
  "mt_anytimer_operate_add create_err alloc_ok mutex_err cond_err sec func s =
     (case load_once create_err s of
        None \<Rightarrow> None
      | Some s1 \<Rightarrow> (case mt_addtimer alloc_ok mutex_err cond_err sec func (tl_table s1) of (r, t) \<Rightarrow> Some (r, s1\<lparr>tl_table := t\<rparr>)))"

definition mt_anytimer_unload :: "'f mt_lib thr_lib \<Rightarrow> 'f mt_lib thr_lib option" where
  "mt_anytimer_unload s =
     (case mt_unload (tl_table s) of None \<Rightarrow> None | Some t \<Rightarrow> Some (s\<lparr>tl_running := False, tl_table := t\<rparr>))"

lemma load_once_idempotent: "load_once e s = Some s' \<Longrightarrow> load_once e' s' = Some s'"
  by (auto simp: load_once_def split: if_splits)

lemma mt_mytbf_unload_frees_all:
  assumes "tl_table s = (job, live_buckets job)"
  shows "tl_table (mt_mytbf_unload s) = (replicate (length job) None, 0) \<and> \<not> tl_running (mt_mytbf_unload s)"
  using assms by (simp add: mt_mytbf_unload_def mt_module_unload_frees_all)

text \<open>Unloading the timers waits for the sleeping handler and empties the table: no timer is left.\<close>

lemma mt_anytimer_unload_empties:
  "mt_pc (tl_table s) = Sleeping \<Longrightarrow>
   \<exists>s'. mt_anytimer_unload s = Some s' \<and> \<not> tl_running s' \<and> (\<forall>i. slot_timer (tl_table s') i = None)"
  by (simp add: mt_anytimer_unload_def mt_unload_def slot_timer_def)

section \<open>Giving back the signal\<close>

text \<open>Whatever operations a program makes, at exit the action of SIGALRM is the one from before the library's first use,
  and no alarm is pending.\<close>

lemma mytbf_signal_restored:
  "tbf_life.operate_all xs (sig_fresh action job) = Some s \<Longrightarrow> sl_action (at_exit s) = action \<and> \<not> sl_alarm (at_exit s)"
  by (rule tbf_life.signal_restored)

lemma anytimer_signal_restored:
  "at_life.operate_all xs (sig_fresh action lib) = Some s \<Longrightarrow> sl_action (at_exit s) = action \<and> \<not> sl_alarm (at_exit s)"
  by (rule at_life.signal_restored)

end
