(* ===== verification/Relay_Fsm.thy ===== *)
theory Relay_Fsm
  imports C_Prelude
begin

text \<open>
  The four terminal relays (\<^verbatim>\<open>apue/stdio/adv/{nonblock,select,poll,epoll}/relay.c\<close>). Each copies both
  directions between two terminals with one finite state machine per direction; they differ in how the loop
  waits. The answers of the system are arguments, one round of the loop per list element; a loop whose answers
  are used up is still running. The bytes read and written are recorded in ghost fields.
\<close>

unbundle bit_operations_syntax

section \<open>The state machine\<close>

datatype fsm_state = STATE_W | STATE_R | STATE_T | STATE_E

text \<open>The enumeration is ordered as in C; \<^verbatim>\<open>STATE_AUTO\<close>, which no machine is ever in, sits between the states that wait
  for a descriptor and those that go on by themselves.\<close>

fun state_value :: "fsm_state \<Rightarrow> nat" where
  "state_value STATE_W = 0"
| "state_value STATE_R = 1"
| "state_value STATE_T = 3"
| "state_value STATE_E = 4"

lemma state_value_inject [simp]: "state_value a = state_value b \<longleftrightarrow> a = b"
  by (cases a; cases b) simp_all

instantiation fsm_state :: linorder
begin

definition less_eq_fsm_state :: "fsm_state \<Rightarrow> fsm_state \<Rightarrow> bool" where
  "less_eq_fsm_state a b \<longleftrightarrow> state_value a \<le> state_value b"

definition less_fsm_state :: "fsm_state \<Rightarrow> fsm_state \<Rightarrow> bool" where
  "less_fsm_state a b \<longleftrightarrow> state_value a < state_value b"

instance
  by standard (auto simp: less_eq_fsm_state_def less_fsm_state_def)

end

abbreviation STATE_AUTO :: nat where "STATE_AUTO \<equiv> 2"

record fsm_st =
  fsm_state :: fsm_state
  fsm_len :: int
  fsm_pos :: nat
  fsm_buf :: string
  fsm_errstr :: string
  fsm_got :: string
  fsm_put :: string

abbreviation BUFSIZE :: nat where "BUFSIZE \<equiv> 1024"

text \<open>What \<^verbatim>\<open>read\<close> and \<^verbatim>\<open>write\<close> answer: bytes, end of file, EAGAIN or another error; a number of bytes.\<close>

datatype read_answer = Bytes string | Read_again | Read_fail
datatype write_answer = Wrote nat | Write_again | Write_fail

type_synonym io = "read_answer \<times> write_answer"

text \<open>\<^verbatim>\<open>read\<close> delivers at most the size asked for and \<^verbatim>\<open>write\<close> takes at most the bytes offered.\<close>

definition read_in :: "string \<Rightarrow> fsm_st \<Rightarrow> fsm_st" where
  "read_in bs f =
     (let b = take BUFSIZE bs in
      f\<lparr>fsm_len := int (length b), fsm_buf := b @ drop (length b) (fsm_buf f), fsm_got := fsm_got f @ b\<rparr>)"

definition write_out :: "nat \<Rightarrow> fsm_st \<Rightarrow> fsm_st" where
  "write_out n f =
     (let k = min n (nat (fsm_len f)) in
      f\<lparr>fsm_pos := fsm_pos f + k, fsm_len := fsm_len f - int k,
        fsm_put := fsm_put f @ take k (drop (fsm_pos f) (fsm_buf f))\<rparr>)"

definition drive_read :: "read_answer \<Rightarrow> fsm_st \<Rightarrow> fsm_st" where
  "drive_read r f =
     (case r of
        Bytes bs \<Rightarrow>
          (let f = read_in bs f in
           if fsm_len f = 0 then f\<lparr>fsm_state := STATE_T\<rparr>
           else f\<lparr>fsm_pos := 0, fsm_state := STATE_W\<rparr>)
      | Read_again \<Rightarrow> f\<lparr>fsm_len := - 1, fsm_state := STATE_R\<rparr>
      | Read_fail \<Rightarrow> f\<lparr>fsm_len := - 1, fsm_errstr := ''read()'', fsm_state := STATE_E\<rparr>)"

definition drive_write :: "write_answer \<Rightarrow> fsm_st \<Rightarrow> fsm_st" where
  "drive_write w f =
     (case w of
        Wrote n \<Rightarrow>
          (let f = write_out n f in
           if fsm_len f > 0 then f\<lparr>fsm_state := STATE_W\<rparr> else f\<lparr>fsm_state := STATE_R\<rparr>)
      | Write_again \<Rightarrow> f\<lparr>fsm_state := STATE_W\<rparr>
      | Write_fail \<Rightarrow> f\<lparr>fsm_errstr := ''write()'', fsm_state := STATE_E\<rparr>)"

definition fsm_driver :: "io \<Rightarrow> fsm_st \<Rightarrow> fsm_st" where
  "fsm_driver a f =
     (case fsm_state f of
        STATE_R \<Rightarrow> drive_read (fst a) f
      | STATE_W \<Rightarrow> drive_write (snd a) f
      | STATE_E \<Rightarrow> f\<lparr>fsm_state := STATE_T\<rparr>
      | STATE_T \<Rightarrow> f)"

text \<open>The locals of \<^verbatim>\<open>relay\<close> start with their other fields uninitialized; the model fills them in.\<close>

definition fsm_start :: fsm_st where
  "fsm_start = \<lparr>fsm_state = STATE_R, fsm_len = 0, fsm_pos = 0, fsm_buf = replicate BUFSIZE (CHR 0x00),
     fsm_errstr = [], fsm_got = [], fsm_put = []\<rparr>"

definition auto_state :: "fsm_st \<Rightarrow> bool" where
  "auto_state f \<longleftrightarrow> state_value (fsm_state f) > STATE_AUTO"

lemma auto_state_iff: "auto_state f \<longleftrightarrow> fsm_state f = STATE_T \<or> fsm_state f = STATE_E"
  by (cases "fsm_state f") (simp_all add: auto_state_def)

lemma auto_state_order: "auto_state f \<longleftrightarrow> STATE_R < fsm_state f"
  by (cases "fsm_state f") (simp_all add: auto_state_def less_fsm_state_def)

definition both_done :: "fsm_st \<times> fsm_st \<Rightarrow> bool" where
  "both_done p \<longleftrightarrow> fsm_state (fst p) = STATE_T \<and> fsm_state (snd p) = STATE_T"

datatype relay_result = Returned "fsm_st \<times> fsm_st" | Exited "fsm_st \<times> fsm_st" | Blocked "fsm_st \<times> fsm_st"

fun machines :: "relay_result \<Rightarrow> fsm_st \<times> fsm_st" where
  "machines (Returned p) = p"
| "machines (Exited p) = p"
| "machines (Blocked p) = p"

text \<open>The other three programs contain the same function, word for word.\<close>

definition select_fsm_driver :: "io \<Rightarrow> fsm_st \<Rightarrow> fsm_st" where
  "select_fsm_driver = fsm_driver"

definition poll_fsm_driver :: "io \<Rightarrow> fsm_st \<Rightarrow> fsm_st" where
  "poll_fsm_driver = fsm_driver"

definition epoll_fsm_driver :: "io \<Rightarrow> fsm_st \<Rightarrow> fsm_st" where
  "epoll_fsm_driver = fsm_driver"

lemmas same_driver = select_fsm_driver_def poll_fsm_driver_def epoll_fsm_driver_def

section \<open>The loops\<close>

fun relay_nonblock :: "(io \<times> io) list \<Rightarrow> fsm_st \<times> fsm_st \<Rightarrow> relay_result" where
  "relay_nonblock answers p =
     (if both_done p then Returned p
      else case answers of
        [] \<Rightarrow> Blocked p
      | (a, b) # rest \<Rightarrow> relay_nonblock rest (fsm_driver a (fst p), fsm_driver b (snd p)))"

declare relay_nonblock.simps [simp del]

text \<open>\<^verbatim>\<open>select\<close> answers EINTR, another error, or clears the descriptors that are not ready: the four flags are
  fd1 readable, fd2 writable, fd2 readable, fd1 writable.\<close>

datatype select_answer = Sel_eintr | Sel_fail | Sel_ready bool bool bool bool

definition select_sets :: "select_answer \<Rightarrow> fsm_st \<times> fsm_st \<Rightarrow> bool \<times> bool \<times> bool \<times> bool" where
  "select_sets s p =
     (let r1 = (fsm_state (fst p) = STATE_R); w2 = (fsm_state (fst p) = STATE_W);
          r2 = (fsm_state (snd p) = STATE_R); w1 = (fsm_state (snd p) = STATE_W) in
      case s of
        Sel_ready a b c d \<Rightarrow> (r1 \<and> a, w2 \<and> b, r2 \<and> c, w1 \<and> d)
      | _ \<Rightarrow> (r1, w2, r2, w1))"

definition select_dispatch :: "select_answer \<Rightarrow> io \<times> io \<Rightarrow> fsm_st \<times> fsm_st \<Rightarrow> fsm_st \<times> fsm_st" where
  "select_dispatch s io p =
     (case select_sets s p of (r1, w2, r2, w1) \<Rightarrow>
        (if r1 \<or> w2 \<or> auto_state (fst p) then select_fsm_driver (fst io) (fst p) else fst p,
         if w1 \<or> r2 \<or> auto_state (snd p) then select_fsm_driver (snd io) (snd p) else snd p))"

fun relay_select :: "(select_answer \<times> io \<times> io) list \<Rightarrow> fsm_st \<times> fsm_st \<Rightarrow> relay_result" where
  "relay_select answers p =
     (if both_done p then Returned p
      else case answers of
        [] \<Rightarrow> Blocked p
      | (s, io) # rest \<Rightarrow>
          if (\<not> auto_state (fst p) \<or> \<not> auto_state (snd p)) \<and> s = Sel_eintr then relay_select rest p
          else if (\<not> auto_state (fst p) \<or> \<not> auto_state (snd p)) \<and> s = Sel_fail then Exited p
          else relay_select rest (select_dispatch s io p))"

declare relay_select.simps [simp del]

text \<open>\<^verbatim>\<open>poll\<close> is repeated after EINTR; it reports the returned events of both descriptors.\<close>

abbreviation POLLIN :: u16 where "POLLIN \<equiv> 1"
abbreviation POLLOUT :: u16 where "POLLOUT \<equiv> 4"

datatype poll_answer = Poll_fail | Poll_ready u16 u16

definition poll_dispatch :: "u16 \<times> u16 \<Rightarrow> io \<times> io \<Rightarrow> fsm_st \<times> fsm_st \<Rightarrow> fsm_st \<times> fsm_st" where
  "poll_dispatch ev io p =
     (if fst ev AND POLLIN \<noteq> 0 \<or> snd ev AND POLLOUT \<noteq> 0 \<or> auto_state (fst p) then poll_fsm_driver (fst io) (fst p) else fst p,
      if fst ev AND POLLOUT \<noteq> 0 \<or> snd ev AND POLLIN \<noteq> 0 \<or> auto_state (snd p) then poll_fsm_driver (snd io) (snd p) else snd p)"

definition poll_events :: "fsm_st \<times> fsm_st \<Rightarrow> u16 \<times> u16" where
  "poll_events p =
     ((if fsm_state (fst p) = STATE_R then POLLIN else 0) OR (if fsm_state (snd p) = STATE_W then POLLOUT else 0),
      (if fsm_state (fst p) = STATE_W then POLLOUT else 0) OR (if fsm_state (snd p) = STATE_R then POLLIN else 0))"

text \<open>POLLERR, POLLHUP and POLLNVAL (8, 16, 32) are reported without being asked for.\<close>

definition poll_revents :: "fsm_st \<times> fsm_st \<Rightarrow> u16 \<times> u16 \<Rightarrow> u16 \<times> u16" where
  "poll_revents p r = (fst r AND (fst (poll_events p) OR 56), snd r AND (snd (poll_events p) OR 56))"

text \<open>The second argument is what \<^verbatim>\<open>revents\<close> holds from the last call.\<close>

fun relay_poll :: "(poll_answer \<times> io \<times> io) list \<Rightarrow> u16 \<times> u16 \<Rightarrow> fsm_st \<times> fsm_st \<Rightarrow> relay_result" where
  "relay_poll answers old p =
     (if both_done p then Returned p
      else case answers of
        [] \<Rightarrow> Blocked p
      | (r, io) # rest \<Rightarrow>
          if auto_state (fst p) \<and> auto_state (snd p) then relay_poll rest old (poll_dispatch old io p)
          else case r of
            Poll_fail \<Rightarrow> Exited p
          | Poll_ready a b \<Rightarrow>
              let ev = poll_revents p (a, b) in relay_poll rest ev (poll_dispatch ev io p))"

declare relay_poll.simps [simp del]

text \<open>
  The epoll loop modifies the interest in fd1 in every round, and never the interest in fd2, which stays as it
  was added (0). An event is reported with the descriptor it belongs to (\<open>True\<close>: fd1) and is limited to the
  interest in it and EPOLLERR and EPOLLHUP (8, 16). In the last test \<^verbatim>\<open>==\<close> binds tighter than \<^verbatim>\<open>&\<close>.
\<close>

abbreviation EPOLLIN :: u32 where "EPOLLIN \<equiv> 1"
abbreviation EPOLLOUT :: u32 where "EPOLLOUT \<equiv> 4"

datatype epoll_answer = Ep_fail | Ep_event bool u32

definition epoll_interest :: "fsm_st \<times> fsm_st \<Rightarrow> u32 \<times> u32 \<Rightarrow> u32 \<times> u32" where
  "epoll_interest p interest =
     ((if fsm_state (fst p) = STATE_R then EPOLLIN else 0) OR (if fsm_state (snd p) = STATE_W then EPOLLOUT else 0),
      snd interest)"

definition epoll_fd2_event :: "fsm_st \<times> fsm_st \<Rightarrow> bool \<times> u32" where
  "epoll_fd2_event p =
     (False, (if fsm_state (fst p) = STATE_W then EPOLLOUT else 0) OR (if fsm_state (snd p) = STATE_R then EPOLLIN else 0))"

definition epoll_reported :: "u32 \<times> u32 \<Rightarrow> bool \<Rightarrow> u32 \<Rightarrow> bool \<times> u32" where
  "epoll_reported interest is_fd1 events =
     (is_fd1, events AND ((if is_fd1 then fst interest else snd interest) OR 24))"

definition epoll_dispatch :: "bool \<times> u32 \<Rightarrow> io \<times> io \<Rightarrow> fsm_st \<times> fsm_st \<Rightarrow> fsm_st \<times> fsm_st" where
  "epoll_dispatch ev io p =
     (if (fst ev \<and> snd ev AND EPOLLIN \<noteq> 0) \<or> (\<not> fst ev \<and> snd ev AND EPOLLOUT \<noteq> 0) \<or> auto_state (fst p)
        then epoll_fsm_driver (fst io) (fst p) else fst p,
      if (\<not> fst ev \<and> snd ev AND EPOLLIN \<noteq> 0) \<or> ((if fst ev then 1 else 0) AND snd ev) AND EPOLLOUT \<noteq> 0 \<or> auto_state (snd p)
        then epoll_fsm_driver (snd io) (snd p) else snd p)"

fun relay_epoll :: "(epoll_answer \<times> io \<times> io) list \<Rightarrow> u32 \<times> u32 \<Rightarrow> fsm_st \<times> fsm_st \<Rightarrow> relay_result" where
  "relay_epoll answers interest p =
     (if both_done p then Returned p
      else case answers of
        [] \<Rightarrow> Blocked p
      | (r, io) # rest \<Rightarrow>
          let interest = epoll_interest p interest in
          if auto_state (fst p) \<and> auto_state (snd p)
          then relay_epoll rest interest (epoll_dispatch (epoll_fd2_event p) io p)
          else case r of
            Ep_fail \<Rightarrow> Exited p
          | Ep_event is_fd1 events \<Rightarrow>
              relay_epoll rest interest (epoll_dispatch (epoll_reported interest is_fd1 events) io p))"

declare relay_epoll.simps [simp del]

section \<open>What a machine does\<close>

inductive driven :: "fsm_st \<Rightarrow> fsm_st \<Rightarrow> bool" where
  driven_refl: "driven f f"
| driven_step: "driven f g \<Longrightarrow> driven f (fsm_driver a g)"

lemma driven_trans: "driven g h \<Longrightarrow> driven f g \<Longrightarrow> driven f h"
  by (induction rule: driven.induct) (auto intro: driven.intros)

text \<open>The bytes read are those written, those still in the buffer, and, after an error of \<^verbatim>\<open>write\<close>, lost ones; the
  window of the buffer that is written is inside what was read.\<close>

definition relay_ok :: "fsm_st \<Rightarrow> bool" where
  "relay_ok f \<longleftrightarrow> length (fsm_buf f) = BUFSIZE \<and>
     (case fsm_state f of
        STATE_W \<Rightarrow> 0 < fsm_len f \<and> fsm_pos f + nat (fsm_len f) \<le> BUFSIZE
                   \<and> fsm_got f = fsm_put f @ take (nat (fsm_len f)) (drop (fsm_pos f) (fsm_buf f))
      | STATE_R \<Rightarrow> fsm_got f = fsm_put f
      | _ \<Rightarrow> (\<exists>lost. fsm_got f = fsm_put f @ lost \<and> (lost \<noteq> [] \<longrightarrow> fsm_errstr f = ''write()'')))"

lemma relay_ok_start: "relay_ok fsm_start"
  by (simp add: relay_ok_def fsm_start_def)

lemma relay_ok_read: "relay_ok f \<Longrightarrow> fsm_state f = STATE_R \<Longrightarrow> relay_ok (drive_read r f)"
  by (cases r) (auto simp: relay_ok_def drive_read_def read_in_def Let_def min_def)

lemma relay_ok_write:
  assumes "relay_ok f" "fsm_state f = STATE_W"
  shows "relay_ok (drive_write w f)"
proof (cases w)
  case (Wrote n)
  define k where "k = min n (nat (fsm_len f))"
  define rest where "rest = drop (fsm_pos f) (fsm_buf f)"
  have k: "k \<le> nat (fsm_len f)" by (simp add: k_def)
  have "take (nat (fsm_len f)) rest = take k rest @ take (nat (fsm_len f) - k) (drop k rest)"
    using k by (metis le_add_diff_inverse take_add)
  moreover have "nat (fsm_len f - int k) = nat (fsm_len f) - k" by (simp add: nat_diff_distrib')
  moreover have "drop k rest = drop (fsm_pos f + k) (fsm_buf f)" by (simp add: rest_def add.commute)
  ultimately show ?thesis
    using assms Wrote k by (auto simp: relay_ok_def drive_write_def write_out_def Let_def k_def [symmetric] rest_def [symmetric])
qed (use assms in \<open>auto simp: relay_ok_def drive_write_def\<close>)

lemma relay_ok_driver: "relay_ok f \<Longrightarrow> relay_ok (fsm_driver a f)"
  by (cases "fsm_state f") (auto simp: fsm_driver_def relay_ok_read relay_ok_write, auto simp: relay_ok_def)

lemma relay_ok_driven: "driven f g \<Longrightarrow> relay_ok f \<Longrightarrow> relay_ok g"
  by (induction rule: driven.induct) (auto intro: relay_ok_driver)

definition copied :: "fsm_st \<Rightarrow> bool" where
  "copied f \<longleftrightarrow> take (length (fsm_put f)) (fsm_got f) = fsm_put f"

definition complete :: "fsm_st \<Rightarrow> bool" where
  "complete f \<longleftrightarrow> fsm_put f = fsm_got f \<or> fsm_errstr f = ''write()''"

lemma relay_ok_copied: "relay_ok f \<Longrightarrow> copied f"
  by (cases "fsm_state f") (auto simp: relay_ok_def copied_def)

lemma relay_ok_complete: "relay_ok f \<Longrightarrow> fsm_state f = STATE_T \<Longrightarrow> complete f"
  by (auto simp: relay_ok_def complete_def)

section \<open>What every loop promises\<close>

text \<open>A loop drives its two machines and nothing else, and returns only when both are done.\<close>

locale relay_loop =
  fixes run :: "'a list \<Rightarrow> relay_result"
  assumes run_driven: "driven fsm_start (fst (machines (run xs)))" "driven fsm_start (snd (machines (run xs)))"
    and run_returned: "run xs = Returned p \<Longrightarrow> both_done p"
begin

lemma run_copied: "copied (fst (machines (run xs))) \<and> copied (snd (machines (run xs)))"
  using run_driven relay_ok_start by (blast intro: relay_ok_copied relay_ok_driven)

lemma run_complete:
  assumes "run xs = Returned p"
  shows "complete (fst p) \<and> complete (snd p)"
proof -
  from run_driven [of xs] assms have "relay_ok (fst p)" "relay_ok (snd p)"
    by (auto intro: relay_ok_driven relay_ok_start)
  with run_returned [OF assms] show ?thesis by (simp add: both_done_def relay_ok_complete)
qed

end

definition pair_driven :: "fsm_st \<times> fsm_st \<Rightarrow> fsm_st \<times> fsm_st \<Rightarrow> bool" where
  "pair_driven p p' \<longleftrightarrow> driven (fst p) (fst p') \<and> driven (snd p) (snd p')"

lemma pair_driven_refl [simp]: "pair_driven p p"
  by (simp add: pair_driven_def driven_refl)

lemma pair_driven_trans: "pair_driven p p' \<Longrightarrow> pair_driven p' p'' \<Longrightarrow> pair_driven p p''"
  by (auto simp: pair_driven_def intro: driven_trans)

lemma pair_driven_step:
  "pair_driven p (if a then fsm_driver x (fst p) else fst p, if b then fsm_driver y (snd p) else snd p)"
  by (auto simp: pair_driven_def intro: driven.intros)

lemmas pair_driven_both = pair_driven_step [where a = True and b = True, simplified]

lemma select_dispatch_driven: "pair_driven p (select_dispatch s io p)"
  by (simp only: select_dispatch_def same_driver case_prod_unfold pair_driven_step)

lemma poll_dispatch_driven: "pair_driven p (poll_dispatch ev io p)"
  by (simp only: poll_dispatch_def same_driver pair_driven_step)

lemma epoll_dispatch_driven: "pair_driven p (epoll_dispatch ev io p)"
  by (simp only: epoll_dispatch_def same_driver pair_driven_step)

definition loop_result :: "fsm_st \<times> fsm_st \<Rightarrow> relay_result \<Rightarrow> bool" where
  "loop_result p r \<longleftrightarrow> pair_driven p (machines r) \<and> (\<forall>p'. r = Returned p' \<longrightarrow> both_done p')"

lemma loop_result_step: "pair_driven p p' \<Longrightarrow> loop_result p' r \<Longrightarrow> loop_result p r"
  by (auto simp: loop_result_def intro: pair_driven_trans)

lemma loop_result_base [simp]:
  "loop_result p (Blocked p)" "loop_result p (Exited p)" "both_done p \<Longrightarrow> loop_result p (Returned p)"
  by (simp_all add: loop_result_def)

lemma relay_nonblock_result: "loop_result p (relay_nonblock xs p)"
proof (induction xs arbitrary: p)
  case (Cons x xs)
  show ?case
    by (subst relay_nonblock.simps)
      (auto intro: loop_result_step [OF pair_driven_both Cons.IH] split: prod.splits)
qed (simp add: relay_nonblock.simps)

lemma relay_select_result: "loop_result p (relay_select xs p)"
proof (induction xs arbitrary: p)
  case (Cons x xs)
  show ?case
    by (subst relay_select.simps)
      (auto intro: loop_result_step [OF select_dispatch_driven Cons.IH] Cons.IH split: prod.splits)
qed (simp add: relay_select.simps)

lemma relay_poll_result: "loop_result p (relay_poll xs old p)"
proof (induction xs arbitrary: p old)
  case (Cons x xs)
  show ?case
    by (subst relay_poll.simps)
      (auto intro: loop_result_step [OF poll_dispatch_driven Cons.IH] simp: Let_def split: prod.splits poll_answer.splits)
qed (simp add: relay_poll.simps)

lemma relay_epoll_result: "loop_result p (relay_epoll xs interest p)"
proof (induction xs arbitrary: p interest)
  case (Cons x xs)
  show ?case
    by (subst relay_epoll.simps)
      (auto intro: loop_result_step [OF epoll_dispatch_driven Cons.IH] simp: Let_def split: prod.splits epoll_answer.splits)
qed (simp add: relay_epoll.simps)

abbreviation fsm_pair :: "fsm_st \<times> fsm_st" where "fsm_pair \<equiv> (fsm_start, fsm_start)"

lemma relay_loopI: "(\<And>xs. loop_result fsm_pair (run xs)) \<Longrightarrow> relay_loop run"
  unfolding loop_result_def pair_driven_def by unfold_locales (simp, simp, blast)

interpretation nonblock: relay_loop "\<lambda>xs. relay_nonblock xs fsm_pair"
  by (rule relay_loopI) (rule relay_nonblock_result)

interpretation select: relay_loop "\<lambda>xs. relay_select xs fsm_pair"
  by (rule relay_loopI) (rule relay_select_result)

interpretation poll: relay_loop "\<lambda>xs. relay_poll xs (0, 0) fsm_pair"
  by (rule relay_loopI) (rule relay_poll_result)

interpretation epoll: relay_loop "\<lambda>xs. relay_epoll xs (0, 0) fsm_pair"
  by (rule relay_loopI) (rule relay_epoll_result)

text \<open>C19: The relays never lose, repeat or reorder bytes. Whatever the system answers, short reads and writes
  and EAGAIN included, what each direction has written is a prefix of what it has read, and when the loop
  returns it is all of it, unless writing itself failed.\<close>
theorem relays_copy_faithfully:
  assumes "r \<in> {relay_nonblock xs fsm_pair, relay_select ys fsm_pair, relay_poll zs (0, 0) fsm_pair}"
  shows "copied (fst (machines r)) \<and> copied (snd (machines r))
    \<and> (\<forall>p. r = Returned p \<longrightarrow> complete (fst p) \<and> complete (snd p))"
proof -
  from assms consider "r = relay_nonblock xs fsm_pair" | "r = relay_select ys fsm_pair" | "r = relay_poll zs (0, 0) fsm_pair"
    by blast
  then show ?thesis
    by cases (use nonblock.run_copied nonblock.run_complete select.run_copied select.run_complete
        poll.run_copied poll.run_complete in \<open>simp_all del: insert_iff\<close>)
qed

theorem relays_copy_faithfully_witness:
  "copied (fst (machines (relay_nonblock [((Bytes ''ab'', Write_again), (Read_again, Wrote 0)), ((Bytes [], Wrote 1), (Read_fail, Wrote 0))] fsm_pair)))"
  using relays_copy_faithfully [of
      "relay_nonblock [((Bytes ''ab'', Write_again), (Read_again, Wrote 0)), ((Bytes [], Wrote 1), (Read_fail, Wrote 0))] fsm_pair"
      "[((Bytes ''ab'', Write_again), (Read_again, Wrote 0)), ((Bytes [], Wrote 1), (Read_fail, Wrote 0))]" "[]" "[]"]
  by simp

section \<open>Delivery\<close>

fun drive_all :: "io list \<Rightarrow> fsm_st \<Rightarrow> fsm_st" where
  "drive_all [] f = f"
| "drive_all (a # as) f = drive_all as (fsm_driver a f)"

lemma drive_all_T: "fsm_state f = STATE_T \<Longrightarrow> drive_all as f = f"
  by (induction as) (simp_all add: fsm_driver_def)

text \<open>The answers deliver a source: \<open>buf\<close> was read and is still to be written, \<open>src\<close> is still to be read. Reads bring
  the source in chunks of any size and then its end, writes take any number of bytes, and either may be put off by
  EAGAIN any number of times; what follows the end is left open.\<close>

fun delivery :: "string \<Rightarrow> string \<Rightarrow> io list \<Rightarrow> bool" where
  "delivery buf src [] = False"
| "delivery buf src ((r, w) # as) =
     (if buf = [] then
        (case r of
           Read_fail \<Rightarrow> False
         | Read_again \<Rightarrow> delivery [] src as
         | Bytes bs \<Rightarrow>
             let c = take BUFSIZE bs in
             if c = [] then src = []
             else take (length c) src = c \<and> delivery c (drop (length c) src) as)
      else
        (case w of
           Write_fail \<Rightarrow> False
         | Write_again \<Rightarrow> delivery buf src as
         | Wrote n \<Rightarrow> delivery (drop n buf) src as))"

text \<open>The machine holds \<open>buf\<close> in the window of its buffer.\<close>

definition holds :: "string \<Rightarrow> fsm_st \<Rightarrow> bool" where
  "holds buf f \<longleftrightarrow>
     (if buf = [] then fsm_state f = STATE_R
      else fsm_state f = STATE_W \<and> fsm_len f = int (length buf) \<and> take (length buf) (drop (fsm_pos f) (fsm_buf f)) = buf)"

lemma holds_read:
  assumes "holds [] f" "take BUFSIZE bs = c" "c \<noteq> []"
  shows "holds c (drive_read (Bytes bs) f) \<and> fsm_put (drive_read (Bytes bs) f) = fsm_put f"
  using assms by (auto simp: holds_def drive_read_def read_in_def Let_def)

lemma holds_write:
  assumes "holds buf f" "buf \<noteq> []"
  shows "holds (drop n buf) (drive_write (Wrote n) f) \<and> fsm_put (drive_write (Wrote n) f) = fsm_put f @ take n buf"
proof -
  define k where "k = min n (length buf)"
  define rest where "rest = drop (fsm_pos f) (fsm_buf f)"
  from assms have f: "fsm_len f = int (length buf)" "take (length buf) rest = buf" by (simp_all add: holds_def rest_def)
  have k: "k \<le> length buf" "take n buf = take k buf" "drop n buf = drop k buf" by (simp_all add: k_def min_def)
  have out: "take k rest = take k buf" using f(2) k(1) by (metis min.absorb1 take_take)
  have "take (length buf - k) (drop k rest) = drop k buf" using f(2) by (metis drop_take)
  moreover have "drop k rest = drop (fsm_pos f + k) (fsm_buf f)" by (simp add: rest_def add.commute)
  moreover have "drop k buf = [] \<longleftrightarrow> length buf = k" using k(1) by auto
  ultimately show ?thesis
    using f(1) k out by (auto simp: holds_def drive_write_def write_out_def Let_def k_def [symmetric] rest_def [symmetric])
qed

lemma drive_delivery:
  "delivery buf src as \<Longrightarrow> holds buf f \<Longrightarrow>
   fsm_state (drive_all as f) = STATE_T \<and> fsm_put (drive_all as f) = fsm_put f @ buf @ src"
proof (induction as arbitrary: buf src f)
  case (Cons a as)
  obtain r w where a: "a = (r, w)" by (cases a)
  show ?case
  proof (cases "buf = []")
    case True
    with Cons.prems(2) have R: "fsm_state f = STATE_R" by (simp add: holds_def)
    then have drive: "fsm_driver a f = drive_read r f" by (simp add: fsm_driver_def a)
    show ?thesis
    proof (cases r)
      case (Bytes bs)
      show ?thesis
      proof (cases "take BUFSIZE bs = []")
        case empty: True
        with Cons.prems(1) True Bytes a have "src = []" by simp
        with empty True Bytes drive show ?thesis by (simp add: drive_read_def read_in_def drive_all_T)
      next
        case False
        define c where "c = take BUFSIZE bs"
        with False Cons.prems(1) True Bytes a have d: "take (length c) src = c" "delivery c (drop (length c) src) as"
          by (simp_all add: Let_def)
        from holds_read [of f bs c] Cons.prems(2) True False c_def Bytes drive
        have h: "holds c (fsm_driver a f)" "fsm_put (fsm_driver a f) = fsm_put f" by simp_all
        have "src = c @ drop (length c) src" using d(1) by (metis append_take_drop_id)
        with Cons.IH [OF d(2) h(1)] h(2) True show ?thesis by simp
      qed
    next
      case Read_again
      with drive R have "holds [] (fsm_driver a f)" "fsm_put (fsm_driver a f) = fsm_put f"
        by (simp_all add: holds_def drive_read_def)
      with Cons.IH [of "[]" src "fsm_driver a f"] Cons.prems(1) True Read_again a show ?thesis by simp
    qed (use Cons.prems(1) True a in simp)
  next
    case False
    with Cons.prems(2) have W: "fsm_state f = STATE_W" by (simp add: holds_def)
    then have drive: "fsm_driver a f = drive_write w f" by (simp add: fsm_driver_def a)
    show ?thesis
    proof (cases w)
      case (Wrote n)
      with holds_write [OF Cons.prems(2) False, of n] drive
      have "holds (drop n buf) (fsm_driver a f)" "fsm_put (fsm_driver a f) = fsm_put f @ take n buf" by simp_all
      with Cons.IH [of "drop n buf" src "fsm_driver a f"] Cons.prems(1) False Wrote a show ?thesis by simp
    next
      case Write_again
      with drive W Cons.prems(2) False have "holds buf (fsm_driver a f)" "fsm_put (fsm_driver a f) = fsm_put f"
        by (simp_all add: holds_def drive_write_def)
      with Cons.IH [of buf src "fsm_driver a f"] Cons.prems(1) False Write_again a show ?thesis by simp
    qed (use Cons.prems(1) False a in simp)
  qed
qed simp

lemma relay_nonblock_drives:
  "length as = length bs \<Longrightarrow> both_done (drive_all as f, drive_all bs g) \<Longrightarrow>
   relay_nonblock (zip as bs) (f, g) = Returned (drive_all as f, drive_all bs g)"
proof (induction as arbitrary: bs f g)
  case Nil
  then show ?case by (simp add: relay_nonblock.simps)
next
  case (Cons a as)
  then obtain b bs' where bs: "bs = b # bs'" by (cases bs) auto
  show ?case
  proof (cases "both_done (f, g)")
    case True
    then have "drive_all (a # as) f = f" "drive_all bs g = g" by (simp_all add: both_done_def drive_all_T del: drive_all.simps)
    with True bs show ?thesis by (simp add: relay_nonblock.simps del: drive_all.simps)
  next
    case False
    with Cons.IH [of bs'] Cons.prems bs show ?thesis
      by (subst relay_nonblock.simps) (simp add: bs)
  qed
qed

text \<open>C20: The nonblocking relay delivers. When the answers on each side deliver a source, in chunks of any size, with
  short writes and with EAGAIN at any time, one side possibly long before the other, and neither a read nor a write
  fails, the loop returns and each terminal has received exactly the other's bytes.\<close>
theorem relay_nonblock_delivers:
  assumes "delivery [] src1 (map fst xs)" "delivery [] src2 (map snd xs)"
  shows "\<exists>p. relay_nonblock xs fsm_pair = Returned p \<and> fsm_put (fst p) = src1 \<and> fsm_put (snd p) = src2"
proof -
  have start: "holds [] fsm_start" "fsm_put fsm_start = []" by (simp_all add: holds_def fsm_start_def)
  note 1 = drive_delivery [OF assms(1) start(1)] and 2 = drive_delivery [OF assms(2) start(1)]
  from 1 2 have "both_done (drive_all (map fst xs) fsm_start, drive_all (map snd xs) fsm_start)" by (simp add: both_done_def)
  from relay_nonblock_drives [OF _ this] 1 2 start(2) show ?thesis by (simp add: zip_map_fst_snd)
qed

definition example_answers :: "(io \<times> io) list" where
  "example_answers = [((Bytes ''abc'', Wrote 0), (Bytes [], Wrote 0)), ((Read_fail, Write_again), (Read_fail, Write_fail)),
     ((Read_fail, Wrote 1), (Read_fail, Write_fail)), ((Read_fail, Wrote 0), (Read_fail, Write_fail)),
     ((Read_fail, Wrote 5), (Read_fail, Write_fail)), ((Read_again, Write_fail), (Read_fail, Write_fail)),
     ((Bytes ''d'', Write_fail), (Read_fail, Write_fail)), ((Read_fail, Wrote 1), (Read_fail, Write_fail)),
     ((Bytes [], Write_fail), (Read_fail, Write_fail))]"

theorem relay_nonblock_delivers_witness:
  "\<exists>p. relay_nonblock example_answers fsm_pair = Returned p \<and> fsm_put (fst p) = ''abcd'' \<and> fsm_put (snd p) = []"
  by (rule relay_nonblock_delivers) (simp_all add: example_answers_def)

section \<open>The epoll relay\<close>

lemma epoll_never_fd2:
  "(snd (epoll_reported (i, 0) False events)) AND EPOLLOUT = 0" "(snd (epoll_reported (i, 0) False events)) AND EPOLLIN = 0"
  by (simp_all add: epoll_reported_def and.assoc)

lemma epoll_last_test: "((if b then 1 else 0) AND ev) AND EPOLLOUT = (0 :: u32)"
  by (simp add: ac_simps)

text \<open>The second machine is never driven, the first never past its first chunk.\<close>

definition epoll_stuck :: "fsm_st \<times> fsm_st \<Rightarrow> bool" where
  "epoll_stuck p \<longleftrightarrow> snd p = fsm_start \<and> fsm_put (fst p) = []"

lemma epoll_fd1_in:
  "snd (epoll_reported (epoll_interest p x) True events) AND EPOLLIN \<noteq> 0 \<Longrightarrow> fsm_state (fst p) = STATE_R"
  by (rule ccontr) (auto simp: epoll_reported_def epoll_interest_def and.assoc split: if_splits)

lemma drive_read_put [simp]: "fsm_put (drive_read r f) = fsm_put f"
  by (cases r) (simp_all add: drive_read_def read_in_def Let_def)

lemma fsm_driver_put: "fsm_state f \<noteq> STATE_W \<Longrightarrow> fsm_put (fsm_driver a f) = fsm_put f"
  by (cases "fsm_state f") (simp_all add: fsm_driver_def)

lemma epoll_dispatch_stuck:
  assumes "epoll_stuck p"
  shows "epoll_stuck (epoll_dispatch (epoll_reported (epoll_interest p (i, 0)) b events) io p)"
proof -
  let ?ev = "epoll_reported (epoll_interest p (i, 0)) b events"
  have b: "fst ?ev = b" by (simp add: epoll_reported_def)
  have fd2: "\<not> b \<Longrightarrow> snd ?ev AND EPOLLIN = 0" "\<not> b \<Longrightarrow> snd ?ev AND EPOLLOUT = 0"
    using epoll_never_fd2 by (auto simp: epoll_interest_def)
  have "fsm_state fsm_start = STATE_R" by (simp add: fsm_start_def)
  then have "snd (epoll_dispatch ?ev io p) = fsm_start"
    using assms fd2 unfolding epoll_dispatch_def epoll_last_test b epoll_stuck_def by (auto simp: auto_state_iff)
  moreover have "fsm_state (fst p) \<noteq> STATE_W \<or> fst (epoll_dispatch ?ev io p) = fst p"
    using fd2 epoll_fd1_in [of p "(i, 0)" events] unfolding epoll_dispatch_def b by (cases b) (auto simp: auto_state_iff)
  then have "fsm_put (fst (epoll_dispatch ?ev io p)) = fsm_put (fst p)"
    by (auto simp: epoll_dispatch_def same_driver fsm_driver_put)
  ultimately show ?thesis using assms by (simp add: epoll_stuck_def)
qed

lemma epoll_stuck_not_done: "epoll_stuck p \<Longrightarrow> \<not> both_done p \<and> \<not> auto_state (snd p)"
  by (simp add: epoll_stuck_def both_done_def auto_state_iff fsm_start_def)

lemma relay_epoll_stuck:
  "epoll_stuck p \<Longrightarrow> epoll_stuck (machines (relay_epoll xs (i, 0) p)) \<and> (\<forall>p'. relay_epoll xs (i, 0) p \<noteq> Returned p')"
proof (induction xs arbitrary: p i)
  case Nil
  then show ?case by (simp add: relay_epoll.simps epoll_stuck_not_done)
next
  case (Cons x xs)
  obtain r io where x: "x = (r, io)" by (cases x)
  show ?case
  proof (cases r)
    case Ep_fail
    with Cons.prems x show ?thesis
      by (subst (1 2) relay_epoll.simps) (simp add: epoll_stuck_not_done Let_def)
  next
    case (Ep_event b events)
    have "epoll_interest p (i, 0) = (fst (epoll_interest p (i, 0)), 0)" by (simp add: epoll_interest_def)
    with Cons.IH [OF epoll_dispatch_stuck [OF Cons.prems]] Cons.prems x Ep_event show ?thesis
      by (subst (1 2) relay_epoll.simps) (simp add: epoll_stuck_not_done Let_def, metis)
  qed
qed

text \<open>The epoll relay copies nothing. The interest in the second terminal is computed and never passed to
  \<^verbatim>\<open>epoll_ctl\<close>, so that no event of it is reported: whatever happens, not one byte is written in either
  direction, nothing is read from the second terminal, and the loop never returns.\<close>
theorem relay_epoll_never_writes:
  "(\<nexists>p. relay_epoll xs (0, 0) fsm_pair = Returned p)
   \<and> fsm_put (fst (machines (relay_epoll xs (0, 0) fsm_pair))) = []
   \<and> snd (machines (relay_epoll xs (0, 0) fsm_pair)) = fsm_start"
proof -
  have "epoll_stuck fsm_pair" by (simp add: epoll_stuck_def fsm_start_def)
  from relay_epoll_stuck [OF this, of xs 0] show ?thesis unfolding epoll_stuck_def by blast
qed

end
