(* ===== verification/Relay_Main.thy ===== *)
theory Relay_Main
  imports Relay_Fsm
begin

text \<open>
  The relay programs around their loops (\<^verbatim>\<open>relay\<close> and \<^verbatim>\<open>main\<close> of the four \<^verbatim>\<open>relay.c\<close>): opening and greeting the
  terminals, making them nonblocking, and restoring their flags. \<^verbatim>\<open>fcntl\<close> and the greetings are taken to
  succeed, as the code does not look at their results.
\<close>

section \<open>Descriptor flags\<close>

abbreviation O_RDWR :: u32 where "O_RDWR \<equiv> 2"
abbreviation O_NONBLOCK :: u32 where "O_NONBLOCK \<equiv> 2048"

type_synonym flags = "u32 \<times> u32"

definition nonblocking :: "flags \<Rightarrow> flags" where
  "nonblocking fl = (fst fl OR O_NONBLOCK, snd fl OR O_NONBLOCK)"

text \<open>\<^verbatim>\<open>relay\<close> restores the flags when its loop returns, and only then. The result carries the flags of both files.\<close>

definition relay_around :: "relay_result \<Rightarrow> flags \<Rightarrow> relay_result \<times> flags" where
  "relay_around r saved = (case r of Returned p \<Rightarrow> (r, saved) | _ \<Rightarrow> (r, nonblocking saved))"

definition nonblock_relay :: "(io \<times> io) list \<Rightarrow> flags \<Rightarrow> relay_result \<times> flags" where
  "nonblock_relay xs = relay_around (relay_nonblock xs fsm_pair)"

definition select_relay :: "(select_answer \<times> io \<times> io) list \<Rightarrow> flags \<Rightarrow> relay_result \<times> flags" where
  "select_relay xs = relay_around (relay_select xs fsm_pair)"

definition poll_relay :: "(poll_answer \<times> io \<times> io) list \<Rightarrow> flags \<Rightarrow> relay_result \<times> flags" where
  "poll_relay xs = relay_around (relay_poll xs (0, 0) fsm_pair)"

text \<open>\<^verbatim>\<open>epoll_create\<close> can fail; the interest in both files starts empty.\<close>

definition epoll_relay :: "bool \<Rightarrow> (epoll_answer \<times> io \<times> io) list \<Rightarrow> flags \<Rightarrow> relay_result \<times> flags" where
  "epoll_relay created xs saved =
     (if \<not> created then (Exited fsm_pair, nonblocking saved)
      else relay_around (relay_epoll xs (0, 0) fsm_pair) saved)"

section \<open>The programs\<close>

record relay_end =
  re_code :: "int option"
  re_greeted :: "string list"
  re_machines :: "fsm_st \<times> fsm_st"
  re_flags :: flags

definition open_flags :: flags where
  "open_flags = (O_RDWR, O_RDWR OR O_NONBLOCK)"

text \<open>The exit code, \<open>None\<close> while the program runs; the arguments: whether the terminals can be opened, and \<^verbatim>\<open>relay\<close>.\<close>

definition relay_main :: "bool \<Rightarrow> bool \<Rightarrow> (flags \<Rightarrow> relay_result \<times> flags) \<Rightarrow> relay_end" where
  "relay_main open1 open2 relay =
     (if \<not> open1 then \<lparr>re_code = Some 1, re_greeted = [], re_machines = fsm_pair, re_flags = open_flags\<rparr>
      else if \<not> open2 then \<lparr>re_code = Some 1, re_greeted = [''TTY1'' @ [LF]], re_machines = fsm_pair, re_flags = open_flags\<rparr>
      else case relay open_flags of
        (r, fl) \<Rightarrow>
          \<lparr>re_code = (case r of Returned _ \<Rightarrow> Some 0 | Exited _ \<Rightarrow> Some 1 | Blocked _ \<Rightarrow> None),
           re_greeted = [''TTY1'' @ [LF], ''TTY2'' @ [LF]], re_machines = machines r, re_flags = fl\<rparr>)"

definition nonblock_main :: "bool \<Rightarrow> bool \<Rightarrow> (io \<times> io) list \<Rightarrow> relay_end" where
  "nonblock_main open1 open2 xs = relay_main open1 open2 (nonblock_relay xs)"

definition select_main :: "bool \<Rightarrow> bool \<Rightarrow> (select_answer \<times> io \<times> io) list \<Rightarrow> relay_end" where
  "select_main open1 open2 xs = relay_main open1 open2 (select_relay xs)"

definition poll_main :: "bool \<Rightarrow> bool \<Rightarrow> (poll_answer \<times> io \<times> io) list \<Rightarrow> relay_end" where
  "poll_main open1 open2 xs = relay_main open1 open2 (poll_relay xs)"

definition epoll_main :: "bool \<Rightarrow> bool \<Rightarrow> bool \<Rightarrow> (epoll_answer \<times> io \<times> io) list \<Rightarrow> relay_end" where
  "epoll_main open1 open2 created xs = relay_main open1 open2 (epoll_relay created xs)"

section \<open>Results\<close>

lemma relay_main_zero:
  assumes "re_code (relay_main open1 open2 (relay_around r)) = Some 0"
  shows "\<exists>p. r = Returned p \<and> re_machines (relay_main open1 open2 (relay_around r)) = p
    \<and> re_flags (relay_main open1 open2 (relay_around r)) = open_flags"
  using assms by (cases r) (auto simp: relay_main_def relay_around_def split: if_splits)

text \<open>A program that ends with 0 has copied both directions completely, unless a write failed, and has given the
  terminals their flags back.\<close>

lemma relay_main_complete:
  assumes "relay_loop run" "re_code (relay_main open1 open2 (relay_around (run xs))) = Some 0"
  shows "complete (fst (re_machines (relay_main open1 open2 (relay_around (run xs)))))
    \<and> complete (snd (re_machines (relay_main open1 open2 (relay_around (run xs)))))
    \<and> re_flags (relay_main open1 open2 (relay_around (run xs))) = open_flags"
  using relay_main_zero [OF assms(2)] relay_loop.run_complete [OF assms(1)] by metis

lemma nonblock_main_complete:
  "re_code (nonblock_main open1 open2 xs) = Some 0 \<Longrightarrow>
   complete (fst (re_machines (nonblock_main open1 open2 xs))) \<and> complete (snd (re_machines (nonblock_main open1 open2 xs)))
   \<and> re_flags (nonblock_main open1 open2 xs) = open_flags"
  unfolding nonblock_main_def nonblock_relay_def by (rule relay_main_complete [OF nonblock.relay_loop_axioms])

lemma select_main_complete:
  "re_code (select_main open1 open2 xs) = Some 0 \<Longrightarrow>
   complete (fst (re_machines (select_main open1 open2 xs))) \<and> complete (snd (re_machines (select_main open1 open2 xs)))
   \<and> re_flags (select_main open1 open2 xs) = open_flags"
  unfolding select_main_def select_relay_def by (rule relay_main_complete [OF select.relay_loop_axioms])

lemma poll_main_complete:
  "re_code (poll_main open1 open2 xs) = Some 0 \<Longrightarrow>
   complete (fst (re_machines (poll_main open1 open2 xs))) \<and> complete (snd (re_machines (poll_main open1 open2 xs)))
   \<and> re_flags (poll_main open1 open2 xs) = open_flags"
  unfolding poll_main_def poll_relay_def by (rule relay_main_complete [OF poll.relay_loop_axioms])

lemma epoll_main_never_zero: "re_code (epoll_main open1 open2 created xs) \<noteq> Some 0"
proof -
  have "epoll_stuck fsm_pair" by (simp add: epoll_stuck_def fsm_start_def)
  from relay_epoll_stuck [OF this, of xs 0] have "relay_epoll xs (0, 0) fsm_pair \<noteq> Returned p" for p by blast
  then show ?thesis
    by (auto simp: epoll_main_def epoll_relay_def relay_main_def relay_around_def split: relay_result.splits prod.splits if_splits)
qed

end
