(* ===== verification/Mysem.thy ===== *)
theory Mysem
  imports C_Prelude
begin

text \<open>
  The counting semaphore built from a mutex and a condition variable
  (\<^verbatim>\<open>apue/para/thread/posix/mysem/mysem.c\<close>). An operation is atomic under the mutex up to its wait:
  a subtraction that finds too little is put among the waiting threads, which it leaves by a broadcast or by a spurious
  wakeup; then it tests the count again. \<open>Sem_undefined\<close> is a signed overflow.
\<close>

text \<open>Besides the count: the threads blocked in \<^verbatim>\<open>pthread_cond_wait\<close>, and those it has released that have not yet
  tested the count again, each with what it wants to take.\<close>

record mysem_st =
  sem_value :: int
  sem_waiting :: "(nat \<times> int) list"
  sem_woken :: "(nat \<times> int) list"

datatype sem_result = Sem_done int mysem_st | Sem_waits mysem_st | Sem_undefined

definition mysem_init :: "bool \<Rightarrow> int \<Rightarrow> mysem_st option" where
  "mysem_init alloc_ok initval =
     (if \<not> alloc_ok then None else Some \<lparr>sem_value = initval, sem_waiting = [], sem_woken = []\<rparr>)"

definition cond_broadcast_sem :: "mysem_st \<Rightarrow> mysem_st" where
  "cond_broadcast_sem me = me\<lparr>sem_waiting := [], sem_woken := sem_woken me @ sem_waiting me\<rparr>"

definition mysem_add :: "int \<Rightarrow> mysem_st \<Rightarrow> sem_result" where
  "mysem_add v me =
     (if v < 0 then Sem_done (- 1) me
      else if \<not> is_int32 (sem_value me + v) then Sem_undefined
      else Sem_done v (cond_broadcast_sem (me\<lparr>sem_value := sem_value me + v\<rparr>)))"

text \<open>The loop around the wait: one test of the count by thread \<open>t\<close>.\<close>

definition mysem_sub_test :: "nat \<Rightarrow> int \<Rightarrow> mysem_st \<Rightarrow> sem_result" where
  "mysem_sub_test t v me =
     (if sem_value me < v then Sem_waits (me\<lparr>sem_waiting := sem_waiting me @ [(t, v)]\<rparr>)
      else Sem_done v (me\<lparr>sem_value := sem_value me - v\<rparr>))"

definition mysem_sub :: "nat \<Rightarrow> int \<Rightarrow> mysem_st \<Rightarrow> sem_result" where
  "mysem_sub t v me = (if v < 0 then Sem_done (- 1) me else mysem_sub_test t v me)"

text \<open>What follows \<^verbatim>\<open>pthread_cond_wait\<close> in a thread it has released.\<close>

definition mysem_sub_woken :: "nat \<Rightarrow> int \<Rightarrow> mysem_st \<Rightarrow> sem_result" where
  "mysem_sub_woken t v me = mysem_sub_test t v (me\<lparr>sem_woken := remove1 (t, v) (sem_woken me)\<rparr>)"

text \<open>\<^verbatim>\<open>pthread_cond_wait\<close> may return without a broadcast.\<close>

definition spurious_wakeup_sem :: "nat \<Rightarrow> int \<Rightarrow> mysem_st \<Rightarrow> mysem_st" where
  "spurious_wakeup_sem t v me =
     (if (t, v) \<in> set (sem_waiting me)
      then me\<lparr>sem_waiting := remove1 (t, v) (sem_waiting me), sem_woken := sem_woken me @ [(t, v)]\<rparr>
      else me)"

text \<open>Nothing is left of a destroyed semaphore.\<close>

definition mysem_destroy :: "mysem_st \<Rightarrow> int \<times> mysem_st option" where
  "mysem_destroy me = (0, None)"

datatype sem_op = Sem_add int | Sem_sub nat int | Sem_sub_woken nat int | Sem_wakeup nat int

fun sem_step :: "sem_op \<Rightarrow> mysem_st \<Rightarrow> sem_result" where
  "sem_step (Sem_add v) me = mysem_add v me"
| "sem_step (Sem_sub t v) me = mysem_sub t v me"
| "sem_step (Sem_sub_woken t v) me = (if (t, v) \<in> set (sem_woken me) then mysem_sub_woken t v me else Sem_done 0 me)"
| "sem_step (Sem_wakeup t v) me = Sem_done 0 (spurious_wakeup_sem t v me)"

text \<open>The operations of all threads (an operation that is not possible changes nothing) in their order, with what was
  added and taken; \<open>None\<close> after an overflow.\<close>

fun sem_run :: "sem_op list \<Rightarrow> mysem_st \<Rightarrow> (int \<times> int \<times> mysem_st) option" where
  "sem_run [] me = Some (0, 0, me)"
| "sem_run (x # xs) me =
     (case sem_step x me of
        Sem_undefined \<Rightarrow> None
      | Sem_waits me' \<Rightarrow> sem_run xs me'
      | Sem_done r me' \<Rightarrow>
          map_option (\<lambda>(a, t, m). (case x of Sem_add v \<Rightarrow> (a + max 0 r, t, m) | _ \<Rightarrow> (a, t + max 0 r, m))) (sem_run xs me'))"

lemmas mysem_defs = mysem_add_def mysem_sub_def mysem_sub_woken_def mysem_sub_test_def cond_broadcast_sem_def
  spurious_wakeup_sem_def

text \<open>Whoever waits wants something.\<close>

definition sem_wants_ok :: "mysem_st \<Rightarrow> bool" where
  "sem_wants_ok me \<longleftrightarrow> 0 \<le> sem_value me \<and> (\<forall>(t, v) \<in> set (sem_waiting me) \<union> set (sem_woken me). 0 \<le> v)"

lemma sem_wants_okI:
  "sem_wants_ok me \<Longrightarrow> 0 \<le> sem_value me1 \<Longrightarrow>
   set (sem_waiting me1) \<union> set (sem_woken me1) \<subseteq> {(t, v) | t v. 0 \<le> v} \<union> set (sem_waiting me) \<union> set (sem_woken me) \<Longrightarrow>
   sem_wants_ok me1"
  unfolding sem_wants_ok_def by blast

lemma mysem_sub_test_wants_ok:
  assumes "sem_wants_ok me" "0 \<le> v"
  shows "mysem_sub_test t v me = Sem_done r me1 \<Longrightarrow> sem_wants_ok me1 \<and> r = v \<and> sem_value me1 = sem_value me - v"
    and "mysem_sub_test t v me = Sem_waits me1 \<Longrightarrow> sem_wants_ok me1 \<and> sem_value me1 = sem_value me"
  using assms by (auto simp: mysem_sub_test_def sem_wants_ok_def split: if_splits)

lemma mysem_add_wants_ok:
  "sem_wants_ok me \<Longrightarrow> mysem_add v me = Sem_done r me1 \<Longrightarrow> sem_wants_ok me1 \<and> sem_value me1 = sem_value me + max 0 r"
  by (auto simp: mysem_add_def cond_broadcast_sem_def sem_wants_ok_def split: if_splits)

lemma mysem_woken_wants_ok: "sem_wants_ok me \<Longrightarrow> sem_wants_ok (me\<lparr>sem_woken := remove1 x (sem_woken me)\<rparr>)"
  by (rule sem_wants_okI) (auto simp: sem_wants_ok_def dest: set_remove1_subset [THEN subsetD])

lemma spurious_wakeup_wants_ok:
  assumes "sem_wants_ok me"
  shows "sem_wants_ok (spurious_wakeup_sem t v me)" "sem_value (spurious_wakeup_sem t v me) = sem_value me"
proof -
  have "set (remove1 (t, v) (sem_waiting me)) \<subseteq> set (sem_waiting me)" by (rule set_remove1_subset)
  then show "sem_wants_ok (spurious_wakeup_sem t v me)"
    using assms by (intro sem_wants_okI [OF assms]) (auto simp: spurious_wakeup_sem_def sem_wants_ok_def)
qed (simp add: spurious_wakeup_sem_def)

lemma sem_step_wants_ok:
  assumes "sem_wants_ok me"
  shows "sem_step x me = Sem_done r me1 \<Longrightarrow> sem_wants_ok me1
      \<and> sem_value me1 = sem_value me + (case x of Sem_add v \<Rightarrow> max 0 r | _ \<Rightarrow> - max 0 r)"
    and "sem_step x me = Sem_waits me1 \<Longrightarrow> sem_wants_ok me1 \<and> sem_value me1 = sem_value me"
proof -
  have woken: "0 \<le> v" if "(t, v) \<in> set (sem_woken me)" for t v using assms that by (auto simp: sem_wants_ok_def)
  note sub = mysem_sub_test_wants_ok [OF assms] mysem_sub_test_wants_ok [OF mysem_woken_wants_ok [OF assms]]
  show "sem_wants_ok me1 \<and> sem_value me1 = sem_value me + (case x of Sem_add v \<Rightarrow> max 0 r | _ \<Rightarrow> - max 0 r)"
    if res: "sem_step x me = Sem_done r me1"
  proof (cases x)
    case (Sem_sub t v)
    with res sub(1) [of v t r me1] assms show ?thesis by (cases "v < 0") (auto simp: mysem_sub_def)
  next
    case (Sem_sub_woken t v)
    with res sub(3) [of v t "(t, v)" r me1] woken [of t v] assms show ?thesis
      by (cases "(t, v) \<in> set (sem_woken me)") (auto simp: mysem_sub_woken_def)
  qed (use res mysem_add_wants_ok [OF assms] spurious_wakeup_wants_ok [OF assms] in auto)
  show "sem_wants_ok me1 \<and> sem_value me1 = sem_value me" if waits: "sem_step x me = Sem_waits me1"
  proof (cases x)
    case (Sem_sub t v)
    with waits sub(2) [of v t me1] show ?thesis by (cases "v < 0") (auto simp: mysem_sub_def)
  next
    case (Sem_sub_woken t v)
    with waits sub(4) [of v t "(t, v)" me1] woken [of t v] show ?thesis
      by (cases "(t, v) \<in> set (sem_woken me)") (auto simp: mysem_sub_woken_def)
  qed (use waits in \<open>auto simp: mysem_add_def split: if_splits\<close>)
qed

text \<open>The count is what it started with, plus what was added, minus what was taken, and never falls below zero.\<close>

lemma sem_run_balance:
  "sem_run xs me = Some (added, taken, me') \<Longrightarrow> sem_wants_ok me \<Longrightarrow>
   sem_value me' = sem_value me + added - taken \<and> 0 \<le> sem_value me' \<and> taken \<le> sem_value me + added"
proof (induction xs arbitrary: me added taken)
  case (Cons x xs)
  show ?case
  proof (cases "sem_step x me")
    case (Sem_done r me1)
    with Cons.prems obtain a t where rest: "sem_run xs me1 = Some (a, t, me')"
      and sums: "(added, taken) = (case x of Sem_add v \<Rightarrow> (a + max 0 r, t) | _ \<Rightarrow> (a, t + max 0 r))"
      by (cases x) auto
    from Cons.IH [OF rest] sem_step_wants_ok(1) [OF Cons.prems(2) Sem_done] sums show ?thesis by (cases x) auto
  next
    case (Sem_waits me1)
    with Cons.prems(1) have "sem_run xs me1 = Some (added, taken, me')" by simp
    from Cons.IH [OF this] sem_step_wants_ok(2) [OF Cons.prems(2) Sem_waits] show ?thesis by simp
  qed (use Cons.prems in simp)
qed (simp add: sem_wants_ok_def)

text \<open>Nobody is left waiting by an addition, whatever it adds.\<close>

lemma mysem_add_releases_all:
  "mysem_add v me = Sem_done r me' \<Longrightarrow> 0 \<le> v \<Longrightarrow>
   sem_waiting me' = [] \<and> set (sem_woken me') = set (sem_woken me) \<union> set (sem_waiting me)"
  by (auto simp: mysem_defs split: if_splits)

end
