(* ===== verification/Prime_Pool.thy ===== *)
theory Prime_Pool
  imports C_Prelude "HOL-Library.Multiset"
begin

text \<open>
  The pool of threads that looks for primes (\<^verbatim>\<open>apue/para/thread/posix/primer1_pool_cond.c\<close>): the main thread
  hands numbers over through one slot, guarded by a mutex and two condition variables. The model is a step
  relation: a step is a section under the mutex, or the computation outside it. \<^verbatim>\<open>pthread_cond_wait\<close> is a
  state of its own, which a signal ends, or, at any time, a spurious wakeup (\<open>pool_wakeup\<close>); which waiting thread a
  signal wakes is left open. A thread that was woken looks at its condition again. The trial division of the
  busy-waiting variant (\<^verbatim>\<open>primer1_pool_busy.c\<close>) is modelled too.
\<close>

section \<open>Trial division\<close>

lemma le_div_iff_square: "0 < j \<Longrightarrow> j \<le> i div j \<longleftrightarrow> j * j \<le> i" for i j :: int
proof
  assume j: "0 < j" and "j \<le> i div j"
  then have "j * j \<le> j * (i div j)" by (simp add: mult_left_mono)
  also have "\<dots> \<le> i" using j by (metis mult_div_mod_eq pos_mod_sign le_add_same_cancel1)
  finally show "j * j \<le> i" .
next
  assume j: "0 < j" and "j * j \<le> i"
  from zdiv_mono1 [OF this(2) j] j show "j \<le> i div j" by simp
qed

text \<open>\<^verbatim>\<open>for (j = 2; j <= i / j; j++) if (i % j == 0) ...\<close>: the result is \<open>mark\<close>.\<close>

function mark_loop :: "int \<Rightarrow> int \<Rightarrow> bool" where
  "mark_loop j i =
     (if 0 < j \<and> j \<le> i div j then (if i mod j = 0 then False else mark_loop (j + 1) i) else True)"
  by auto
termination
proof (relation "measure (\<lambda>(j, i). nat (i + 1 - j))", goal_cases)
  case (2 j i)
  then have j: "1 \<le> j" and "j * j \<le> i" by (auto simp: le_div_iff_square)
  from j have "j * 1 \<le> j * j" by (intro mult_left_mono) auto
  with \<open>j * j \<le> i\<close> show ?case by simp
qed simp

declare mark_loop.simps [simp del]

definition thr_mark :: "int \<Rightarrow> bool" where
  "thr_mark i = mark_loop 2 i"

text \<open>\<^verbatim>\<open>for (j = 2; j < i/2; j++)\<close> in the busy-waiting variant.\<close>

function busy_loop :: "int \<Rightarrow> int \<Rightarrow> bool" where
  "busy_loop j i = (if j < i div 2 then (if i mod j = 0 then False else busy_loop (j + 1) i) else True)"
  by auto
termination by (relation "measure (\<lambda>(j, i). nat (i div 2 - j))") auto

declare busy_loop.simps [simp del]

definition busy_mark :: "int \<Rightarrow> bool" where
  "busy_mark i = busy_loop 2 i"

definition is_prime :: "int \<Rightarrow> bool" where
  "is_prime i \<longleftrightarrow> 1 < i \<and> (\<forall>d. 1 < d \<longrightarrow> d < i \<longrightarrow> \<not> d dvd i)"

lemma mark_loop_iff: "0 < j \<Longrightarrow> mark_loop j i \<longleftrightarrow> (\<forall>d. j \<le> d \<longrightarrow> d * d \<le> i \<longrightarrow> \<not> d dvd i)"
proof (induction j i rule: mark_loop.induct)
  case (1 j i)
  have split: "(\<forall>d. j \<le> d \<longrightarrow> P d) \<longleftrightarrow> P j \<and> (\<forall>d. j + 1 \<le> d \<longrightarrow> P d)" for P
    by (metis add1_zle_eq order_le_less order_refl)
  show ?case
  proof (cases "j * j \<le> i")
    case True
    with 1 le_div_iff_square [of j i] show ?thesis
      by (subst mark_loop.simps, subst split) (auto simp: dvd_eq_mod_eq_0)
  next
    case False
    have "\<not> d * d \<le> i" if "j \<le> d" for d
      using that False mult_mono [of j d j d] \<open>0 < j\<close> by auto
    with False \<open>0 < j\<close> le_div_iff_square [of j i] show ?thesis by (subst mark_loop.simps) auto
  qed
qed

text \<open>Trial division up to the square root decides primality.\<close>

lemma thr_mark_decides_prime:
  assumes "1 < i"
  shows "thr_mark i \<longleftrightarrow> is_prime i"
proof
  assume "is_prime i"
  have "d < i" if "2 \<le> d" "d * d \<le> i" for d
  proof -
    have "2 * d \<le> d * d" using that by (intro mult_right_mono) auto
    with that show ?thesis by linarith
  qed
  with \<open>is_prime i\<close> show "thr_mark i" by (auto simp: thr_mark_def mark_loop_iff is_prime_def)
next
  assume mark: "thr_mark i"
  have "\<not> d dvd i" if "1 < d" "d < i" for d
  proof
    assume "d dvd i"
    then obtain e where i: "i = d * e" by (auto elim: dvdE)
    from i assms that have "0 < e" by (intro zero_less_mult_pos [of d e]) auto
    with i that have e: "1 < e" by (cases "e = 1") auto
    have small: "\<not> x dvd i" if "2 \<le> x" "x * x \<le> i" for x
      using mark that by (simp add: thr_mark_def mark_loop_iff)
    show False
    proof (cases "d \<le> e")
      case True
      with that i have "d * d \<le> i" by (simp add: mult_left_mono)
      with small [of d] that \<open>d dvd i\<close> show False by simp
    next
      case False
      with e i have "e * e \<le> i" by (simp add: mult_right_mono)
      with small [of e] e i show False by simp
    qed
  qed
  with assms show "is_prime i" by (auto simp: is_prime_def)
qed

text \<open>The busy-waiting variant stops before half the number, and so takes 4 for a prime.\<close>

lemma busy_mark_four: "busy_mark 4 \<and> \<not> is_prime 4"
proof -
  have "\<not> is_prime 4" unfolding is_prime_def by (auto intro!: exI [of _ 2])
  then show ?thesis by (simp add: busy_mark_def busy_loop.simps)
qed

section \<open>The pool\<close>

datatype worker = W_lock | W_wait | W_busy int | W_exit

text \<open>The main thread is about to lock, or waits, with the number it hands over next, or joins the workers.\<close>

datatype main_pc = M_lock int | M_wait int | M_join

record pool =
  pl_num :: int
  pl_main :: main_pc
  pl_workers :: "worker list"
  pl_handled :: "int list"
  pl_printed :: "(nat \<times> int) list"

definition pool_init :: "int \<Rightarrow> nat \<Rightarrow> pool" where
  "pool_init left n = \<lparr>pl_num = 0, pl_main = M_lock left, pl_workers = replicate n W_lock, pl_handled = [], pl_printed = []\<rparr>"

inductive cond_signal :: "worker list \<Rightarrow> worker list \<Rightarrow> bool" where
  signal_none: "W_wait \<notin> set ws \<Longrightarrow> cond_signal ws ws"
| signal_one: "k < length ws \<Longrightarrow> ws ! k = W_wait \<Longrightarrow> cond_signal ws (ws[k := W_lock])"

definition cond_broadcast :: "worker list \<Rightarrow> worker list" where
  "cond_broadcast ws = map (\<lambda>w. if w = W_wait then W_lock else w) ws"

definition signal_main :: "main_pc \<Rightarrow> main_pc" where
  "signal_main m = (case m of M_wait i \<Rightarrow> M_lock i | _ \<Rightarrow> m)"

inductive pool_step :: "int \<Rightarrow> pool \<Rightarrow> pool \<Rightarrow> bool" for right :: int where
  main_waits: "pl_main s = M_lock i \<Longrightarrow> pl_num s \<noteq> 0 \<Longrightarrow> pool_step right s (s\<lparr>pl_main := M_wait i\<rparr>)"
| main_puts: "pl_main s = M_lock i \<Longrightarrow> pl_num s = 0 \<Longrightarrow> i \<le> right \<Longrightarrow> cond_signal (pl_workers s) ws \<Longrightarrow>
    pool_step right s (s\<lparr>pl_num := i, pl_main := M_lock (i + 1), pl_workers := ws\<rparr>)"
| main_ends: "pl_main s = M_lock i \<Longrightarrow> pl_num s = 0 \<Longrightarrow> right < i \<Longrightarrow>
    pool_step right s (s\<lparr>pl_num := - 1, pl_main := M_join, pl_workers := cond_broadcast (pl_workers s)\<rparr>)"
| worker_waits: "k < length (pl_workers s) \<Longrightarrow> pl_workers s ! k = W_lock \<Longrightarrow> pl_num s = 0 \<Longrightarrow>
    pool_step right s (s\<lparr>pl_workers := (pl_workers s)[k := W_wait]\<rparr>)"
| worker_exits: "k < length (pl_workers s) \<Longrightarrow> pl_workers s ! k = W_lock \<Longrightarrow> pl_num s = - 1 \<Longrightarrow>
    pool_step right s (s\<lparr>pl_workers := (pl_workers s)[k := W_exit]\<rparr>)"
| worker_claims: "k < length (pl_workers s) \<Longrightarrow> pl_workers s ! k = W_lock \<Longrightarrow> pl_num s \<noteq> 0 \<Longrightarrow> pl_num s \<noteq> - 1 \<Longrightarrow>
    pool_step right s (s\<lparr>pl_num := 0, pl_main := signal_main (pl_main s), pl_workers := (pl_workers s)[k := W_busy (pl_num s)]\<rparr>)"
| worker_computes: "k < length (pl_workers s) \<Longrightarrow> pl_workers s ! k = W_busy i \<Longrightarrow>
    pool_step right s (s\<lparr>pl_workers := (pl_workers s)[k := W_lock], pl_handled := pl_handled s @ [i],
      pl_printed := pl_printed s @ (if thr_mark i then [(k, i)] else [])\<rparr>)"

text \<open>\<^verbatim>\<open>pthread_cond_wait\<close> may return without a signal.\<close>

inductive pool_wakeup :: "pool \<Rightarrow> pool \<Rightarrow> bool" where
  worker_wakes: "k < length (pl_workers s) \<Longrightarrow> pl_workers s ! k = W_wait \<Longrightarrow>
    pool_wakeup s (s\<lparr>pl_workers := (pl_workers s)[k := W_lock]\<rparr>)"
| main_wakes: "pl_main s = M_wait i \<Longrightarrow> pool_wakeup s (s\<lparr>pl_main := M_lock i\<rparr>)"

text \<open>An execution with the numbers of its steps and of its spurious wakeups.\<close>

inductive pool_path :: "int \<Rightarrow> pool \<Rightarrow> nat \<Rightarrow> nat \<Rightarrow> pool \<Rightarrow> bool" for right :: int and start :: pool where
  path_start: "pool_path right start 0 0 start"
| path_step: "pool_path right start k w s \<Longrightarrow> pool_step right s s' \<Longrightarrow> pool_path right start (Suc k) w s'"
| path_wakeup: "pool_path right start k w s \<Longrightarrow> pool_wakeup s s' \<Longrightarrow> pool_path right start k (Suc w) s'"

section \<open>Invariant\<close>

lemma sum_list_map_update:
  fixes f :: "'a \<Rightarrow> 'b::cancel_comm_monoid_add"
  shows "k < length ws \<Longrightarrow> sum_list (map f (ws[k := w])) + f (ws ! k) = sum_list (map f ws) + f w"
proof (induction ws arbitrary: k)
  case (Cons x ws)
  show ?case
  proof (cases k)
    case 0
    then show ?thesis by (simp add: ac_simps)
  next
    case (Suc m)
    with Cons show ?thesis by (simp add: add.assoc)
  qed
qed simp

fun busy_with :: "worker \<Rightarrow> int multiset" where
  "busy_with (W_busy i) = {#i#}"
| "busy_with _ = {#}"

definition in_slot :: "int \<Rightarrow> int multiset" where
  "in_slot m = (if 0 < m then {#m#} else {#})"

definition in_pool :: "pool \<Rightarrow> int multiset" where
  "in_pool s = mset (pl_handled s) + sum_list (map busy_with (pl_workers s)) + in_slot (pl_num s)"

fun handed_over :: "int \<Rightarrow> main_pc \<Rightarrow> int" where
  "handed_over right (M_lock i) = i"
| "handed_over right (M_wait i) = i"
| "handed_over right M_join = right + 1"

definition pool_inv :: "int \<Rightarrow> int \<Rightarrow> nat \<Rightarrow> pool \<Rightarrow> bool" where
  "pool_inv left right n s \<longleftrightarrow>
     length (pl_workers s) = n
     \<and> left \<le> handed_over right (pl_main s) \<and> handed_over right (pl_main s) \<le> right + 1
     \<and> in_pool s = mset [left .. handed_over right (pl_main s) - 1]
     \<and> map snd (pl_printed s) = filter thr_mark (pl_handled s)
     \<and> (pl_num s = - 1 \<longleftrightarrow> pl_main s = M_join) \<and> - 1 \<le> pl_num s
     \<and> (\<forall>i. pl_main s = M_wait i \<longrightarrow> 0 < pl_num s)
     \<and> (W_exit \<in> set (pl_workers s) \<longrightarrow> pl_num s = - 1)
     \<and> (pl_num s = - 1 \<longrightarrow> W_wait \<notin> set (pl_workers s))
     \<and> (0 < pl_num s \<longrightarrow> (\<exists>w \<in> set (pl_workers s). w \<noteq> W_wait \<and> w \<noteq> W_exit))"

lemma pool_inv_init: "left \<le> right + 1 \<Longrightarrow> pool_inv left right n (pool_init left n)"
  by (induction n) (simp_all add: pool_inv_def pool_init_def in_pool_def in_slot_def)

lemma busy_broadcast: "map busy_with (cond_broadcast ws) = map busy_with ws"
  by (simp add: cond_broadcast_def)

lemma cond_signal_facts:
  "cond_signal ws ws' \<Longrightarrow> length ws' = length ws \<and> sum_list (map busy_with ws') = sum_list (map busy_with ws)
     \<and> (W_exit \<in> set ws' \<longleftrightarrow> W_exit \<in> set ws)"
proof (induction rule: cond_signal.induct)
  case (signal_one k ws)
  from sum_list_map_update [OF signal_one(1), of busy_with W_lock] signal_one
  have "sum_list (map busy_with (ws[k := W_lock])) = sum_list (map busy_with ws)" by simp
  moreover have "ws ! i = W_exit \<Longrightarrow> i \<noteq> k" for i using signal_one by auto
  then have "W_exit \<in> set (ws[k := W_lock]) \<longleftrightarrow> W_exit \<in> set ws"
    using signal_one(1) by (auto simp: in_set_conv_nth nth_list_update split: if_splits) metis
  ultimately show ?case by simp
qed simp

lemma cond_signal_ready:
  "cond_signal ws ws' \<Longrightarrow> ws \<noteq> [] \<Longrightarrow> W_exit \<notin> set ws \<Longrightarrow> \<exists>w \<in> set ws'. w \<noteq> W_wait \<and> w \<noteq> W_exit"
proof (induction rule: cond_signal.induct)
  case (signal_none ws)
  then show ?case by (cases ws) auto
next
  case (signal_one k ws)
  then have "W_lock \<in> set (ws[k := W_lock])" by (meson set_update_memI)
  then show ?case by blast
qed

lemma in_pool_worker:
  assumes "k < length (pl_workers s)"
  shows "sum_list (map busy_with ((pl_workers s)[k := w])) + busy_with (pl_workers s ! k) = sum_list (map busy_with (pl_workers s)) + busy_with w"
  using sum_list_map_update [OF assms, of busy_with w] .

lemma upto_snoc: "left \<le> i \<Longrightarrow> mset [left .. i] = mset [left .. i - 1] + {#i#}"
  by (subst upto_rec2) auto

lemma in_set_update_other: "x \<in> set (ws[k := w]) \<Longrightarrow> x \<noteq> w \<Longrightarrow> x \<in> set ws"
  using set_update_subset_insert [of ws k w] by auto

lemma ready_update: "k < length ws \<Longrightarrow> w \<noteq> W_wait \<Longrightarrow> w \<noteq> W_exit \<Longrightarrow> \<exists>v \<in> set (ws[k := w]). v \<noteq> W_wait \<and> v \<noteq> W_exit"
  by (meson set_update_memI)

lemma pool_inv_step:
  assumes "pool_step right s s'" "pool_inv left right n s" "0 < left" "0 < n"
  shows "pool_inv left right n s'"
  using assms
proof (cases rule: pool_step.cases)
  case (main_waits i)
  with assms(2) show ?thesis by (auto simp: pool_inv_def in_pool_def)
next
  case (main_puts i ws)
  with assms(2,3) have i: "left \<le> i" "0 < i" and e: "W_exit \<notin> set (pl_workers s)" "pl_workers s \<noteq> []"
    using assms(4) by (auto simp: pool_inv_def)
  from upto_snoc [OF i(1)] cond_signal_facts [OF main_puts(5)] cond_signal_ready [OF main_puts(5) e(2,1)] e i main_puts assms(2)
  show ?thesis by (simp add: pool_inv_def in_pool_def in_slot_def)
next
  case (main_ends i)
  with assms(2) have "i = right + 1" by (simp add: pool_inv_def)
  with main_ends assms(2) show ?thesis
    by (auto simp: pool_inv_def in_pool_def in_slot_def busy_broadcast) (auto simp: cond_broadcast_def)
next
  case (worker_waits k)
  with in_pool_worker [of k s W_wait] assms(2) show ?thesis
    by (auto simp: pool_inv_def in_pool_def dest: in_set_update_other)
next
  case (worker_exits k)
  with in_pool_worker [of k s W_exit] assms(2) show ?thesis
    by (auto simp: pool_inv_def in_pool_def dest: in_set_update_other)
next
  case (worker_claims k)
  with assms(2) have "0 < pl_num s" "signal_main (pl_main s) \<noteq> M_join" "W_exit \<notin> set (pl_workers s)"
    by (auto simp: pool_inv_def signal_main_def split: main_pc.splits)
  with worker_claims in_pool_worker [of k s "W_busy (pl_num s)"] assms(2) show ?thesis
    by (auto simp: pool_inv_def in_pool_def in_slot_def signal_main_def dest: in_set_update_other split: main_pc.splits)
next
  case (worker_computes k i)
  with in_pool_worker [of k s W_lock]
  have "sum_list (map busy_with (pl_workers s)) = add_mset i (sum_list (map busy_with ((pl_workers s)[k := W_lock])))" by simp
  with worker_computes have "in_pool s' = in_pool s" by (simp add: in_pool_def)
  with worker_computes ready_update [of k "pl_workers s" W_lock] assms(2) show ?thesis
    by (auto simp: pool_inv_def dest: in_set_update_other)
qed

lemma pool_inv_wakeup: "pool_wakeup s s' \<Longrightarrow> pool_inv left right n s \<Longrightarrow> pool_inv left right n s'"
proof (induction rule: pool_wakeup.induct)
  case (worker_wakes k s)
  with in_pool_worker [of k s W_lock] ready_update [of k "pl_workers s" W_lock] show ?case
    by (auto simp: pool_inv_def in_pool_def dest: in_set_update_other)
next
  case (main_wakes s i)
  then show ?case by (auto simp: pool_inv_def in_pool_def)
qed

section \<open>Progress\<close>

text \<open>A state without a step is the end: nobody waits for a signal that will not come.\<close>

lemma pool_stuck_is_end:
  assumes "pool_inv left right n s" "\<And>s'. \<not> pool_step right s s'" "0 < n"
  shows "pl_main s = M_join \<and> set (pl_workers s) = {W_exit}"
proof -
  have workers: "w = W_wait \<or> w = W_exit" if w: "w \<in> set (pl_workers s)" for w
  proof -
    from w obtain k where k: "k < length (pl_workers s)" "pl_workers s ! k = w" by (auto simp: in_set_conv_nth)
    show ?thesis
    proof (cases w)
      case W_lock
      with k assms(2) show ?thesis by (metis worker_waits worker_exits worker_claims)
    next
      case (W_busy i)
      with k assms(2) show ?thesis by (metis worker_computes)
    qed simp_all
  qed
  then have "\<not> 0 < pl_num s" using assms(1) by (auto simp: pool_inv_def)
  moreover have "pl_main s \<noteq> M_lock i" for i
    using assms(2) cond_signal.intros by (metis in_set_conv_nth main_ends main_puts main_waits not_le)
  ultimately have "pl_main s = M_join" using assms(1) by (cases "pl_main s") (auto simp: pool_inv_def)
  moreover from this assms(1) have "W_wait \<notin> set (pl_workers s)" "pl_workers s \<noteq> []"
    using assms(3) by (auto simp: pool_inv_def)
  ultimately show ?thesis using workers by (cases "pl_workers s") auto
qed

text \<open>The potential falls with every step, and a spurious wakeup adds one to it.\<close>

fun worker_potential :: "worker \<Rightarrow> nat" where
  "worker_potential W_exit = 0"
| "worker_potential W_wait = 1"
| "worker_potential W_lock = 2"
| "worker_potential (W_busy i) = 3"

fun main_potential :: "nat \<Rightarrow> int \<Rightarrow> main_pc \<Rightarrow> nat" where
  "main_potential n right (M_lock i) = (n + 6) * nat (right + 2 - i) + 2"
| "main_potential n right (M_wait i) = (n + 6) * nat (right + 2 - i) + 1"
| "main_potential n right M_join = 0"

definition potential :: "int \<Rightarrow> pool \<Rightarrow> nat" where
  "potential right s = main_potential (length (pl_workers s)) right (pl_main s)
     + sum_list (map worker_potential (pl_workers s)) + (if 0 < pl_num s then 3 else 0)"

lemma worker_potential_update:
  assumes "k < length (pl_workers s)"
  shows "sum_list (map worker_potential ((pl_workers s)[k := w])) + worker_potential (pl_workers s ! k)
    = sum_list (map worker_potential (pl_workers s)) + worker_potential w"
  using sum_list_map_update [OF assms, of worker_potential w] .

lemma cond_signal_potential:
  "cond_signal ws ws' \<Longrightarrow> sum_list (map worker_potential ws') \<le> sum_list (map worker_potential ws) + 1"
proof (induction rule: cond_signal.induct)
  case (signal_one k ws)
  with sum_list_map_update [OF signal_one(1), of worker_potential W_lock] show ?case by simp
qed simp

lemma cond_broadcast_potential:
  "sum_list (map worker_potential (cond_broadcast ws)) \<le> sum_list (map worker_potential ws) + length ws"
  by (induction ws) (auto simp: cond_broadcast_def)

lemma pool_step_potential:
  assumes "pool_step right s s'" "pool_inv left right n s"
  shows "potential right s' < potential right s"
  using assms
proof (cases rule: pool_step.cases)
  case (main_puts i ws)
  then have "nat (right + 2 - i) = Suc (nat (right + 2 - (i + 1)))" by simp
  with main_puts cond_signal_potential [OF main_puts(5)] cond_signal_facts [OF main_puts(5)] show ?thesis
    by (simp add: potential_def)
next
  case (main_ends i)
  with assms(2) have "i = right + 1" by (simp add: pool_inv_def)
  then have "nat (right + 2 - i) = 1" by simp
  with main_ends cond_broadcast_potential [of "pl_workers s"] show ?thesis by (simp add: potential_def)
next
  case (worker_claims k)
  with assms(2) have "0 < pl_num s" by (auto simp: pool_inv_def)
  with worker_claims worker_potential_update [of k s "W_busy (pl_num s)"] show ?thesis
    by (cases "pl_main s") (auto simp: potential_def signal_main_def)
next
  case (worker_waits k)
  with worker_potential_update [of k s W_wait] show ?thesis by (simp add: potential_def)
next
  case (worker_exits k)
  with worker_potential_update [of k s W_exit] show ?thesis by (simp add: potential_def)
next
  case (worker_computes k i)
  with worker_potential_update [of k s W_lock] show ?thesis by (simp add: potential_def)
qed (simp add: potential_def)

lemma pool_wakeup_potential: "pool_wakeup s s' \<Longrightarrow> potential right s' = Suc (potential right s)"
proof (induction rule: pool_wakeup.induct)
  case (worker_wakes k s)
  with worker_potential_update [of k s W_lock] show ?case by (simp add: potential_def)
qed (simp add: potential_def)

lemma pool_run:
  assumes "pool_path right (pool_init left n) k w s" "0 < left" "left \<le> right + 1" "0 < n"
  shows "pool_inv left right n s \<and> k + potential right s \<le> potential right (pool_init left n) + w"
  using assms(1)
proof (induction rule: pool_path.induct)
  case path_start
  with pool_inv_init [OF assms(3), of n] show ?case by simp
next
  case (path_step k w s s')
  with pool_inv_step [OF path_step(2)] pool_step_potential [OF path_step(2)] assms(2,4) show ?case by fastforce
next
  case (path_wakeup k w s s')
  with pool_inv_wakeup [OF path_wakeup(2)] pool_wakeup_potential [OF path_wakeup(2)] show ?case by auto
qed

lemma pool_end_printed:
  assumes "pool_inv left right n s" "pl_main s = M_join" "set (pl_workers s) = {W_exit}" "1 < left"
  shows "mset (map snd (pl_printed s)) = mset (filter is_prime [left .. right])"
proof -
  have "map busy_with (pl_workers s) = map (\<lambda>_. {#}) (pl_workers s)" using assms(3) by simp
  then have idle: "sum_list (map busy_with (pl_workers s)) = {#}" by (simp only:) (induction "pl_workers s", auto)
  from assms(1,2) have "pl_num s = - 1" "in_pool s = mset [left .. right]" by (auto simp: pool_inv_def)
  with idle have handled: "mset (pl_handled s) = mset [left .. right]" by (simp add: in_pool_def in_slot_def)
  from assms(1) have "mset (map snd (pl_printed s)) = filter_mset thr_mark (mset (pl_handled s))"
    by (simp add: pool_inv_def)
  also have "\<dots> = filter_mset is_prime (mset [left .. right])"
    unfolding handled using assms(4) by (intro filter_mset_cong) (auto simp: thr_mark_decides_prime)
  finally show ?thesis by simp
qed

text \<open>C16: The pool finds the primes. However its threads are scheduled, whichever waiting thread a signal wakes and
  whenever a wait returns without a signal, an execution has a bounded number of steps, one more for each such
  spurious wakeup; before the end some thread always has a step that needs no spurious wakeup, so that no wakeup
  is lost and no thread deadlocks; and at the end every worker has returned and the numbers printed are exactly
  the primes of the range, each once.\<close>
theorem pool_finds_primes:
  assumes "pool_path right (pool_init left n) k w s" "1 < left" "left \<le> right + 1" "0 < n"
  shows "k \<le> potential right (pool_init left n) + w
    \<and> ((\<exists>s'. pool_step right s s')
       \<or> pl_main s = M_join \<and> set (pl_workers s) = {W_exit} \<and> mset (map snd (pl_printed s)) = mset (filter is_prime [left .. right]))"
proof -
  from pool_run [OF assms(1) _ assms(3,4)] assms(2)
  have inv: "pool_inv left right n s" and "k \<le> potential right (pool_init left n) + w" by auto
  with pool_stuck_is_end [OF inv _ assms(4)] pool_end_printed [OF inv _ _ assms(2)] show ?thesis by blast
qed

theorem pool_finds_primes_witness:
  "\<exists>k s. pool_path 30000200 (pool_init 30000000 4) k 0 s \<and> pl_main s = M_join \<and> set (pl_workers s) = {W_exit}
    \<and> mset (map snd (pl_printed s)) = mset (filter is_prime [30000000 .. 30000200])"
proof -
  define reach where "reach k \<longleftrightarrow> (\<exists>s. pool_path 30000200 (pool_init 30000000 4) k 0 s)" for k
  let ?printed = "\<lambda>s. mset (map snd (pl_printed s)) = mset (filter is_prime [30000000 .. 30000200])"
  have fact: "k \<le> potential 30000200 (pool_init 30000000 4) + 0
      \<and> ((\<exists>s'. pool_step 30000200 s s') \<or> pl_main s = M_join \<and> set (pl_workers s) = {W_exit} \<and> ?printed s)"
    if "pool_path 30000200 (pool_init 30000000 4) k 0 s" for k s
    by (rule pool_finds_primes [OF that]) simp_all
  have "reach 0" unfolding reach_def by (metis path_start)
  moreover have bound: "\<forall>k. reach k \<longrightarrow> k < Suc (potential 30000200 (pool_init 30000000 4))"
    unfolding reach_def using fact less_Suc_eq_le by force
  ultimately obtain k where k: "reach k" "\<And>m. reach m \<Longrightarrow> m \<le> k"
    using ex_has_greatest_nat [of reach 0 "\<lambda>x. x"] by (metis less_imp_le)
  then obtain s where s: "pool_path 30000200 (pool_init 30000000 4) k 0 s" unfolding reach_def by blast
  have "\<not> pool_step 30000200 s s'" for s'
  proof
    assume "pool_step 30000200 s s'"
    with s have "reach (Suc k)" unfolding reach_def by (metis path_step)
    with k(2) show False by fastforce
  qed
  with fact [OF s] s show ?thesis by blast
qed

end
