(* ===== verification/Prime_Busy.thy ===== *)
theory Prime_Busy
  imports Prime_Pool
begin

text \<open>
  The other programs that look for primes: the pool whose threads yield instead of waiting on condition variables
  (\<^verbatim>\<open>apue/para/thread/posix/primer1_pool_busy.c\<close>), shown to refine the pool of \<open>Prime_Pool\<close>, and one thread
  per number (\<^verbatim>\<open>primer.c\<close>, \<^verbatim>\<open>primer1.c\<close>). All three stop their trial division at half the number.
\<close>

section \<open>Trial division up to the half\<close>

lemma busy_loop_iff: "busy_loop j i \<longleftrightarrow> (\<forall>d. j \<le> d \<longrightarrow> d < i div 2 \<longrightarrow> \<not> d dvd i)"
proof (induction j i rule: busy_loop.induct)
  case (1 j i)
  have split: "(\<forall>d. j \<le> d \<longrightarrow> P d) \<longleftrightarrow> P j \<and> (\<forall>d. j + 1 \<le> d \<longrightarrow> P d)" for P
    by (metis add1_zle_eq order_le_less order_refl)
  show ?case
  proof (cases "j < i div 2")
    case True
    with 1 show ?thesis by (subst busy_loop.simps, subst split) (auto simp: dvd_eq_mod_eq_0)
  next
    case False
    then show ?thesis by (subst busy_loop.simps) auto
  qed
qed

lemma divisor_below_half:
  fixes d i :: int
  assumes "2 \<le> d" "d * d \<le> i" "4 < i" "d dvd i"
  shows "d < i div 2"
proof (cases "d = 2")
  case True
  have "2 dvd i \<Longrightarrow> 2 < i div 2" using assms(3) by presburger
  with True assms(4) show ?thesis by simp
next
  case False
  with assms(1) have "3 * d \<le> d * d" by (intro mult_right_mono) auto
  with assms(1,2) False show ?thesis by linarith
qed

text \<open>Above 4 the half is as good as the square root.\<close>

lemma busy_mark_thr_mark:
  assumes "4 < i"
  shows "busy_mark i \<longleftrightarrow> thr_mark i"
proof
  assume "busy_mark i"
  with divisor_below_half [of _ i] assms show "thr_mark i"
    by (auto simp: busy_mark_def busy_loop_iff thr_mark_def mark_loop_iff)
next
  assume "thr_mark i"
  with assms have "is_prime i" by (simp add: thr_mark_decides_prime)
  with assms show "busy_mark i" by (auto simp: busy_mark_def busy_loop_iff is_prime_def)
qed

section \<open>The busy-waiting pool\<close>

inductive busy_step :: "int \<Rightarrow> pool \<Rightarrow> pool \<Rightarrow> bool" for right :: int where
  busy_main_yields: "pl_main s = M_lock i \<Longrightarrow> pl_num s \<noteq> 0 \<Longrightarrow> busy_step right s s"
| busy_main_puts: "pl_main s = M_lock i \<Longrightarrow> pl_num s = 0 \<Longrightarrow> i \<le> right \<Longrightarrow>
    busy_step right s (s\<lparr>pl_num := i, pl_main := M_lock (i + 1)\<rparr>)"
| busy_main_ends: "pl_main s = M_lock i \<Longrightarrow> pl_num s = 0 \<Longrightarrow> right < i \<Longrightarrow>
    busy_step right s (s\<lparr>pl_num := - 1, pl_main := M_join\<rparr>)"
| busy_worker_yields: "k < length (pl_workers s) \<Longrightarrow> pl_workers s ! k = W_lock \<Longrightarrow> pl_num s = 0 \<Longrightarrow> busy_step right s s"
| busy_worker_exits: "k < length (pl_workers s) \<Longrightarrow> pl_workers s ! k = W_lock \<Longrightarrow> pl_num s = - 1 \<Longrightarrow>
    busy_step right s (s\<lparr>pl_workers := (pl_workers s)[k := W_exit]\<rparr>)"
| busy_worker_claims: "k < length (pl_workers s) \<Longrightarrow> pl_workers s ! k = W_lock \<Longrightarrow> pl_num s \<noteq> 0 \<Longrightarrow> pl_num s \<noteq> - 1 \<Longrightarrow>
    busy_step right s (s\<lparr>pl_num := 0, pl_workers := (pl_workers s)[k := W_busy (pl_num s)]\<rparr>)"
| busy_worker_computes: "k < length (pl_workers s) \<Longrightarrow> pl_workers s ! k = W_busy i \<Longrightarrow>
    busy_step right s (s\<lparr>pl_workers := (pl_workers s)[k := W_lock], pl_handled := pl_handled s @ [i],
      pl_printed := pl_printed s @ (if busy_mark i then [(k, i)] else [])\<rparr>)"

text \<open>Nobody waits on a condition variable here.\<close>

definition no_waiting :: "pool \<Rightarrow> bool" where
  "no_waiting s \<longleftrightarrow> W_wait \<notin> set (pl_workers s) \<and> (\<forall>i. pl_main s \<noteq> M_wait i)"

lemma no_waiting_init: "no_waiting (pool_init left n)"
  by (simp add: no_waiting_def pool_init_def)

lemma busy_step_no_waiting: "busy_step right s s' \<Longrightarrow> no_waiting s \<Longrightarrow> no_waiting s'"
  by (induction rule: busy_step.induct) (auto simp: no_waiting_def dest: in_set_update_other)

lemma busy_with_in_pool:
  assumes "k < length (pl_workers s)" "pl_workers s ! k = W_busy i"
  shows "i \<in># in_pool s"
proof -
  have "sum_list (map busy_with (pl_workers s)) = add_mset i (sum_list (map busy_with ((pl_workers s)[k := W_lock])))"
    using in_pool_worker [OF assms(1), of W_lock] assms(2) by simp
  then show ?thesis by (simp add: in_pool_def)
qed

lemma busy_value:
  assumes "pool_inv left right n s" "k < length (pl_workers s)" "pl_workers s ! k = W_busy i"
  shows "left \<le> i"
  using busy_with_in_pool [OF assms(2,3)] assms(1) by (auto simp: pool_inv_def)

text \<open>A step of the busy-waiting pool is one of the pool with condition variables, or changes nothing.\<close>

lemma busy_step_simulated:
  assumes "busy_step right s s'" "pool_inv left right n s" "no_waiting s" "4 < left"
  shows "s' = s \<or> pool_step right s s'"
  using assms(1)
proof cases
  case (busy_main_puts i)
  have "cond_signal (pl_workers s) (pl_workers s)" using assms(3) by (auto simp: no_waiting_def intro: cond_signal.intros)
  from main_puts [OF busy_main_puts(2-4) this] busy_main_puts(1) show ?thesis by simp
next
  case (busy_main_ends i)
  have "cond_broadcast (pl_workers s) = pl_workers s"
    using assms(3) by (auto simp: no_waiting_def cond_broadcast_def intro: map_idI)
  with main_ends [OF busy_main_ends(2-4)] busy_main_ends(1) show ?thesis by simp
next
  case (busy_worker_claims k)
  have "signal_main (pl_main s) = pl_main s" using assms(3) by (auto simp: no_waiting_def signal_main_def split: main_pc.splits)
  with worker_claims [OF busy_worker_claims(2-5)] busy_worker_claims(1) show ?thesis by simp
next
  case (busy_worker_computes k i)
  from busy_value [OF assms(2) busy_worker_computes(2,3)] assms(4) have "busy_mark i \<longleftrightarrow> thr_mark i"
    by (simp add: busy_mark_thr_mark)
  with worker_computes [OF busy_worker_computes(2,3)] busy_worker_computes(1) show ?thesis by simp
qed (auto intro: worker_exits)

lemma busy_run_simulated:
  assumes "(busy_step right)\<^sup>*\<^sup>* (pool_init left n) s" "4 < left" "left \<le> right + 1" "0 < n"
  shows "(pool_step right)\<^sup>*\<^sup>* (pool_init left n) s \<and> pool_inv left right n s \<and> no_waiting s"
  using assms(1)
proof (induction rule: rtranclp_induct)
  case base
  then show ?case using assms(3) by (simp add: pool_inv_init no_waiting_init)
next
  case (step s s')
  then have inv: "pool_inv left right n s" "no_waiting s" and run: "(pool_step right)\<^sup>*\<^sup>* (pool_init left n) s" by auto
  from busy_step_simulated [OF step(2) inv assms(2)] show ?case
  proof
    assume "s' = s"
    with inv run show ?thesis by simp
  next
    assume p: "pool_step right s s'"
    with run have "(pool_step right)\<^sup>*\<^sup>* (pool_init left n) s'" by (rule rtranclp.rtrancl_into_rtrancl)
    with pool_inv_step [OF p inv(1) _ assms(4)] busy_step_no_waiting [OF step(2) inv(2)] assms(2) show ?thesis by simp
  qed
qed

section \<open>The end of the busy-waiting pool\<close>

definition pool_finished :: "int \<Rightarrow> int \<Rightarrow> pool \<Rightarrow> bool" where
  "pool_finished left right s \<longleftrightarrow> pl_main s = M_join \<and> set (pl_workers s) = {W_exit}
     \<and> mset (map snd (pl_printed s)) = mset (filter is_prime [left .. right])"

text \<open>As long as a worker is left, some thread can do more than yield.\<close>

lemma workers_differ: "pl_workers s' \<noteq> pl_workers s \<Longrightarrow> s' \<noteq> s"
  by auto

lemma busy_worker_progress:
  assumes "w \<in> set (pl_workers s)" "w = W_lock \<or> (\<exists>i. w = W_busy i)" "pl_num s \<noteq> 0"
  shows "\<exists>s'. busy_step right s s' \<and> s' \<noteq> s"
proof -
  from assms(1) obtain k where k: "k < length (pl_workers s)" "pl_workers s ! k = w" by (auto simp: in_set_conv_nth)
  have changed: "(pl_workers s)[k := v] \<noteq> pl_workers s" if "v \<noteq> w" for v
  proof
    assume "(pl_workers s)[k := v] = pl_workers s"
    then have "(pl_workers s)[k := v] ! k = pl_workers s ! k" by simp
    with k that show False by simp
  qed
  from assms(2) have "\<exists>s' v. busy_step right s s' \<and> v \<noteq> w \<and> pl_workers s' = (pl_workers s)[k := v]"
  proof
    assume w: "w = W_lock"
    show ?thesis
    proof (cases "pl_num s = - 1")
      case True
      from busy_worker_exits [OF k(1) _ this, of right] k(2) w show ?thesis by fastforce
    next
      case False
      from busy_worker_claims [OF k(1) _ assms(3) False, of right] k(2) w show ?thesis by fastforce
    qed
  next
    assume "\<exists>i. w = W_busy i"
    then obtain i where "w = W_busy i" by blast
    with busy_worker_computes [OF k(1), of i right] k(2) show ?thesis by fastforce
  qed
  with changed workers_differ show ?thesis by metis
qed

lemma busy_main_progress:
  assumes "pl_main s = M_lock i" "pl_num s = 0"
  shows "\<exists>s'. busy_step right s s' \<and> s' \<noteq> s"
proof -
  have other: "s\<lparr>pl_num := m, pl_main := x\<rparr> \<noteq> s" if "x \<noteq> M_lock i" for m x
    using that assms(1) by (auto dest!: arg_cong [where f = pl_main])
  show ?thesis
  proof (cases "i \<le> right")
    case True
    from busy_main_puts [OF assms this] other [of "M_lock (i + 1)" i] show ?thesis by auto
  next
    case False
    then have "right < i" by simp
    from busy_main_ends [OF assms this] other [of M_join "- 1"] show ?thesis by auto
  qed
qed

lemma busy_progress:
  assumes "pool_inv left right n s" "no_waiting s" "0 < n" "1 < left"
  shows "pool_finished left right s \<or> (\<exists>s'. busy_step right s s' \<and> s' \<noteq> s)"
proof (cases "pl_num s = 0")
  case True
  with assms(1,2) obtain i where "pl_main s = M_lock i" by (cases "pl_main s") (auto simp: pool_inv_def no_waiting_def)
  with busy_main_progress True show ?thesis by blast
next
  case False
  show ?thesis
  proof (cases "\<exists>w \<in> set (pl_workers s). w \<noteq> W_exit")
    case True
    then obtain w where "w \<in> set (pl_workers s)" "w \<noteq> W_exit" by blast
    moreover from this assms(2) have "w \<noteq> W_wait" by (auto simp: no_waiting_def)
    moreover from this \<open>w \<noteq> W_exit\<close> have "w = W_lock \<or> (\<exists>i. w = W_busy i)" by (cases w) auto
    ultimately show ?thesis using busy_worker_progress False by blast
  next
    case all: False
    from assms(1,3) have "pl_workers s \<noteq> []" by (auto simp: pool_inv_def)
    with all have exited: "set (pl_workers s) = {W_exit}" by (cases "pl_workers s") auto
    with assms(1) have "pl_main s = M_join" by (auto simp: pool_inv_def)
    with pool_end_printed [OF assms(1) this exited assms(4)] exited show ?thesis by (simp add: pool_finished_def)
  qed
qed

text \<open>The busy-waiting pool refines the pool with condition variables. For numbers above 4 every state it reaches is
  one the other reaches too; it ends with every worker returned and exactly the primes of the range printed, and
  until then some thread can always do more than yield (which of them runs is up to the scheduler, so that it
  ends only if that is fair).\<close>
theorem busy_pool_refines:
  assumes "(busy_step right)\<^sup>*\<^sup>* (pool_init left n) s" "4 < left" "left \<le> right + 1" "0 < n"
  shows "(pool_step right)\<^sup>*\<^sup>* (pool_init left n) s
    \<and> (pool_finished left right s \<or> (\<exists>s'. busy_step right s s' \<and> s' \<noteq> s))"
  using busy_run_simulated [OF assms] busy_progress [of left right n s] assms(2,4) by auto

theorem busy_pool_refines_witness:
  "pool_finished 30000000 30000200 (pool_init 30000000 4)
   \<or> (\<exists>s'. busy_step 30000200 (pool_init 30000000 4) s' \<and> s' \<noteq> pool_init 30000000 4)"
  using busy_pool_refines [OF rtranclp.rtrancl_refl, of 30000000 30000200 4] by simp

section \<open>One thread per number\<close>

text \<open>The threads created, and whether all were: the program exits at the first that cannot be.\<close>

fun primer_spawn :: "(int \<Rightarrow> bool) \<Rightarrow> int list \<Rightarrow> int list \<times> bool" where
  "primer_spawn create [] = ([], True)"
| "primer_spawn create (i # is) =
     (if \<not> create i then ([], False) else let (ts, ok) = primer_spawn create is in (i # ts, ok))"

text \<open>What the threads print, in the order in which they come to it.\<close>

definition primer_output :: "int list \<Rightarrow> int list" where
  "primer_output order = filter busy_mark order"

lemma primer_spawn_all: "(\<forall>i \<in> set is. create i) \<Longrightarrow> primer_spawn create is = (is, True)"
  by (induction "is") auto

lemma primer_prints_primes:
  assumes "4 < left" "primer_spawn create [left .. right] = (ts, True)" "mset order = mset ts"
  shows "mset (primer_output order) = mset (filter is_prime [left .. right])"
proof -
  have "primer_spawn create is = (ts, True) \<Longrightarrow> ts = is" for "is" ts
    by (induction "is" arbitrary: ts) (auto simp: Let_def split: if_splits prod.splits)
  with assms(2,3) have "mset order = mset [left .. right]" by metis
  then have "mset (primer_output order) = filter_mset busy_mark (mset [left .. right])" by (simp add: primer_output_def)
  also have "\<dots> = filter_mset is_prime (mset [left .. right])"
    using assms(1) by (intro filter_mset_cong) (auto simp: busy_mark_thr_mark thr_mark_decides_prime)
  finally show ?thesis by simp
qed

end
