(* ===== verification/Sem_Primes.thy ===== *)
theory Sem_Primes
  imports Mysem Prime_Busy
begin

text \<open>
  The program \<^verbatim>\<open>apue/para/thread/posix/mysem/main.c\<close>: one thread per number, of which the counting semaphore of
  \<open>Mysem\<close> lets a fixed number run at a time. A thread tests and prints, sleeps, and gives its unit back.
\<close>

section \<open>The program\<close>

record sem_prog =
  sp_sem :: mysem_st
  sp_next :: int
  sp_testing :: "int multiset"
  sp_sleeping :: "int multiset"
  sp_printed :: "int list"

definition sem_prog_init :: "int \<Rightarrow> int \<Rightarrow> sem_prog" where
  "sem_prog_init left n =
     \<lparr>sp_sem = \<lparr>sem_value = n, sem_waiting = [], sem_woken = []\<rparr>, sp_next = left, sp_testing = {#}, sp_sleeping = {#},
       sp_printed = []\<rparr>"

text \<open>\<^verbatim>\<open>main\<close> is thread 0, the only one that subtracts. It runs when it is not blocked in the semaphore; the
  subtraction starts anew, or goes on after the wait.\<close>

definition main_sub :: "mysem_st \<Rightarrow> sem_result" where
  "main_sub me =
     (if (0, 1) \<in> set (sem_waiting me) then Sem_undefined
      else if (0, 1) \<in> set (sem_woken me) then mysem_sub_woken 0 1 me
      else mysem_sub 0 1 me)"

text \<open>The steps of the program's own: \<^verbatim>\<open>main\<close> creates a thread when its subtraction goes through (\<^verbatim>\<open>pthread_create\<close>
  succeeds), and blocks otherwise.\<close>

inductive sem_prog_step :: "int \<Rightarrow> sem_prog \<Rightarrow> sem_prog \<Rightarrow> bool" for right :: int where
  sem_creates: "sp_next s \<le> right \<Longrightarrow> main_sub (sp_sem s) = Sem_done 1 me \<Longrightarrow>
    sem_prog_step right s (s\<lparr>sp_sem := me, sp_next := sp_next s + 1, sp_testing := add_mset (sp_next s) (sp_testing s)\<rparr>)"
| sem_blocks: "sp_next s \<le> right \<Longrightarrow> main_sub (sp_sem s) = Sem_waits me \<Longrightarrow>
    sem_prog_step right s (s\<lparr>sp_sem := me\<rparr>)"
| sem_tests: "i \<in># sp_testing s \<Longrightarrow>
    sem_prog_step right s (s\<lparr>sp_testing := sp_testing s - {#i#}, sp_sleeping := add_mset i (sp_sleeping s),
      sp_printed := sp_printed s @ (if busy_mark i then [i] else [])\<rparr>)"
| sem_gives_back: "i \<in># sp_sleeping s \<Longrightarrow> mysem_add 1 (sp_sem s) = Sem_done 1 me \<Longrightarrow>
    sem_prog_step right s (s\<lparr>sp_sem := me, sp_sleeping := sp_sleeping s - {#i#}\<rparr>)"

text \<open>Runs with \<open>k\<close> steps and \<open>w\<close> spurious wakeups.\<close>

inductive sem_prog_path :: "int \<Rightarrow> sem_prog \<Rightarrow> nat \<Rightarrow> nat \<Rightarrow> sem_prog \<Rightarrow> bool" for right :: int and start :: sem_prog where
  sem_path_start: "sem_prog_path right start 0 0 start"
| sem_path_step: "sem_prog_path right start k w s \<Longrightarrow> sem_prog_step right s s' \<Longrightarrow> sem_prog_path right start (Suc k) w s'"
| sem_path_wakeup: "sem_prog_path right start k w s \<Longrightarrow> (0, 1) \<in> set (sem_waiting (sp_sem s)) \<Longrightarrow>
    sem_prog_path right start k (Suc w) (s\<lparr>sp_sem := spurious_wakeup_sem 0 1 (sp_sem s)\<rparr>)"

section \<open>The invariant\<close>

text \<open>Where \<^verbatim>\<open>main\<close> is: blocked only while nothing is free, which the broadcast of every addition takes care of.\<close>

definition main_place_ok :: "mysem_st \<Rightarrow> bool" where
  "main_place_ok me \<longleftrightarrow>
     sem_waiting me = [] \<and> (sem_woken me = [] \<or> sem_woken me = [(0, 1)])
     \<or> sem_waiting me = [(0, 1)] \<and> sem_woken me = [] \<and> sem_value me < 1"

text \<open>The semaphore counts the threads that may still be created; what was printed, and what is still to be tested,
  are the numbers begun.\<close>

definition sem_prog_inv :: "int \<Rightarrow> int \<Rightarrow> int \<Rightarrow> sem_prog \<Rightarrow> bool" where
  "sem_prog_inv left right n s \<longleftrightarrow>
     0 \<le> sem_value (sp_sem s) \<and> sem_value (sp_sem s) + int (size (sp_testing s) + size (sp_sleeping s)) = n
     \<and> main_place_ok (sp_sem s) \<and> (sem_waiting (sp_sem s) \<noteq> [] \<or> sem_woken (sp_sem s) \<noteq> [] \<longrightarrow> sp_next s \<le> right)
     \<and> left \<le> sp_next s \<and> sp_next s \<le> right + 1
     \<and> mset (sp_printed s) + filter_mset busy_mark (sp_testing s) = filter_mset busy_mark (mset [left .. sp_next s - 1])"

lemma sem_prog_inv_init: "0 \<le> n \<Longrightarrow> left \<le> right + 1 \<Longrightarrow> sem_prog_inv left right n (sem_prog_init left n)"
  by (simp add: sem_prog_inv_def sem_prog_init_def main_place_ok_def)

lemma main_sub_done:
  "main_place_ok me \<Longrightarrow> main_sub me = Sem_done 1 me' \<longleftrightarrow>
   sem_waiting me = [] \<and> 1 \<le> sem_value me \<and> me' = \<lparr>sem_value = sem_value me - 1, sem_waiting = [], sem_woken = []\<rparr>"
  by (cases me) (auto simp: main_place_ok_def main_sub_def mysem_defs)

lemma main_sub_waits:
  "main_place_ok me \<Longrightarrow> main_sub me = Sem_waits me' \<longleftrightarrow>
   sem_waiting me = [] \<and> sem_value me < 1 \<and> me' = \<lparr>sem_value = sem_value me, sem_waiting = [(0, 1)], sem_woken = []\<rparr>"
  by (cases me) (auto simp: main_place_ok_def main_sub_def mysem_defs)

lemma mysem_add_one:
  "mysem_add 1 me = Sem_done 1 me' \<longleftrightarrow> is_int32 (sem_value me + 1) \<and> me' =
     \<lparr>sem_value = sem_value me + 1, sem_waiting = [], sem_woken = sem_woken me @ sem_waiting me\<rparr>"
  by (cases me) (auto simp: mysem_defs)

lemma wakeup_main:
  "main_place_ok me \<Longrightarrow> (0, 1) \<in> set (sem_waiting me) \<Longrightarrow>
   spurious_wakeup_sem 0 1 me = \<lparr>sem_value = sem_value me, sem_waiting = [], sem_woken = [(0, 1)]\<rparr>"
  by (cases me) (auto simp: main_place_ok_def mysem_defs)

lemma upto_next: "left \<le> i \<Longrightarrow> mset [left .. i] = add_mset i (mset [left .. i - 1])"
  by (simp add: upto_rec2)

lemma filter_mset_taken:
  "i \<in># M \<Longrightarrow> filter_mset P M = filter_mset P (M - {#i#}) + (if P i then {#i#} else {#})"
  by (auto dest!: multi_member_split)

lemma size_taken: "i \<in># M \<Longrightarrow> size M = Suc (size (M - {#i#}))"
  by (auto dest!: multi_member_split)

lemma sem_prog_inv_step:
  assumes "sem_prog_step right s s'" "sem_prog_inv left right n s"
  shows "sem_prog_inv left right n s'"
proof -
  from assms(2) have place: "main_place_ok (sp_sem s)" by (simp add: sem_prog_inv_def)
  from assms(1) show ?thesis
  proof cases
    case (sem_creates me)
    from assms(2) have "mset [left .. sp_next s] = add_mset (sp_next s) (mset [left .. sp_next s - 1])"
      by (intro upto_next) (simp add: sem_prog_inv_def)
    then show ?thesis using sem_creates(3) [unfolded main_sub_done [OF place]] sem_creates(2) assms(2)
      unfolding sem_prog_inv_def sem_creates(1) by (simp add: main_place_ok_def)
  next
    case (sem_blocks me)
    then show ?thesis using sem_blocks(3) [unfolded main_sub_waits [OF place]] assms(2)
      unfolding sem_prog_inv_def sem_blocks(1) by (simp add: main_place_ok_def)
  next
    case (sem_tests i)
    from filter_mset_taken [OF sem_tests(2), of busy_mark] assms(2)
    have "mset (sp_printed s) + ((if busy_mark i then {#i#} else {#}) + filter_mset busy_mark (sp_testing s - {#i#}))
        = filter_mset busy_mark (mset [left .. sp_next s - 1])"
      by (simp only: sem_prog_inv_def add.commute)
    with assms(2) size_taken [OF sem_tests(2)] show ?thesis
      unfolding sem_prog_inv_def sem_tests(1) by (cases "busy_mark i") simp_all
  next
    case (sem_gives_back i me)
    with assms(2) size_taken [OF sem_gives_back(2)] place show ?thesis
      unfolding sem_prog_inv_def sem_gives_back(1) by (auto simp: mysem_add_one main_place_ok_def)
  qed
qed

lemma sem_prog_inv_wakeup:
  assumes "sem_prog_inv left right n s" "(0, 1) \<in> set (sem_waiting (sp_sem s))"
  shows "sem_prog_inv left right n (s\<lparr>sp_sem := spurious_wakeup_sem 0 1 (sp_sem s)\<rparr>)"
proof -
  from assms(1) have "main_place_ok (sp_sem s)" by (simp add: sem_prog_inv_def)
  from wakeup_main [OF this assms(2)] assms show ?thesis by (auto simp: sem_prog_inv_def main_place_ok_def)
qed

text \<open>Every step brings the end closer; a spurious wakeup costs one.\<close>

definition sem_prog_left :: "int \<Rightarrow> sem_prog \<Rightarrow> nat" where
  "sem_prog_left right s = 4 * nat (right + 1 - sp_next s) + 3 * size (sp_testing s) + 2 * size (sp_sleeping s)
     + (if sem_waiting (sp_sem s) = [] then 1 else 0)"

lemma sem_prog_step_less:
  assumes "sem_prog_step right s s'" "main_place_ok (sp_sem s)"
  shows "sem_prog_left right s' < sem_prog_left right s"
  using assms(1)
proof cases
  case (sem_creates me)
  have "nat (right + 1 - sp_next s) = Suc (nat (right - sp_next s))" using sem_creates(2) by simp
  with sem_creates(1) sem_creates(3) [unfolded main_sub_done [OF assms(2)]] show ?thesis by (simp add: sem_prog_left_def)
next
  case (sem_blocks me)
  from sem_blocks(1) sem_blocks(3) [unfolded main_sub_waits [OF assms(2)]] show ?thesis by (simp add: sem_prog_left_def)
next
  case (sem_tests i)
  with size_taken [OF sem_tests(2)] show ?thesis by (simp add: sem_prog_left_def)
next
  case (sem_gives_back i me)
  with size_taken [OF sem_gives_back(2)] show ?thesis by (simp add: sem_prog_left_def mysem_add_one)
qed

lemma sem_prog_wakeup_left: "sem_prog_left right (s\<lparr>sp_sem := me\<rparr>) \<le> Suc (sem_prog_left right s)"
  by (simp add: sem_prog_left_def)

lemma sem_prog_path_inv:
  "sem_prog_path right start k w s \<Longrightarrow> sem_prog_inv left right n start \<Longrightarrow>
   sem_prog_inv left right n s \<and> k + sem_prog_left right s \<le> sem_prog_left right start + w"
proof (induction rule: sem_prog_path.induct)
  case (sem_path_step k w s s')
  then have "main_place_ok (sp_sem s)" by (simp add: sem_prog_inv_def)
  from sem_prog_step_less [OF sem_path_step.hyps(2) this] sem_path_step sem_prog_inv_step show ?case by fastforce
next
  case (sem_path_wakeup k w s)
  with sem_prog_inv_wakeup [of left right n s] sem_prog_wakeup_left [where s = s and right = right and me = "spurious_wakeup_sem 0 1 (sp_sem s)"]
  show ?case by auto
qed simp

lemma sem_prog_progress:
  assumes "sem_prog_inv left right n s" "0 < n" "n \<le> INT_MAX"
  shows "(sp_next s = right + 1 \<and> sp_testing s = {#} \<and> sp_sleeping s = {#} \<and> sem_waiting (sp_sem s) = [])
    \<or> (\<exists>s'. sem_prog_step right s s')"
proof (cases "sp_testing s = {#} \<and> sp_sleeping s = {#}")
  case True
  with assms(1,2) have "1 \<le> sem_value (sp_sem s)" by (simp add: sem_prog_inv_def)
  moreover have place: "main_place_ok (sp_sem s)" using assms(1) by (simp add: sem_prog_inv_def)
  ultimately have "sem_waiting (sp_sem s) = []" "sp_next s \<le> right \<Longrightarrow> \<exists>s'. sem_prog_step right s s'"
    using sem_creates [of s right] by (auto simp: main_sub_done main_place_ok_def)
  moreover have "sp_next s \<le> right + 1" using assms(1) by (simp add: sem_prog_inv_def)
  ultimately show ?thesis using True by (cases "sp_next s = right + 1") auto
next
  case False
  show ?thesis
  proof (cases "sp_testing s = {#}")
    case True
    with False obtain i where i: "i \<in># sp_sleeping s" by blast
    from size_taken [OF this] assms(1,3) have "is_int32 (sem_value (sp_sem s) + 1)" by (auto simp: sem_prog_inv_def is_int32_def)
    with sem_gives_back [OF i] show ?thesis by (auto simp: mysem_add_one)
  next
    case False
    then obtain i where "i \<in># sp_testing s" by blast
    from sem_tests [OF this] show ?thesis by blast
  qed
qed

text \<open>C34: Limited parallelism. In every state of the program, spurious wakeups included, at most \<open>n\<close> threads exist and
  the semaphore counts those that are free; \<^verbatim>\<open>main\<close> is blocked in the semaphore only while none is free. The number of
  steps is bounded by the size of the range and the number of spurious wakeups, and until every thread has returned
  some thread can take a step (so the broadcast of an addition is never missing); at the end the program has printed
  exactly the primes of its range and nobody is blocked.\<close>
theorem sem_primes_bounded:
  assumes "sem_prog_path right (sem_prog_init left n) k w s" "4 < left" "left \<le> right + 1" "0 < n" "n \<le> INT_MAX"
  shows "int (size (sp_testing s) + size (sp_sleeping s)) = n - sem_value (sp_sem s) \<and> 0 \<le> sem_value (sp_sem s)
    \<and> (sem_waiting (sp_sem s) \<noteq> [] \<longrightarrow> sem_value (sp_sem s) = 0)
    \<and> k \<le> 4 * nat (right + 1 - left) + 1 + w
    \<and> ((sp_sleeping s = {#} \<and> mset (sp_printed s) = mset (filter is_prime [left .. right]) \<and> sem_waiting (sp_sem s) = [])
       \<or> (\<exists>s'. sem_prog_step right s s' \<and> sem_prog_left right s' < sem_prog_left right s))"
proof -
  from sem_prog_path_inv [OF assms(1)] sem_prog_inv_init [of n left right] assms(3,4)
  have inv: "sem_prog_inv left right n s" "k + sem_prog_left right s \<le> sem_prog_left right (sem_prog_init left n) + w"
    by auto
  have primes: "filter_mset busy_mark (mset [left .. right]) = filter_mset is_prime (mset [left .. right])"
    using assms(2) by (intro filter_mset_cong) (auto simp: busy_mark_thr_mark thr_mark_decides_prime)
  have place: "main_place_ok (sp_sem s)" using inv(1) by (simp add: sem_prog_inv_def)
  have "sem_waiting (sp_sem s) \<noteq> [] \<longrightarrow> sem_value (sp_sem s) = 0"
    using inv(1) by (auto simp: sem_prog_inv_def main_place_ok_def)
  moreover have "k \<le> 4 * nat (right + 1 - left) + 1 + w" using inv(2) by (simp add: sem_prog_left_def sem_prog_init_def)
  ultimately show ?thesis
    using sem_prog_progress [OF inv(1) assms(4,5)] inv(1) primes sem_prog_step_less [OF _ place, of right]
    by (auto simp: sem_prog_inv_def)
qed

text \<open>One number is begun, and \<^verbatim>\<open>main\<close> blocks, is woken for nothing and blocks again.\<close>

definition sem_example :: sem_prog where
  "sem_example = (sem_prog_init 30000000 1)
     \<lparr>sp_sem := \<lparr>sem_value = 0, sem_waiting = [(0, 1)], sem_woken = []\<rparr>, sp_next := 30000001, sp_testing := {#30000000#}\<rparr>"

theorem sem_primes_bounded_witness:
  "int (size (sp_testing sem_example) + size (sp_sleeping sem_example)) = 1 - sem_value (sp_sem sem_example)"
proof -
  let ?begun = "sem_example\<lparr>sp_sem := \<lparr>sem_value = 0, sem_waiting = [], sem_woken = []\<rparr>\<rparr>"
  let ?woken = "sem_example\<lparr>sp_sem := \<lparr>sem_value = 0, sem_waiting = [], sem_woken = [(0, 1)]\<rparr>\<rparr>"
  have "sem_prog_step 30000200 (sem_prog_init 30000000 1) ?begun"
    using sem_creates [of "sem_prog_init 30000000 1" 30000200]
    by (simp add: sem_prog_init_def sem_example_def main_sub_def mysem_defs)
  moreover have "sem_prog_step 30000200 s sem_example" if "s = ?begun \<or> s = ?woken" for s
    using that sem_blocks [of s 30000200]
    by (auto simp: sem_prog_init_def sem_example_def main_sub_def mysem_defs)
  ultimately have blocked: "sem_prog_path 30000200 (sem_prog_init 30000000 1) 2 0 sem_example"
    and again: "sem_prog_step 30000200 ?woken sem_example"
    using sem_path_step [OF sem_path_step [OF sem_path_start]] by (auto simp: numeral_2_eq_2)
  from sem_path_wakeup [OF blocked] have "sem_prog_path 30000200 (sem_prog_init 30000000 1) 2 1 ?woken"
    by (simp add: sem_example_def mysem_defs)
  from sem_primes_bounded [OF sem_path_step [OF this again], THEN conjunct1] show ?thesis by simp
qed

end
