(* ===== verification/Abcd_Ring.thy ===== *)
theory Abcd_Ring
  imports C_Prelude
begin

text \<open>
  Four threads that print \<^verbatim>\<open>abcdabcd...\<close> in turn: \<^verbatim>\<open>apue/para/thread/posix/abcd.c\<close> passes the turn through an
  array of mutexes, \<^verbatim>\<open>abcd_e.c\<close> through a variable and a condition variable. Both are step relations over
  the program counters of the threads. A mutex of the first program is unlocked by another thread than the one
  that locked it, and is taken for a binary semaphore here.
\<close>

section \<open>The turn\<close>

abbreviation THRNUM :: nat where "THRNUM \<equiv> 4"

definition next_thread :: "nat \<Rightarrow> nat" where
  "next_thread n = (if n + 1 = THRNUM then 0 else n + 1)"

definition letter :: "nat \<Rightarrow> char" where
  "letter n = char_of (of_char (CHR ''a'') + n)"

definition ring_text :: "nat \<Rightarrow> string" where
  "ring_text k = map (\<lambda>i. letter (i mod THRNUM)) [0 ..< k]"

lemma next_thread_mod: "next_thread (k mod THRNUM) = Suc k mod THRNUM"
  unfolding next_thread_def by (simp add: mod_Suc)

lemma length_ring_text [simp]: "length (ring_text k) = k"
  by (simp add: ring_text_def)

lemma ring_text_Suc: "ring_text (Suc k) = ring_text k @ [letter (k mod THRNUM)]"
  by (simp add: ring_text_def)

section \<open>Mutexes in a ring\<close>

datatype ring_pc = R_lock | R_write | R_unlock

record ring =
  rg_locked :: "bool list"
  rg_pc :: "ring_pc list"
  rg_out :: string

definition ring_init :: ring where
  "ring_init = \<lparr>rg_locked = (replicate THRNUM True)[0 := False], rg_pc = replicate THRNUM R_lock, rg_out = []\<rparr>"

inductive ring_step :: "ring \<Rightarrow> ring \<Rightarrow> bool" where
  ring_lock: "n < THRNUM \<Longrightarrow> rg_pc s ! n = R_lock \<Longrightarrow> \<not> rg_locked s ! n \<Longrightarrow>
    ring_step s (s\<lparr>rg_locked := (rg_locked s)[n := True], rg_pc := (rg_pc s)[n := R_write]\<rparr>)"
| ring_write: "n < THRNUM \<Longrightarrow> rg_pc s ! n = R_write \<Longrightarrow>
    ring_step s (s\<lparr>rg_out := rg_out s @ [letter n], rg_pc := (rg_pc s)[n := R_unlock]\<rparr>)"
| ring_unlock: "n < THRNUM \<Longrightarrow> rg_pc s ! n = R_unlock \<Longrightarrow>
    ring_step s (s\<lparr>rg_locked := (rg_locked s)[next_thread n := False], rg_pc := (rg_pc s)[n := R_lock]\<rparr>)"

text \<open>After \<open>k\<close> letters it is the turn of thread \<open>k mod 4\<close>: it may lock, or is about to write, or the one before it has
  written and not yet unlocked.\<close>

datatype ring_phase = Free | Writing | Written

fun ring_at :: "nat \<Rightarrow> ring_phase \<Rightarrow> ring" where
  "ring_at k Free = \<lparr>rg_locked = (replicate THRNUM True)[k mod THRNUM := False], rg_pc = replicate THRNUM R_lock, rg_out = ring_text k\<rparr>"
| "ring_at k Writing = \<lparr>rg_locked = replicate THRNUM True, rg_pc = (replicate THRNUM R_lock)[k mod THRNUM := R_write], rg_out = ring_text k\<rparr>"
| "ring_at k Written = \<lparr>rg_locked = replicate THRNUM True, rg_pc = (replicate THRNUM R_lock)[k mod THRNUM := R_unlock], rg_out = ring_text (Suc k)\<rparr>"

lemma nth_single: "n < m \<Longrightarrow> (replicate m x)[i := y] ! n = (if n = i then y else x)"
  by (simp add: nth_list_update)

lemma single_undo [simp]: "(replicate m x)[i := x] = replicate m x"
  by (cases "i < m") (simp_all add: list_update_same_conv list_update_beyond)

inductive_cases ring_stepE: "ring_step s s'"

lemma ring_step_Free: "ring_step (ring_at k Free) s \<longleftrightarrow> s = ring_at k Writing"
proof
  assume "ring_step (ring_at k Free) s"
  then show "s = ring_at k Writing"
    by (cases rule: ring_stepE) (auto simp: nth_single split: if_splits)
next
  assume "s = ring_at k Writing"
  moreover have "k mod THRNUM < THRNUM" by simp
  ultimately show "ring_step (ring_at k Free) s"
    using ring_lock [of "k mod THRNUM" "ring_at k Free"] by (simp add: nth_single)
qed

lemma ring_step_Writing: "ring_step (ring_at k Writing) s \<longleftrightarrow> s = ring_at k Written"
proof
  assume "ring_step (ring_at k Writing) s"
  then show "s = ring_at k Written"
    by (cases rule: ring_stepE) (auto simp: nth_single ring_text_Suc split: if_splits)
next
  assume "s = ring_at k Written"
  moreover have "k mod THRNUM < THRNUM" by simp
  ultimately show "ring_step (ring_at k Writing) s"
    using ring_write [of "k mod THRNUM" "ring_at k Writing"] by (simp add: nth_single ring_text_Suc)
qed

lemma ring_step_Written: "ring_step (ring_at k Written) s \<longleftrightarrow> s = ring_at (Suc k) Free"
proof
  assume "ring_step (ring_at k Written) s"
  then show "s = ring_at (Suc k) Free"
    by (cases rule: ring_stepE) (auto simp: nth_single next_thread_mod split: if_splits)
next
  assume "s = ring_at (Suc k) Free"
  moreover have "k mod THRNUM < THRNUM" by simp
  ultimately show "ring_step (ring_at k Written) s"
    using ring_unlock [of "k mod THRNUM" "ring_at k Written"] by (simp add: nth_single next_thread_mod)
qed

lemmas ring_steps = ring_step_Free ring_step_Writing ring_step_Written

lemma ring_reachable: "ring_step\<^sup>*\<^sup>* ring_init s \<Longrightarrow> \<exists>k p. s = ring_at k p"
proof (induction rule: rtranclp_induct)
  case base
  have "ring_init = ring_at 0 Free" by (simp add: ring_init_def ring_text_def)
  then show ?case by blast
next
  case (step s s')
  then obtain k p where "s = ring_at k p" by blast
  with step(2) show ?case by (cases p) (auto simp only: ring_steps)
qed

section \<open>A turn variable\<close>

datatype turn_pc = E_lock | E_wait

record turn_state =
  tu_turn :: nat
  tu_pc :: "turn_pc list"
  tu_out :: string

definition turn_init :: turn_state where
  "turn_init = \<lparr>tu_turn = 0, tu_pc = replicate THRNUM E_lock, tu_out = []\<rparr>"

inductive turn_step :: "turn_state \<Rightarrow> turn_state \<Rightarrow> bool" where
  turn_waits: "n < THRNUM \<Longrightarrow> tu_pc s ! n = E_lock \<Longrightarrow> tu_turn s \<noteq> n \<Longrightarrow>
    turn_step s (s\<lparr>tu_pc := (tu_pc s)[n := E_wait]\<rparr>)"
| turn_writes: "n < THRNUM \<Longrightarrow> tu_pc s ! n = E_lock \<Longrightarrow> tu_turn s = n \<Longrightarrow>
    turn_step s (s\<lparr>tu_out := tu_out s @ [letter n], tu_turn := next_thread (tu_turn s), tu_pc := replicate THRNUM E_lock\<rparr>)"

definition turn_inv :: "turn_state \<Rightarrow> bool" where
  "turn_inv s \<longleftrightarrow> length (tu_pc s) = THRNUM \<and> tu_turn s = length (tu_out s) mod THRNUM
     \<and> tu_out s = ring_text (length (tu_out s)) \<and> tu_pc s ! tu_turn s = E_lock"

lemma turn_inv_reachable: "turn_step\<^sup>*\<^sup>* turn_init s \<Longrightarrow> turn_inv s"
proof (induction rule: rtranclp_induct)
  case base
  show ?case by (simp add: turn_inv_def turn_init_def ring_text_def)
next
  case (step s s')
  from step(2,3) show ?case
  proof (cases rule: turn_step.cases)
    case (turn_writes n)
    let ?k = "length (tu_out s)"
    have "tu_out s @ [letter (?k mod THRNUM)] = ring_text (Suc ?k)"
      using step(3) by (simp add: ring_text_Suc turn_inv_def)
    with turn_writes step(3) show ?thesis by (simp add: turn_inv_def next_thread_mod nth_replicate)
  qed (auto simp: turn_inv_def)
qed

text \<open>The threads print in turn. Under every schedule, what both programs have printed is an initial part of
  abcdabcd..., and neither can get stuck: the thread whose turn it is can always go on.\<close>
theorem letters_in_turn:
  "(ring_step\<^sup>*\<^sup>* ring_init s \<longrightarrow> rg_out s = ring_text (length (rg_out s)) \<and> (\<exists>s'. ring_step s s'))
   \<and> (turn_step\<^sup>*\<^sup>* turn_init t \<longrightarrow> tu_out t = ring_text (length (tu_out t))
        \<and> (\<exists>t'. turn_step t t' \<and> length (tu_out t') = Suc (length (tu_out t))))"
proof (intro conjI impI)
  assume "ring_step\<^sup>*\<^sup>* ring_init s"
  then obtain k p where s: "s = ring_at k p" using ring_reachable by blast
  show "rg_out s = ring_text (length (rg_out s))" unfolding s by (cases p) simp_all
  show "\<exists>s'. ring_step s s'" unfolding s by (cases p) (simp_all only: ring_steps, blast+)
next
  assume "turn_step\<^sup>*\<^sup>* turn_init t"
  then have inv: "turn_inv t" by (rule turn_inv_reachable)
  then show "tu_out t = ring_text (length (tu_out t))" by (simp add: turn_inv_def)
  from inv have "tu_turn t < THRNUM" by (simp add: turn_inv_def)
  from turn_writes [OF this _ refl] inv show "\<exists>t'. turn_step t t' \<and> length (tu_out t') = Suc (length (tu_out t))"
    by (fastforce simp: turn_inv_def)
qed

theorem letters_in_turn_witness: "rg_out ring_init = ring_text 0 \<and> (\<exists>s'. ring_step ring_init s')"
  using letters_in_turn [of ring_init turn_init] by (simp add: ring_init_def)

end
