(* ===== verification/Small_Tools.thy ===== *)
theory Small_Tools
  imports C_Prelude
begin

text \<open>
  Three small programs with logic of their own: the line splitting and command loop of the shell
  \<^verbatim>\<open>apue/proc/mysh.c\<close>, the format that \<^verbatim>\<open>apue/filesys/datefmt.c\<close> assembles from its options, and the shared
  counter file of \<^verbatim>\<open>apue/para/thread/posix/add.c\<close>. \<^verbatim>\<open>glob\<close> is a parameter.
\<close>

section \<open>The shell\<close>

definition delim :: "char \<Rightarrow> bool" where
  "delim c \<longleftrightarrow> c = CHR '' '' \<or> c = CHR 0x09 \<or> c = LF"

text \<open>\<^verbatim>\<open>strsep\<close>: the token, and the rest of the line behind its delimiter, or NULL.\<close>

definition strsep_delims :: "string \<Rightarrow> string \<times> string option" where
  "strsep_delims line =
     (takeWhile (\<lambda>c. \<not> delim c) line,
      case dropWhile (\<lambda>c. \<not> delim c) line of [] \<Rightarrow> None | _ # rest \<Rightarrow> Some rest)"

lemma strsep_shorter: "strsep_delims line = (tok, Some rest) \<Longrightarrow> length rest < length line"
proof -
  assume "strsep_delims line = (tok, Some rest)"
  then obtain c where "dropWhile (\<lambda>c. \<not> delim c) line = c # rest"
    by (auto simp: strsep_delims_def split: list.splits)
  then have "length (c # rest) \<le> length line" by (metis length_dropWhile_le)
  then show ?thesis by simp
qed

text \<open>The second argument is \<^verbatim>\<open>i\<close> as a flag, the last the paths collected in \<^verbatim>\<open>res->globres\<close>; \<open>None\<close> is a struct
  that was never filled.\<close>

function parse_from :: "(string \<Rightarrow> string list) \<Rightarrow> bool \<Rightarrow> string option \<Rightarrow> string list option \<Rightarrow> string list option" where
  "parse_from glob i None res = res"
| "parse_from glob i (Some line) res =
     (case strsep_delims line of (tok, rest) \<Rightarrow>
        if tok = [] then parse_from glob i rest res
        else parse_from glob True rest (Some ((if i then the res else []) @ glob tok)))"
  by pat_completeness auto
termination
  by (relation "measure (\<lambda>(glob, i, line, res). case line of None \<Rightarrow> 0 | Some l \<Rightarrow> Suc (length l))")
    (auto dest: strsep_shorter [OF sym] split: option.splits)

definition mysh_parse :: "(string \<Rightarrow> string list) \<Rightarrow> string \<Rightarrow> string list option \<Rightarrow> string list option" where
  "mysh_parse glob line res = parse_from glob False (Some line) res"

text \<open>The commands the children execute, line by line; \<open>None\<close> is the use of a struct that was never filled.\<close>

fun mysh_loop :: "(string \<Rightarrow> string list) \<Rightarrow> string list \<Rightarrow> string list option \<Rightarrow> string list list option" where
  "mysh_loop glob [] res = Some []"
| "mysh_loop glob (line # lines) res =
     (case mysh_parse glob line res of
        None \<Rightarrow> None
      | Some argv \<Rightarrow> map_option (\<lambda>cmds. argv # cmds) (mysh_loop glob lines (Some argv)))"

text \<open>The words of a line, as maximal pieces without delimiters.\<close>

function line_words :: "string \<Rightarrow> string list" where
  "line_words s =
     (case dropWhile delim s of
        [] \<Rightarrow> []
      | c # t \<Rightarrow> (c # takeWhile (\<lambda>c. \<not> delim c) t) # line_words (dropWhile (\<lambda>c. \<not> delim c) t))"
  by auto
termination
proof (relation "measure length", goal_cases)
  case (2 s c t)
  then have "length (c # t) \<le> length s" by (metis length_dropWhile_le)
  with length_dropWhile_le [of "\<lambda>c. \<not> delim c" t] show ?case by simp
qed simp

declare line_words.simps [simp del]

lemma line_words_Nil [simp]: "line_words [] = []"
  by (simp add: line_words.simps)

lemma line_words_delim: "delim c \<Longrightarrow> line_words (c # s) = line_words s"
  by (subst (1 2) line_words.simps) simp

lemma line_words_word:
  "\<not> delim c \<Longrightarrow> line_words (c # s) = (c # takeWhile (\<lambda>c. \<not> delim c) s) # line_words (dropWhile (\<lambda>c. \<not> delim c) s)"
  by (subst line_words.simps) simp

lemma strsep_words:
  "strsep_delims line = (tok, rest) \<Longrightarrow>
   line_words line = (if tok = [] then [] else [tok]) @ (case rest of None \<Rightarrow> [] | Some r \<Rightarrow> line_words r)"
proof (cases line)
  case (Cons c s)
  assume sep: "strsep_delims line = (tok, rest)"
  show ?thesis
  proof (cases "delim c")
    case True
    with sep Cons show ?thesis by (auto simp: strsep_delims_def line_words_delim)
  next
    case False
    have "line_words (d # r) = line_words r" if "dropWhile (\<lambda>c. \<not> delim c) s = d # r" for d r
      using that by (metis dropWhile_eq_Cons_conv line_words_delim)
    then show ?thesis using sep Cons False
      by (cases "dropWhile (\<lambda>c. \<not> delim c) s") (auto simp: strsep_delims_def line_words_word simp del: dropWhile_eq_Nil_conv)
  qed
qed (auto simp: strsep_delims_def)

lemma parse_from_words:
  "parse_from glob i line res =
     (let ws = (case line of None \<Rightarrow> [] | Some l \<Rightarrow> line_words l) in
      if ws = [] then res else Some ((if i then the res else []) @ concat (map glob ws)))"
proof (induction glob i line res rule: parse_from.induct)
  case (2 glob i line res)
  obtain tok rest where sep: "strsep_delims line = (tok, rest)" by (cases "strsep_delims line")
  from strsep_words [OF sep] 2 [OF sep [symmetric]] sep show ?case
    by (auto simp: Let_def split: option.splits)
qed simp

text \<open>A line's command is its words with every pattern expanded; a line without words leaves the previous one.\<close>

lemma mysh_parse_words:
  "mysh_parse glob line res = (if line_words line = [] then res else Some (concat (map glob (line_words line))))"
  by (simp add: mysh_parse_def parse_from_words Let_def)

text \<open>An empty line runs the previous command again, and as the first line it uses a struct that was never filled.\<close>

lemma mysh_empty_line:
  "mysh_loop glob ([LF] # lines) (Some argv) = map_option (\<lambda>cmds. argv # cmds) (mysh_loop glob lines (Some argv))"
  "mysh_loop glob ([LF] # lines) None = None"
  by (simp_all add: mysh_parse_words line_words.simps delim_def)

text \<open>The program, over the lines and whether \<^verbatim>\<open>fork\<close> succeeds for each: the exit code and the commands of the children.\<close>

fun mysh_main :: "(string \<Rightarrow> string list) \<Rightarrow> (string \<times> bool) list \<Rightarrow> string list option \<Rightarrow> (int \<times> string list list) option" where
  "mysh_main glob [] res = Some (0, [])"
| "mysh_main glob ((line, forked) # lines) res =
     (let res' = mysh_parse glob line res in
      if \<not> forked then Some (1, [])
      else case res' of
        None \<Rightarrow> None
      | Some argv \<Rightarrow> map_option (\<lambda>(code, cmds). (code, argv # cmds)) (mysh_main glob lines (Some argv)))"

lemma mysh_main_loop:
  "\<forall>x \<in> set lines. snd x \<Longrightarrow> mysh_main glob lines res = map_option (Pair 0) (mysh_loop glob (map fst lines) res)"
  by (induction glob lines res rule: mysh_main.induct)
    (auto simp: Let_def option.map_comp comp_def split: option.splits)

text \<open>Every line with words runs as its words with the patterns expanded.\<close>

lemma mysh_main_words:
  "\<forall>x \<in> set lines. snd x \<and> line_words (fst x) \<noteq> [] \<Longrightarrow>
   mysh_main glob lines res = Some (0, map (\<lambda>x. concat (map glob (line_words (fst x)))) lines)"
  by (induction glob lines res rule: mysh_main.induct) (auto simp: mysh_parse_words)

section \<open>The date format\<close>

abbreviation FMTSTRSIZE :: nat where "FMTSTRSIZE \<equiv> 1024"

text \<open>\<^verbatim>\<open>strncat(fmtstr, s, sizeof(fmtstr) - strlen(fmtstr) - 1)\<close>.\<close>

definition append_fmt :: "string \<Rightarrow> string \<Rightarrow> string" where
  "append_fmt s fmtstr = fmtstr @ take (FMTSTRSIZE - length fmtstr - 1) s"

text \<open>What \<^verbatim>\<open>getopt\<close> answers: an option with its argument, or a file name.\<close>

datatype date_option = Opt_H string | Opt_M | Opt_S | Opt_y string | Opt_m | Opt_d | Opt_file string | Opt_other

definition option_format :: "date_option \<Rightarrow> string" where
  "option_format opt =
     (case opt of
        Opt_H a \<Rightarrow> (if a = ''12'' then ''%I(%P) '' else if a = ''24'' then ''%H '' else [])
      | Opt_M \<Rightarrow> ''%M ''
      | Opt_S \<Rightarrow> ''%S ''
      | Opt_y a \<Rightarrow> (if a = ''2'' then ''%y '' else if a = ''4'' then ''%Y '' else [])
      | Opt_m \<Rightarrow> ''%m ''
      | Opt_d \<Rightarrow> ''%d ''
      | _ \<Rightarrow> [])"

fun date_format :: "date_option list \<Rightarrow> string \<Rightarrow> string" where
  "date_format [] fmtstr = append_fmt [LF] fmtstr"
| "date_format (opt # opts) fmtstr = date_format opts (append_fmt (option_format opt) fmtstr)"

text \<open>The format never leaves its buffer; as long as it fits it is the options' formats in order and a line feed.\<close>

lemma date_format_bounded: "length fmtstr < FMTSTRSIZE \<Longrightarrow> length (date_format opts fmtstr) < FMTSTRSIZE"
  by (induction opts arbitrary: fmtstr) (auto simp: append_fmt_def)

lemma date_format_exact:
  "length fmtstr + length (concat (map option_format opts)) + 1 < FMTSTRSIZE \<Longrightarrow>
   date_format opts fmtstr = fmtstr @ concat (map option_format opts) @ [LF]"
  by (induction opts arbitrary: fmtstr) (auto simp: append_fmt_def)

text \<open>The stream the text goes to: a file that cannot be opened gives the standard output (\<open>None\<close>) back.\<close>

fun date_target :: "(string \<Rightarrow> bool) \<Rightarrow> date_option list \<Rightarrow> string option \<Rightarrow> string option" where
  "date_target can_open [] fp = fp"
| "date_target can_open (opt # opts) fp =
     date_target can_open opts (case opt of Opt_file name \<Rightarrow> if can_open name then Some name else None | _ \<Rightarrow> fp)"

abbreviation TIMESTRSIZE :: nat where "TIMESTRSIZE \<equiv> 1024"

text \<open>\<^verbatim>\<open>strftime\<close> is a parameter: the text of a format, \<open>None\<close> if it does not fit, when the contents of the buffer are
  unspecified, and the program prints them.\<close>

definition date_main ::
  "(nat \<Rightarrow> string \<Rightarrow> string option) \<Rightarrow> (string \<Rightarrow> bool) \<Rightarrow> date_option list \<Rightarrow> string option \<times> string option" where
  "date_main strftime can_open opts = (date_target can_open opts None, strftime TIMESTRSIZE (date_format opts []))"

text \<open>The last file that is named decides.\<close>

lemma date_target_last:
  "\<forall>name. Opt_file name \<notin> set opts' \<Longrightarrow>
   date_target can_open (opts @ Opt_file name # opts') fp = (if can_open name then Some name else None)"
proof -
  have "\<forall>name. Opt_file name \<notin> set os \<Longrightarrow> date_target can_open os fp = fp" for os fp
    by (induction os arbitrary: fp) (auto split: date_option.splits)
  then show "\<forall>name. Opt_file name \<notin> set opts' \<Longrightarrow> ?thesis"
    by (induction opts arbitrary: fp) auto
qed

section \<open>The counter file\<close>

text \<open>What a thread does under the mutex: read the first line, seek to the start, write the number after it. The
  rest of the file stays. \<open>None\<close> is a signed overflow.\<close>

definition first_line_of :: "string \<Rightarrow> string" where
  "first_line_of file = takeWhile (\<lambda>c. c \<noteq> LF) (take 1023 file)"

definition overwrite :: "string \<Rightarrow> string \<Rightarrow> string" where
  "overwrite s file = s @ drop (length s) file"

definition thr_add :: "string \<Rightarrow> string option" where
  "thr_add file =
     (let n = conv_value (strtol (first_line_of file)) in
      if \<not> is_int32 n \<or> \<not> is_int32 (n + 1) then None
      else Some (overwrite (dec_int (n + 1) @ [LF]) file))"

fun add_run :: "nat \<Rightarrow> string \<Rightarrow> string option" where
  "add_run 0 file = Some file"
| "add_run (Suc threads) file = (case thr_add file of None \<Rightarrow> None | Some file' \<Rightarrow> add_run threads file')"

definition counter_file :: "int \<Rightarrow> string" where
  "counter_file i = dec_int i @ [LF]"

lemma dec_nat_no_LF: "LF \<notin> set (dec_nat n)"
  using dec_nat_digits [of n] isdigit_not_sign by blast

lemma dec_nat_length_mono: "length (dec_nat n) \<le> length (dec_nat (Suc n))"
proof (induction n rule: less_induct)
  case (less n)
  show ?case
  proof (cases "n < 10")
    case True
    then show ?thesis by (subst dec_nat.simps, subst (2) dec_nat.simps) (simp add: Suc_le_eq)
  next
    case False
    have "Suc n div 10 = n div 10 \<or> Suc n div 10 = Suc (n div 10)" by (simp add: div_Suc)
    with False less [of "n div 10"] show ?thesis
      by (subst dec_nat.simps, subst (2) dec_nat.simps) auto
  qed
qed

lemma thr_add_counter:
  assumes "0 \<le> i" "i < INT_MAX"
  shows "thr_add (counter_file i) = Some (counter_file (i + 1))"
proof -
  have len: "length (dec_int i) \<le> 11" using assms by (intro length_dec_int) (simp add: is_int32_def)
  have "LF \<notin> set (dec_int i)" using assms dec_nat_no_LF by (simp add: dec_int_def)
  then have "first_line_of (counter_file i) = dec_int i"
    using len by (auto simp: first_line_of_def counter_file_def takeWhile_append)
  moreover have "length (dec_int i) \<le> length (dec_int (i + 1))"
    using assms dec_nat_length_mono [of "nat i"] by (simp add: dec_int_def nat_add_distrib)
  ultimately show ?thesis
    using assms by (simp add: thr_add_def overwrite_def counter_file_def is_int32_def is_int64_def Let_def)
qed

text \<open>Twenty threads add twenty, in whatever order they get the mutex.\<close>

lemma add_run_counter: "0 \<le> i \<Longrightarrow> i + int threads \<le> INT_MAX \<Longrightarrow> add_run threads (counter_file i) = Some (counter_file (i + int threads))"
proof (induction threads arbitrary: i)
  case (Suc threads)
  then show ?case using thr_add_counter [of i] Suc.IH [of "i + 1"] by (simp add: algebra_simps)
qed simp

end
