(* ===== verification/Disk_Usage.thy ===== *)
theory Disk_Usage
  imports C_Prelude
begin

text \<open>
  The two versions of \<^verbatim>\<open>du\<close>: \<^verbatim>\<open>apue/filesys/mydu.c\<close>, which finds the entries of a directory with
  \<^verbatim>\<open>glob\<close>, and \<^verbatim>\<open>mydu2.c\<close>, which reads the directory. What the file system answers is a function of the
  path. The recursion has a bound on its depth: a path cut at the size of its buffer can lead back to itself.
\<close>

section \<open>The file system\<close>

record stat_res =
  st_dir :: bool
  st_blocks :: int

text \<open>\<^verbatim>\<open>lstat\<close>; \<^verbatim>\<open>opendir\<close> with the names \<^verbatim>\<open>readdir\<close> delivers and whether it ends without an error; \<^verbatim>\<open>glob\<close>,
  \<open>None\<close> for a nonzero result (GLOB_NOMATCH included).\<close>

record filesys =
  fs_lstat :: "string \<Rightarrow> stat_res option"
  fs_readdir :: "string \<Rightarrow> (string list \<times> bool) option"
  fs_glob :: "string \<Rightarrow> string list option"

abbreviation PATHSIZE :: nat where "PATHSIZE \<equiv> 1024"

definition is_loop :: "string \<Rightarrow> bool option" where
  "is_loop path =
     (case strrchr path (CHR ''/'') of
        None \<Rightarrow> None
      | Some pos \<Rightarrow> Some (tl pos = ''.'' \<or> tl pos = ''..''))"

section \<open>The entries of a directory\<close>

text \<open>\<open>None\<close> is an exit of the program.\<close>

definition mydu_kids :: "filesys \<Rightarrow> string \<Rightarrow> string list option" where
  "mydu_kids fs path =
     (case fs_glob fs (snprintf_text PATHSIZE (path @ ''/*'')) of
        None \<Rightarrow> None
      | Some visible \<Rightarrow>
          (case fs_glob fs (snprintf_text PATHSIZE (path @ ''/.*'')) of
             None \<Rightarrow> None
           | Some hidden \<Rightarrow>
               if \<exists>p \<in> set (visible @ hidden). is_loop p = None then None
               else Some (filter (\<lambda>p. is_loop p = Some False) (visible @ hidden))))"

definition mydu2_kids :: "filesys \<Rightarrow> string \<Rightarrow> string list option" where
  "mydu2_kids fs path =
     (case fs_readdir fs path of
        None \<Rightarrow> None
      | Some (names, ok) \<Rightarrow>
          if \<not> ok then None
          else Some (map (\<lambda>n. snprintf_text PATHSIZE (path @ ''/'' @ n)) (filter (\<lambda>n. n \<noteq> ''.'' \<and> n \<noteq> ''..'') names)))"

section \<open>The walk\<close>

text \<open>A sum, an exit of the program, a signed overflow, or a recursion deeper than the bound.\<close>

datatype du_result = Du_sum int | Du_exit | Du_overflow | Du_deep

function du_walk :: "(filesys \<Rightarrow> string \<Rightarrow> string list option) \<Rightarrow> filesys \<Rightarrow> nat \<Rightarrow> string \<Rightarrow> du_result"
  and du_entries :: "(filesys \<Rightarrow> string \<Rightarrow> string list option) \<Rightarrow> filesys \<Rightarrow> nat \<Rightarrow> string list \<Rightarrow> int \<Rightarrow> du_result" where
  "du_walk kids fs 0 path = Du_deep"
| "du_walk kids fs (Suc k) path =
     (case fs_lstat fs path of
        None \<Rightarrow> Du_exit
      | Some res \<Rightarrow>
          if \<not> st_dir res then Du_sum (c_div (st_blocks res) 2)
          else case kids fs path of
            None \<Rightarrow> Du_exit
          | Some paths \<Rightarrow> du_entries kids fs k paths (c_div (st_blocks res) 2))"
| "du_entries kids fs k [] acc = Du_sum acc"
| "du_entries kids fs k (p # ps) acc =
     (case du_walk kids fs k p of
        Du_sum n \<Rightarrow> if \<not> is_int64 (acc + n) then Du_overflow else du_entries kids fs k ps (acc + n)
      | r \<Rightarrow> r)"
  by pat_completeness auto
termination
  by (relation "measures [\<lambda>x. case x of Inl (_, _, k, _) \<Rightarrow> k | Inr (_, _, k, _, _) \<Rightarrow> k,
      \<lambda>x. case x of Inl _ \<Rightarrow> 0 | Inr (_, _, _, ps, _) \<Rightarrow> Suc (length ps)]") auto

definition mydu :: "filesys \<Rightarrow> nat \<Rightarrow> string \<Rightarrow> du_result" where
  "mydu = du_walk mydu_kids"

definition mydu2 :: "filesys \<Rightarrow> nat \<Rightarrow> string \<Rightarrow> du_result" where
  "mydu2 = du_walk mydu2_kids"

text \<open>The line \<^verbatim>\<open>main\<close> prints; \<open>None\<close> without one, with an exit code of 1.\<close>

definition du_main :: "(string \<Rightarrow> du_result) \<Rightarrow> string list \<Rightarrow> string option" where
  "du_main walk argv =
     (case argv of
        _ # path # _ \<Rightarrow> (case walk path of Du_sum n \<Rightarrow> Some (dec_int n @ ''K'' @ [LF]) | _ \<Rightarrow> None)
      | _ \<Rightarrow> None)"

section \<open>The tree below a path\<close>

datatype ftree = Leaf int | Node int "ftree list"

fun tree_total :: "ftree \<Rightarrow> int" and forest_total :: "ftree list \<Rightarrow> int" where
  "tree_total (Leaf b) = c_div b 2"
| "tree_total (Node b ts) = c_div b 2 + forest_total ts"
| "forest_total [] = 0"
| "forest_total (t # ts) = tree_total t + forest_total ts"

fun tree_depth :: "ftree \<Rightarrow> nat" and forest_depth :: "ftree list \<Rightarrow> nat" where
  "tree_depth (Leaf b) = 1"
| "tree_depth (Node b ts) = Suc (forest_depth ts)"
| "forest_depth [] = 0"
| "forest_depth (t # ts) = max (tree_depth t) (forest_depth ts)"

fun tree_ok :: "ftree \<Rightarrow> bool" and forest_ok :: "ftree list \<Rightarrow> bool" where
  "tree_ok (Leaf b) = (0 \<le> b)"
| "tree_ok (Node b ts) = (0 \<le> b \<and> forest_ok ts)"
| "forest_ok [] = True"
| "forest_ok (t # ts) = (tree_ok t \<and> forest_ok ts)"

text \<open>The tree is what the program sees at a path.\<close>

fun seen_at :: "(filesys \<Rightarrow> string \<Rightarrow> string list option) \<Rightarrow> filesys \<Rightarrow> ftree \<Rightarrow> string \<Rightarrow> bool"
  and seen_all :: "(filesys \<Rightarrow> string \<Rightarrow> string list option) \<Rightarrow> filesys \<Rightarrow> ftree list \<Rightarrow> string list \<Rightarrow> bool" where
  "seen_at kids fs (Leaf b) path = (fs_lstat fs path = Some \<lparr>st_dir = False, st_blocks = b\<rparr>)"
| "seen_at kids fs (Node b ts) path =
     (fs_lstat fs path = Some \<lparr>st_dir = True, st_blocks = b\<rparr>
      \<and> (case kids fs path of None \<Rightarrow> False | Some paths \<Rightarrow> seen_all kids fs ts paths))"
| "seen_all kids fs [] paths = (paths = [])"
| "seen_all kids fs (t # ts) paths =
     (case paths of [] \<Rightarrow> False | p # ps \<Rightarrow> seen_at kids fs t p \<and> seen_all kids fs ts ps)"

lemma tree_total_nonneg: "tree_ok t \<Longrightarrow> 0 \<le> tree_total t" "forest_ok ts \<Longrightarrow> 0 \<le> forest_total ts"
  by (induction t and ts rule: tree_total_forest_total.induct) (auto simp: c_div_nonneg)

text \<open>On a tree without negative sizes the walk adds up half of all block counts.\<close>

lemma du_walk_total:
  "seen_at kids fs t path \<Longrightarrow> tree_ok t \<Longrightarrow> tree_total t \<le> LONG_MAX \<Longrightarrow> tree_depth t \<le> k \<Longrightarrow>
   du_walk kids fs k path = Du_sum (tree_total t)"
  "seen_all kids fs ts paths \<Longrightarrow> forest_ok ts \<Longrightarrow> 0 \<le> acc \<Longrightarrow> acc + forest_total ts \<le> LONG_MAX \<Longrightarrow> forest_depth ts \<le> k \<Longrightarrow>
   du_entries kids fs k paths acc = Du_sum (acc + forest_total ts)"
proof (induction t and ts arbitrary: k path and k paths acc rule: tree_total_forest_total.induct)
  case (1 b)
  then show ?case by (cases k) auto
next
  case (2 b ts)
  then obtain j where k: "k = Suc j" "forest_depth ts \<le> j" by (cases k) auto
  from 2(2) obtain paths where paths: "kids fs path = Some paths" "seen_all kids fs ts paths"
    by (auto split: option.splits)
  from 2(3) have "0 \<le> c_div b 2" by (simp add: c_div_nonneg)
  with 2(1) [OF paths(2) _ this _ k(2)] 2(2-4) paths k show ?case by simp
next
  case 3
  then show ?case by simp
next
  case (4 t ts)
  then obtain p ps where paths: "paths = p # ps" "seen_at kids fs t p" "seen_all kids fs ts ps"
    by (auto split: list.splits)
  from 4(4) have ok: "tree_ok t" "forest_ok ts" by auto
  note nonneg = tree_total_nonneg(1) [OF ok(1)] tree_total_nonneg(2) [OF ok(2)]
  from 4(5,6) nonneg have sums: "tree_total t \<le> LONG_MAX" "0 \<le> acc + tree_total t"
    "acc + tree_total t + forest_total ts \<le> LONG_MAX" by auto
  from 4(7) have depth: "tree_depth t \<le> k" "forest_depth ts \<le> k" by auto
  from 4(1) [OF paths(2) ok(1) sums(1) depth(1)] 4(2) [OF paths(3) ok(2) sums(2,3) depth(2)] sums nonneg
  show ?case by (simp add: paths(1) is_int64_def add.assoc)
qed

text \<open>Disk usage. When a path leads to a tree of files, as the program sees it, and the recursion may go as deep
  as the tree, both programs report the sum of half of every file's and directory's block count.\<close>
theorem du_reports_total:
  assumes "tree_ok t" "tree_total t \<le> LONG_MAX" "tree_depth t \<le> k"
  shows "(seen_at mydu_kids fs t path \<longrightarrow> mydu fs k path = Du_sum (tree_total t))
    \<and> (seen_at mydu2_kids fs t path \<longrightarrow> mydu2 fs k path = Du_sum (tree_total t))"
  using du_walk_total(1) assms by (simp add: mydu_def mydu2_def)

text \<open>The children of a directory, for \<^verbatim>\<open>mydu2\<close>: one path per name other than the two dots, as long as they fit.\<close>

lemma mydu2_kids_paths:
  assumes "fs_readdir fs path = Some (names, True)" "\<forall>n \<in> set names. length path + 1 + length n < PATHSIZE"
  shows "mydu2_kids fs path = Some (map (\<lambda>n. path @ ''/'' @ n) (filter (\<lambda>n. n \<noteq> ''.'' \<and> n \<noteq> ''..'') names))"
  using assms by (auto simp: mydu2_kids_def snprintf_text_def)

text \<open>A directory without a visible entry ends \<^verbatim>\<open>mydu\<close>, as \<^verbatim>\<open>glob\<close> finds no match for the first pattern; a path that fills
  its buffer and is a directory leads \<^verbatim>\<open>mydu2\<close> back to itself.\<close>

lemma mydu_hidden_only:
  assumes "fs_lstat fs path = Some res" "st_dir res" "fs_glob fs (snprintf_text PATHSIZE (path @ ''/*'')) = None"
  shows "mydu fs (Suc k) path = Du_exit"
  using assms by (simp add: mydu_def mydu_kids_def)

lemma mydu2_long_path:
  assumes "length path = PATHSIZE - 1" "fs_lstat fs path = Some \<lparr>st_dir = True, st_blocks = b\<rparr>" "fs_readdir fs path = Some ([n], True)"
    "n \<noteq> ''.''" "n \<noteq> ''..''"
  shows "mydu2 fs k path = Du_deep"
proof (induction k)
  case (Suc k)
  have "mydu2_kids fs path = Some [path]" using assms by (simp add: mydu2_kids_def snprintf_text_def)
  with Suc assms(2) show ?case by (simp add: mydu2_def)
qed (simp add: mydu2_def)

definition example_fs :: filesys where
  "example_fs = \<lparr>
     fs_lstat = (\<lambda>p. if p = ''d'' then Some \<lparr>st_dir = True, st_blocks = 8\<rparr>
                     else if p = ''d/f'' then Some \<lparr>st_dir = False, st_blocks = 5\<rparr> else None),
     fs_readdir = (\<lambda>p. if p = ''d'' then Some ([''.'', ''f'', ''..''], True) else None),
     fs_glob = (\<lambda>p. if p = ''d/*'' then Some [''d/f''] else if p = ''d/.*'' then Some [''d/.'', ''d/..''] else None)\<rparr>"

theorem du_reports_total_witness:
  "mydu example_fs 2 ''d'' = Du_sum 6 \<and> mydu2 example_fs 2 ''d'' = Du_sum 6"
proof -
  have "seen_at mydu_kids example_fs (Node 8 [Leaf 5]) ''d''"
    by (simp add: example_fs_def mydu_kids_def snprintf_text_def is_loop_def strrchr_def)
  moreover have "seen_at mydu2_kids example_fs (Node 8 [Leaf 5]) ''d''"
    by (simp add: example_fs_def mydu2_kids_def snprintf_text_def)
  moreover have "tree_total (Node 8 [Leaf 5]) = 6" by (simp add: c_div_nonneg)
  ultimately show ?thesis using du_reports_total [of "Node 8 [Leaf 5]" 2 example_fs "''d''"] by simp
qed

end
