(* ===== verification/Daemon_Log.thy ===== *)
theory Daemon_Log
  imports C_Prelude
begin

text \<open>
  Two programs that write numbered lines: the daemon \<^verbatim>\<open>apue/proc/mydaemon.c\<close>, with the steps that detach it from
  its terminal, and the logger \<^verbatim>\<open>apue/filesys/timelog.c\<close>, which continues the numbering it finds. The
  descriptor table is a list of what is open, \<open>None\<close> for a free number; messages to syslog are left out.
\<close>

section \<open>Descriptors\<close>

type_synonym fd_table = "string option list"

definition free_fd :: "fd_table \<Rightarrow> nat option" where
  "free_fd fds = scan_free (\<lambda>f. f = None) fds"

interpretation descriptors: slot_table free_fd "\<lambda>f. f = None"
  unfolding free_fd_def by (rule scan_free_slot_table)

text \<open>The lowest free number is used.\<close>

definition fd_open :: "string \<Rightarrow> fd_table \<Rightarrow> nat \<times> fd_table" where
  "fd_open name fds =
     (case free_fd fds of
        Some n \<Rightarrow> (n, fds[n := Some name])
      | None \<Rightarrow> (length fds, fds @ [Some name]))"

section \<open>Detaching\<close>

record daemon =
  da_fds :: fd_table
  da_leader :: bool
  da_cwd :: string
  da_umask :: nat

text \<open>\<open>None\<close> is the parent, which exits with 0. The answers: \<^verbatim>\<open>fork\<close> in the process it returns to (an error, the parent,
  the child), \<^verbatim>\<open>open\<close> and \<^verbatim>\<open>setsid\<close>.\<close>

datatype fork_answer = Fork_fail | Fork_parent | Fork_child

definition daemonize :: "fork_answer \<Rightarrow> bool \<Rightarrow> bool \<Rightarrow> daemon \<Rightarrow> (int \<times> daemon) option" where
  "daemonize fork open_ok setsid_ok p =
     (case fork of
        Fork_fail \<Rightarrow> Some (- 1, p)
      | Fork_parent \<Rightarrow> None
      | Fork_child \<Rightarrow>
          let q = p\<lparr>da_leader := False\<rparr> in
          if \<not> open_ok then Some (- 1, q)
          else case fd_open ''/dev/null'' (da_fds q) of
            (fd, fds) \<Rightarrow>
              if \<not> setsid_ok then Some (- 2, q\<lparr>da_fds := fds\<rparr>)
              else
                let dup = fds[0 := fds ! fd, 1 := fds ! fd, 2 := fds ! fd]
                in Some (0, q\<lparr>da_leader := True, da_cwd := ''/'', da_fds := dup[fd := None], da_umask := 0\<rparr>))"

text \<open>A process with its standard descriptors open becomes a session leader in \<^verbatim>\<open>/\<close> whose standard descriptors are
  \<^verbatim>\<open>/dev/null\<close>, with every other descriptor as before.\<close>

lemma daemonize_detaches:
  assumes "2 < length (da_fds p)" "\<forall>k \<le> 2. da_fds p ! k \<noteq> None"
  shows "\<exists>q. daemonize Fork_child True True p = Some (0, q) \<and> da_leader q \<and> da_cwd q = ''/'' \<and> da_umask q = 0
    \<and> (\<forall>k \<le> 2. da_fds q ! k = Some ''/dev/null'')
    \<and> (\<forall>k. 2 < k \<longrightarrow> k < length (da_fds p) \<longrightarrow> da_fds q ! k = da_fds p ! k)"
proof -
  obtain fd fds where o: "fd_open ''/dev/null'' (da_fds p) = (fd, fds)" by (cases "fd_open ''/dev/null'' (da_fds p)")
  have fd: "2 < fd \<and> fd < length fds \<and> fds ! fd = Some ''/dev/null'' \<and> length (da_fds p) \<le> length fds
    \<and> (\<forall>k < length (da_fds p). fds[fd := None] ! k = da_fds p ! k)"
  proof (cases "free_fd (da_fds p)")
    case None
    with o assms(1) show ?thesis by (auto simp: fd_open_def nth_append)
  next
    case (Some n)
    from descriptors.free_pos_SomeD [OF Some] have n: "n < length (da_fds p)" "da_fds p ! n = None" by auto
    then have "2 < n" using assms(2) by (meson not_le)
    with Some n o assms(1) show ?thesis by (auto simp: fd_open_def nth_list_update)
  qed
  have standard: "(\<forall>k \<le> 2. P k) \<longleftrightarrow> P 0 \<and> P 1 \<and> P 2" for P :: "nat \<Rightarrow> bool"
    by (auto simp: numeral_2_eq_2 le_Suc_eq)
  have "0 < length fds" "1 < length fds" using fd by linarith+
  with fd o assms(1) show ?thesis
    by (auto simp: daemonize_def Let_def nth_list_update standard)
qed

text \<open>With a standard descriptor closed, \<^verbatim>\<open>open\<close> returns that number, and closing it leaves it closed.\<close>

lemma daemonize_closed_stdin:
  "map_option (\<lambda>r. da_fds (snd r)) (daemonize Fork_child True True (p\<lparr>da_fds := [None, Some out, Some err]\<rparr>))
     = Some [None, Some ''/dev/null'', Some ''/dev/null'']"
  by (simp add: daemonize_def fd_open_def free_fd_def Let_def)

text \<open>A failing \<^verbatim>\<open>setsid\<close> leaves the descriptor open.\<close>

lemma daemonize_setsid_fails:
  "daemonize Fork_child True False p = Some (- 2, p\<lparr>da_leader := False, da_fds := snd (fd_open ''/dev/null'' (da_fds p))\<rparr>)"
  by (simp add: daemonize_def Let_def split: prod.split)

text \<open>The file after the given number of rounds; the counter is a signed integer, whose overflow is \<open>None\<close>.\<close>

fun daemon_rounds :: "nat \<Rightarrow> int \<Rightarrow> string \<Rightarrow> string option" where
  "daemon_rounds 0 i out = Some out"
| "daemon_rounds (Suc n) i out =
     (if \<not> is_int32 i then None else daemon_rounds n (i + 1) (out @ dec_int i @ [LF]))"

lemma daemon_rounds_lines:
  "0 \<le> i \<Longrightarrow> i + int n \<le> INT_MAX \<Longrightarrow>
   daemon_rounds n i out = Some (out @ concat (map (\<lambda>k. dec_int (i + int k) @ [LF]) [0 ..< n]))"
proof (induction n arbitrary: i out)
  case (Suc n)
  have "[0 ..< Suc n] = 0 # map Suc [0 ..< n]" by (metis map_Suc_upt upt_conv_Cons zero_less_Suc)
  with Suc.IH [of "i + 1" "out @ dec_int i @ [LF]"] Suc.prems show ?case
    by (simp add: is_int32_def comp_def add.assoc)
qed simp

section \<open>Continuing a log\<close>

abbreviation LOG_BUFSIZE :: nat where "LOG_BUFSIZE \<equiv> 1024"

text \<open>\<^verbatim>\<open>fgets\<close>: up to the size less one, and no further than a line feed.\<close>

fun fgets_chunk :: "nat \<Rightarrow> string \<Rightarrow> string" where
  "fgets_chunk 0 s = []"
| "fgets_chunk (Suc n) [] = []"
| "fgets_chunk (Suc n) (c # s) = (if c = LF then [c] else c # fgets_chunk n s)"

lemma fgets_chunk_nonempty: "s \<noteq> [] \<Longrightarrow> fgets_chunk (Suc n) s \<noteq> []"
  by (cases s) auto

lemma fgets_chunk_Nil_iff: "fgets_chunk (numeral k) s = [] \<longleftrightarrow> s = []"
  using fgets_chunk_nonempty [of s "pred_numeral k"] by (cases s) (auto simp: numeral_eq_Suc)

function count_lines :: "string \<Rightarrow> nat" where
  "count_lines s =
     (if s = [] then 0 else Suc (count_lines (drop (length (fgets_chunk (Suc 1022) s)) s)))"
  by auto
termination
  by (relation "measure length") (auto simp del: fgets_chunk.simps simp: fgets_chunk_Nil_iff)

declare count_lines.simps [simp del]

text \<open>\<^verbatim>\<open>struct tm\<close> and the line \<^verbatim>\<open>%-4d%d-%d-%d %02d:%02d:%02d\<close>.\<close>

record tm =
  tm_year :: int
  tm_mon :: int
  tm_mday :: int
  tm_hour :: int
  tm_min :: int
  tm_sec :: int

definition two_digits :: "int \<Rightarrow> string" where
  "two_digits n = replicate (2 - length (dec_int n)) (CHR ''0'') @ dec_int n"

definition log_line :: "nat \<Rightarrow> tm \<Rightarrow> string" where
  "log_line n t =
     dec_nat n @ replicate (4 - length (dec_nat n)) (CHR '' '')
       @ dec_int (tm_year t + 1900) @ ''-'' @ dec_int (tm_mon t + 1) @ ''-'' @ dec_int (tm_mday t) @ '' ''
       @ two_digits (tm_hour t) @ '':'' @ two_digits (tm_min t) @ '':'' @ two_digits (tm_sec t)"

text \<open>The loop, over the times at which it runs before SIGINT comes.\<close>

fun timelog_loop :: "tm list \<Rightarrow> nat \<Rightarrow> string \<Rightarrow> string" where
  "timelog_loop [] n out = out"
| "timelog_loop (t # ts) n out = timelog_loop ts (Suc n) (out @ log_line (Suc n) t @ [LF])"

definition timelog :: "tm list \<Rightarrow> string \<Rightarrow> string" where
  "timelog ts out = timelog_loop ts (count_lines out) out"

lemma fgets_chunk_line: "LF \<notin> set l \<Longrightarrow> length l < n \<Longrightarrow> fgets_chunk n (l @ LF # s) = l @ [LF]"
proof (induction l arbitrary: n)
  case Nil
  then show ?case by (cases n) auto
next
  case (Cons c l)
  then show ?case by (cases n) auto
qed

text \<open>A file of lines that fit the buffer has as many lines as are counted, so that the numbering continues.\<close>

lemma count_lines_exact:
  "\<forall>l \<in> set ls. LF \<notin> set l \<and> length l < LOG_BUFSIZE - 1 \<Longrightarrow> count_lines (concat (map (\<lambda>l. l @ [LF]) ls)) = length ls"
proof (induction ls)
  case (Cons l ls)
  then have "fgets_chunk (Suc 1022) (l @ LF # concat (map (\<lambda>l. l @ [LF]) ls)) = l @ [LF]"
    by (intro fgets_chunk_line) auto
  with Cons show ?case by (subst count_lines.simps) simp
qed (simp add: count_lines.simps)

lemma timelog_loop_lines:
  "timelog_loop ts n out = out @ concat (map (\<lambda>(k, t). log_line (n + k) t @ [LF]) (enumerate 1 ts))"
proof (induction ts arbitrary: n out)
  case (Cons t ts)
  have "enumerate (Suc 1) ts = map (\<lambda>(k, t). (Suc k, t)) (enumerate 1 ts)"
    by (simp add: enumerate_eq_zip zip_map1 [symmetric] map_Suc_upt case_prod_beta)
  with Cons show ?case by (simp add: comp_def case_prod_beta)
qed simp

text \<open>A log of lines that fit the buffer is continued with the numbers that follow.\<close>

lemma timelog_continues:
  "\<forall>l \<in> set ls. LF \<notin> set l \<and> length l < LOG_BUFSIZE - 1 \<Longrightarrow>
   timelog ts (concat (map (\<lambda>l. l @ [LF]) ls))
     = concat (map (\<lambda>l. l @ [LF]) (ls @ map (\<lambda>(k, t). log_line (length ls + k) t) (enumerate 1 ts)))"
  by (simp add: timelog_def count_lines_exact timelog_loop_lines comp_def case_prod_beta case_prod_unfold)

text \<open>From the thousandth line on nothing separates the number from the year.\<close>

lemma log_line_thousand:
  "log_line 1000 \<lparr>tm_year = 125, tm_mon = 0, tm_mday = 2, tm_hour = 3, tm_min = 4, tm_sec = 5\<rparr>
     = ''10002025-1-2 03:04:05''"
  by (simp add: log_line_def two_digits_def dec_int_def dec_nat.simps digit_char_def char_of_def bit_Suc_0_iff)

end
