(* ===== verification/File_Tools.thy ===== *)
theory File_Tools
  imports C_Prelude
begin

text \<open>
  Three programs on whole files and directories: \<^verbatim>\<open>apue/sys/share.c\<close>, which removes the tenth line of a file in
  place through two descriptors, \<^verbatim>\<open>apue/stdio/cpy.c\<close> and \<^verbatim>\<open>apue/filesys/myls.c\<close>.
\<close>

section \<open>Removing the tenth line\<close>

text \<open>The first loop reads byte by byte up to the tenth line, the second the line with its line feed. The results are
  the bytes they read; reading a single byte of the file is taken to succeed.\<close>

fun skip_lines :: "nat \<Rightarrow> string \<Rightarrow> nat" where
  "skip_lines line [] = 0"
| "skip_lines line (c # s) = (if line < 10 then Suc (skip_lines (if c = LF then line + 1 else line) s) else 0)"

fun line_bytes :: "string \<Rightarrow> nat" where
  "line_bytes [] = 0"
| "line_bytes (c # s) = (if c = LF then 1 else Suc (line_bytes s))"

text \<open>Where the tenth line starts and ends: the offsets of \<^verbatim>\<open>fd1\<close> after the two loops.\<close>

definition line10_from :: "string \<Rightarrow> nat" where
  "line10_from bytes = skip_lines 1 bytes"

definition line10_to :: "string \<Rightarrow> nat" where
  "line10_to bytes = line10_from bytes + line_bytes (drop (line10_from bytes) bytes)"

text \<open>The program keeps what \<^verbatim>\<open>lseek\<close> returns in an \<^verbatim>\<open>int\<close>; the conversion keeps the lower 32 bits.\<close>

definition int_of_off :: "nat \<Rightarrow> int" where
  "int_of_off n = (int n + 2147483648) mod 4294967296 - 2147483648"

lemma int_of_off_small: "int n \<le> INT_MAX \<Longrightarrow> int_of_off n = int n"
  by (simp add: int_of_off_def)

definition share_start :: "string \<Rightarrow> int" where
  "share_start bytes = int_of_off (line10_from bytes)"

definition share_end :: "string \<Rightarrow> int" where
  "share_end bytes = int_of_off (line10_to bytes)"

text \<open>\<^verbatim>\<open>len - line10_len\<close>, \<open>None\<close> if a subtraction overflows.\<close>

definition share_new_len :: "string \<Rightarrow> int option" where
  "share_new_len bytes =
     (let line10_len = share_end bytes - share_start bytes;
          new_len = int_of_off (length bytes) - line10_len
      in if is_int32 line10_len \<and> is_int32 new_len then Some new_len else None)"

text \<open>A negative offset or length makes \<^verbatim>\<open>lseek\<close> and \<^verbatim>\<open>ftruncate\<close> fail, which changes nothing and goes unnoticed.\<close>

definition lseek_set :: "nat \<Rightarrow> int \<Rightarrow> nat" where
  "lseek_set cur off = (if off < 0 then cur else nat off)"

definition ftruncate :: "int \<Rightarrow> string \<Rightarrow> string" where
  "ftruncate len bytes = (if len < 0 then bytes else take (nat len) bytes @ replicate (nat len - length bytes) NUL)"

abbreviation SHARE_BUFSIZE :: nat where "SHARE_BUFSIZE \<equiv> 1024"

definition pwrite :: "nat \<Rightarrow> string \<Rightarrow> string \<Rightarrow> string" where
  "pwrite off s bytes = take off bytes @ s @ drop (off + length s) bytes"

text \<open>Each round: what \<^verbatim>\<open>read\<close> may deliver at most, less one, or \<open>None\<close> for an error; and likewise what \<^verbatim>\<open>write\<close> takes,
  whose result is not looked at. The offsets are those of \<^verbatim>\<open>fd1\<close> and \<^verbatim>\<open>fd2\<close>; \<open>None\<close> when the answers end first.\<close>

fun shift_loop :: "(nat option \<times> nat option) list \<Rightarrow> nat \<Rightarrow> nat \<Rightarrow> string \<Rightarrow> string option" where
  "shift_loop [] o1 o2 bytes = None"
| "shift_loop ((r, w) # xs) o1 o2 bytes =
     (case r of
        None \<Rightarrow> Some bytes
      | Some n \<Rightarrow>
          let buf = take (min SHARE_BUFSIZE (Suc n)) (drop o1 bytes) in
          if buf = [] then Some bytes
          else let out = (case w of None \<Rightarrow> [] | Some m \<Rightarrow> take m buf)
            in shift_loop xs (o1 + length buf) (o2 + length out) (pwrite o2 out bytes))"

text \<open>\<open>None\<close> also stands for the undefined overflow.\<close>

definition share_run :: "(nat option \<times> nat option) list \<Rightarrow> string \<Rightarrow> string option" where
  "share_run xs bytes =
     (case share_new_len bytes of
        None \<Rightarrow> None
      | Some new_len \<Rightarrow>
          map_option (ftruncate new_len)
            (shift_loop xs (lseek_set (line10_to bytes) (share_end bytes)) (lseek_set 0 (share_start bytes)) bytes))"

definition share_main :: "nat \<Rightarrow> bool \<Rightarrow> bool \<Rightarrow> (nat option \<times> nat option) list \<Rightarrow> string \<Rightarrow> (int \<times> string) option" where
  "share_main argc open1 open2 xs bytes =
     (if argc < 2 then Some (1, bytes)
      else if \<not> open1 then Some (1, bytes)
      else if \<not> open2 then Some (1, bytes)
      else map_option (\<lambda>b. (0, b)) (share_run xs bytes))"

subsection \<open>The writer never overtakes the reader\<close>

lemma length_pwrite [simp]: "off + length s \<le> length bytes \<Longrightarrow> length (pwrite off s bytes) = length bytes"
  by (simp add: pwrite_def)

lemma take_pwrite: "off \<le> length bytes \<Longrightarrow> take (off + length s) (pwrite off s bytes) = take off bytes @ s"
  by (simp add: pwrite_def)

lemma drop_pwrite: "off + length s \<le> n \<Longrightarrow> n \<le> length bytes \<Longrightarrow> drop n (pwrite off s bytes) = drop n bytes"
  by (simp add: pwrite_def drop_append)

lemma take_then_drop: "take k xs @ drop (length (take k xs)) xs = xs"
  by (cases "k \<le> length xs") auto

definition good_answer :: "nat option \<times> nat option \<Rightarrow> bool" where
  "good_answer x \<longleftrightarrow> (\<exists>n m. x = (Some n, Some m) \<and> SHARE_BUFSIZE \<le> m)"

text \<open>Whatever sizes the reads have, the rest of the file ends up where the second descriptor started.\<close>

lemma shift_loop_moves:
  assumes "\<forall>x \<in> set xs. good_answer x" "o2 \<le> o1" "o1 \<le> length bytes" "length bytes - o1 < length xs"
  shows "\<exists>out. shift_loop xs o1 o2 bytes = Some out
    \<and> take (o2 + (length bytes - o1)) out = take o2 bytes @ drop o1 bytes"
  using assms
proof (induction xs arbitrary: o1 o2 bytes)
  case (Cons x xs)
  then obtain n m where x: "x = (Some n, Some m)" and m: "SHARE_BUFSIZE \<le> m" by (auto simp: good_answer_def)
  define buf where "buf = take (min SHARE_BUFSIZE (Suc n)) (drop o1 bytes)"
  show ?case
  proof (cases "buf = []")
    case True
    with Cons.prems(3) have "o1 = length bytes" by (simp add: buf_def)
    with True show ?thesis by (simp add: x Let_def buf_def [symmetric])
  next
    case False
    have "length buf \<le> length (drop o1 bytes)" by (simp add: buf_def)
    then have fits: "o1 + length buf \<le> length bytes" using Cons.prems(3) by simp
    have rest: "buf @ drop (o1 + length buf) bytes = drop o1 bytes"
      using take_then_drop [of _ "drop o1 bytes"] by (simp add: buf_def add.commute)
    have out: "take m buf = buf" using m by (simp add: buf_def)
    let ?bytes = "pwrite o2 buf bytes"
    have len: "length ?bytes = length bytes" using fits Cons.prems(2) by simp
    have "0 < length buf" using False by simp
    moreover have "length bytes - o1 < Suc (length xs)" using Cons.prems(4) by simp
    ultimately have less: "length bytes - (o1 + length buf) < length xs" using fits by linarith
    have steps: "o2 + length buf \<le> o1 + length buf" "o1 + length buf \<le> length ?bytes"
      "length ?bytes - (o1 + length buf) < length xs" "\<forall>x \<in> set xs. good_answer x"
      using Cons.prems fits len less by auto
    from Cons.IH [OF steps(4,1-3)] obtain res where res: "shift_loop xs (o1 + length buf) (o2 + length buf) ?bytes = Some res"
      "take (o2 + length buf + (length bytes - (o1 + length buf))) res
         = take (o2 + length buf) ?bytes @ drop (o1 + length buf) ?bytes"
      unfolding len by blast
    have "take (o2 + length buf) ?bytes @ drop (o1 + length buf) ?bytes = take o2 bytes @ drop o1 bytes"
      using Cons.prems(2,3) fits rest by (simp add: take_pwrite drop_pwrite)
    moreover have "o2 + length buf + (length bytes - (o1 + length buf)) = o2 + (length bytes - o1)" using fits by simp
    moreover have "shift_loop (x # xs) o1 o2 bytes = Some res"
      using res(1) False by (simp only: x shift_loop.simps option.case Let_def buf_def [symmetric] out if_False)
    ultimately show ?thesis using res(2) by metis
  qed
qed simp

lemma shift_loop_length:
  "shift_loop xs o1 o2 bytes = Some out \<Longrightarrow> o2 \<le> o1 \<Longrightarrow> o1 \<le> length bytes \<Longrightarrow> length out = length bytes"
proof (induction xs o1 o2 bytes rule: shift_loop.induct)
  case (2 r w xs o1 o2 bytes)
  show ?case
  proof (cases r)
    case (Some n)
    define buf where "buf = take (min SHARE_BUFSIZE (Suc n)) (drop o1 bytes)"
    define s where "s = (case w of None \<Rightarrow> [] | Some m \<Rightarrow> take m buf)"
    have "length s \<le> length buf" by (simp add: s_def split: option.splits)
    moreover have "length buf \<le> length (drop o1 bytes)" by (simp add: buf_def)
    ultimately have fits: "o2 + length s \<le> o1 + length buf" "o1 + length buf \<le> length bytes" "o2 + length s \<le> length bytes"
      using 2(3,4) by auto
    show ?thesis
    proof (cases "buf = []")
      case False
      from 2(2) False Some have "shift_loop xs (o1 + length buf) (o2 + length s) (pwrite o2 s bytes) = Some out"
        by (simp only: shift_loop.simps option.case Let_def buf_def [symmetric] s_def [symmetric] if_False)
      with 2(1) [OF Some buf_def False s_def] fits show ?thesis by simp
    next
      case True
      then have "drop o1 bytes = []" by (simp add: buf_def)
      with Some 2(2) show ?thesis by simp
    qed
  qed (use 2(2) in simp)
qed simp

lemma ftruncate_within: "k \<le> length bytes \<Longrightarrow> ftruncate (int k) bytes = take k bytes"
  by (simp add: ftruncate_def)

lemma line_bytes_le: "line_bytes s \<le> length s"
  by (induction s) auto

lemma skip_lines_le: "skip_lines line s \<le> length s"
  by (induction line s rule: skip_lines.induct) auto

lemma share_bounds: "line10_from bytes \<le> line10_to bytes" "line10_to bytes \<le> length bytes"
  using line_bytes_le [of "drop (line10_from bytes) bytes"] skip_lines_le [of 1 bytes]
  by (auto simp: line10_to_def line10_from_def)

text \<open>Below 2 GiB the offsets are what they are in the file.\<close>

lemma share_small:
  assumes "int (length bytes) \<le> INT_MAX"
  shows "share_start bytes = int (line10_from bytes)" "share_end bytes = int (line10_to bytes)"
    "share_new_len bytes = Some (int (line10_from bytes + (length bytes - line10_to bytes)))"
proof -
  note b = share_bounds [of bytes]
  then show eq: "share_start bytes = int (line10_from bytes)" "share_end bytes = int (line10_to bytes)"
    using assms by (simp_all add: share_start_def share_end_def int_of_off_small)
  show "share_new_len bytes = Some (int (line10_from bytes + (length bytes - line10_to bytes)))"
    using b assms by (simp add: share_new_len_def eq int_of_off_small is_int32_def Let_def of_nat_diff)
qed

lemma share_run_small:
  assumes "int (length bytes) \<le> INT_MAX"
  shows "share_run xs bytes = map_option (ftruncate (int (line10_from bytes + (length bytes - line10_to bytes))))
    (shift_loop xs (line10_to bytes) (line10_from bytes) bytes)"
  by (simp add: share_run_def share_small [OF assms] lseek_set_def)

lemma share_run_cuts:
  assumes "\<forall>x \<in> set xs. good_answer x" "length bytes < length xs" "int (length bytes) \<le> INT_MAX"
  shows "share_run xs bytes = Some (take (line10_from bytes) bytes @ drop (line10_to bytes) bytes)"
proof -
  note b = share_bounds [of bytes]
  have "length bytes - line10_to bytes < length xs" using assms(2) by simp
  from shift_loop_moves [OF assms(1) b this] obtain out where out:
    "shift_loop xs (line10_to bytes) (line10_from bytes) bytes = Some out"
    "take (line10_from bytes + (length bytes - line10_to bytes)) out
       = take (line10_from bytes) bytes @ drop (line10_to bytes) bytes" by auto
  have "length out = length bytes" by (rule shift_loop_length [OF out(1) b])
  with b have "ftruncate (int (line10_from bytes + (length bytes - line10_to bytes))) out
      = take (line10_from bytes + (length bytes - line10_to bytes)) out" by (intro ftruncate_within) simp
  with out show ?thesis by (simp only: share_run_small [OF assms(3)] option.map)
qed

subsection \<open>The tenth line\<close>

definition unlines :: "string list \<Rightarrow> string" where
  "unlines ls = concat (map (\<lambda>l. l @ [LF]) ls)"

lemma unlines_simps [simp]: "unlines [] = []" "unlines (l # ls) = l @ LF # unlines ls"
  by (simp_all add: unlines_def)

lemma skip_one_line: "LF \<notin> set l \<Longrightarrow> line < 10 \<Longrightarrow> skip_lines line (l @ LF # s) = Suc (length l + skip_lines (line + 1) s)"
  by (induction l) auto

lemma skip_lines_unlines:
  "\<forall>l \<in> set ls. LF \<notin> set l \<Longrightarrow> line \<le> 10 \<Longrightarrow> skip_lines line (unlines ls) = length (unlines (take (10 - line) ls))"
proof (induction ls arbitrary: line)
  case (Cons l ls)
  show ?case
  proof (cases "line = 10")
    case True
    then show ?thesis by (cases l) auto
  next
    case False
    with Cons.prems have "line < 10" "10 - line = Suc (10 - (line + 1))" by auto
    with Cons show ?thesis by (simp add: skip_one_line)
  qed
qed simp

lemma line_bytes_line: "LF \<notin> set l \<Longrightarrow> line_bytes (l @ LF # s) = Suc (length l)"
  by (induction l) auto

lemma unlines_append: "unlines (xs @ ys) = unlines xs @ unlines ys"
  by (simp add: unlines_def)

text \<open>C39: In-place removal of a line. For a file of less than 2 GiB, when no read fails and every write takes its buffer,
  the program returns and leaves the file without its tenth line, however short the reads are; a file of fewer
  lines is left as it was. (The offsets are kept in an \<^verbatim>\<open>int\<close>: see \<open>share_large_file\<close>.)\<close>
theorem share_removes_tenth_line:
  assumes "\<forall>l \<in> set ls. LF \<notin> set l" "\<forall>x \<in> set xs. good_answer x" "length (unlines ls) < length xs"
    and "int (length (unlines ls)) \<le> INT_MAX"
  shows "share_main 2 True True xs (unlines ls) = Some (0, unlines (take 9 ls @ drop 10 ls))"
proof -
  let ?a = "unlines (take 9 ls)" and ?b = "unlines (drop 9 ls)"
  have ls: "unlines ls = ?a @ ?b" by (metis append_take_drop_id unlines_append)
  have start: "line10_from (unlines ls) = length ?a"
    using skip_lines_unlines [OF assms(1), of 1] by (simp add: line10_from_def)
  have "drop (line_bytes ?b) ?b = unlines (drop 10 ls)"
  proof (cases "drop 9 ls")
    case (Cons l r)
    then have "drop (Suc 9) ls = r" by (metis drop_Suc drop_tl list.sel(3))
    then have "drop 10 ls = r" by simp
    moreover from Cons have "l \<in> set ls" by (metis in_set_dropD list.set_intros(1))
    ultimately show ?thesis using Cons assms(1) by (simp add: line_bytes_line)
  qed simp
  with share_run_cuts [OF assms(2-4)] start ls show ?thesis
    by (simp add: share_main_def line10_to_def unlines_append)
qed

theorem share_removes_tenth_line_witness:
  "share_main 2 True True (replicate 30 (Some 1, Some 1024)) (unlines [''1'', ''2'', ''3'', ''4'', ''5'', ''6'', ''7'', ''8'', ''9'', ''x'', ''y''])
     = Some (0, unlines [''1'', ''2'', ''3'', ''4'', ''5'', ''6'', ''7'', ''8'', ''9'', ''y''])"
  using share_removes_tenth_line [of "[''1'', ''2'', ''3'', ''4'', ''5'', ''6'', ''7'', ''8'', ''9'', ''x'', ''y'']"
      "replicate 30 (Some 1, Some 1024)"]
  by (simp add: good_answer_def)

text \<open>The file is cut even if the rest of it could not be read, so that its end is lost instead.\<close>

lemma share_read_error:
  "int (length bytes) \<le> INT_MAX \<Longrightarrow>
   share_run ((None, w) # xs) bytes = Some (take (line10_from bytes + (length bytes - line10_to bytes)) bytes)"
  using share_bounds [of bytes] by (subst share_run_small) (simp_all only: shift_loop.simps option.case option.map ftruncate_within)

text \<open>From 2 GiB on the length is negative as an \<^verbatim>\<open>int\<close>, and the file is not cut: its last bytes are in it twice.\<close>

lemma share_large_file:
  assumes "INT_MAX < int (length bytes)" "int (length bytes) < 4294967296" "int (line10_to bytes) \<le> INT_MAX"
    and "share_run xs bytes = Some out"
  shows "length out = length bytes"
proof -
  note b = share_bounds [of bytes]
  have eq: "share_start bytes = int (line10_from bytes)" "share_end bytes = int (line10_to bytes)"
    using assms(3) b by (simp_all add: share_start_def share_end_def int_of_off_small)
  have "(int (length bytes) + 2147483648) mod 4294967296 = int (length bytes) + 2147483648 - 4294967296"
    using assms(1,2) by (subst mod_pos_geq) simp_all
  then have "int_of_off (length bytes) < 0" using assms(2) by (simp add: int_of_off_def)
  with b(1) have "new_len < 0" if "share_new_len bytes = Some new_len" for new_len
    using that by (auto simp: share_new_len_def eq Let_def split: if_splits)
  with assms(4) obtain res where "shift_loop xs (line10_to bytes) (line10_from bytes) bytes = Some res" "out = res"
    by (auto simp: share_run_def ftruncate_def eq lseek_set_def split: option.splits)
  with shift_loop_length [OF _ b] show ?thesis by simp
qed

section \<open>Copying with stdio\<close>

text \<open>The files by name; the destination can be opened or not. It is emptied before the source is read.\<close>

definition cpy :: "string list \<Rightarrow> (string \<Rightarrow> bool) \<Rightarrow> (string \<Rightarrow> string option) \<Rightarrow> int \<times> (string \<Rightarrow> string option)" where
  "cpy argv can_write fs =
     (case argv of
        _ # src # dst # _ \<Rightarrow>
          if fs src = None then (1, fs)
          else if \<not> can_write dst then (1, fs)
          else let fs1 = fs(dst \<mapsto> []) in (0, fs1(dst \<mapsto> the (fs1 dst) @ the (fs1 src)))
      | _ \<Rightarrow> (1, fs))"

lemma cpy_copies:
  "fs src = Some bytes \<Longrightarrow> can_write dst \<Longrightarrow> src \<noteq> dst \<Longrightarrow> cpy [prog, src, dst] can_write fs = (0, fs(dst \<mapsto> bytes))"
  by (simp add: cpy_def)

text \<open>A file copied onto itself is emptied.\<close>

lemma cpy_onto_itself: "fs f = Some bytes \<Longrightarrow> can_write f \<Longrightarrow> cpy [prog, f, f] can_write fs = (0, fs(f \<mapsto> []))"
  by (simp add: cpy_def)

section \<open>Listing a directory\<close>

text \<open>The options that \<^verbatim>\<open>getopt\<close> finds, the arguments after them, and \<^verbatim>\<open>readdir\<close>: the names, and whether it ended
  without an error. The result is the exit code and the names printed.\<close>

definition myls :: "char list \<Rightarrow> string list \<Rightarrow> (string \<Rightarrow> (string list \<times> bool) option) \<Rightarrow> int \<times> string list" where
  "myls opts args readdir =
     (if \<exists>c \<in> set opts. c \<noteq> CHR ''a'' then (1, [])
      else if 1 < length args then (1, [])
      else case readdir (if args = [] then ''.'' else hd args) of
        None \<Rightarrow> (1, [])
      | Some (names, ok) \<Rightarrow>
          (if ok then 0 else 1, filter (\<lambda>n. opts \<noteq> [] \<or> \<not> (n \<noteq> [] \<and> hd n = CHR ''.'')) names))"

lemma myls_lists:
  "readdir ''.'' = Some (names, True) \<Longrightarrow>
   myls [] [] readdir = (0, filter (\<lambda>n. \<forall>r. n \<noteq> CHR ''.'' # r) names) \<and> myls ''a'' [] readdir = (0, names)"
  by (auto simp: myls_def neq_Nil_conv intro!: filter_cong)

end
