(* ===== verification/Spec2Isabelle.thy ===== *)
theory Spec2Isabelle
  imports Gateway_Main Metrics_Tool Copy_Main Module_Life Relay_Main Sem_Primes Abcd_Ring Small_Tools
    Disk_Usage Daemon_Log File_Tools
begin

text \<open>
  Verification of the repository \<^verbatim>\<open>learn_apue\<close>: the RK3588 media gateway
  (\<^verbatim>\<open>src/rk3588-media-gateway\<close>) and the libraries of the APUE exercises (\<^verbatim>\<open>src/apue\<close>).

  \<^bold>\<open>The gateway.\<close> The program loads a YAML configuration, runs one FFmpeg worker per enabled channel under a
  supervisor thread that restarts it with bounded exponential backoff, publishes a snapshot of every channel,
  serves an HTTP control plane, and reloads its configuration on SIGHUP. Its parts, bottom up, with the theory
  that models each:

  \<^item> \<open>Gw_Error\<close>: status codes and diagnostics (\<^verbatim>\<open>error.c\<close>).
  \<^item> \<open>Gw_Config_Types\<close>, \<open>Config_Text\<close>, \<open>Config_Validate\<close>, \<open>Config_Load\<close>: the configuration records, text helpers,
    policy, and the translation of a YAML document (\<^verbatim>\<open>config.c\<close>). A load delivers only configurations
    that satisfy the policy and fit every buffer; validation decides the declarative policy.
  \<^item> \<open>Channel_State\<close>: the lifecycle state machine (\<^verbatim>\<open>channel_state.c\<close>), refined against the diagram of the
    documentation; every reachable runtime agrees with the retry policy.
  \<^item> \<open>Progress_Parser\<close>, \<open>Process_Metrics\<close>, \<open>Recording_Status\<close>: what is read from FFmpeg, from \<^verbatim>\<open>/proc\<close> and from
    \<^verbatim>\<open>statvfs\<close>; bounds, round trips, and independence of how the bytes arrive.
  \<^item> \<open>Pipeline_Builder\<close>, \<open>Mediamtx_Config\<close>: the argument vector of a worker with every allocation failure, and the
    rendered MediaMTX file.
  \<^item> \<open>Process_Manager\<close>: starting, polling, stopping and closing a worker over a model of descriptors, children and
    spawn objects; all or nothing on start, no zombie after stop.
  \<^item> \<open>Channel_Snapshot\<close>, \<open>Stderr_Redaction\<close>, \<open>Worker_Attempt\<close>, \<open>Supervisor\<close>: one supervised attempt and the loop
    around it (\<^verbatim>\<open>supervisor.c\<close>); resources are given back, published snapshots follow the diagram, and what a
    worker prints does not bring a redactable source URL into the log.
  \<^item> \<open>Channel_Manager\<close>, \<open>Manager_Reload\<close>, \<open>Manager_Control\<close>: the registry of channels (\<^verbatim>\<open>channel_manager.c\<close>) as a
    transition system of operations and thread steps; reload as a refinement of "serve the candidate".
  \<^item> \<open>Json_Writer\<close>, \<open>Json_Reader\<close>, \<open>Http_Route\<close>, \<open>Http_Server\<close>: documents, router and sockets (\<^verbatim>\<open>http_server.c\<close>);
    documents read back as the data they came from, and only commands change the manager.
  \<^item> \<open>Gateway_Main\<close>: arguments, control loop and shutdown (\<^verbatim>\<open>main.c\<close>), over all of the above. The program returns once
    a termination signal is read and the channel threads end; its descriptors there are the signal descriptor and
    the listener, those of the workers are in \<open>Worker_Attempt\<close>.
  \<^item> \<open>Metrics_Tool\<close>: the sampling tool (\<^verbatim>\<open>gateway_metrics.c\<close>).

  \<^bold>\<open>The exercises.\<close>

  \<^item> \<open>Token_Bucket\<close>, \<open>Any_Timer\<close>, \<open>Any_Timer_Mt\<close>: the signal and thread versions of \<^verbatim>\<open>mytbf\<close> and \<^verbatim>\<open>anytimer\<close>; shared
    tables are changed by sequences of atomic operations, and the theorems hold for every interleaving (for the
    threaded timers: of clients of which no two wait for the same timer, as two would free it twice).
    \<open>Module_Life\<close>: how these libraries install themselves at the first use and what is left at exit.
  \<^item> \<open>Copy_Loops\<close>, \<open>Copy_Main\<close>: \<^verbatim>\<open>mycpy\<close>, \<^verbatim>\<open>mycat\<close>, \<^verbatim>\<open>slowcat\<close> and the rate-limited copy on a token bucket.
  \<^item> \<open>Relay_Fsm\<close>, \<open>Relay_Main\<close>: the nonblock, select, poll and epoll relays, their machine, loops, descriptor flags
    and \<^verbatim>\<open>main\<close>. The epoll relay is shown to copy nothing.
  \<^item> \<open>Prime_Pool\<close>, \<open>Prime_Busy\<close>: the thread pool with condition variables, shown to end under every schedule, and
    its busy-waiting variant, which refines it. \<open>Mysem\<close>, \<open>Sem_Primes\<close>: the counting semaphore and the program
    whose threads it limits. A thread in \<^verbatim>\<open>pthread_cond_wait\<close> is a state that a signal, a broadcast or a spurious
    wakeup ends; an execution counts its steps and its spurious wakeups apart. \<open>Abcd_Ring\<close>: threads that print in turn.
  \<^item> \<open>Small_Tools\<close> (\<^verbatim>\<open>mysh\<close>, \<^verbatim>\<open>datefmt\<close>, \<^verbatim>\<open>add\<close>), \<open>Disk_Usage\<close> (\<^verbatim>\<open>mydu\<close>, \<^verbatim>\<open>mydu2\<close>), \<open>Daemon_Log\<close> (\<^verbatim>\<open>mydaemon\<close>,
    \<^verbatim>\<open>timelog\<close>), \<open>File_Tools\<close> (\<^verbatim>\<open>share\<close>, with its offsets kept in an \<^verbatim>\<open>int\<close>, \<^verbatim>\<open>cpy\<close>, \<^verbatim>\<open>myls\<close>).

  \<^bold>\<open>Conventions.\<close> A struct is a record, with the names of its fields behind a prefix; an enum is a datatype;
  unsigned integers are words, signed ones \<^typ>\<open>int\<close> with their range checked where the code can overflow; a
  C string is the list of its bytes. Pointer arguments that the code tests for NULL and that no caller passes as
  NULL are plain values. A fallible operation returns its status, the new state and the caller's error object.
  What the kernel answers is an argument: a list of answers consumed in order where the code loops. A loop whose
  answers are used up while it still waits is \<open>None\<close> (\<open>Blocked\<close> for the relays), and theorems about its result
  are about every finite list of answers; so no fuel bounds an execution, except the depth of the directory walk of
  \<^verbatim>\<open>mydu\<close>, which a theorem relates to the depth of the tree. Third-party code is a parameter:
  \<^verbatim>\<open>strtod\<close>, floating point operations and their formats, \<^verbatim>\<open>inet_pton\<close>, \<^verbatim>\<open>getenv\<close>, the libyaml document.
  Operations of the manager are atomic under its lifecycle lock; what a channel thread does until its join
  returns is an argument of the operation that joins it. \<^verbatim>\<open>pthread_join\<close> is taken to return; \<open>draining_ignores_stop\<close>
  shows a worker for which its thread does not end. The two stores at the end of \<^verbatim>\<open>run_channel\<close> are one step. Of the
  spawn's file actions the success is modelled, not the descriptors of the child.

  \<^bold>\<open>Interfaces.\<close> \<open>slot_table\<close> (a fixed table with a first-free scan; interpreted by the channel registry, the
  token buckets and the timers), \<open>bounded_writer\<close> (text is written whole or the writer fails; the MediaMTX and
  JSON writers), \<open>byte_stream\<close> (a consumer of bytes that does not see packet boundaries; the progress parser
  and the stderr logger), \<open>slot_loop\<close> (a loop over the registry acts on each slot independently; stop, wait and
  reload), \<open>loop_invariant\<close> (what every stage of an attempt keeps; the resources held and the snapshots
  published), \<open>sig_library\<close> (every operation of a library treats SIGALRM alike; the token bucket and the timers),
  \<open>relay_loop\<close> (a loop drives its two machines and nothing else; all four relays).

  \<^bold>\<open>Not modelled.\<close> Messages on the standard streams and to syslog; the scheduling of threads inside a locked section;
  thread creation failures in \<open>Prime_Pool\<close>, \<open>Sem_Primes\<close> and \<open>Abcd_Ring\<close>, which end those programs; the remaining
  single-file exercises under \<^verbatim>\<open>apue\<close> (\<^verbatim>\<open>5sec\<close>, \<^verbatim>\<open>block\<close>, \<^verbatim>\<open>signal\<close>, \<^verbatim>\<open>cleanup\<close>, \<^verbatim>\<open>create1\<close>, \<^verbatim>\<open>create2\<close>, \<^verbatim>\<open>mysu\<close>,
  \<^verbatim>\<open>system\<close>), each of which shows one system call and has no state of its own; the unfinished \<^verbatim>\<open>relayer\<close>;
  tests, scripts and the diagnostic page, which is not C.

  The properties of the development stand in the theories of their components, each behind a text that starts
  with its number.
\<close>

end
